(* ===== verification/Prelude.thy ===== *)
theory Prelude
  imports Main "HOL-Library.Word" "HOL-Library.Multiset" "HOL-Library.Product_Lexorder"
begin

text \<open>
  Shared ground of the development: the machine integers and standard-library types
  the crate uses, the way a Rust panic is represented, the constants of
  \<^verbatim>\<open>src/lib.rs\<close>, and the generic lemmas on lists that the component
  theories share.
\<close>

section \<open>Machine integers, time and socket addresses\<close>

type_synonym u8 = "8 word"
type_synonym u16 = "16 word"
type_synonym u32 = "32 word"
type_synonym bytes = "u8 list"

text \<open>A literal such as \<^verbatim>\<open>b"get"\<close>.\<close>

definition ascii :: "string \<Rightarrow> bytes" where
  "ascii s = map of_char s"

lemma of_char_byte_inject: "(of_char c :: u8) = of_char d \<longleftrightarrow> c = d"
proof
  assume eq: "(of_char c :: u8) = of_char d"
  have "unat (of_char x :: u8) = of_char x" for x
  proof -
    have "(of_char x :: u8) = of_nat (of_char x)" by (simp add: of_nat_of_char)
    then show ?thesis by (simp add: unat_of_nat)
  qed
  with eq have "(of_char c :: nat) = of_char d" by metis
  then show "c = d" by simp
qed simp

lemma ascii_inject [simp]: "ascii s = ascii t \<longleftrightarrow> s = t"
  by (simp add: ascii_def inj_map_eq_map inj_def of_char_byte_inject)

text \<open>
  \<^verbatim>\<open>std::time::Instant\<close> is a reading of a monotonic clock, here the number
  of nanoseconds since an arbitrary origin. Subtracting two instants saturates at zero, as
  subtraction on \<^typ>\<open>nat\<close> does. A \<^verbatim>\<open>Duration\<close> is a number of
  nanoseconds. \<^verbatim>\<open>usize\<close> and \<^verbatim>\<open>u64\<close> counters of objects held in memory are
  natural numbers.
\<close>

type_synonym instant = nat
type_synonym duration = nat

definition from_secs :: "nat \<Rightarrow> duration" where
  "from_secs s = s * 1000000000"

text \<open>The time limits of \<^verbatim>\<open>src/lib.rs\<close>.\<close>

definition RESPONSE_TIMEOUT :: duration where
  "RESPONSE_TIMEOUT = from_secs 10"

definition REQUERY_INTERVAL :: duration where
  "REQUERY_INTERVAL = from_secs 60"

definition INACTIVITY_TIMEOUT :: duration where
  "INACTIVITY_TIMEOUT = from_secs (15 * 60)"

text \<open>
  \<^verbatim>\<open>std::net::SocketAddr\<close>: an IPv4 address and port, or an IPv6 address, port,
  flow label and scope.
\<close>

record socket_addr_v4 =
  ip4 :: u32
  port4 :: u16

record socket_addr_v6 =
  ip6 :: "128 word"
  port6 :: u16
  flowinfo :: u32
  scope_id :: u32

datatype socket_addr = V4 socket_addr_v4 | V6 socket_addr_v6

fun is_ipv4 :: "socket_addr \<Rightarrow> bool" where
  "is_ipv4 (V4 _) = True"
| "is_ipv4 (V6 _) = False"

fun is_ipv6 :: "socket_addr \<Rightarrow> bool" where
  "is_ipv6 (V4 _) = False"
| "is_ipv6 (V6 _) = True"

fun addr_port :: "socket_addr \<Rightarrow> u16" where
  "addr_port (V4 a) = port4 a"
| "addr_port (V6 a) = port6 a"

fun set_port :: "socket_addr \<Rightarrow> u16 \<Rightarrow> socket_addr" where
  "set_port (V4 a) p = V4 (a\<lparr>port4 := p\<rparr>)"
| "set_port (V6 a) p = V6 (a\<lparr>port6 := p\<rparr>)"

lemma is_ipv6_iff [simp]: "is_ipv6 a \<longleftrightarrow> \<not> is_ipv4 a"
  by (cases a) simp_all

lemma is_ipv4_set_port [simp]: "is_ipv4 (set_port a p) = is_ipv4 a"
  by (cases a) simp_all

lemma addr_port_set_port [simp]: "addr_port (set_port a p) = p"
  by (cases a) simp_all

section \<open>Panics and divergence as values\<close>

text \<open>
  An operation that can panic returns \<open>Inl\<close> with the reason. Arithmetic on machine
  integers is checked, as in a build with overflow checks and debug assertions; where no
  \<open>Inl\<close> can be returned, a release build computes the same values.
  \<open>Diverged\<close> is the value of a loop that does not end.
\<close>

datatype abort =
    IndexOutOfBounds
  | ReachedUnreachable
  | ArithmeticOverflow
  | DebugAssertFailed
  | Diverged

definition and_then :: "'e + 'a \<Rightarrow> ('a \<Rightarrow> 'e + 'b) \<Rightarrow> 'e + 'b" where
  "and_then m f = (case m of Inl e \<Rightarrow> Inl e | Inr x \<Rightarrow> f x)"

lemma and_then_simps [simp]:
  "and_then (Inl e) f = Inl e"
  "and_then (Inr x) f = f x"
  by (simp_all add: and_then_def)

lemma and_then_eq_Inr: "and_then m f = Inr y \<longleftrightarrow> (\<exists>x. m = Inr x \<and> f x = Inr y)"
  by (cases m) simp_all

lemma and_then_cong [fundef_cong]:
  "m = m' \<Longrightarrow> (\<And>x. m' = Inr x \<Longrightarrow> f x = f' x) \<Longrightarrow> and_then m f = and_then m' f'"
  by (cases m') simp_all

section \<open>Lists\<close>

text \<open>\<^verbatim>\<open>iter_mut().find(p)\<close> followed by a mutation of the element found.\<close>

fun update_first :: "('a \<Rightarrow> bool) \<Rightarrow> ('a \<Rightarrow> 'a) \<Rightarrow> 'a list \<Rightarrow> 'a list" where
  "update_first p f [] = []"
| "update_first p f (x # xs) = (if p x then f x # xs else x # update_first p f xs)"

lemma length_update_first [simp]: "length (update_first p f xs) = length xs"
  by (induction xs) auto

lemma update_first_none: "\<not> (\<exists>x \<in> set xs. p x) \<Longrightarrow> update_first p f xs = xs"
  by (induction xs) auto

lemma map_update_first:
  assumes "\<And>x. p x \<Longrightarrow> g (f x) = g x"
  shows "map g (update_first p f xs) = map g xs"
  using assms by (induction xs) auto

lemma update_first_split:
  "\<exists>x \<in> set xs. p x \<Longrightarrow>
    \<exists>ys x zs. xs = ys @ x # zs \<and> p x \<and> (\<forall>y \<in> set ys. \<not> p y)
      \<and> update_first p f xs = ys @ f x # zs"
proof (induction xs)
  case (Cons a xs)
  show ?case
  proof (cases "p a")
    case True
    then show ?thesis by (intro exI [of _ "[]"]) auto
  next
    case False
    with Cons obtain ys x zs where "xs = ys @ x # zs" "p x" "\<forall>y \<in> set ys. \<not> p y"
      "update_first p f xs = ys @ f x # zs" by auto
    with False show ?thesis by (intro exI [of _ "a # ys"]) auto
  qed
qed simp

lemma find_Some_split:
  "find p xs = Some x \<Longrightarrow> \<exists>ys zs. xs = ys @ x # zs \<and> p x \<and> (\<forall>y \<in> set ys. \<not> p y)"
proof (induction xs)
  case (Cons a xs)
  show ?case
  proof (cases "p a")
    case True
    with Cons.prems show ?thesis by (intro exI [of _ "[]"] exI [of _ xs]) auto
  next
    case False
    with Cons obtain ys zs where "xs = ys @ x # zs" "p x" "\<forall>y \<in> set ys. \<not> p y" by auto
    with False show ?thesis by (intro exI [of _ "a # ys"] exI [of _ zs]) auto
  qed
qed simp

lemma find_None_iff_ball: "find p xs = None \<longleftrightarrow> (\<forall>x \<in> set xs. \<not> p x)"
  by (auto simp: find_None_iff)

lemma update_first_find:
  assumes "xs = ys @ x # zs" and "p x" and "\<forall>y \<in> set ys. \<not> p y"
  shows "update_first p f xs = ys @ f x # zs"
proof -
  have "update_first p f (ys @ x # zs) = ys @ f x # zs"
    using assms(2,3) by (induction ys) auto
  with assms(1) show ?thesis by simp
qed

lemma update_first_distinct:
  assumes "distinct (map g xs)"
  shows "update_first (\<lambda>b. g b = i) f xs = map (\<lambda>b. if g b = i then f b else b) xs"
  using assms
proof (induction xs)
  case (Cons x xs)
  have "map (\<lambda>b. if g b = i then f b else b) xs = xs" if "g x = i"
    using Cons.prems that by (intro map_idI) (force simp: image_iff)
  with Cons show ?case by auto
qed simp

text \<open>\<^verbatim>\<open>sort_by_key\<close> is a stable sort, \<^const>\<open>sort_key\<close> in HOL.\<close>

lemma distinct_map_sort_key [simp]: "distinct (map f (sort_key g xs)) = distinct (map f xs)"
proof -
  have "mset (map f (sort_key g xs)) = mset (map f xs)" by simp
  then show ?thesis by (rule mset_eq_imp_distinct_iff)
qed

lemma strict_sorted_iff_map: "sorted_wrt (<) (map f xs) \<longleftrightarrow> sorted (map f xs) \<and> distinct (map f xs)"
  by (rule strict_sorted_iff)

lemma sorted_take_drop_le:
  assumes "sorted (map f xs)" and "x \<in> set (take n xs)" and "y \<in> set (drop n xs)"
  shows "f x \<le> f y"
proof -
  have "sorted (map f (take n xs) @ map f (drop n xs))"
    using assms(1) by (metis append_take_drop_id map_append)
  with assms(2,3) show ?thesis by (auto simp: sorted_append)
qed

end
