(* ===== verification/Id20.thy ===== *)
theory Id20
  imports Prelude
begin

unbundle bit_operations_syntax

text \<open>
  The interface of \<^verbatim>\<open>librtbit_core::hash_id::Id20\<close>, the 160-bit identifiers of the
  DHT. The type comes from another crate, so its operations are a parameter of the model: the
  record \<open>id20_ops\<close> of the functions the crate calls, passed to every definition
  that uses them, over a type \<open>'id\<close> whose linear order is a parameter too. The locale \<open>id20_api\<close> states what is documented of
  them: an identifier is 20 bytes, bit 0 is the most significant bit of the first byte, the order
  is the lexicographic one, and the distance is the bitwise exclusive or.
\<close>

section \<open>The operations\<close>

record 'id id20_ops =
  id_new :: "bytes \<Rightarrow> 'id"
  id_bytes :: "'id \<Rightarrow> bytes"
  id_get_bit :: "'id \<Rightarrow> nat \<Rightarrow> bool"
  id_set_bit :: "'id \<Rightarrow> nat \<Rightarrow> bool \<Rightarrow> 'id"
  id_distance :: "'id \<Rightarrow> 'id \<Rightarrow> 'id"

abbreviation id_min :: "('id, 'z) id20_ops_scheme \<Rightarrow> 'id" where
  "id_min ops \<equiv> id_new ops (replicate 20 0)"

abbreviation id_max :: "('id, 'z) id20_ops_scheme \<Rightarrow> 'id" where
  "id_max ops \<equiv> id_new ops (replicate 20 0xff)"

text \<open>
  The identifiers \<open>s\<close> and \<open>e\<close> bound a block: they share their first
  \<open>m\<close> bits, and then \<open>s\<close> is all zeros and \<open>e\<close> all ones. An identifier
  has prefix \<open>s\<close> of length \<open>m\<close> when it shares those bits.
\<close>

definition same_prefix :: "'id id20_ops \<Rightarrow> nat \<Rightarrow> 'id \<Rightarrow> 'id \<Rightarrow> bool" where
  "same_prefix ops m x y \<longleftrightarrow> (\<forall>j<m. id_get_bit ops x j = id_get_bit ops y j)"

definition id_block :: "'id id20_ops \<Rightarrow> nat \<Rightarrow> 'id \<Rightarrow> 'id \<Rightarrow> bool" where
  "id_block ops m s e \<longleftrightarrow> same_prefix ops m s e
     \<and> (\<forall>j<160. m \<le> j \<longrightarrow> \<not> id_get_bit ops s j \<and> id_get_bit ops e j)"

section \<open>The laws\<close>

locale id20_api =
  fixes ops :: "('id::linorder) id20_ops"
  assumes length_bytes: "length (id_bytes ops x) = 20"
    and bytes_new: "length bs = 20 \<Longrightarrow> id_bytes ops (id_new ops bs) = bs"
    and new_bytes: "id_new ops (id_bytes ops x) = x"
    and get_bit_bytes: "i < 160 \<Longrightarrow>
      id_get_bit ops x i = bit (id_bytes ops x ! (i div 8)) (7 - i mod 8)"
    and get_set_bit: "i < 160 \<Longrightarrow> j < 160 \<Longrightarrow>
      id_get_bit ops (id_set_bit ops x i v) j = (if i = j then v else id_get_bit ops x j)"
    and get_distance: "i < 160 \<Longrightarrow>
      id_get_bit ops (id_distance ops x y) i = (id_get_bit ops x i \<noteq> id_get_bit ops y i)"
    and less_bits: "x < y \<longleftrightarrow> (\<exists>i<160. same_prefix ops i x y
      \<and> \<not> id_get_bit ops x i \<and> id_get_bit ops y i)"
begin

lemma bit_ext:
  assumes "same_prefix ops 160 x y"
  shows "x = y"
proof -
  have "id_bytes ops x = id_bytes ops y"
  proof (rule nth_equalityI)
    fix k assume "k < length (id_bytes ops x)"
    then have k: "k < 20" by (simp add: length_bytes)
    show "id_bytes ops x ! k = id_bytes ops y ! k"
    proof (rule bit_word_eqI)
      fix n assume n: "n < LENGTH(8)"
      define i where "i = 8 * k + (7 - n)"
      have "i mod 8 = 7 - n" unfolding i_def mod_mult_self4 using n by simp
      with n have "7 - i mod 8 = n" by simp
      moreover have "i < 160" "i div 8 = k" unfolding i_def using k n by simp_all
      ultimately show "bit (id_bytes ops x ! k) n = bit (id_bytes ops y ! k) n"
        using assms get_bit_bytes [of i x] get_bit_bytes [of i y]
        by (simp add: same_prefix_def)
    qed
  qed (simp add: length_bytes)
  then show ?thesis by (metis new_bytes)
qed

lemma get_bit_min [simp]: "i < 160 \<Longrightarrow> \<not> id_get_bit ops (id_min ops) i"
  by (simp add: get_bit_bytes bytes_new less_mult_imp_div_less)

lemma get_bit_max [simp]: "i < 160 \<Longrightarrow> id_get_bit ops (id_max ops) i"
proof -
  assume i: "i < 160"
  have ff: "(0xff :: u8) = - 1" by simp
  have "bit (0xff :: u8) n" if "n < 8" for n
    unfolding ff using that by simp
  with i show ?thesis by (simp add: get_bit_bytes bytes_new less_mult_imp_div_less)
qed

lemma root_block: "id_block ops 0 (id_min ops) (id_max ops)"
  by (simp add: id_block_def same_prefix_def)

text \<open>Membership of a block is sharing its prefix.\<close>

lemma block_member:
  assumes b: "id_block ops m s e" and m: "m \<le> 160"
  shows "s \<le> x \<and> x \<le> e \<longleftrightarrow> same_prefix ops m s x"
proof
  assume p: "same_prefix ops m s x"
  have "\<not> x < s"
  proof
    assume "x < s"
    then obtain i where i: "i < 160" "\<not> id_get_bit ops x i" "id_get_bit ops s i"
      by (auto simp: less_bits)
    then show False using p b by (cases "i < m") (auto simp: same_prefix_def id_block_def)
  qed
  moreover have "\<not> e < x"
  proof
    assume "e < x"
    then obtain i where i: "i < 160" "\<not> id_get_bit ops e i" "id_get_bit ops x i"
      by (auto simp: less_bits)
    then show False using p b by (cases "i < m") (auto simp: same_prefix_def id_block_def)
  qed
  ultimately show "s \<le> x \<and> x \<le> e" by (simp add: not_less)
next
  assume r: "s \<le> x \<and> x \<le> e"
  show "same_prefix ops m s x"
  proof (rule ccontr)
    let ?d = "\<lambda>j. j < m \<and> id_get_bit ops s j \<noteq> id_get_bit ops x j"
    assume "\<not> same_prefix ops m s x"
    then have ex: "\<exists>j. ?d j" by (auto simp: same_prefix_def)
    define j where "j = (LEAST j. ?d j)"
    have j: "?d j" unfolding j_def using ex by (rule LeastI_ex)
    have below: "\<And>i. i < j \<Longrightarrow> id_get_bit ops s i = id_get_bit ops x i"
      using j not_less_Least [of _ ?d] by (metis j_def order.strict_trans)
    have se: "\<And>i. i < m \<Longrightarrow> id_get_bit ops s i = id_get_bit ops e i"
      using b by (auto simp: id_block_def same_prefix_def)
    show False
    proof (cases "id_get_bit ops x j")
      case True
      with j below se m have "e < x"
        unfolding less_bits by (intro exI [of _ j]) (auto simp: same_prefix_def)
      with r show False by (metis leD)
    next
      case False
      with j below m have "x < s"
        unfolding less_bits by (intro exI [of _ j]) (auto simp: same_prefix_def)
      with r show False by (metis leD)
    qed
  qed
qed

text \<open>Cutting a block at bit \<open>m\<close> gives two blocks of prefix length \<open>m + 1\<close>.\<close>

lemma block_cut:
  assumes b: "id_block ops m s e" and m: "m < 160"
  shows "id_block ops (Suc m) s (id_set_bit ops e m False)"
    and "id_block ops (Suc m) (id_set_bit ops s m True) e"
  using b m by (auto simp: id_block_def same_prefix_def get_set_bit less_Suc_eq)

lemma prefix_right_iff:
  assumes "id_block ops m s e" and "m < 160"
  shows "same_prefix ops (Suc m) (id_set_bit ops s m True) x
    \<longleftrightarrow> same_prefix ops m s x \<and> id_get_bit ops x m"
  using assms by (auto simp: same_prefix_def get_set_bit less_Suc_eq)

lemma prefix_left_iff:
  assumes "id_block ops m s e" and "m < 160"
  shows "same_prefix ops (Suc m) s x \<longleftrightarrow> same_prefix ops m s x \<and> \<not> id_get_bit ops x m"
  using assms by (auto simp: same_prefix_def id_block_def less_Suc_eq)

lemma block_cut_less:
  assumes b: "id_block ops m s e" and m: "m < 160" and p: "same_prefix ops m s x"
  shows "x < id_set_bit ops s m True \<longleftrightarrow> \<not> id_get_bit ops x m"
proof
  assume "x < id_set_bit ops s m True"
  then show "\<not> id_get_bit ops x m"
    using block_member [OF block_cut(2) [OF b m], of x] prefix_right_iff [OF b m] p m b
    by (metis Suc_leI leD)
next
  assume "\<not> id_get_bit ops x m"
  with b m p show "x < id_set_bit ops s m True"
    unfolding less_bits by (intro exI [of _ m]) (auto simp: same_prefix_def get_set_bit)
qed

text \<open>The debug assertions of a split, for a block of at least four identifiers.\<close>

lemma block_cut_order:
  assumes b: "id_block ops m s e" and m: "Suc m < 160"
  shows "s < id_set_bit ops e m False"
    and "id_set_bit ops e m False < id_set_bit ops s m True"
    and "id_set_bit ops s m True < e"
proof -
  show "s < id_set_bit ops e m False" unfolding less_bits
    using b m by (intro exI [of _ "Suc m"]) (auto simp: id_block_def same_prefix_def get_set_bit less_Suc_eq)
  show "id_set_bit ops e m False < id_set_bit ops s m True" unfolding less_bits
    using b m by (intro exI [of _ m]) (auto simp: id_block_def same_prefix_def get_set_bit)
  show "id_set_bit ops s m True < e" unfolding less_bits
    using b m by (intro exI [of _ "Suc m"]) (auto simp: id_block_def same_prefix_def get_set_bit less_Suc_eq)
qed

text \<open>A block of prefix length \<open>m\<close> holds at most \<open>2 ^ (160 - m)\<close> identifiers.\<close>

lemma block_card:
  assumes X: "X \<subseteq> {x. same_prefix ops m s x}" and m: "m \<le> 160"
  shows "finite X \<and> card X \<le> 2 ^ (160 - m)"
proof -
  let ?f = "\<lambda>x. map (id_get_bit ops x) [m..<160]"
  let ?L = "{bs :: bool list. set bs \<subseteq> UNIV \<and> length bs = 160 - m}"
  have inj: "inj_on ?f X"
  proof (rule inj_onI)
    fix x y assume "x \<in> X" "y \<in> X" and eq: "?f x = ?f y"
    with X have "same_prefix ops m s x" "same_prefix ops m s y" by auto
    moreover have "id_get_bit ops x j = id_get_bit ops y j" if "m \<le> j" "j < 160" for j
      using eq that by simp
    ultimately have "id_get_bit ops x j = id_get_bit ops y j" if "j < 160" for j
      using that by (cases "j < m") (simp_all add: same_prefix_def)
    then show "x = y" by (intro bit_ext) (simp add: same_prefix_def)
  qed
  have fin: "finite ?L" by (rule finite_lists_length_eq) simp
  have sub: "?f ` X \<subseteq> ?L" by auto
  have "card ?L = 2 ^ (160 - m)"
    by (subst card_lists_length_eq) simp_all
  with card_inj_on_le [OF inj sub fin] inj_on_finite [OF inj sub fin] show ?thesis by simp
qed

text \<open>The exclusive-or distance is a metric in which no two identifiers are equally far.\<close>

lemma distance_commute: "id_distance ops x y = id_distance ops y x"
  by (rule bit_ext) (auto simp: same_prefix_def get_distance)

lemma distance_min_iff: "id_distance ops x y = id_min ops \<longleftrightarrow> x = y"
proof
  assume eq: "id_distance ops x y = id_min ops"
  have "id_get_bit ops x i = id_get_bit ops y i" if "i < 160" for i
    using get_distance [OF that, of x y] get_bit_min [OF that] eq by simp
  then show "x = y" by (intro bit_ext) (simp add: same_prefix_def)
next
  assume "x = y"
  then show "id_distance ops x y = id_min ops"
    by (intro bit_ext) (simp add: same_prefix_def get_distance)
qed

lemma distance_inject [simp]: "id_distance ops t x = id_distance ops t y \<longleftrightarrow> x = y"
proof
  assume eq: "id_distance ops t x = id_distance ops t y"
  have "id_get_bit ops x i = id_get_bit ops y i" if "i < 160" for i
    using get_distance [OF that, of t x] get_distance [OF that, of t y] eq by auto
  then show "x = y" by (intro bit_ext) (simp add: same_prefix_def)
qed simp

lemma min_le: "id_min ops \<le> x"
  using block_member [OF root_block, of x] by (simp add: same_prefix_def)

end

end
