(* ===== verification/Id20_Word.thy ===== *)
theory Id20_Word
  imports Id20
begin

unbundle bit_operations_syntax

text \<open>
  A provider of the identifier interface: the 20 bytes read as a big-endian 160-bit number.
  The order of \<^typ>\<open>160 word\<close> is then the lexicographic order of the bytes and bit 0 of
  an identifier is bit 159 of the number. Witnesses of the properties use this provider.
\<close>

definition word_of_bytes :: "bytes \<Rightarrow> 160 word" where
  "word_of_bytes bs =
     horner_sum of_bool 2 (map (\<lambda>n. bit (bs ! (19 - n div 8)) (n mod 8)) [0..<160])"

definition bytes_of_word :: "160 word \<Rightarrow> bytes" where
  "bytes_of_word x = map (\<lambda>k. ucast (drop_bit (8 * (19 - k)) x)) [0..<20]"

definition id20_word :: "160 word id20_ops" where
  "id20_word = \<lparr>
     id_new = word_of_bytes,
     id_bytes = bytes_of_word,
     id_get_bit = (\<lambda>x i. i < 160 \<and> bit x (159 - i)),
     id_set_bit = (\<lambda>x i v. if v then x OR push_bit (159 - i) 1
        else x AND NOT (push_bit (159 - i) 1)),
     id_distance = (XOR) \<rparr>"

lemma id20_word_simps [simp]:
  "id_new id20_word = word_of_bytes"
  "id_bytes id20_word = bytes_of_word"
  "id_get_bit id20_word x i \<longleftrightarrow> i < 160 \<and> bit x (159 - i)"
  "id_set_bit id20_word x i v = (if v then x OR push_bit (159 - i) 1
     else x AND NOT (push_bit (159 - i) 1))"
  "id_distance id20_word x y = x XOR y"
  by (simp_all add: id20_word_def)

lemma bit_push_one: "bit (2 ^ k :: 160 word) n \<longleftrightarrow> n = k \<and> n < 160"
  by (auto simp: bit_exp_iff)

lemma bit_word_of_bytes:
  "bit (word_of_bytes bs) n \<longleftrightarrow> n < 160 \<and> bit (bs ! (19 - n div 8)) (n mod 8)"
  by (simp add: word_of_bytes_def bit_horner_sum_bit_word_iff del: upt_rec_numeral
      cong: conj_cong)

lemma length_bytes_of_word: "length (bytes_of_word x) = 20"
  by (simp add: bytes_of_word_def del: upt_rec_numeral)

lemma bytes_of_word_nth:
  "k < 20 \<Longrightarrow> bytes_of_word x ! k = ucast (drop_bit (8 * (19 - k)) x)"
  by (simp add: bytes_of_word_def del: upt_rec_numeral)

lemma bit_bytes_of_word:
  assumes "k < 20" and "n < 8"
  shows "bit (bytes_of_word x ! k) n = bit x (8 * (19 - k) + n)"
  unfolding bytes_of_word_nth [OF assms(1)] bit_ucast_iff bit_drop_bit_eq o_def
  using assms(2) by simp

lemma bytes_of_word_of_bytes:
  assumes "length bs = 20"
  shows "bytes_of_word (word_of_bytes bs) = bs"
proof (rule nth_equalityI)
  fix k assume "k < length (bytes_of_word (word_of_bytes bs))"
  then have k: "k < 20" by (simp add: length_bytes_of_word)
  show "bytes_of_word (word_of_bytes bs) ! k = bs ! k"
  proof (rule bit_word_eqI)
    fix n assume n: "n < LENGTH(8)"
    then have "(8 * (19 - k) + n) div 8 = 19 - k" "(8 * (19 - k) + n) mod 8 = n"
      "8 * (19 - k) + n < 160"
      using k by simp_all
    with n k show "bit (bytes_of_word (word_of_bytes bs) ! k) n = bit (bs ! k) n"
      by (simp add: bit_bytes_of_word bit_word_of_bytes)
  qed
qed (simp add: length_bytes_of_word assms)

lemma word_of_bytes_of_word: "word_of_bytes (bytes_of_word x) = x"
proof (rule bit_word_eqI)
  fix n assume "n < LENGTH(160)"
  then have n: "n < 160" by simp
  then have "19 - n div 8 < 20" "n mod 8 < 8" "8 * (19 - (19 - n div 8)) + n mod 8 = n" by auto
  with n show "bit (word_of_bytes (bytes_of_word x)) n = bit x n"
    by (simp add: bit_word_of_bytes bit_bytes_of_word)
qed

lemma bit_bytes_of_word_msb:
  assumes "i < 160"
  shows "bit (bytes_of_word x ! (i div 8)) (7 - i mod 8) = bit x (159 - i)"
proof -
  have k: "i div 8 < 20" using assms by simp
  have n: "7 - i mod 8 < 8" using le_imp_less_Suc [OF diff_le_self, of 7 "i mod 8"] by simp
  have "i = 8 * (i div 8) + i mod 8" "i mod 8 < 8" by simp_all
  then have e: "8 * (19 - i div 8) + (7 - i mod 8) = 159 - i" using assms k by linarith
  show ?thesis unfolding bit_bytes_of_word [OF k n] e ..
qed

text \<open>The numeric order of words looks at the highest bit in which they differ.\<close>

lemma word_less_highest_bit:
  fixes x y :: "'a::len word"
  assumes "\<And>n. p < n \<Longrightarrow> bit x n = bit y n" and "\<not> bit x p" and "bit y p"
  shows "x < y"
proof (rule ccontr)
  assume "\<not> x < y"
  then have le: "unat y \<le> unat x" by (simp add: not_less word_le_nat_alt)
  have "drop_bit (Suc p) x = drop_bit (Suc p) y"
    by (rule bit_word_eqI) (simp add: bit_drop_bit_eq assms(1))
  then have eq: "unat x div 2 ^ Suc p = unat y div 2 ^ Suc p"
    by (metis drop_bit_eq_div unat_drop_bit_eq)
  have "\<not> bit (unat x) p" "bit (unat y) p"
    using assms(2,3) by (simp_all add: bit_unsigned_iff)
  then have "even (unat x div 2 ^ p)" "odd (unat y div 2 ^ p)"
    by (simp_all add: bit_iff_odd)
  moreover have "unat x div 2 ^ p div 2 = unat y div 2 ^ p div 2"
    using eq by (metis div_mult2_eq power_Suc2)
  ultimately have "unat x div 2 ^ p < unat y div 2 ^ p"
    by (metis even_two_times_div_two odd_two_times_div_two_succ less_add_one)
  with le show False by (meson div_le_mono leD)
qed

lemma word_less_bits:
  fixes x y :: "'a::len word"
  shows "x < y \<longleftrightarrow> (\<exists>p<LENGTH('a). (\<forall>n. p < n \<longrightarrow> bit x n = bit y n) \<and> \<not> bit x p \<and> bit y p)"
proof
  assume less: "x < y"
  let ?D = "{n. bit x n \<noteq> bit y n}"
  have fin: "finite ?D" by (rule finite_subset [of _ "{..<LENGTH('a)}"])
      (auto simp: bit_word.rep_eq dest: bit_imp_le_length)
  have "?D \<noteq> {}" using less bit_word_eqI [of x y] by auto
  define p where "p = Max ?D"
  have p: "bit x p \<noteq> bit y p" using Max_in [OF fin \<open>?D \<noteq> {}\<close>] by (simp add: p_def)
  have above: "bit x n = bit y n" if "p < n" for n
    using Max_ge [OF fin, of n] that by (force simp: p_def)
  have "p < LENGTH('a)" using p by (metis bit_imp_le_length)
  moreover have "\<not> bit x p" using word_less_highest_bit [of p y x] above p less by auto
  ultimately show "\<exists>p<LENGTH('a). (\<forall>n. p < n \<longrightarrow> bit x n = bit y n) \<and> \<not> bit x p \<and> bit y p"
    using above p by auto
qed (auto intro: word_less_highest_bit)

lemma above_bit_iff_prefix:
  assumes i: "i < 160"
  shows "(\<forall>n. 159 - i < n \<longrightarrow> bit x n = bit y n) \<longleftrightarrow> same_prefix id20_word i x y"
proof
  assume "\<forall>n. 159 - i < n \<longrightarrow> bit x n = bit y n"
  with i show "same_prefix id20_word i x y" by (auto simp: same_prefix_def)
next
  assume s: "same_prefix id20_word i x y"
  have "bit x n = bit y n" if n: "159 - i < n" for n
  proof (cases "n < 160")
    case True
    with n i have j: "159 - n < i" "159 - n < 160" "159 - (159 - n) = n" by auto
    have "id_get_bit id20_word x (159 - n) = id_get_bit id20_word y (159 - n)"
      using s j(1) unfolding same_prefix_def by blast
    with j show ?thesis by simp
  next
    case False
    then show ?thesis using bit_imp_le_length [of x n] bit_imp_le_length [of y n] by auto
  qed
  then show "\<forall>n. 159 - i < n \<longrightarrow> bit x n = bit y n" by blast
qed

lemma word_less_prefix:
  "x < y \<longleftrightarrow> (\<exists>i<160. same_prefix id20_word i x y
    \<and> \<not> id_get_bit id20_word x i \<and> id_get_bit id20_word y i)"
proof
  assume "x < y"
  then obtain p where p: "p < 160" "\<forall>n. p < n \<longrightarrow> bit x n = bit y n" "\<not> bit x p" "bit y p"
    by (auto simp: word_less_bits)
  then have i: "159 - p < 160" and pi: "159 - (159 - p) = p" by auto
  have "same_prefix id20_word (159 - p) x y"
    using p(2) above_bit_iff_prefix [OF i, of x y] by (simp only: pi)
  with p i pi show "\<exists>i<160. same_prefix id20_word i x y
      \<and> \<not> id_get_bit id20_word x i \<and> id_get_bit id20_word y i"
    by (intro exI [of _ "159 - p"]) simp
next
  assume "\<exists>i<160. same_prefix id20_word i x y
      \<and> \<not> id_get_bit id20_word x i \<and> id_get_bit id20_word y i"
  then obtain i where i: "i < 160" "same_prefix id20_word i x y"
    "\<not> bit x (159 - i)" "bit y (159 - i)" by auto
  with above_bit_iff_prefix [OF i(1), of x y] show "x < y"
    by (intro word_less_highest_bit [of "159 - i"]) simp_all
qed

interpretation w20: id20_api id20_word
proof
  fix x y :: "160 word" and i j :: nat and v :: bool
  show "x < y \<longleftrightarrow> (\<exists>i<160. same_prefix id20_word i x y
      \<and> \<not> id_get_bit id20_word x i \<and> id_get_bit id20_word y i)" by (rule word_less_prefix)
  show "id_get_bit id20_word (id_set_bit id20_word x i v) j
      = (if i = j then v else id_get_bit id20_word x j)" if "i < 160" "j < 160"
    using that by (auto simp: bit_or_iff bit_and_iff bit_not_iff bit_push_one)
  show "id_get_bit id20_word (id_distance id20_word x y) i
      = (id_get_bit id20_word x i \<noteq> id_get_bit id20_word y i)" if "i < 160"
    using that by (simp add: bit_xor_iff)
qed (simp_all add: length_bytes_of_word bytes_of_word_of_bytes word_of_bytes_of_word
    bit_bytes_of_word_msb)

lemmas id20_word_api = w20.id20_api_axioms

text \<open>The extreme identifiers, for evaluation.\<close>

lemma id_min_word [simp]: "word_of_bytes (replicate 20 0) = 0"
  by (rule bit_word_eqI) (simp add: bit_word_of_bytes less_mult_imp_div_less)

lemma id_max_word [simp]: "word_of_bytes (replicate 20 255) = - 1"
proof (rule bit_word_eqI)
  fix n assume "n < LENGTH(160)"
  then have n: "n < 160" by simp
  have ff: "(0xff :: u8) = - 1" by simp
  have "bit (0xff :: u8) (n mod 8)" unfolding ff by simp
  with n show "bit (word_of_bytes (replicate 20 255)) n = bit (- 1 :: 160 word) n"
    by (simp add: bit_word_of_bytes)
qed

end
