(* ===== verification/Routing_Node.thy ===== *)
theory Routing_Node
  imports Id20
begin

text \<open>
  The entries of the routing table, \<^verbatim>\<open>RoutingTableNode\<close> and
  \<^verbatim>\<open>NodeStatus\<close> of \<^verbatim>\<open>src/routing_table.rs\<close>: what is known
  of a remote node, the status computed from it, and the marks that record requests, responses,
  queries and errors.
\<close>

section \<open>State\<close>

text \<open>\<open>errors_in_a_row\<close> is a natural number where the code has \<^verbatim>\<open>usize\<close>; it grows by one in a call of \<open>mark_error\<close>.\<close>

record 'id routing_table_node =
  node_id :: 'id
  node_addr :: socket_addr
  last_request :: "instant option"
  last_response :: "instant option"
  last_query :: "instant option"
  errors_in_a_row :: nat

datatype node_status = Good | Questionable | Bad | Unknown

text \<open>The node that \<^verbatim>\<open>insert_into_leaf\<close> builds for a new identifier.\<close>

definition fresh_node :: "'id \<Rightarrow> socket_addr \<Rightarrow> 'id routing_table_node" where
  "fresh_node i addr = \<lparr>node_id = i, node_addr = addr, last_request = None,
     last_response = None, last_query = None, errors_in_a_row = 0\<rparr>"

section \<open>Status\<close>

text \<open>
  The arms of the \<^verbatim>\<open>match\<close> in their order. An arm with two alternatives tries
  its guard on the first alternative that matches and then on the second.
\<close>

definition recent :: "instant \<Rightarrow> instant option \<Rightarrow> bool" where
  "recent now t = (case t of Some t \<Rightarrow> now - t < INACTIVITY_TIMEOUT | None \<Rightarrow> False)"

definition stale :: "instant \<Rightarrow> instant option \<Rightarrow> bool" where
  "stale now t = (case t of Some t \<Rightarrow> now - t > INACTIVITY_TIMEOUT | None \<Rightarrow> False)"

definition status :: "'id routing_table_node \<Rightarrow> instant \<Rightarrow> node_status" where
  "status n now =
    (if last_request n \<noteq> None \<and> errors_in_a_row n \<ge> 2 then Bad
     else if last_request n \<noteq> None \<and> recent now (last_response n)
           \<or> last_request n \<noteq> None \<and> last_response n \<noteq> None \<and> recent now (last_query n)
       then Good
     else if stale now (last_query n) \<and> (last_request n = None \<or> stale now (last_request n))
           \<or> stale now (last_response n) \<and> (last_request n = None \<or> stale now (last_request n))
       then Questionable
     else Unknown)"

section \<open>Marks\<close>

definition mark_outgoing_request :: "'id routing_table_node \<Rightarrow> instant \<Rightarrow> 'id routing_table_node" where
  "mark_outgoing_request n now = n\<lparr>last_request := Some now\<rparr>"

definition mark_last_query :: "'id routing_table_node \<Rightarrow> instant \<Rightarrow> 'id routing_table_node" where
  "mark_last_query n now = n\<lparr>last_query := Some now\<rparr>"

definition mark_response :: "'id routing_table_node \<Rightarrow> instant \<Rightarrow> 'id routing_table_node" where
  "mark_response n now =
    (let n1 = n\<lparr>last_response := Some now\<rparr>;
         n2 = (if last_request n1 = None then n1\<lparr>last_request := Some now\<rparr> else n1)
     in n2\<lparr>errors_in_a_row := 0\<rparr>)"

definition mark_error :: "'id routing_table_node \<Rightarrow> 'id routing_table_node" where
  "mark_error n = n\<lparr>errors_in_a_row := errors_in_a_row n + 1\<rparr>"

lemmas mark_defs = mark_outgoing_request_def mark_last_query_def mark_response_def mark_error_def

lemma mark_identity [simp]:
  "node_id (mark_outgoing_request n t) = node_id n"
  "node_id (mark_last_query n t) = node_id n"
  "node_id (mark_response n t) = node_id n"
  "node_id (mark_error n) = node_id n"
  "node_addr (mark_outgoing_request n t) = node_addr n"
  "node_addr (mark_last_query n t) = node_addr n"
  "node_addr (mark_response n t) = node_addr n"
  "node_addr (mark_error n) = node_addr n"
  by (simp_all add: mark_defs Let_def)

lemma fresh_node_simps [simp]:
  "node_id (fresh_node i a) = i"
  "node_addr (fresh_node i a) = a"
  by (simp_all add: fresh_node_def)

section \<open>The status as a state machine\<close>

text \<open>The events that change an entry, and the entry after a list of them.\<close>

datatype node_event =
    Requested instant
  | Responded instant
  | Queried instant
  | Errored

fun node_step :: "'id routing_table_node \<Rightarrow> node_event \<Rightarrow> 'id routing_table_node" where
  "node_step n (Requested t) = mark_outgoing_request n t"
| "node_step n (Responded t) = mark_response n t"
| "node_step n (Queried t) = mark_last_query n t"
| "node_step n Errored = mark_error n"

definition node_run :: "'id routing_table_node \<Rightarrow> node_event list \<Rightarrow> 'id routing_table_node" where
  "node_run = foldl node_step"

lemma node_run_simps [simp]:
  "node_run n [] = n"
  "node_run n (e # es) = node_run (node_step n e) es"
  "node_run n (es @ fs) = node_run (node_run n es) fs"
  by (simp_all add: node_run_def)

lemma recent_antimono: "recent t' x \<Longrightarrow> t \<le> t' \<Longrightarrow> recent t x"
  by (auto simp: recent_def split: option.splits)

lemma stale_mono: "stale t x \<Longrightarrow> t \<le> t' \<Longrightarrow> stale t' x"
  by (auto simp: stale_def split: option.splits)

lemma status_Bad_iff:
  "status n now = Bad \<longleftrightarrow> last_request n \<noteq> None \<and> errors_in_a_row n \<ge> 2"
  by (simp add: status_def)

lemma status_Good_iff:
  "status n now = Good \<longleftrightarrow> last_request n \<noteq> None \<and> errors_in_a_row n < 2
    \<and> (recent now (last_response n) \<or> last_response n \<noteq> None \<and> recent now (last_query n))"
  by (simp only: status_def split: if_split) fastforce

lemma status_Questionable_iff:
  "status n now = Questionable \<longleftrightarrow> status n now \<noteq> Bad \<and> status n now \<noteq> Good
    \<and> (stale now (last_query n) \<or> stale now (last_response n))
    \<and> (last_request n = None \<or> stale now (last_request n))"
  by (simp only: status_def split: if_split) fastforce

text \<open>
  Time alone never improves a status. As the clock advances with no event, an entry is Bad
  exactly as long as it was, it never becomes Good again, and once Questionable it stays so:
  only a request, a response, a query or an error changes that.
\<close>

theorem status_only_decays:
  assumes "t \<le> t'"
  shows "(status n t' = Bad \<longleftrightarrow> status n t = Bad)
    \<and> (status n t' = Good \<longrightarrow> status n t = Good)
    \<and> (status n t = Questionable \<longrightarrow> status n t' = Questionable)"
proof -
  note mono = recent_antimono [OF _ assms] stale_mono [OF _ assms]
  have bad: "status n t' = Bad \<longleftrightarrow> status n t = Bad" by (simp add: status_Bad_iff)
  have good: "status n t' = Good \<longrightarrow> status n t = Good"
    unfolding status_Good_iff using mono(1) by blast
  have "status n t = Questionable \<longrightarrow> status n t' = Questionable"
    unfolding status_Questionable_iff using mono(2) bad good by blast
  with bad good show ?thesis by blast
qed

lemmas status_eval = status_def recent_def stale_def mark_defs fresh_node_def Let_def
  INACTIVITY_TIMEOUT_def from_secs_def

theorem status_only_decays_witness:
  "status (node_run (fresh_node (0::nat) (V4 \<lparr>ip4 = 1, port4 = 2\<rparr>))
     [Requested 5, Responded 7]) 900000000009 = Questionable"
  using status_only_decays [of 900000000008 900000000009
      "node_run (fresh_node (0::nat) (V4 \<lparr>ip4 = 1, port4 = 2\<rparr>)) [Requested 5, Responded 7]"]
  by (simp add: status_eval)

text \<open>The errors since the last response in a history of events.\<close>

fun is_response :: "node_event \<Rightarrow> bool" where
  "is_response (Responded _) = True"
| "is_response _ = False"

fun is_contact :: "node_event \<Rightarrow> bool" where
  "is_contact (Requested _) = True"
| "is_contact (Responded _) = True"
| "is_contact _ = False"

definition errors_since_response :: "node_event list \<Rightarrow> nat" where
  "errors_since_response es =
     length (filter (\<lambda>e. e = Errored) (takeWhile (\<lambda>e. \<not> is_response e) (rev es)))"

lemma node_run_errors:
  "errors_in_a_row (node_run (fresh_node i a) es) = errors_since_response es"
proof (induction es rule: rev_induct)
  case (snoc e es)
  then show ?case by (cases e) (simp_all add: errors_since_response_def mark_defs Let_def)
qed (simp add: errors_since_response_def fresh_node_def)

lemma node_run_asked:
  "last_request (node_run (fresh_node i a) es) \<noteq> None \<longleftrightarrow> (\<exists>e \<in> set es. is_contact e)"
proof (induction es rule: rev_induct)
  case (snoc e es)
  then show ?case by (cases e) (simp_all add: mark_defs Let_def)
qed (simp add: fresh_node_def)

text \<open>
  A node is Bad exactly when its history has a request or a response and at least two errors
  since the last response: the property of the whole history that the counter
  \<^verbatim>\<open>errors_in_a_row\<close> and its reset in \<^verbatim>\<open>mark_response\<close> implement.
  In particular one response clears it, and errors for a node that was never contacted do not
  make it Bad.
\<close>

theorem bad_iff_errors_since_response:
  "status (node_run (fresh_node i a) es) now = Bad
    \<longleftrightarrow> (\<exists>e. e \<in> set es \<and> is_contact e) \<and> 2 \<le> errors_since_response es"
proof -
  have "status (node_run (fresh_node i a) es) now = Bad
      \<longleftrightarrow> last_request (node_run (fresh_node i a) es) \<noteq> None
        \<and> 2 \<le> errors_in_a_row (node_run (fresh_node i a) es)"
    by (simp add: status_def)
  then show ?thesis by (simp only: node_run_errors node_run_asked Bex_def)
qed

text \<open>
  Right after a response a node is Good and stays so for the fifteen minutes of the
  inactivity timeout, whatever happened before, as long as no second error comes in.
\<close>

theorem response_makes_good:
  assumes "now - t < INACTIVITY_TIMEOUT" and "errors_since_response fs < 2"
    and "\<not> (\<exists>e \<in> set fs. is_response e)"
  shows "status (node_run n (es @ Responded t # fs)) now = Good"
proof -
  have "last_request (node_run (mark_response m t) fs) \<noteq> None
      \<and> last_response (node_run (mark_response m t) fs) = Some t
      \<and> errors_in_a_row (node_run (mark_response m t) fs) = errors_since_response fs" for m
    using assms(3)
  proof (induction fs rule: rev_induct)
    case (snoc e fs)
    then show ?case by (cases e) (simp_all add: errors_since_response_def mark_defs Let_def)
  qed (simp add: errors_since_response_def mark_defs Let_def)
  from this [of "node_run n es"] assms(1,2) show ?thesis
    by (auto simp: status_Good_iff recent_def)
qed

theorem response_makes_good_witness:
  "status (node_run (fresh_node (0::nat) (V4 \<lparr>ip4 = 1, port4 = 2\<rparr>))
     ([Requested 5, Errored, Errored] @ Responded 70 # [Errored])) 100 = Good"
  by (rule response_makes_good)
    (simp_all add: errors_since_response_def INACTIVITY_TIMEOUT_def from_secs_def)

section \<open>The order in which nodes are preferred\<close>

text \<open>
  The rank by which \<^verbatim>\<open>sorted_by_distance_from\<close> queries decent nodes first, as
  the order of the status type.
\<close>

fun status_rank :: "node_status \<Rightarrow> nat" where
  "status_rank Good = 0"
| "status_rank Questionable = 1"
| "status_rank Unknown = 2"
| "status_rank Bad = 3"

lemma status_rank_inject [simp]: "status_rank s = status_rank s' \<longleftrightarrow> s = s'"
  by (cases s; cases s') simp_all

instantiation node_status :: linorder
begin

definition less_eq_node_status :: "node_status \<Rightarrow> node_status \<Rightarrow> bool" where
  "less_eq_node_status s s' \<longleftrightarrow> status_rank s \<le> status_rank s'"

definition less_node_status :: "node_status \<Rightarrow> node_status \<Rightarrow> bool" where
  "less_node_status s s' \<longleftrightarrow> status_rank s < status_rank s'"

instance
  by standard (auto simp: less_eq_node_status_def less_node_status_def)

end

end
