(* ===== verification/Bucket_Tree.thy ===== *)
theory Bucket_Tree
  imports Routing_Node
begin

text \<open>
  The binary tree of buckets, \<^verbatim>\<open>BucketTree\<close> of
  \<^verbatim>\<open>src/routing_table.rs\<close>: a vector of nodes that point to each other by index, its
  iterator, the lookup of the leaf of an identifier, and the insertion that replaces bad nodes and
  splits full buckets. This theory holds the definitions and the facts about single leaves and
  splits; \<^verbatim>\<open>Bucket_Shape\<close> holds the invariant of the whole tree.
\<close>

section \<open>State\<close>

record 'id leaf_bucket =
  bucket_nodes :: "'id routing_table_node list"
  last_refreshed :: instant

datatype 'id bucket_tree_node_data = Leaf "'id leaf_bucket" | LeftRight nat nat

record 'id bucket_tree_node =
  bits :: u8
  start :: 'id
  end_inclusive :: 'id
  node_data :: "'id bucket_tree_node_data"

record 'id bucket_tree =
  tree_data :: "'id bucket_tree_node list"
  tree_size :: nat
  max_size :: nat

record 'id bucket_tree_iterator_item =
  item_bits :: u8
  item_start :: 'id
  item_end_inclusive :: 'id
  item_leaf :: "'id leaf_bucket"

datatype 'id insert_result =
    WasExisting
  | ReplacedBad "'id routing_table_node"
  | Added
  | Ignored

text \<open>\<^verbatim>\<open>LeafBucket::default\<close>, whose clock reading is an argument.\<close>

definition default_leaf_bucket :: "instant \<Rightarrow> 'id leaf_bucket" where
  "default_leaf_bucket now = \<lparr>bucket_nodes = [], last_refreshed = now\<rparr>"

definition bucket_tree_new :: "'id id20_ops \<Rightarrow> nat \<Rightarrow> instant \<Rightarrow> 'id bucket_tree" where
  "bucket_tree_new ops max_nodes now =
     \<lparr>tree_data = [\<lparr>bits = 160, start = id_new ops (replicate 20 0),
         end_inclusive = id_new ops (replicate 20 0xff),
         node_data = Leaf (default_leaf_bucket now)\<rparr>],
      tree_size = 0, max_size = max_nodes\<rparr>"

section \<open>Iteration\<close>

text \<open>
  The iterator keeps a stack of indexes, here with its top first. \<open>iter_next\<close> is the
  loop of \<^verbatim>\<open>next\<close>; it could only fail to return on a vector whose indexes form a
  cycle, and that is the value \<open>None\<close>. A result \<open>Some (None, _)\<close> is the end of
  the iteration.
\<close>

partial_function (option) iter_next ::
    "'id bucket_tree \<Rightarrow> nat list \<Rightarrow> ('id bucket_tree_iterator_item option \<times> nat list) option" where
  "iter_next t queue = (case queue of
      [] \<Rightarrow> Some (None, [])
    | idx # queue \<Rightarrow>
        (if idx < length (tree_data t) then
           (let node = tree_data t ! idx in
            case node_data node of
              Leaf leaf \<Rightarrow> Some (Some \<lparr>item_bits = bits node, item_start = start node,
                  item_end_inclusive = end_inclusive node, item_leaf = leaf\<rparr>, queue)
            | LeftRight left right \<Rightarrow> iter_next t (left # right # queue))
         else iter_next t queue))"

partial_function (option) iter_collect ::
    "'id bucket_tree \<Rightarrow> nat list \<Rightarrow> 'id bucket_tree_iterator_item list option" where
  "iter_collect t queue = Option.bind (iter_next t queue) (\<lambda>(item, queue').
     case item of
       None \<Rightarrow> Some []
     | Some i \<Rightarrow> Option.bind (iter_collect t queue') (\<lambda>is. Some (i # is)))"

definition iter_leaves :: "'id bucket_tree \<Rightarrow> 'id bucket_tree_iterator_item list option" where
  "iter_leaves t = iter_collect t [0]"

definition bucket_iter :: "'id bucket_tree \<Rightarrow> 'id routing_table_node list option" where
  "bucket_iter t = Option.bind (iter_leaves t)
     (\<lambda>ls. Some (concat (map (\<lambda>l. bucket_nodes (item_leaf l)) ls)))"

section \<open>Lookup\<close>

text \<open>
  The loop of \<^verbatim>\<open>get_leaf\<close>. A run that visits more nodes than the vector has
  visits one of them twice and never ends, so a bound of one round more, in which an index out of
  bounds may show, decides divergence.
\<close>

fun get_leaf_loop :: "('id::linorder) bucket_tree \<Rightarrow> 'id \<Rightarrow> nat \<Rightarrow> nat \<Rightarrow> abort + nat" where
  "get_leaf_loop t i 0 idx = Inl Diverged"
| "get_leaf_loop t i (Suc rounds) idx =
    (if idx < length (tree_data t) then
       (case node_data (tree_data t ! idx) of
          Leaf _ \<Rightarrow> Inr idx
        | LeftRight left_idx right_idx \<Rightarrow>
            (if left_idx < length (tree_data t) then
               (let left = tree_data t ! left_idx in
                if i \<ge> start left \<and> i \<le> end_inclusive left
                then get_leaf_loop t i rounds left_idx
                else get_leaf_loop t i rounds right_idx)
             else Inl IndexOutOfBounds))
     else Inl IndexOutOfBounds)"

definition get_leaf :: "('id::linorder) bucket_tree \<Rightarrow> 'id \<Rightarrow> abort + nat" where
  "get_leaf t i = get_leaf_loop t i (Suc (length (tree_data t))) 0"

text \<open>
  \<^verbatim>\<open>get_mut\<close> hands out a mutable reference to the first node with the
  identifier. The model takes the caller's mutation \<open>f\<close> and returns the tree after it,
  with whether a node was found.
\<close>

definition set_node_data ::
    "'id bucket_tree \<Rightarrow> nat \<Rightarrow> 'id bucket_tree_node_data \<Rightarrow> 'id bucket_tree" where
  "set_node_data t idx d =
     t\<lparr>tree_data := (tree_data t)[idx := (tree_data t ! idx)\<lparr>node_data := d\<rparr>]\<rparr>"

definition get_mut ::
    "('id::linorder) bucket_tree \<Rightarrow> 'id \<Rightarrow> instant option
      \<Rightarrow> ('id routing_table_node \<Rightarrow> 'id routing_table_node) \<Rightarrow> abort + 'id bucket_tree \<times> bool" where
  "get_mut t i refresh f = and_then (get_leaf t i) (\<lambda>idx.
     case node_data (tree_data t ! idx) of
       LeftRight _ _ \<Rightarrow> Inl ReachedUnreachable
     | Leaf leaf \<Rightarrow>
         (if \<exists>b \<in> set (bucket_nodes leaf). node_id b = i then
            (let leaf1 = leaf\<lparr>bucket_nodes := update_first (\<lambda>b. node_id b = i) f (bucket_nodes leaf)\<rparr>;
                 leaf2 = (case refresh of Some r \<Rightarrow> leaf1\<lparr>last_refreshed := r\<rparr> | None \<Rightarrow> leaf1)
             in Inr (set_node_data t idx (Leaf leaf2), True))
          else Inr (t, False)))"

section \<open>Splitting\<close>

definition checked_sub :: "u8 \<Rightarrow> u8 \<Rightarrow> abort + u8" where
  "checked_sub a b = (if b \<le> a then Inr (a - b) else Inl ArithmeticOverflow)"

definition compute_split_start_end ::
    "('id::linorder) id20_ops \<Rightarrow> 'id \<Rightarrow> 'id \<Rightarrow> u8 \<Rightarrow> abort + ('id \<times> 'id) \<times> ('id \<times> 'id)" where
  "compute_split_start_end ops s e b = and_then (checked_sub 160 b) (\<lambda>changing_bit.
     let new_left_end = id_set_bit ops e (unat changing_bit) False;
         new_right_start = id_set_bit ops s (unat changing_bit) True
     in if s < new_left_end \<and> new_left_end < new_right_start \<and> new_right_start < e
        then Inr ((s, new_left_end), (new_right_start, e))
        else Inl DebugAssertFailed)"

text \<open>
  The split of a full leaf. The node stored at index \<open>k\<close> of the vector reads the clock
  when it is built; \<open>clk k\<close> is that reading. The result is the tree, the start of the
  right half and the indexes of the halves.
\<close>

definition split_leaf ::
    "('id::linorder) id20_ops \<Rightarrow> (nat \<Rightarrow> instant) \<Rightarrow> 'id bucket_tree \<Rightarrow> nat
      \<Rightarrow> 'id routing_table_node list \<Rightarrow> abort + 'id bucket_tree \<times> 'id \<times> nat \<times> nat" where
  "split_leaf ops clk t idx nodes =
    (let leaf = tree_data t ! idx in
     and_then (compute_split_start_end ops (start leaf) (end_inclusive leaf) (bits leaf))
       (\<lambda>((ls, le), (rs, re)). and_then (checked_sub (bits leaf) 1) (\<lambda>child_bits.
     let ld = filter (\<lambda>n. node_id n < rs) nodes;
         rd = filter (\<lambda>n. \<not> node_id n < rs) nodes;
         left_idx = length (tree_data t);
         left = \<lparr>bits = child_bits, start = ls, end_inclusive = le,
           node_data = Leaf ((default_leaf_bucket (clk left_idx))\<lparr>bucket_nodes := ld\<rparr>)\<rparr>;
         right_idx = Suc left_idx;
         right = \<lparr>bits = child_bits, start = rs, end_inclusive = re,
           node_data = Leaf ((default_leaf_bucket (clk right_idx))\<lparr>bucket_nodes := rd\<rparr>)\<rparr>;
         t1 = t\<lparr>tree_data := tree_data t @ [left, right]\<rparr>
     in Inr (set_node_data t1 idx (LeftRight left_idx right_idx), rs, left_idx, right_idx))))"

section \<open>Insertion\<close>

text \<open>
  The loop of \<^verbatim>\<open>insert_into_leaf\<close>. Each round either returns or splits the leaf
  and goes on in one half, which has one bit less: that is why it ends.
\<close>

definition is_bad :: "instant \<Rightarrow> 'id routing_table_node \<Rightarrow> bool" where
  "is_bad now r \<longleftrightarrow> status r now = Bad"

lemma split_leaf_bits:
  assumes "split_leaf ops clk t idx nodes = Inr (t', rs, l, r)" and "idx < length (tree_data t)"
  shows "unat (bits (tree_data t' ! l)) < unat (bits (tree_data t ! idx))"
    and "unat (bits (tree_data t' ! r)) < unat (bits (tree_data t ! idx))"
proof -
  have "unat (b - 1) < unat b" if "1 \<le> b" for b :: u8
  proof -
    have "b \<noteq> 0" using that by (auto simp: word_le_nat_alt)
    then show ?thesis by (simp add: unat_minus_one unat_gt_0 word_greater_zero_iff)
  qed
  with assms show "unat (bits (tree_data t' ! l)) < unat (bits (tree_data t ! idx))"
    "unat (bits (tree_data t' ! r)) < unat (bits (tree_data t ! idx))"
    by (auto simp: split_leaf_def Let_def and_then_eq_Inr set_node_data_def checked_sub_def
        nth_append nth_list_update split: if_splits prod.splits)
qed

function insert_into_leaf ::
    "('id::linorder) id20_ops \<Rightarrow> (nat \<Rightarrow> instant) \<Rightarrow> instant \<Rightarrow> 'id bucket_tree \<Rightarrow> nat
      \<Rightarrow> 'id \<Rightarrow> 'id \<Rightarrow> socket_addr \<Rightarrow> abort + 'id bucket_tree \<times> 'id insert_result" where
  "insert_into_leaf ops clk now t idx self_id i addr =
    (if idx < length (tree_data t) then
      (let leaf = tree_data t ! idx in
       case node_data leaf of
         LeftRight _ _ \<Rightarrow> Inl ReachedUnreachable
       | Leaf nodes \<Rightarrow>
          (if \<exists>r \<in> set (bucket_nodes nodes). node_id r = i then Inr (t, WasExisting)
           else
            (let new_node = fresh_node i addr in
             case find (is_bad now) (bucket_nodes nodes) of
               Some bad_node \<Rightarrow>
                 Inr (set_node_data t idx (Leaf \<lparr>bucket_nodes = sort_key node_id
                        (update_first (is_bad now) (\<lambda>_. new_node) (bucket_nodes nodes)),
                      last_refreshed = now\<rparr>), ReplacedBad bad_node)
             | None \<Rightarrow>
                (if tree_size t = max_size t then Inr (t, Ignored)
                 else if length (bucket_nodes nodes) < 8 then
                   Inr ((set_node_data t idx (Leaf \<lparr>bucket_nodes = sort_key node_id
                          (bucket_nodes nodes @ [new_node]), last_refreshed = now\<rparr>))
                        \<lparr>tree_size := tree_size t + 1\<rparr>, Added)
                 else if self_id < start leaf \<or> self_id > end_inclusive leaf then Inr (t, Ignored)
                 else (case split_leaf ops clk t idx (bucket_nodes nodes) of
                     Inl e \<Rightarrow> Inl e
                   | Inr (t', rs, left_idx, right_idx) \<Rightarrow>
                       insert_into_leaf ops clk now t' (if i < rs then left_idx else right_idx)
                         self_id i addr)))))
     else Inl IndexOutOfBounds)"
  by pat_completeness auto
termination
  by (relation "measure (\<lambda>(ops, clk, now, t, idx, self_id, i, addr). unat (bits (tree_data t ! idx)))")
    (auto dest: split_leaf_bits)

declare insert_into_leaf.simps [simp del]

definition bucket_add_node ::
    "('id::linorder) id20_ops \<Rightarrow> (nat \<Rightarrow> instant) \<Rightarrow> instant \<Rightarrow> 'id bucket_tree
      \<Rightarrow> 'id \<Rightarrow> 'id \<Rightarrow> socket_addr \<Rightarrow> abort + 'id bucket_tree \<times> 'id insert_result" where
  "bucket_add_node ops clk now t self_id i addr = and_then (get_leaf t i) (\<lambda>idx.
     insert_into_leaf ops clk now t idx self_id i addr)"

section \<open>Random identifiers\<close>

text \<open>
  \<^verbatim>\<open>generate_random_id\<close> fills an identifier with random bytes, an argument here,
  and overwrites its first \<open>160 - bits\<close> bits with those of \<open>start\<close>.
\<close>

definition generate_random_id :: "'id id20_ops \<Rightarrow> bytes \<Rightarrow> 'id \<Rightarrow> u8 \<Rightarrow> abort + 'id" where
  "generate_random_id ops rnd s b = and_then (checked_sub 160 b) (\<lambda>remaining_bits.
     Inr (foldl (\<lambda>d k. id_set_bit ops d k (id_get_bit ops s k)) (id_new ops rnd)
       [0..<unat remaining_bits]))"

definition random_within ::
    "'id id20_ops \<Rightarrow> bytes \<Rightarrow> 'id bucket_tree_iterator_item \<Rightarrow> abort + 'id" where
  "random_within ops rnd item = generate_random_id ops rnd (item_start item) (item_bits item)"

end
