(* ===== verification/Bucket_Shape.thy ===== *)
theory Bucket_Shape
  imports Bucket_Tree Id20_Word
begin

text \<open>
  The invariant of the bucket tree. The vector of \<^verbatim>\<open>BucketTree\<close> represents a
  binary tree; \<open>shape\<close> is that tree, with the index of every node in the vector.
  \<open>represents\<close> relates the two, and the other predicates say how the blocks of
  identifiers are nested, that only blocks around the table's own identifier were split, and what
  every leaf keeps.
\<close>

section \<open>Shapes\<close>

datatype shape = SLeaf nat | SNode nat shape shape

fun root_of :: "shape \<Rightarrow> nat" where
  "root_of (SLeaf i) = i"
| "root_of (SNode i _ _) = i"

fun indexes :: "shape \<Rightarrow> nat list" where
  "indexes (SLeaf i) = [i]"
| "indexes (SNode i l r) = i # indexes l @ indexes r"

fun leaves_of :: "shape \<Rightarrow> nat list" where
  "leaves_of (SLeaf i) = [i]"
| "leaves_of (SNode i l r) = leaves_of l @ leaves_of r"

fun represents :: "'id bucket_tree_node list \<Rightarrow> shape \<Rightarrow> bool" where
  "represents ds (SLeaf i) \<longleftrightarrow> i < length ds \<and> (\<exists>b. node_data (ds ! i) = Leaf b)"
| "represents ds (SNode i l r) \<longleftrightarrow> i < length ds
     \<and> node_data (ds ! i) = LeftRight (root_of l) (root_of r) \<and> represents ds l \<and> represents ds r"

definition leaf_nodes :: "'id bucket_tree_node \<Rightarrow> 'id routing_table_node list" where
  "leaf_nodes n = (case node_data n of Leaf b \<Rightarrow> bucket_nodes b | LeftRight _ _ \<Rightarrow> [])"

definition shape_nodes :: "'id bucket_tree_node list \<Rightarrow> shape \<Rightarrow> 'id routing_table_node list" where
  "shape_nodes ds k = concat (map (\<lambda>i. leaf_nodes (ds ! i)) (leaves_of k))"

lemma leaves_subset: "set (leaves_of k) \<subseteq> set (indexes k)"
  by (induction k) auto

lemma root_in_indexes [simp]: "root_of k \<in> set (indexes k)"
  by (cases k) auto

lemma shape_nodes_simps [simp]:
  "shape_nodes ds (SLeaf i) = leaf_nodes (ds ! i)"
  "shape_nodes ds (SNode i l r) = shape_nodes ds l @ shape_nodes ds r"
  by (simp_all add: shape_nodes_def)

lemma represents_leaf:
  "represents ds k \<Longrightarrow> i \<in> set (leaves_of k) \<Longrightarrow> i < length ds \<and> (\<exists>b. node_data (ds ! i) = Leaf b)"
  by (induction k) auto

lemma represents_bound: "represents ds k \<Longrightarrow> i \<in> set (indexes k) \<Longrightarrow> i < length ds"
  by (induction k) auto

section \<open>Iteration walks the shape\<close>

definition leaf_item :: "'id bucket_tree_node \<Rightarrow> 'id bucket_tree_iterator_item" where
  "leaf_item n = \<lparr>item_bits = bits n, item_start = start n, item_end_inclusive = end_inclusive n,
     item_leaf = (case node_data n of Leaf b \<Rightarrow> b)\<rparr>"

lemma iter_collect_Nil: "iter_collect t [] = Some []"
  by (simp add: iter_collect.simps iter_next.simps)

lemma iter_collect_leaf:
  assumes "idx < length (tree_data t)" and "node_data (tree_data t ! idx) = Leaf b"
  shows "iter_collect t (idx # q)
    = Option.bind (iter_collect t q) (\<lambda>is. Some (leaf_item (tree_data t ! idx) # is))"
  using assms by (simp add: iter_collect.simps [of t "idx # q"] iter_next.simps [of t "idx # q"]
      leaf_item_def Let_def)

lemma iter_collect_node:
  assumes "idx < length (tree_data t)" and "node_data (tree_data t ! idx) = LeftRight l r"
  shows "iter_collect t (idx # q) = iter_collect t (l # r # q)"
  using assms by (simp add: iter_collect.simps [of t "idx # q"] iter_collect.simps [of t "l # r # q"]
      iter_next.simps [of t "idx # q"])

lemma iter_collect_forest:
  "(\<forall>k \<in> set ks. represents (tree_data t) k) \<Longrightarrow>
    iter_collect t (map root_of ks)
      = Some (map (\<lambda>i. leaf_item (tree_data t ! i)) (concat (map leaves_of ks)))"
proof (induction "sum_list (map (\<lambda>k. length (indexes k)) ks)" arbitrary: ks rule: less_induct)
  case less
  show ?case
  proof (cases ks)
    case Nil
    then show ?thesis by (simp add: iter_collect_Nil)
  next
    case (Cons k ks')
    have rest: "\<forall>k \<in> set ks'. represents (tree_data t) k" using less.prems Cons by simp
    show ?thesis
    proof (cases k)
      case (SLeaf i)
      then have "i < length (tree_data t)" "\<exists>b. node_data (tree_data t ! i) = Leaf b"
        using less.prems Cons by auto
      moreover have "iter_collect t (map root_of ks')
          = Some (map (\<lambda>i. leaf_item (tree_data t ! i)) (concat (map leaves_of ks')))"
        using less.hyps [of ks'] rest Cons SLeaf by simp
      ultimately show ?thesis using Cons SLeaf by (auto simp: iter_collect_leaf)
    next
      case (SNode i l r)
      then have "i < length (tree_data t)"
        "node_data (tree_data t ! i) = LeftRight (root_of l) (root_of r)"
        "\<forall>k \<in> set (l # r # ks'). represents (tree_data t) k"
        using less.prems Cons by auto
      moreover have "sum_list (map (\<lambda>k. length (indexes k)) (l # r # ks'))
          < sum_list (map (\<lambda>k. length (indexes k)) ks)"
        using Cons SNode by simp
      ultimately show ?thesis
        using less.hyps [of "l # r # ks'"] Cons SNode by (simp add: iter_collect_node)
    qed
  qed
qed

lemma iter_leaves_shape:
  assumes "represents (tree_data t) k" and "root_of k = 0"
  shows "iter_leaves t = Some (map (\<lambda>i. leaf_item (tree_data t ! i)) (leaves_of k))"
  using iter_collect_forest [of "[k]" t] assms by (simp add: iter_leaves_def)

lemma bucket_iter_shape:
  assumes "represents (tree_data t) k" and "root_of k = 0"
  shows "bucket_iter t = Some (shape_nodes (tree_data t) k)"
proof -
  have "bucket_nodes (item_leaf (leaf_item (tree_data t ! i))) = leaf_nodes (tree_data t ! i)"
    if "i \<in> set (leaves_of k)" for i
    using represents_leaf [OF assms(1) that] by (auto simp: leaf_item_def leaf_nodes_def)
  then show ?thesis
    by (simp add: bucket_iter_def iter_leaves_shape [OF assms] shape_nodes_def comp_def
        cong: map_cong)
qed

section \<open>Changing one leaf\<close>

text \<open>The shape after the leaf \<open>i\<close> got the children \<open>l\<close> and \<open>r\<close>.\<close>

fun split_shape :: "nat \<Rightarrow> nat \<Rightarrow> nat \<Rightarrow> shape \<Rightarrow> shape" where
  "split_shape i l r (SLeaf j) = (if j = i then SNode i (SLeaf l) (SLeaf r) else SLeaf j)"
| "split_shape i l r (SNode j a b) = SNode j (split_shape i l r a) (split_shape i l r b)"

lemma root_split_shape [simp]: "root_of (split_shape i l r k) = root_of k"
  by (cases k) auto

lemma split_shape_id: "i \<notin> set (leaves_of k) \<Longrightarrow> split_shape i l r k = k"
  by (induction k) auto

lemma indexes_split_shape:
  "distinct (indexes k) \<Longrightarrow> i \<in> set (leaves_of k) \<Longrightarrow>
    mset (indexes (split_shape i l r k)) = mset (indexes k) + {#l, r#}"
proof (induction k)
  case (SNode j a b)
  then consider "i \<in> set (leaves_of a)" "i \<notin> set (leaves_of b)"
    | "i \<notin> set (leaves_of a)" "i \<in> set (leaves_of b)"
    using leaves_subset [of a] leaves_subset [of b] by auto
  then show ?case using SNode by cases (simp_all add: split_shape_id)
qed auto

lemma leaves_split_shape:
  "set (leaves_of (split_shape i l r k)) \<subseteq> set (leaves_of k) - {i} \<union> {l, r}"
  by (induction k) auto

lemma represents_leaf_update:
  "represents ds k \<Longrightarrow> i < length ds \<Longrightarrow> node_data (ds ! i) = Leaf b0 \<Longrightarrow>
    represents (ds[i := (ds ! i)\<lparr>node_data := Leaf b\<rparr>]) k"
  by (induction k) (auto simp: nth_list_update)

lemma represents_split:
  assumes "i < length ds" and "node_data (ds ! i) = Leaf b0"
    and "node_data ln = Leaf bl" and "node_data rn = Leaf br"
    and "ds' = (ds @ [ln, rn])[i := (ds ! i)\<lparr>node_data := LeftRight (length ds) (Suc (length ds))\<rparr>]"
  shows "represents ds k \<Longrightarrow>
    represents ds' (split_shape i (length ds) (Suc (length ds)) k)"
  using assms by (induction k) (auto simp: nth_list_update nth_append)

section \<open>The invariant\<close>

definition covers :: "('id::linorder) bucket_tree_node \<Rightarrow> 'id \<Rightarrow> bool" where
  "covers n x \<longleftrightarrow> start n \<le> x \<and> x \<le> end_inclusive n"

definition prefix_len :: "'id bucket_tree_node \<Rightarrow> nat" where
  "prefix_len n = 160 - unat (bits n)"

definition node_block :: "'id id20_ops \<Rightarrow> 'id bucket_tree_node \<Rightarrow> bool" where
  "node_block ops n \<longleftrightarrow> unat (bits n) \<le> 160 \<and> id_block ops (prefix_len n) (start n) (end_inclusive n)"

definition halves ::
    "'id id20_ops \<Rightarrow> 'id bucket_tree_node \<Rightarrow> 'id bucket_tree_node \<Rightarrow> 'id bucket_tree_node \<Rightarrow> bool" where
  "halves ops p l r \<longleftrightarrow> Suc (unat (bits l)) = unat (bits p) \<and> Suc (unat (bits r)) = unat (bits p)
     \<and> start l = start p \<and> end_inclusive l = id_set_bit ops (end_inclusive p) (prefix_len p) False
     \<and> start r = id_set_bit ops (start p) (prefix_len p) True \<and> end_inclusive r = end_inclusive p"

fun nested :: "'id id20_ops \<Rightarrow> 'id bucket_tree_node list \<Rightarrow> shape \<Rightarrow> bool" where
  "nested ops ds (SLeaf i) \<longleftrightarrow> node_block ops (ds ! i)"
| "nested ops ds (SNode i l r) \<longleftrightarrow> node_block ops (ds ! i)
     \<and> halves ops (ds ! i) (ds ! root_of l) (ds ! root_of r) \<and> nested ops ds l \<and> nested ops ds r"

text \<open>Only blocks that hold the table's own identifier have been split.\<close>

fun split_around :: "('id::linorder) \<Rightarrow> 'id bucket_tree_node list \<Rightarrow> shape \<Rightarrow> bool" where
  "split_around self ds (SLeaf i) \<longleftrightarrow> True"
| "split_around self ds (SNode i l r) \<longleftrightarrow> covers (ds ! i) self
     \<and> split_around self ds l \<and> split_around self ds r"

definition bucket_ok :: "('id::linorder) bucket_tree_node \<Rightarrow> 'id routing_table_node list \<Rightarrow> bool" where
  "bucket_ok n xs \<longleftrightarrow> length xs \<le> 8 \<and> sorted_wrt (<) (map node_id xs) \<and> (\<forall>x \<in> set xs. covers n (node_id x))"

definition shape_inv :: "('id::linorder) id20_ops \<Rightarrow> 'id \<Rightarrow> 'id bucket_tree_node list \<Rightarrow> shape \<Rightarrow> bool" where
  "shape_inv ops self ds k \<longleftrightarrow> root_of k = 0 \<and> represents ds k \<and> distinct (indexes k)
     \<and> length (indexes k) = length ds \<and> bits (ds ! 0) = 160 \<and> nested ops ds k
     \<and> split_around self ds k \<and> (\<forall>i \<in> set (leaves_of k). bucket_ok (ds ! i) (leaf_nodes (ds ! i)))"

definition tree_inv :: "('id::linorder) id20_ops \<Rightarrow> 'id \<Rightarrow> 'id bucket_tree \<Rightarrow> bool" where
  "tree_inv ops self t \<longleftrightarrow> (\<exists>k. shape_inv ops self (tree_data t) k
     \<and> tree_size t = length (shape_nodes (tree_data t) k) \<and> tree_size t \<le> max_size t)"

lemma covers_data [simp]:
  "covers (n\<lparr>node_data := d\<rparr>) x = covers n x"
  "prefix_len (n\<lparr>node_data := d\<rparr>) = prefix_len n"
  "node_block ops (n\<lparr>node_data := d\<rparr>) = node_block ops n"
  "halves ops (n\<lparr>node_data := d\<rparr>) l r = halves ops n l r"
  "halves ops p (n\<lparr>node_data := d\<rparr>) r = halves ops p n r"
  "halves ops p l (n\<lparr>node_data := d\<rparr>) = halves ops p l n"
  "bucket_ok (n\<lparr>node_data := d\<rparr>) xs = bucket_ok n xs"
  by (simp_all add: covers_def prefix_len_def node_block_def halves_def bucket_ok_def)

lemma leaf_nodes_data [simp]: "leaf_nodes (n\<lparr>node_data := Leaf b\<rparr>) = bucket_nodes b"
  by (simp add: leaf_nodes_def)

text \<open>Blocks and halves look only at the bounds of nodes.\<close>

definition same_bounds :: "'id bucket_tree_node list \<Rightarrow> 'id bucket_tree_node list \<Rightarrow> nat set \<Rightarrow> bool" where
  "same_bounds ds ds' I \<longleftrightarrow> (\<forall>i \<in> I. bits (ds' ! i) = bits (ds ! i) \<and> start (ds' ! i) = start (ds ! i)
     \<and> end_inclusive (ds' ! i) = end_inclusive (ds ! i))"

lemma same_bounds_preds:
  assumes "same_bounds ds ds' I"
  shows "i \<in> I \<Longrightarrow> node_block ops (ds' ! i) = node_block ops (ds ! i)"
    and "i \<in> I \<Longrightarrow> covers (ds' ! i) x = covers (ds ! i) x"
    and "i \<in> I \<Longrightarrow> bucket_ok (ds' ! i) xs = bucket_ok (ds ! i) xs"
    and "i \<in> I \<Longrightarrow> j \<in> I \<Longrightarrow> k \<in> I \<Longrightarrow>
      halves ops (ds' ! i) (ds' ! j) (ds' ! k) = halves ops (ds ! i) (ds ! j) (ds ! k)"
  using assms
  by (simp_all add: same_bounds_def node_block_def prefix_len_def covers_def halves_def bucket_ok_def)

lemma nested_same_bounds:
  fixes ops :: "('id::linorder) id20_ops"
  shows "same_bounds ds ds' (set (indexes k)) \<Longrightarrow> nested ops ds' k = nested ops ds k"
proof (induction k)
  case (SNode i l r)
  have "same_bounds ds ds' (set (indexes l))" "same_bounds ds ds' (set (indexes r))"
    using SNode.prems by (auto simp: same_bounds_def)
  with SNode same_bounds_preds(1,4) [OF SNode.prems] show ?case by simp
qed (simp add: same_bounds_preds)

lemma split_around_same_bounds:
  "same_bounds ds ds' (set (indexes k)) \<Longrightarrow> split_around self ds' k = split_around self ds k"
proof (induction k)
  case (SNode i l r)
  have "same_bounds ds ds' (set (indexes l))" "same_bounds ds ds' (set (indexes r))"
    using SNode.prems by (auto simp: same_bounds_def)
  with SNode same_bounds_preds(2) [OF SNode.prems] show ?case by simp
qed simp

text \<open>The reference for \<^verbatim>\<open>get_leaf\<close>: a search of the whole vector.\<close>

definition scan_leaf :: "('id::linorder) bucket_tree \<Rightarrow> 'id \<Rightarrow> nat option" where
  "scan_leaf t x = find (\<lambda>k. case node_data (tree_data t ! k) of Leaf _ \<Rightarrow> covers (tree_data t ! k) x
     | LeftRight _ _ \<Rightarrow> False) [0..<length (tree_data t)]"

lemma leaf_in_shape:
  "represents ds k \<Longrightarrow> i \<in> set (indexes k) \<Longrightarrow> node_data (ds ! i) = Leaf b \<Longrightarrow> i \<in> set (leaves_of k)"
  by (induction k) auto

lemma find_only:
  assumes "i \<in> set xs" and "\<And>j. j \<in> set xs \<Longrightarrow> P j \<longleftrightarrow> j = i"
  shows "find P xs = Some i"
  using assms by (induction xs) auto

section \<open>Nesting of blocks\<close>

context id20_api
begin

lemma covers_prefix:
  "node_block ops n \<Longrightarrow> covers n x \<longleftrightarrow> same_prefix ops (prefix_len n) (start n) x"
  by (simp add: covers_def node_block_def prefix_len_def block_member)

lemma halves_cover:
  assumes p: "node_block ops p" and h: "halves ops p l r" and l: "node_block ops l" and r: "node_block ops r"
  shows "covers l x \<longleftrightarrow> covers p x \<and> \<not> id_get_bit ops x (prefix_len p)"
    and "covers r x \<longleftrightarrow> covers p x \<and> id_get_bit ops x (prefix_len p)"
proof -
  have b: "id_block ops (prefix_len p) (start p) (end_inclusive p)" and m: "prefix_len p < 160"
    using p h by (auto simp: node_block_def halves_def prefix_len_def)
  have "prefix_len l = Suc (prefix_len p)" "prefix_len r = Suc (prefix_len p)"
    using h p by (auto simp: halves_def prefix_len_def node_block_def)
  then show "covers l x \<longleftrightarrow> covers p x \<and> \<not> id_get_bit ops x (prefix_len p)"
    and "covers r x \<longleftrightarrow> covers p x \<and> id_get_bit ops x (prefix_len p)"
    using h by (simp_all add: covers_prefix p l r prefix_left_iff [OF b m] prefix_right_iff [OF b m]
        halves_def)
qed

lemma halves_less:
  assumes p: "node_block ops p" and h: "halves ops p l r" and l: "node_block ops l" and r: "node_block ops r"
    and "covers l x" and "covers r y"
  shows "x < y"
proof -
  have c: "covers p x" "covers p y" "\<not> id_get_bit ops x (prefix_len p)" "id_get_bit ops y (prefix_len p)"
    using assms(5,6) halves_cover [OF p h l r] by auto
  then have "same_prefix ops (prefix_len p) x y"
    using covers_prefix [OF p] by (auto simp: same_prefix_def)
  moreover have "prefix_len p < 160" using h p by (auto simp: halves_def prefix_len_def node_block_def)
  ultimately show ?thesis using c unfolding less_bits by blast
qed

lemma nested_root: "nested ops ds k \<Longrightarrow> node_block ops (ds ! root_of k)"
  by (cases k) auto

lemma leaf_covered:
  "nested ops ds k \<Longrightarrow> i \<in> set (leaves_of k) \<Longrightarrow> covers (ds ! i) x \<Longrightarrow> covers (ds ! root_of k) x"
proof (induction k)
  case (SNode j l r)
  then show ?case
    using halves_cover [of "ds ! j" "ds ! root_of l" "ds ! root_of r" x] nested_root [of ds l]
      nested_root [of ds r] by auto
qed simp

lemma leaf_unique:
  "nested ops ds k \<Longrightarrow> i \<in> set (leaves_of k) \<Longrightarrow> j \<in> set (leaves_of k) \<Longrightarrow>
    covers (ds ! i) x \<Longrightarrow> covers (ds ! j) x \<Longrightarrow> i = j"
proof (induction k)
  case (SNode m l r)
  have "\<not> (covers (ds ! root_of l) x \<and> covers (ds ! root_of r) x)"
    using SNode.prems(1) halves_cover [of "ds ! m" "ds ! root_of l" "ds ! root_of r" x]
      nested_root [of ds l] nested_root [of ds r] by auto
  then show ?case
    using SNode leaf_covered [of ds l _ x] leaf_covered [of ds r _ x] by auto
qed simp

lemma shape_nodes_sorted:
  assumes "nested ops ds k" and "\<forall>i \<in> set (leaves_of k). bucket_ok (ds ! i) (leaf_nodes (ds ! i))"
  shows "sorted_wrt (<) (map node_id (shape_nodes ds k))
    \<and> (\<forall>x \<in> set (shape_nodes ds k). covers (ds ! root_of k) (node_id x))"
  using assms
proof (induction k)
  case (SNode i l r)
  then have l: "sorted_wrt (<) (map node_id (shape_nodes ds l))"
      "\<forall>x \<in> set (shape_nodes ds l). covers (ds ! root_of l) (node_id x)"
    and r: "sorted_wrt (<) (map node_id (shape_nodes ds r))"
      "\<forall>x \<in> set (shape_nodes ds r). covers (ds ! root_of r) (node_id x)" by auto
  have h: "node_block ops (ds ! i)" "halves ops (ds ! i) (ds ! root_of l) (ds ! root_of r)"
    "node_block ops (ds ! root_of l)" "node_block ops (ds ! root_of r)"
    using SNode.prems(1) nested_root by auto
  show ?case
    using l r halves_less [OF h] halves_cover [OF h] by (auto simp: sorted_wrt_append)
qed (simp add: bucket_ok_def)

text \<open>The size of the vector is bounded: every split is around the own identifier.\<close>

lemma indexes_bound:
  "nested ops ds k \<Longrightarrow> split_around self ds k \<Longrightarrow>
    length (indexes k) \<le> (if covers (ds ! root_of k) self then 2 * unat (bits (ds ! root_of k)) + 1 else 1)"
proof (induction k)
  case (SNode i l r)
  have h: "node_block ops (ds ! i)" "halves ops (ds ! i) (ds ! root_of l) (ds ! root_of r)"
    "node_block ops (ds ! root_of l)" "node_block ops (ds ! root_of r)"
    using SNode.prems(1) nested_root by auto
  have ih: "length (indexes l) \<le> (if covers (ds ! root_of l) self then 2 * unat (bits (ds ! root_of l)) + 1 else 1)"
    "length (indexes r) \<le> (if covers (ds ! root_of r) self then 2 * unat (bits (ds ! root_of r)) + 1 else 1)"
    using SNode by auto
  have "Suc (unat (bits (ds ! root_of l))) = unat (bits (ds ! i))"
    "Suc (unat (bits (ds ! root_of r))) = unat (bits (ds ! i))" using h(2) by (simp_all add: halves_def)
  with ih SNode.prems(2) halves_cover [OF h, of self] show ?case
    by (cases "id_get_bit ops self (prefix_len (ds ! i))") auto
qed simp

end

end
