(* ===== verification/Bucket_Insert.thy ===== *)
theory Bucket_Insert
  imports Bucket_Shape
begin

text \<open>
  Correctness of the bucket tree: the lookup of a leaf, the mutation of a node, the split and the
  insertion, all under the invariant \<open>tree_inv\<close>. None of them panics or diverges, all keep
  the invariant, and their effect on the stored nodes is the abstract one of
  \<open>insert_effect\<close>.
\<close>

section \<open>Updating leaves of a shape\<close>

lemma distinct_leaves: "distinct (indexes k) \<Longrightarrow> distinct (leaves_of k)"
proof (induction k)
  case (SNode i l r)
  then show ?case using leaves_subset [of l] leaves_subset [of r] by auto
qed simp

lemma mset_concat_map_upd:
  "distinct xs \<Longrightarrow> i \<in> set xs \<Longrightarrow>
    mset (concat (map (\<lambda>j. if j = i then v else f j) xs)) + mset (f i)
      = mset (concat (map f xs)) + mset v"
proof (induction xs)
  case (Cons x xs)
  show ?case
  proof (cases "x = i")
    case True
    with Cons.prems have "concat (map (\<lambda>j. if j = i then v else f j) xs) = concat (map f xs)"
      by (intro arg_cong [where f = concat] map_cong) auto
    with True show ?thesis by simp
  next
    case False
    with Cons have "mset (concat (map (\<lambda>j. if j = i then v else f j) xs)) + mset (f i)
        = mset (concat (map f xs)) + mset v" by auto
    with False show ?thesis by (simp add: add.assoc)
  qed
qed simp

lemma mset_concat_map_cong:
  "(\<And>x. x \<in> set xs \<Longrightarrow> mset (f x) = mset (g x)) \<Longrightarrow> mset (concat (map f xs)) = mset (concat (map g xs))"
  by (induction xs) auto

lemma mset_concat_map_concat:
  "(\<And>x. x \<in> set xs \<Longrightarrow> mset (concat (map f (g x))) = mset (h x)) \<Longrightarrow>
    mset (concat (map f (concat (map g xs)))) = mset (concat (map h xs))"
  by (induction xs) auto

lemma sorted_wrt_map_filter: "sorted_wrt R (map f xs) \<Longrightarrow> sorted_wrt R (map f (filter P xs))"
  by (simp add: sorted_wrt_map sorted_wrt_filter)

lemma shape_nodes_leaf_update:
  assumes "represents ds k" and "distinct (indexes k)" and i: "i \<in> set (leaves_of k)"
    and ds': "ds' = ds[i := (ds ! i)\<lparr>node_data := Leaf b\<rparr>]"
  shows "mset (shape_nodes ds' k) + mset (leaf_nodes (ds ! i))
    = mset (shape_nodes ds k) + mset (bucket_nodes b)"
proof -
  let ?f = "\<lambda>j. leaf_nodes (ds ! j)"
  have "i < length ds" using represents_leaf [OF assms(1) i] by blast
  then have "leaf_nodes (ds' ! j) = (if j = i then bucket_nodes b else ?f j)" for j
    by (simp add: ds' nth_list_update)
  then have "shape_nodes ds' k = concat (map (\<lambda>j. if j = i then bucket_nodes b else ?f j) (leaves_of k))"
    by (simp add: shape_nodes_def)
  then show ?thesis
    using mset_concat_map_upd [OF distinct_leaves [OF assms(2)] i, of "bucket_nodes b" ?f]
    by (simp add: shape_nodes_def)
qed

lemma shape_inv_leaf_update:
  assumes inv: "shape_inv ops self ds k" and i: "i \<in> set (leaves_of k)"
    and b: "bucket_ok (ds ! i) (bucket_nodes b)"
    and ds': "ds' = ds[i := (ds ! i)\<lparr>node_data := Leaf b\<rparr>]"
  shows "shape_inv ops self ds' k"
proof -
  from inv have k: "root_of k = 0" "represents ds k" "distinct (indexes k)"
    "length (indexes k) = length ds" "bits (ds ! 0) = 160" "nested ops ds k"
    "split_around self ds k" "\<forall>i \<in> set (leaves_of k). bucket_ok (ds ! i) (leaf_nodes (ds ! i))"
    by (simp_all add: shape_inv_def)
  obtain b0 where l: "i < length ds" "node_data (ds ! i) = Leaf b0"
    using represents_leaf [OF k(2) i] by blast
  have same: "same_bounds ds ds' I" for I
    using l(1) by (simp add: same_bounds_def ds' nth_list_update)
  have "represents ds' k" unfolding ds' by (rule represents_leaf_update [OF k(2) l])
  moreover have "bucket_ok (ds' ! j) (leaf_nodes (ds' ! j))" if "j \<in> set (leaves_of k)" for j
    using that k(8) b l(1) by (cases "j = i") (simp_all add: ds' nth_list_update)
  moreover have "bits (ds' ! 0) = 160" using same [of UNIV] k(5) by (simp add: same_bounds_def)
  ultimately show ?thesis
    using k nested_same_bounds [OF same] split_around_same_bounds [OF same]
    by (simp add: shape_inv_def ds')
qed

section \<open>Splitting a leaf of a shape\<close>

lemma leaves_split_concat:
  "leaves_of (split_shape i l r k) = concat (map (\<lambda>j. if j = i then [l, r] else [j]) (leaves_of k))"
  by (induction k) auto

lemma nested_split:
  fixes ops :: "('id::linorder) id20_ops"
  assumes i: "node_block ops (ds ! i)" "halves ops (ds ! i) (ds' ! l) (ds' ! r)"
    and lr: "node_block ops (ds' ! l)" "node_block ops (ds' ! r)"
    and same: "same_bounds ds ds' {..<length ds}"
  shows "represents ds k \<Longrightarrow> nested ops ds k \<Longrightarrow> nested ops ds' (split_shape i l r k)"
proof (induction k)
  case (SLeaf j)
  then show ?case using i lr same same_bounds_preds(1) [OF same, of j ops]
    by (auto simp: same_bounds_def halves_def prefix_len_def)
next
  case (SNode j a b)
  then have "root_of a < length ds" "root_of b < length ds"
    using represents_bound [of ds _ "root_of _"] by auto
  with SNode same_bounds_preds(1) [OF same, of j ops]
    same_bounds_preds(4) [OF same, of j "root_of a" "root_of b" ops] show ?case by auto
qed

lemma split_around_split:
  assumes "covers (ds ! i) self" and same: "same_bounds ds ds' {..<length ds}"
  shows "represents ds k \<Longrightarrow> split_around self ds k \<Longrightarrow> split_around self ds' (split_shape i l r k)"
  using assms(1)
proof (induction k)
  case (SLeaf j)
  then show ?case using same_bounds_preds(2) [OF same, of j self] by (cases "j = i") auto
next
  case (SNode j a b)
  then show ?case using same_bounds_preds(2) [OF same, of j self] by simp
qed

section \<open>What an insertion does\<close>

text \<open>
  The abstract effect of an insertion on the stored nodes, and the only two reasons for which a
  node that is not stored may be ignored: the table is full, or its bucket is full of nodes that
  are not bad and does not hold the own identifier, so that it may not be split.
\<close>

fun insert_effect ::
    "instant \<Rightarrow> 'id \<Rightarrow> socket_addr \<Rightarrow> 'id routing_table_node multiset \<Rightarrow> 'id insert_result
      \<Rightarrow> 'id routing_table_node multiset \<Rightarrow> bool" where
  "insert_effect now i addr M WasExisting M' \<longleftrightarrow> i \<in> node_id ` set_mset M \<and> M' = M"
| "insert_effect now i addr M (ReplacedBad old) M' \<longleftrightarrow> i \<notin> node_id ` set_mset M
     \<and> old \<in># M \<and> is_bad now old \<and> M' = add_mset (fresh_node i addr) (M - {#old#})"
| "insert_effect now i addr M Added M' \<longleftrightarrow> i \<notin> node_id ` set_mset M
     \<and> M' = add_mset (fresh_node i addr) M"
| "insert_effect now i addr M Ignored M' \<longleftrightarrow> i \<notin> node_id ` set_mset M \<and> M' = M"

lemma insert_effect_size:
  "insert_effect now i addr (mset xs) r (mset ys) \<Longrightarrow>
    length ys = length xs + (if r = Added then 1 else 0)"
proof (cases r)
  case (ReplacedBad old)
  assume "insert_effect now i addr (mset xs) r (mset ys)"
  with ReplacedBad have "old \<in># mset xs" "mset ys = add_mset (fresh_node i addr) (mset xs - {#old#})" by auto
  then have "add_mset old (mset ys) = add_mset (fresh_node i addr) (mset xs)" by simp
  then have "size (add_mset old (mset ys)) = size (add_mset (fresh_node i addr) (mset xs))" by simp
  with ReplacedBad show ?thesis by simp
qed (auto dest: arg_cong [where f = size])

definition bucket_closed ::
    "instant \<Rightarrow> ('id::linorder) bucket_tree_node \<Rightarrow> 'id \<Rightarrow> 'id \<Rightarrow> bool" where
  "bucket_closed now n self i \<longleftrightarrow> covers n i \<and> \<not> covers n self \<and> length (leaf_nodes n) = 8
     \<and> (\<forall>r \<in> set (leaf_nodes n). \<not> is_bad now r)"

text \<open>What one insertion promises, from any tree that has the shape \<open>k\<close>.\<close>

definition insert_ok ::
    "('id::linorder) id20_ops \<Rightarrow> instant \<Rightarrow> 'id \<Rightarrow> 'id \<Rightarrow> socket_addr \<Rightarrow> 'id bucket_tree \<Rightarrow> shape
      \<Rightarrow> abort + 'id bucket_tree \<times> 'id insert_result \<Rightarrow> bool" where
  "insert_ok ops now self i addr t k res \<longleftrightarrow> (\<exists>t' r k'. res = Inr (t', r)
     \<and> shape_inv ops self (tree_data t') k' \<and> max_size t' = max_size t
     \<and> tree_size t' = tree_size t + (if r = Added then 1 else 0)
     \<and> (r = Added \<longrightarrow> tree_size t \<noteq> max_size t)
     \<and> insert_effect now i addr (mset (shape_nodes (tree_data t) k)) r (mset (shape_nodes (tree_data t') k'))
     \<and> (r = Ignored \<longrightarrow> tree_size t = max_size t
         \<or> (\<exists>j \<in> set (leaves_of k'). bucket_closed now (tree_data t' ! j) self i)))"

section \<open>Lookup and split\<close>

context id20_api
begin

lemma get_leaf_loop_shape:
  "represents (tree_data t) k \<Longrightarrow> nested ops (tree_data t) k \<Longrightarrow> covers (tree_data t ! root_of k) x \<Longrightarrow>
    length (indexes k) \<le> rounds \<Longrightarrow>
    \<exists>i \<in> set (leaves_of k). get_leaf_loop t x rounds (root_of k) = Inr i \<and> covers (tree_data t ! i) x"
proof (induction k arbitrary: rounds)
  case (SLeaf i)
  then show ?case by (cases rounds) auto
next
  case (SNode i l r)
  then obtain n where n: "rounds = Suc n" "length (indexes l) \<le> n" "length (indexes r) \<le> n"
    by (cases rounds) auto
  have h: "node_block ops (tree_data t ! i)"
    "halves ops (tree_data t ! i) (tree_data t ! root_of l) (tree_data t ! root_of r)"
    "node_block ops (tree_data t ! root_of l)" "node_block ops (tree_data t ! root_of r)"
    using SNode.prems(2) nested_root by auto
  have bound: "root_of l < length (tree_data t)" 
    using SNode.prems(1) represents_bound [of "tree_data t" l "root_of l"] by simp
  show ?case
  proof (cases "covers (tree_data t ! root_of l) x")
    case True
    with SNode.IH(1) [OF _ _ True n(2)] SNode.prems n(1) bound show ?thesis
      by (auto simp: covers_def Let_def)
  next
    case False
    then have "covers (tree_data t ! root_of r) x"
      using SNode.prems(3) halves_cover [OF h] by auto
    with SNode.IH(2) [OF _ _ _ n(3)] SNode.prems n(1) bound False show ?thesis
      by (auto simp: covers_def Let_def)
  qed
qed

lemma get_leaf_shape:
  assumes inv: "shape_inv ops self (tree_data t) k"
  shows "\<exists>i \<in> set (leaves_of k). get_leaf t x = Inr i \<and> covers (tree_data t ! i) x"
proof -
  from inv have k: "root_of k = 0" "represents (tree_data t) k" "nested ops (tree_data t) k"
    "length (indexes k) = length (tree_data t)" "bits (tree_data t ! 0) = 160"
    by (simp_all add: shape_inv_def)
  have "covers (tree_data t ! root_of k) x"
    using covers_prefix [OF nested_root [OF k(3)]] k(1,5) by (simp add: prefix_len_def same_prefix_def)
  from get_leaf_loop_shape [OF k(2,3) this, of "Suc (length (tree_data t))"] k(1,4) show ?thesis
    by (simp add: get_leaf_def)
qed

lemma nested_leaf_block: "nested ops ds k \<Longrightarrow> i \<in> set (leaves_of k) \<Longrightarrow> node_block ops (ds ! i)"
  by (induction k) auto

text \<open>Nine identifiers of one block: the block has at least four bits.\<close>

lemma nine_need_four_bits:
  assumes n: "node_block ops n" and ok: "bucket_ok n xs" and len: "8 \<le> length xs"
    and x: "covers n x" "x \<notin> node_id ` set xs"
  shows "4 \<le> unat (bits n)"
proof -
  let ?X = "insert x (node_id ` set xs)"
  have d: "distinct (map node_id xs)" using ok by (simp add: bucket_ok_def strict_sorted_iff)
  then have "card (node_id ` set xs) = length xs"
    by (metis card_distinct distinct_card length_map set_map)
  with x len have nine: "9 \<le> card ?X" by simp
  have "?X \<subseteq> {y. same_prefix ops (prefix_len n) (start n) y}"
    using x ok covers_prefix [OF n] by (auto simp: bucket_ok_def)
  from block_card [OF this] have "card ?X \<le> 2 ^ (160 - prefix_len n)" by (simp add: prefix_len_def)
  also have "160 - prefix_len n = unat (bits n)" using n by (simp add: node_block_def prefix_len_def)
  finally have "9 \<le> (2::nat) ^ unat (bits n)" using nine by simp
  moreover have "(2::nat) ^ unat (bits n) \<le> 2 ^ 3" if "unat (bits n) \<le> 3"
    using that by (intro power_increasing) auto
  ultimately show ?thesis by (cases "unat (bits n) \<le> 3") auto
qed

lemma split_children:
  assumes p: "node_block ops p" and four: "2 \<le> unat (bits p)"
  defines "s \<equiv> start p" and "e \<equiv> end_inclusive p" and "m \<equiv> prefix_len p"
  shows "compute_split_start_end ops (start p) (end_inclusive p) (bits p)
      = Inr ((s, id_set_bit ops e m False), (id_set_bit ops s m True, e))"
    and "checked_sub (bits p) 1 = Inr (bits p - 1)"
    and "bits l = bits p - 1 \<Longrightarrow> start l = s \<Longrightarrow> end_inclusive l = id_set_bit ops e m False \<Longrightarrow> node_block ops l"
    and "bits r = bits p - 1 \<Longrightarrow> start r = id_set_bit ops s m True \<Longrightarrow> end_inclusive r = e \<Longrightarrow> node_block ops r"
    and "bits l = bits p - 1 \<Longrightarrow> start l = s \<Longrightarrow> end_inclusive l = id_set_bit ops e m False \<Longrightarrow>
      bits r = bits p - 1 \<Longrightarrow> start r = id_set_bit ops s m True \<Longrightarrow> end_inclusive r = e \<Longrightarrow> halves ops p l r"
proof -
  have b: "id_block ops m s e" and le: "unat (bits p) \<le> 160"
    using p by (simp_all add: node_block_def m_def s_def e_def)
  have m: "Suc m < 160" using four le by (simp add: m_def prefix_len_def)
  have ne: "bits p \<noteq> 0" using four by auto
  have sub: "unat (bits p - 1) = unat (bits p) - 1" using ne by (rule unat_minus_one)
  have le160: "bits p \<le> 160" using le by (simp add: word_le_nat_alt)
  have "unat (160 - bits p) = m" using le160 by (simp add: unat_sub m_def prefix_len_def)
  with block_cut_order [OF b m] le160
  show "compute_split_start_end ops (start p) (end_inclusive p) (bits p)
      = Inr ((s, id_set_bit ops e m False), (id_set_bit ops s m True, e))"
    by (simp add: compute_split_start_end_def checked_sub_def Let_def s_def e_def)
  show "checked_sub (bits p) 1 = Inr (bits p - 1)"
    using four by (simp add: checked_sub_def word_le_nat_alt)
  have m1: "160 - unat (bits p - 1) = Suc m" using four le sub by (simp add: m_def prefix_len_def)
  note cut = block_cut [OF b Suc_lessD [OF m]]
  show "node_block ops l" if "bits l = bits p - 1" "start l = s" "end_inclusive l = id_set_bit ops e m False"
    using that cut(1) le m1 sub by (simp add: node_block_def prefix_len_def)
  show "node_block ops r" if "bits r = bits p - 1" "start r = id_set_bit ops s m True" "end_inclusive r = e"
    using that cut(2) le m1 sub by (simp add: node_block_def prefix_len_def)
  show "halves ops p l r" if "bits l = bits p - 1" "start l = s" "end_inclusive l = id_set_bit ops e m False"
      "bits r = bits p - 1" "start r = id_set_bit ops s m True" "end_inclusive r = e"
    using that sub four by (simp add: halves_def s_def e_def m_def)
qed

lemma split_leaf_shape:
  assumes inv: "shape_inv ops self (tree_data t) k" and idx: "idx \<in> set (leaves_of k)"
    and b: "node_data (tree_data t ! idx) = Leaf b"
    and self: "covers (tree_data t ! idx) self"
    and four: "4 \<le> unat (bits (tree_data t ! idx))"
  obtains t' rs where
    "split_leaf ops clk t idx (bucket_nodes b)
      = Inr (t', rs, length (tree_data t), Suc (length (tree_data t)))"
    and "tree_size t' = tree_size t" and "max_size t' = max_size t"
    and "shape_inv ops self (tree_data t')
      (split_shape idx (length (tree_data t)) (Suc (length (tree_data t))) k)"
    and "mset (shape_nodes (tree_data t')
      (split_shape idx (length (tree_data t)) (Suc (length (tree_data t))) k))
      = mset (shape_nodes (tree_data t) k)"
    and "\<And>x. covers (tree_data t ! idx) x \<Longrightarrow>
      covers (tree_data t' ! (if x < rs then length (tree_data t) else Suc (length (tree_data t)))) x"
proof -
  let ?ds = "tree_data t" and ?n = "length (tree_data t)" and ?p = "tree_data t ! idx"
  let ?m = "prefix_len ?p"
  from inv have k: "root_of k = 0" "represents ?ds k" "distinct (indexes k)"
    "length (indexes k) = ?n" "bits (?ds ! 0) = 160" "nested ops ?ds k"
    "split_around self ?ds k" "\<forall>i \<in> set (leaves_of k). bucket_ok (?ds ! i) (leaf_nodes (?ds ! i))"
    by (simp_all add: shape_inv_def)
  have l: "idx < ?n" using represents_leaf [OF k(2) idx] by blast
  have p: "node_block ops ?p" using nested_leaf_block [OF k(6) idx] .
  have ok: "bucket_ok ?p (bucket_nodes b)" using k(8) idx b by (auto simp: leaf_nodes_def)
  note ch = split_children [OF p, simplified]
  define rs where "rs = id_set_bit ops (start ?p) ?m True"
  define left where "left = \<lparr>bits = bits ?p - 1, start = start ?p,
    end_inclusive = id_set_bit ops (end_inclusive ?p) ?m False,
    node_data = Leaf ((default_leaf_bucket (clk ?n))\<lparr>bucket_nodes :=
      filter (\<lambda>n. node_id n < rs) (bucket_nodes b)\<rparr>)\<rparr>"
  define right where "right = \<lparr>bits = bits ?p - 1, start = rs, end_inclusive = end_inclusive ?p,
    node_data = Leaf ((default_leaf_bucket (clk (Suc ?n)))\<lparr>bucket_nodes :=
      filter (\<lambda>n. \<not> node_id n < rs) (bucket_nodes b)\<rparr>)\<rparr>"
  define t' where "t' = set_node_data (t\<lparr>tree_data := ?ds @ [left, right]\<rparr>) idx (LeftRight ?n (Suc ?n))"
  let ?ds' = "tree_data t'" and ?k' = "split_shape idx ?n (Suc ?n) k"
  have ds': "?ds' = (?ds @ [left, right])[idx := ?p\<lparr>node_data := LeftRight ?n (Suc ?n)\<rparr>]"
    using l by (simp add: t'_def set_node_data_def nth_append)
  have at: "?ds' ! ?n = left" "?ds' ! Suc ?n = right" "length ?ds' = Suc (Suc ?n)"
    "\<And>j. j < ?n \<Longrightarrow> j \<noteq> idx \<Longrightarrow> ?ds' ! j = ?ds ! j"
    using l by (auto simp: ds' nth_list_update nth_append)
  have same: "same_bounds ?ds ?ds' {..<?n}"
    using l by (auto simp: same_bounds_def ds' nth_list_update nth_append)
  have blocks: "node_block ops left" "node_block ops right" "halves ops ?p left right"
    using ch(3) [of left] ch(4) [of right] ch(5) [of left right] four
    by (simp_all add: left_def right_def rs_def)
  note cover = halves_cover [OF p blocks(3,1,2)]
  have less: "x < rs \<longleftrightarrow> \<not> id_get_bit ops x ?m" if "covers ?p x" for x
    unfolding rs_def
  proof (rule block_cut_less)
    show "id_block ops ?m (start ?p) (end_inclusive ?p)" using p by (simp add: node_block_def)
    show "?m < 160" using four p by (simp add: prefix_len_def node_block_def)
    show "same_prefix ops ?m (start ?p) x" using covers_prefix [OF p] that by simp
  qed
  have "split_leaf ops clk t idx (bucket_nodes b) = Inr (t', rs, ?n, Suc ?n)"
    using ch(1,2) four
    by (simp add: split_leaf_def Let_def t'_def left_def right_def rs_def)
  moreover have "tree_size t' = tree_size t" "max_size t' = max_size t"
    by (simp_all add: t'_def set_node_data_def)
  moreover have "shape_inv ops self ?ds' ?k'"
  proof -
    have "represents ?ds' ?k'"
      by (rule represents_split [OF l b _ _ ds' k(2)]) (simp_all add: left_def right_def)
    moreover have "nested ops ?ds' ?k'"
      using nested_split [OF p _ _ _ same k(2,6), of ?n "Suc ?n"] blocks at by simp
    moreover have "split_around self ?ds' ?k'"
      by (rule split_around_split [OF self same k(2,7)])
    moreover have "mset (indexes ?k') = mset (indexes k) + {#?n, Suc ?n#}"
      by (rule indexes_split_shape [OF k(3) idx])
    moreover from this have "length (indexes ?k') = Suc (Suc ?n)"
      by (metis k(4) add_2_eq_Suc' size_add_mset size_empty size_mset size_union numeral_2_eq_2)
    moreover have "distinct (indexes ?k')"
    proof -
      have "?n \<notin> set (indexes k)" "Suc ?n \<notin> set (indexes k)"
        using represents_bound [OF k(2), of ?n] represents_bound [OF k(2), of "Suc ?n"] by auto
      then have "distinct (?n # Suc ?n # indexes k)" using k(3) by simp
      moreover have "mset (?n # Suc ?n # indexes k) = mset (indexes ?k')"
        using indexes_split_shape [OF k(3) idx, of ?n "Suc ?n"] by simp
      ultimately show ?thesis by (metis mset_eq_imp_distinct_iff)
    qed
    moreover have "bucket_ok left (leaf_nodes left)" "bucket_ok right (leaf_nodes right)"
      using ok cover less
      by (auto simp: bucket_ok_def left_def right_def leaf_nodes_def sorted_wrt_map_filter
          intro!: le_trans [OF length_filter_le])
    then have "bucket_ok (?ds' ! i) (leaf_nodes (?ds' ! i))" if leaf: "i \<in> set (leaves_of ?k')" for i
    proof -
      consider "i = ?n" | "i = Suc ?n" | "i \<in> set (leaves_of k)" "i \<noteq> idx"
        using leaf leaves_split_shape [of idx ?n "Suc ?n" k] by auto
      then show ?thesis
      proof cases
        case 3
        then show ?thesis using k(8) at(4) represents_leaf [OF k(2) 3(1)] by simp
      qed (use \<open>bucket_ok left (leaf_nodes left)\<close> \<open>bucket_ok right (leaf_nodes right)\<close> at in simp_all)
    qed
    moreover have "bits (?ds' ! 0) = 160"
      using bspec [OF same [unfolded same_bounds_def], of 0] k(5) l by fastforce
    ultimately show ?thesis using k(1) at(3) by (simp add: shape_inv_def)
  qed
  moreover have "mset (shape_nodes ?ds' ?k') = mset (shape_nodes ?ds k)"
  proof -
    have "mset (concat (map (\<lambda>i. leaf_nodes (?ds' ! i)) (if j = idx then [?n, Suc ?n] else [j])))
        = mset (leaf_nodes (?ds ! j))" if "j \<in> set (leaves_of k)" for j
      using that at represents_leaf [OF k(2) that] b
      by (auto simp: left_def right_def leaf_nodes_def)
    then show ?thesis
      unfolding shape_nodes_def leaves_split_concat by (rule mset_concat_map_concat)
  qed
  moreover have "covers (?ds' ! (if x < rs then ?n else Suc ?n)) x" if "covers ?p x" for x
    using that less [OF that] cover [of x] at(1,2) by auto
  ultimately show thesis by (rule that)
qed

lemma bucket_ok_insert:
  assumes ok: "bucket_ok n xs" and new: "node_id r \<notin> node_id ` set xs" and c: "covers n (node_id r)"
    and ys: "mset ys = add_mset r (mset xs)" and len: "length xs < 8"
  shows "bucket_ok n (sort_key node_id ys)"
proof -
  have set_ys: "set ys = insert r (set xs)" using ys by (metis set_mset_mset set_mset_add_mset_insert)
  have "distinct (map node_id (r # xs))" using ok new by (simp add: bucket_ok_def strict_sorted_iff)
  moreover have "mset (map node_id ys) = mset (map node_id (r # xs))" using ys by simp
  ultimately have "distinct (map node_id ys)" by (metis mset_eq_imp_distinct_iff)
  moreover have "length ys \<le> 8" using ys len by (metis size_add_mset size_mset Suc_leI)
  ultimately show ?thesis
    using ok c set_ys by (simp add: bucket_ok_def strict_sorted_iff)
qed

lemma bucket_ok_subset:
  assumes ok: "bucket_ok n xs" and xs: "xs = ys @ x # zs"
  shows "bucket_ok n (ys @ zs)"
  using ok by (simp add: bucket_ok_def xs sorted_wrt_append)

lemma shape_id_stored:
  assumes inv: "shape_inv ops self (tree_data t) k" and idx: "idx \<in> set (leaves_of k)"
    and c: "covers (tree_data t ! idx) i"
  shows "i \<in> node_id ` set (shape_nodes (tree_data t) k) \<longleftrightarrow> i \<in> node_id ` set (leaf_nodes (tree_data t ! idx))"
proof
  assume "i \<in> node_id ` set (shape_nodes (tree_data t) k)"
  then obtain j r where j: "j \<in> set (leaves_of k)" "r \<in> set (leaf_nodes (tree_data t ! j))" "i = node_id r"
    by (auto simp: shape_nodes_def)
  moreover from this inv have "covers (tree_data t ! j) i" by (auto simp: shape_inv_def bucket_ok_def)
  with inv idx c j have "j = idx" by (auto simp: shape_inv_def intro: leaf_unique)
  ultimately show "i \<in> node_id ` set (leaf_nodes (tree_data t ! idx))" by simp
next
  assume "i \<in> node_id ` set (leaf_nodes (tree_data t ! idx))"
  with idx show "i \<in> node_id ` set (shape_nodes (tree_data t) k)" by (auto simp: shape_nodes_def)
qed

lemma store_in_leaf:
  fixes now :: instant
  assumes inv: "shape_inv ops self (tree_data t) k" and idx: "idx \<in> set (leaves_of k)"
    and c: "covers (tree_data t ! idx) (node_id r)"
    and xs: "bucket_ok (tree_data t ! idx) xs" "length xs < 8" "node_id r \<notin> node_id ` set xs"
    and ys: "mset ys = add_mset r (mset xs)"
  defines "t' \<equiv> set_node_data t idx (Leaf \<lparr>bucket_nodes = sort_key node_id ys, last_refreshed = now\<rparr>)"
  shows "shape_inv ops self (tree_data t') k"
    and "mset (shape_nodes (tree_data t') k) + mset (leaf_nodes (tree_data t ! idx))
      = mset (shape_nodes (tree_data t) k) + add_mset r (mset xs)"
proof -
  let ?b = "\<lparr>bucket_nodes = sort_key node_id ys, last_refreshed = now\<rparr>"
  have t': "tree_data t' = (tree_data t)[idx := (tree_data t ! idx)\<lparr>node_data := Leaf ?b\<rparr>]"
    by (simp add: t'_def set_node_data_def)
  show "shape_inv ops self (tree_data t') k"
    by (rule shape_inv_leaf_update [OF inv idx _ t']) (simp add: bucket_ok_insert [OF xs(1,3) c ys xs(2)])
  from inv have "represents (tree_data t) k" "distinct (indexes k)" by (simp_all add: shape_inv_def)
  from shape_nodes_leaf_update [OF this idx t'] ys
  show "mset (shape_nodes (tree_data t') k) + mset (leaf_nodes (tree_data t ! idx))
      = mset (shape_nodes (tree_data t) k) + add_mset r (mset xs)" by simp
qed

lemma insert_round_replace:
  assumes inv: "shape_inv ops self (tree_data t) k" and idx: "idx \<in> set (leaves_of k)"
    and b: "node_data (tree_data t ! idx) = Leaf b" and c: "covers (tree_data t ! idx) i"
    and new: "i \<notin> node_id ` set (bucket_nodes b)"
    and bad: "find (is_bad now) (bucket_nodes b) = Some old"
  shows "insert_ok ops now self i addr t k (Inr (set_node_data t idx (Leaf \<lparr>bucket_nodes = sort_key node_id
      (update_first (is_bad now) (\<lambda>_. fresh_node i addr) (bucket_nodes b)), last_refreshed = now\<rparr>),
      ReplacedBad old))" (is "insert_ok _ _ _ _ _ _ _ (Inr (?t', _))")
proof -
  obtain ys zs where xs: "bucket_nodes b = ys @ old # zs" "is_bad now old" "\<forall>y \<in> set ys. \<not> is_bad now y"
    using find_Some_split [OF bad] by blast
  have ok: "bucket_ok (tree_data t ! idx) (bucket_nodes b)"
    using inv idx b by (auto simp: shape_inv_def leaf_nodes_def)
  have leaf: "leaf_nodes (tree_data t ! idx) = bucket_nodes b" using b by (simp add: leaf_nodes_def)
  have old: "old \<in># mset (shape_nodes (tree_data t) k)"
    using idx leaf xs(1) by (force simp: shape_nodes_def)
  note store = store_in_leaf [OF inv idx _ bucket_ok_subset [OF ok xs(1)], of "fresh_node i addr"
      "ys @ fresh_node i addr # zs" now]
  have len: "length (ys @ zs) < 8" using ok by (simp add: bucket_ok_def xs(1))
  have new': "i \<notin> node_id ` set (ys @ zs)" using new xs(1) by simp
  have cut: "mset (bucket_nodes b) = add_mset old (mset (ys @ zs))" using xs(1) by simp
  have "mset (shape_nodes (tree_data ?t') k) + {#old#}
      = add_mset (fresh_node i addr) (mset (shape_nodes (tree_data t) k))"
    using store(2) c new' len by (simp add: leaf cut update_first_find [OF xs])
  then have "mset (shape_nodes (tree_data ?t') k)
      = add_mset (fresh_node i addr) (mset (shape_nodes (tree_data t) k) - {#old#})"
    using old by (metis add_mset_add_single diff_union_single_conv diff_union_swap insert_DiffM
        diff_union_single_conv add_mset_remove_trivial)
  moreover have "shape_inv ops self (tree_data ?t') k"
    using store(1) c new' len by (simp add: update_first_find [OF xs])
  moreover have "i \<notin> node_id ` set (shape_nodes (tree_data t) k)"
    using shape_id_stored [OF inv idx c] new leaf by simp
  ultimately show ?thesis
    using old xs(2) by (auto simp: insert_ok_def set_node_data_def)
qed

lemma insert_round_add:
  assumes inv: "shape_inv ops self (tree_data t) k" and idx: "idx \<in> set (leaves_of k)"
    and b: "node_data (tree_data t ! idx) = Leaf b" and c: "covers (tree_data t ! idx) i"
    and new: "i \<notin> node_id ` set (bucket_nodes b)" and len: "length (bucket_nodes b) < 8"
    and room: "tree_size t \<noteq> max_size t"
  shows "insert_ok ops now self i addr t k (Inr ((set_node_data t idx (Leaf \<lparr>bucket_nodes = sort_key node_id
      (bucket_nodes b @ [fresh_node i addr]), last_refreshed = now\<rparr>))\<lparr>tree_size := tree_size t + 1\<rparr>, Added))"
    (is "insert_ok _ _ _ _ _ _ _ (Inr (?t'\<lparr>tree_size := _\<rparr>, _))")
proof -
  have ok: "bucket_ok (tree_data t ! idx) (bucket_nodes b)"
    using inv idx b by (auto simp: shape_inv_def leaf_nodes_def)
  have leaf: "leaf_nodes (tree_data t ! idx) = bucket_nodes b" using b by (simp add: leaf_nodes_def)
  note store = store_in_leaf [OF inv idx _ ok len, of "fresh_node i addr"
      "bucket_nodes b @ [fresh_node i addr]" now]
  have "mset (shape_nodes (tree_data ?t') k)
      = add_mset (fresh_node i addr) (mset (shape_nodes (tree_data t) k))"
    using store(2) c new by (simp add: leaf)
  moreover have "shape_inv ops self (tree_data ?t') k" using store(1) c new by simp
  moreover have "i \<notin> node_id ` set (shape_nodes (tree_data t) k)"
    using shape_id_stored [OF inv idx c] new leaf by simp
  ultimately show ?thesis using room by (auto simp: insert_ok_def set_node_data_def)
qed

lemma insert_ok_none:
  assumes inv: "shape_inv ops self (tree_data t) k" and idx: "idx \<in> set (leaves_of k)"
    and c: "covers (tree_data t ! idx) i"
  shows "i \<in> node_id ` set (leaf_nodes (tree_data t ! idx)) \<Longrightarrow>
      insert_ok ops now self i addr t k (Inr (t, WasExisting))"
    and "i \<notin> node_id ` set (leaf_nodes (tree_data t ! idx)) \<Longrightarrow>
      tree_size t = max_size t \<or> bucket_closed now (tree_data t ! idx) self i \<Longrightarrow>
      insert_ok ops now self i addr t k (Inr (t, Ignored))"
  using inv idx shape_id_stored [OF inv idx c] by (auto simp: insert_ok_def)

lemma insert_ok_after_split:
  assumes "insert_ok ops now self i addr t' k' res"
    and "max_size t' = max_size t" and "tree_size t' = tree_size t"
    and "mset (shape_nodes (tree_data t') k') = mset (shape_nodes (tree_data t) k)"
  shows "insert_ok ops now self i addr t k res"
  using assms by (simp add: insert_ok_def)

lemma insert_into_leaf_shape:
  "shape_inv ops self (tree_data t) k \<Longrightarrow> idx \<in> set (leaves_of k) \<Longrightarrow> covers (tree_data t ! idx) i \<Longrightarrow>
    insert_ok ops now self i addr t k (insert_into_leaf ops clk now t idx self i addr)"
proof (induction "unat (bits (tree_data t ! idx))" arbitrary: t idx k rule: less_induct)
  case less
  note inv = less.prems(1) and idx = less.prems(2) and c = less.prems(3)
  obtain b where b: "idx < length (tree_data t)" "node_data (tree_data t ! idx) = Leaf b"
    using inv represents_leaf [OF _ idx, of "tree_data t"] by (auto simp: shape_inv_def)
  have leaf: "leaf_nodes (tree_data t ! idx) = bucket_nodes b" using b by (simp add: leaf_nodes_def)
  have ok: "bucket_ok (tree_data t ! idx) (bucket_nodes b)"
    using inv idx leaf by (auto simp: shape_inv_def)
  note step = insert_into_leaf.simps [of ops clk now t idx self i addr]
  show ?case
  proof (cases "i \<in> node_id ` set (bucket_nodes b)")
    case True
    then have "\<exists>r \<in> set (bucket_nodes b). node_id r = i" by auto
    then have "insert_into_leaf ops clk now t idx self i addr = Inr (t, WasExisting)"
      using b by (simp add: step)
    then show ?thesis using insert_ok_none(1) [OF inv idx c] True leaf by simp
  next
    case new: False
    then have absent: "\<not> (\<exists>r \<in> set (bucket_nodes b). node_id r = i)" by auto
    show ?thesis
    proof (cases "find (is_bad now) (bucket_nodes b)")
      case (Some old)
      with insert_round_replace [OF inv idx b(2) c new Some] b absent show ?thesis
        by (simp add: step Let_def)
    next
      case None
      consider "tree_size t = max_size t" | "tree_size t \<noteq> max_size t" "length (bucket_nodes b) < 8"
        | "tree_size t \<noteq> max_size t" "length (bucket_nodes b) = 8" "\<not> covers (tree_data t ! idx) self"
        | "tree_size t \<noteq> max_size t" "length (bucket_nodes b) = 8" "covers (tree_data t ! idx) self"
        using ok by (auto simp: bucket_ok_def nat_less_le)
      then show ?thesis
      proof cases
        case 1
        then show ?thesis
          using insert_ok_none(2) [OF inv idx c] None new leaf b absent by (simp add: step Let_def)
      next
        case 2
        then show ?thesis
          using insert_round_add [OF inv idx b(2) c new] None b absent by (simp add: step Let_def)
      next
        case 3
        then have "self < start (tree_data t ! idx) \<or> end_inclusive (tree_data t ! idx) < self"
          by (auto simp: covers_def not_le)
        moreover have "bucket_closed now (tree_data t ! idx) self i"
          using 3 c leaf None by (auto simp: bucket_closed_def find_None_iff)
        ultimately show ?thesis
          using insert_ok_none(2) [OF inv idx c] None new leaf b absent 3 by (simp add: step Let_def)
      next
        case 4
        let ?n = "length (tree_data t)"
        let ?k' = "split_shape idx ?n (Suc ?n) k"
        have p: "node_block ops (tree_data t ! idx)"
          using inv idx nested_leaf_block by (auto simp: shape_inv_def)
        have four: "4 \<le> unat (bits (tree_data t ! idx))"
          using nine_need_four_bits [OF p ok _ c new] 4 by simp
        obtain t' rs where t': "split_leaf ops clk t idx (bucket_nodes b) = Inr (t', rs, ?n, Suc ?n)"
          "tree_size t' = tree_size t" "max_size t' = max_size t"
          "shape_inv ops self (tree_data t') ?k'"
          "mset (shape_nodes (tree_data t') ?k') = mset (shape_nodes (tree_data t) k)"
          "\<And>x. covers (tree_data t ! idx) x \<Longrightarrow>
            covers (tree_data t' ! (if x < rs then ?n else Suc ?n)) x"
          using split_leaf_shape [OF inv idx b(2) 4(3) four, where clk = clk] by blast
        define j where "j = (if i < rs then ?n else Suc ?n)"
        have "unat (bits (tree_data t' ! j)) < unat (bits (tree_data t ! idx))"
          using split_leaf_bits [OF t'(1) b(1)] by (simp add: j_def)
        moreover have "j \<in> set (leaves_of ?k')"
          using idx by (auto simp: leaves_split_concat j_def)
        ultimately have "insert_ok ops now self i addr t' ?k' (insert_into_leaf ops clk now t' j self i addr)"
          using less.hyps [of t' j ?k'] t'(4) t'(6) [OF c] by (simp add: j_def)
        then have "insert_ok ops now self i addr t k (insert_into_leaf ops clk now t' j self i addr)"
          by (rule insert_ok_after_split) (simp_all add: t')
        moreover have "insert_into_leaf ops clk now t idx self i addr
            = insert_into_leaf ops clk now t' j self i addr"
          using b absent None 4 t'(1) by (simp add: step Let_def j_def covers_def not_less [symmetric])
        ultimately show ?thesis by simp
      qed
    qed
  qed
qed

section \<open>Mutation of one node\<close>

lemma bucket_ok_map:
  assumes "bucket_ok n xs" and "\<And>r. node_id (f r) = node_id r"
  shows "bucket_ok n (map f xs)"
  using assms by (simp add: bucket_ok_def comp_def)

lemma get_mut_shape:
  fixes i :: 'id
  assumes inv: "shape_inv ops self (tree_data t) k" and f: "\<And>r. node_id (f r) = node_id r"
  defines "found \<equiv> i \<in> node_id ` set (shape_nodes (tree_data t) k)"
  shows "\<exists>t'. get_mut t i refresh f = Inr (t', found) \<and> shape_inv ops self (tree_data t') k
    \<and> tree_size t' = tree_size t \<and> max_size t' = max_size t \<and> (\<not> found \<longrightarrow> t' = t)
    \<and> shape_nodes (tree_data t') k
        = map (\<lambda>r. if node_id r = i then f r else r) (shape_nodes (tree_data t) k)"
proof -
  let ?g = "\<lambda>r. if node_id r = i then f r else r"
  obtain idx where idx: "idx \<in> set (leaves_of k)" "get_leaf t i = Inr idx" "covers (tree_data t ! idx) i"
    using get_leaf_shape [OF inv] by blast
  have k: "represents (tree_data t) k" "nested ops (tree_data t) k"
    "\<forall>j \<in> set (leaves_of k). bucket_ok (tree_data t ! j) (leaf_nodes (tree_data t ! j))"
    using inv by (simp_all add: shape_inv_def)
  obtain b where b: "idx < length (tree_data t)" "node_data (tree_data t ! idx) = Leaf b"
    using represents_leaf [OF k(1) idx(1)] by blast
  have leaf: "leaf_nodes (tree_data t ! idx) = bucket_nodes b" using b by (simp add: leaf_nodes_def)
  have found: "found \<longleftrightarrow> (\<exists>r \<in> set (bucket_nodes b). node_id r = i)"
    unfolding found_def shape_id_stored [OF inv idx(1,3)] leaf by auto
  show ?thesis
  proof (cases found)
    case False
    then have "map ?g (shape_nodes (tree_data t) k) = shape_nodes (tree_data t) k"
      unfolding found_def by (intro map_idI) auto
    with False found idx(2) b inv show ?thesis by (simp add: get_mut_def)
  next
    case True
    have dist: "distinct (map node_id (bucket_nodes b))"
      using k(3) idx(1) leaf by (auto simp: bucket_ok_def strict_sorted_iff)
    define b' where "b' = (case refresh of Some r \<Rightarrow> b\<lparr>bucket_nodes := map ?g (bucket_nodes b), last_refreshed := r\<rparr>
      | None \<Rightarrow> b\<lparr>bucket_nodes := map ?g (bucket_nodes b)\<rparr>)"
    have b': "bucket_nodes b' = map ?g (leaf_nodes (tree_data t ! idx))"
      by (simp add: b'_def leaf split: option.splits)
    let ?t' = "set_node_data t idx (Leaf b')"
    have t': "tree_data ?t' = (tree_data t)[idx := (tree_data t ! idx)\<lparr>node_data := Leaf b'\<rparr>]"
      by (simp add: set_node_data_def)
    have "get_mut t i refresh f = Inr (?t', True)"
      using True found idx(2) b
      by (simp add: get_mut_def Let_def update_first_distinct [OF dist] b'_def split: option.splits)
    moreover have "shape_inv ops self (tree_data ?t') k"
      using k(3) idx(1) f by (intro shape_inv_leaf_update [OF inv idx(1) _ t']) (auto simp: b' intro: bucket_ok_map)
    moreover have "shape_nodes (tree_data ?t') k = map ?g (shape_nodes (tree_data t) k)"
    proof -
      have "leaf_nodes (tree_data ?t' ! j) = map ?g (leaf_nodes (tree_data t ! j))"
        if j: "j \<in> set (leaves_of k)" for j
      proof (cases "j = idx")
        case False
        then have "\<not> covers (tree_data t ! j) i" using leaf_unique [OF k(2) j idx(1)] idx(3) by blast
        then have "\<forall>r \<in> set (leaf_nodes (tree_data t ! j)). node_id r \<noteq> i"
          using k(3) j by (auto simp: bucket_ok_def)
        then have "map ?g (leaf_nodes (tree_data t ! j)) = leaf_nodes (tree_data t ! j)"
          by (intro map_idI) auto
        with False show ?thesis by (simp add: t')
      qed (simp add: t' b b')
      then show ?thesis by (simp add: shape_nodes_def map_concat comp_def cong: map_cong)
    qed
    ultimately show ?thesis using True by (simp add: set_node_data_def)
  qed
qed

section \<open>The operations under the invariant\<close>

lemma tree_inv_iter:
  assumes "tree_inv ops self t"
  obtains k where "shape_inv ops self (tree_data t) k"
    and "bucket_iter t = Some (shape_nodes (tree_data t) k)"
    and "tree_size t = length (shape_nodes (tree_data t) k)" and "tree_size t \<le> max_size t"
proof -
  from assms obtain k where k: "shape_inv ops self (tree_data t) k"
    "tree_size t = length (shape_nodes (tree_data t) k)" "tree_size t \<le> max_size t"
    unfolding tree_inv_def by blast
  then have "bucket_iter t = Some (shape_nodes (tree_data t) k)"
    by (intro bucket_iter_shape) (simp_all add: shape_inv_def)
  with k that show thesis by blast
qed

lemma tree_inv_shape:
  assumes "shape_inv ops self (tree_data t) k" and "tree_size t \<le> max_size t"
    and "tree_size t = length (shape_nodes (tree_data t) k)"
  shows "tree_inv ops self t" and "bucket_iter t = Some (shape_nodes (tree_data t) k)"
proof -
  show "tree_inv ops self t" using assms unfolding tree_inv_def by blast
  show "bucket_iter t = Some (shape_nodes (tree_data t) k)"
    using assms(1) by (intro bucket_iter_shape) (simp_all add: shape_inv_def)
qed

lemma tree_inv_new: "tree_inv ops self (bucket_tree_new ops m now)"
proof -
  have "shape_inv ops self (tree_data (bucket_tree_new ops m now)) (SLeaf 0)"
    using root_block by (simp add: shape_inv_def bucket_tree_new_def default_leaf_bucket_def
        node_block_def prefix_len_def bucket_ok_def leaf_nodes_def)
  then show ?thesis by (rule tree_inv_shape) (simp_all add: bucket_tree_new_def leaf_nodes_def default_leaf_bucket_def)
qed

lemma tree_inv_sorted:
  assumes "tree_inv ops self t" and "bucket_iter t = Some xs"
  shows "sorted_wrt (<) (map node_id xs)" and "length xs = tree_size t" and "tree_size t \<le> max_size t"
proof -
  obtain k where k: "shape_inv ops self (tree_data t) k" "bucket_iter t = Some (shape_nodes (tree_data t) k)"
    "tree_size t = length (shape_nodes (tree_data t) k)" "tree_size t \<le> max_size t"
    using tree_inv_iter [OF assms(1)] by blast
  have "nested ops (tree_data t) k"
    "\<forall>i \<in> set (leaves_of k). bucket_ok (tree_data t ! i) (leaf_nodes (tree_data t ! i))"
    using k(1) by (simp_all add: shape_inv_def)
  from shape_nodes_sorted [OF this] k assms(2)
  show "sorted_wrt (<) (map node_id xs)" "length xs = tree_size t" "tree_size t \<le> max_size t"
    by simp_all
qed

lemma tree_inv_add:
  assumes "tree_inv ops self t" and "bucket_iter t = Some xs"
  shows "\<exists>t' r xs'. bucket_add_node ops clk now t self i addr = Inr (t', r) \<and> tree_inv ops self t'
    \<and> max_size t' = max_size t \<and> tree_size t' = tree_size t + (if r = Added then 1 else 0)
    \<and> bucket_iter t' = Some xs' \<and> insert_effect now i addr (mset xs) r (mset xs')
    \<and> (r = Ignored \<longrightarrow> tree_size t = max_size t
        \<or> (\<exists>n \<in> set (tree_data t'). bucket_closed now n self i))"
proof -
  obtain k where k: "shape_inv ops self (tree_data t) k" "bucket_iter t = Some (shape_nodes (tree_data t) k)"
    "tree_size t = length (shape_nodes (tree_data t) k)" "tree_size t \<le> max_size t"
    using tree_inv_iter [OF assms(1)] by blast
  obtain idx where idx: "idx \<in> set (leaves_of k)" "get_leaf t i = Inr idx" "covers (tree_data t ! idx) i"
    using get_leaf_shape [OF k(1)] by blast
  have "insert_ok ops now self i addr t k (bucket_add_node ops clk now t self i addr)"
    using insert_into_leaf_shape [OF k(1) idx(1,3)] idx(2) by (simp add: bucket_add_node_def)
  then obtain t' r k' where r: "bucket_add_node ops clk now t self i addr = Inr (t', r)"
    "shape_inv ops self (tree_data t') k'" "max_size t' = max_size t"
    "tree_size t' = tree_size t + (if r = Added then 1 else 0)" "r = Added \<longrightarrow> tree_size t \<noteq> max_size t"
    "insert_effect now i addr (mset (shape_nodes (tree_data t) k)) r (mset (shape_nodes (tree_data t') k'))"
    "r = Ignored \<longrightarrow> tree_size t = max_size t
      \<or> (\<exists>j \<in> set (leaves_of k'). bucket_closed now (tree_data t' ! j) self i)"
    unfolding insert_ok_def by blast
  have "length (shape_nodes (tree_data t') k') = tree_size t'"
    using insert_effect_size [OF r(6)] unfolding r(4) k(3) .
  moreover have "tree_size t' \<le> max_size t'" using r(3,4,5) k(4) by auto
  ultimately have t': "tree_inv ops self t'" "bucket_iter t' = Some (shape_nodes (tree_data t') k')"
    using tree_inv_shape [OF r(2) _ sym] by blast+
  have rep: "represents (tree_data t') k'" using r(2) by (simp add: shape_inv_def)
  have "\<exists>n \<in> set (tree_data t'). bucket_closed now n self i"
    if "\<exists>j \<in> set (leaves_of k'). bucket_closed now (tree_data t' ! j) self i"
  proof -
    from that obtain j where "j \<in> set (leaves_of k')" "bucket_closed now (tree_data t' ! j) self i" by blast
    with represents_leaf [OF rep] show ?thesis by (auto intro: nth_mem)
  qed
  then have "r = Ignored \<longrightarrow> tree_size t = max_size t \<or> (\<exists>n \<in> set (tree_data t'). bucket_closed now n self i)"
    using r(7) by blast
  moreover have "insert_effect now i addr (mset xs) r (mset (shape_nodes (tree_data t') k'))"
    using r(6) k(2) assms(2) by simp
  ultimately show ?thesis
    using r(1,3,4) t' by (intro exI [of _ t'] exI [of _ r] exI [of _ "shape_nodes (tree_data t') k'"]) simp
qed

lemma tree_inv_get_mut:
  assumes "tree_inv ops self t" and "bucket_iter t = Some xs" and "\<And>r. node_id (f r) = node_id r"
  shows "\<exists>t'. get_mut t i refresh f = Inr (t', i \<in> node_id ` set xs) \<and> tree_inv ops self t'
    \<and> tree_size t' = tree_size t \<and> max_size t' = max_size t
    \<and> bucket_iter t' = Some (map (\<lambda>r. if node_id r = i then f r else r) xs)"
proof -
  obtain k where k: "shape_inv ops self (tree_data t) k" "bucket_iter t = Some (shape_nodes (tree_data t) k)"
    "tree_size t = length (shape_nodes (tree_data t) k)" "tree_size t \<le> max_size t"
    using tree_inv_iter [OF assms(1)] by blast
  then have xs: "xs = shape_nodes (tree_data t) k" using assms(2) by simp
  obtain t' where t': "get_mut t i refresh f = Inr (t', i \<in> node_id ` set xs)"
    "shape_inv ops self (tree_data t') k" "tree_size t' = tree_size t" "max_size t' = max_size t"
    "shape_nodes (tree_data t') k = map (\<lambda>r. if node_id r = i then f r else r) xs"
    using get_mut_shape [OF k(1) assms(3)] xs by blast
  have "tree_inv ops self t'" "bucket_iter t' = Some (shape_nodes (tree_data t') k)"
    using t'(3-5) k(3,4) xs tree_inv_shape [OF t'(2)] by simp_all
  with t' show ?thesis by simp
qed

lemma tree_inv_bound:
  assumes "tree_inv ops self t"
  shows "length (tree_data t) \<le> 321"
proof -
  obtain k where k: "shape_inv ops self (tree_data t) k" using tree_inv_iter [OF assms] by blast
  then have "nested ops (tree_data t) k" "split_around self (tree_data t) k"
    "bits (tree_data t ! root_of k) = 160" "length (indexes k) = length (tree_data t)"
    by (simp_all add: shape_inv_def)
  from indexes_bound [OF this(1,2)] this(3,4) show ?thesis by (auto split: if_splits)
qed

text \<open>The buckets partition the identifiers.\<close>

lemma filter_unique:
  "distinct xs \<Longrightarrow> idx \<in> set xs \<Longrightarrow> (\<And>j. j \<in> set xs \<Longrightarrow> P j \<longleftrightarrow> j = idx) \<Longrightarrow> filter P xs = [idx]"
proof (induction xs)
  case (Cons a xs)
  then show ?case by (cases "a = idx") (auto simp: filter_empty_conv)
qed simp

lemma leaves_covering:
  assumes "nested ops ds k" and "distinct (indexes k)" and "idx \<in> set (leaves_of k)"
    and "covers (ds ! idx) x"
  shows "filter (\<lambda>j. covers (ds ! j) x) (leaves_of k) = [idx]"
proof (rule filter_unique)
  show "distinct (leaves_of k)" by (rule distinct_leaves [OF assms(2)])
  show "covers (ds ! j) x \<longleftrightarrow> j = idx" if "j \<in> set (leaves_of k)" for j
    using leaf_unique [OF assms(1) that assms(3)] assms(4) by blast
qed (rule assms(3))

lemma filter_concat_only:
  assumes "\<And>j. j \<in> set js \<Longrightarrow> \<not> Q j \<Longrightarrow> filter P (f j) = []"
  shows "filter P (concat (map f js)) = filter P (concat (map f (filter Q js)))"
  using assms by (induction js) auto

lemma tree_inv_partition:
  assumes "tree_inv ops self t"
  shows "\<exists>idx leaf items nodes. get_leaf t x = Inr idx \<and> node_data (tree_data t ! idx) = Leaf leaf
    \<and> iter_leaves t = Some items \<and> bucket_iter t = Some nodes
    \<and> filter (\<lambda>it. item_start it \<le> x \<and> x \<le> item_end_inclusive it) items = [leaf_item (tree_data t ! idx)]
    \<and> filter (\<lambda>n. node_id n = x) nodes = filter (\<lambda>n. node_id n = x) (bucket_nodes leaf)"
proof -
  obtain k where k: "shape_inv ops self (tree_data t) k" "bucket_iter t = Some (shape_nodes (tree_data t) k)"
    using tree_inv_iter [OF assms] by blast
  obtain idx where idx: "idx \<in> set (leaves_of k)" "get_leaf t x = Inr idx" "covers (tree_data t ! idx) x"
    using get_leaf_shape [OF k(1)] by blast
  have r: "represents (tree_data t) k" "root_of k = 0" "nested ops (tree_data t) k" "distinct (indexes k)"
    "\<forall>j \<in> set (leaves_of k). bucket_ok (tree_data t ! j) (leaf_nodes (tree_data t ! j))"
    using k(1) by (simp_all add: shape_inv_def)
  note only = leaves_covering [OF r(3,4) idx(1,3)]
  obtain b where b: "node_data (tree_data t ! idx) = Leaf b"
    using represents_leaf [OF r(1) idx(1)] by blast
  have "filter (\<lambda>n. node_id n = x) (shape_nodes (tree_data t) k)
      = filter (\<lambda>n. node_id n = x) (concat (map (\<lambda>j. leaf_nodes (tree_data t ! j)) [idx]))"
    unfolding shape_nodes_def only [symmetric]
    by (rule filter_concat_only) (use r(5) in \<open>force simp: bucket_ok_def filter_empty_conv\<close>)
  moreover have "filter (\<lambda>it. item_start it \<le> x \<and> x \<le> item_end_inclusive it)
      (map (\<lambda>j. leaf_item (tree_data t ! j)) (leaves_of k)) = [leaf_item (tree_data t ! idx)]"
    using only by (simp add: filter_map comp_def leaf_item_def covers_def)
  ultimately show ?thesis
    using idx(2) b k(2) iter_leaves_shape [OF r(1,2)] by (simp add: leaf_nodes_def)
qed

lemma get_leaf_scan:
  assumes "tree_inv ops self t"
  shows "get_leaf t x = (case scan_leaf t x of Some k \<Rightarrow> Inr k | None \<Rightarrow> Inl IndexOutOfBounds)"
proof -
  obtain k where k: "shape_inv ops self (tree_data t) k" using assms by (auto simp: tree_inv_def)
  then have r: "represents (tree_data t) k" "nested ops (tree_data t) k" "distinct (indexes k)"
    "length (indexes k) = length (tree_data t)" by (simp_all add: shape_inv_def)
  obtain idx where idx: "idx \<in> set (leaves_of k)" "get_leaf t x = Inr idx" "covers (tree_data t ! idx) x"
    using get_leaf_shape [OF k] by blast
  have "set (indexes k) \<subseteq> {0..<length (tree_data t)}" using represents_bound [OF r(1)] by auto
  moreover have "card (set (indexes k)) = length (tree_data t)" using r(3,4) by (simp add: distinct_card)
  ultimately have all: "set (indexes k) = {0..<length (tree_data t)}" by (simp add: card_subset_eq)
  have "scan_leaf t x = Some idx"
    unfolding scan_leaf_def
  proof (rule find_only)
    show "idx \<in> set [0..<length (tree_data t)]" using represents_leaf [OF r(1) idx(1)] by simp
  next
    fix j assume j: "j \<in> set [0..<length (tree_data t)]"
    show "(case node_data (tree_data t ! j) of Leaf _ \<Rightarrow> covers (tree_data t ! j) x | LeftRight _ _ \<Rightarrow> False)
        \<longleftrightarrow> j = idx"
    proof (cases "node_data (tree_data t ! j)")
      case (Leaf b)
      then have "j \<in> set (leaves_of k)" using leaf_in_shape [OF r(1)] j all by auto
      then show ?thesis using leaf_unique [OF r(2) _ idx(1)] idx(3) Leaf by auto
    qed (use represents_leaf [OF r(1) idx(1)] in auto)
  qed
  with idx(2) show ?thesis by simp
qed

lemma split_member:
  assumes p: "node_block ops p" and two: "2 \<le> unat (bits p)" and x: "covers p x"
  shows "x < id_set_bit ops (start p) (prefix_len p) True
    \<longleftrightarrow> x \<le> id_set_bit ops (end_inclusive p) (prefix_len p) False"
proof -
  let ?m = "prefix_len p"
  have b: "id_block ops ?m (start p) (end_inclusive p)" and m: "Suc ?m < 160"
    using p two by (auto simp: node_block_def prefix_len_def)
  note cut = block_cut(1) [OF b Suc_lessD [OF m]]
  have same: "same_prefix ops ?m (start p) x" using covers_prefix [OF p] x by simp
  have "x \<le> id_set_bit ops (end_inclusive p) ?m False \<longleftrightarrow> same_prefix ops (Suc ?m) (start p) x"
    using block_member [OF cut, of x] m x by (simp add: covers_def)
  also have "\<dots> \<longleftrightarrow> \<not> id_get_bit ops x ?m" using prefix_left_iff [OF b Suc_lessD [OF m]] same by simp
  finally show ?thesis using block_cut_less [OF b Suc_lessD [OF m] same] by simp
qed

text \<open>A random identifier lies in its bucket.\<close>

lemma copy_bits:
  "n \<le> 160 \<Longrightarrow> same_prefix ops n s (foldl (\<lambda>d k. id_set_bit ops d k (id_get_bit ops s k)) d [0..<n])"
proof (induction n)
  case (Suc n)
  then show ?case by (simp add: same_prefix_def get_set_bit less_Suc_eq)
qed (simp add: same_prefix_def)

lemma random_in_block:
  assumes "node_block ops p"
  shows "\<exists>x. generate_random_id ops rnd (start p) (bits p) = Inr x \<and> covers p x"
proof -
  have le: "unat (bits p) \<le> 160" using assms by (simp add: node_block_def)
  then have b: "bits p \<le> 160" by (simp add: word_le_nat_alt)
  have "unat (160 - bits p) = prefix_len p" using b by (simp add: unat_sub prefix_len_def)
  moreover have "prefix_len p \<le> 160" by (simp add: prefix_len_def)
  ultimately show ?thesis using b copy_bits [of "prefix_len p" "start p"]
    by (simp add: generate_random_id_def checked_sub_def covers_prefix [OF assms])
qed

lemma tree_inv_random:
  assumes "tree_inv ops self t"
  shows "\<exists>items. iter_leaves t = Some items \<and> (\<forall>it \<in> set items. \<exists>x.
    random_within ops rnd it = Inr x \<and> item_start it \<le> x \<and> x \<le> item_end_inclusive it)"
proof -
  obtain k where k: "shape_inv ops self (tree_data t) k" using tree_inv_iter [OF assms] by blast
  then have r: "represents (tree_data t) k" "root_of k = 0" "nested ops (tree_data t) k"
    by (simp_all add: shape_inv_def)
  have "\<exists>x. random_within ops rnd (leaf_item (tree_data t ! j)) = Inr x \<and> covers (tree_data t ! j) x"
    if "j \<in> set (leaves_of k)" for j
    using random_in_block [OF nested_leaf_block [OF r(3) that]] by (simp add: random_within_def leaf_item_def)
  then show ?thesis
    using iter_leaves_shape [OF r(1,2)] by (fastforce simp: leaf_item_def covers_def)
qed

end

end
