(* ===== verification/Routing_Table.thy ===== *)
theory Routing_Table
  imports Bucket_Insert
begin

text \<open>
  The routing table, \<^verbatim>\<open>RoutingTable\<close> of
  \<^verbatim>\<open>src/routing_table.rs\<close>: the own identifier, a node counter and the
  bucket tree. The abstract specification is a map from identifiers to entries
  (locale \<open>node_map\<close>), which the table implements.
\<close>

section \<open>State and operations\<close>

text \<open>\<open>rt_size\<close> is a natural number where the code has \<^verbatim>\<open>usize\<close>; it grows by one in a call of \<open>rt_add_node\<close>.\<close>

record 'id routing_table =
  rt_id :: 'id
  rt_size :: nat
  rt_buckets :: "'id bucket_tree"

definition DEFAULT_MAX_SIZE :: nat where
  "DEFAULT_MAX_SIZE = 512"

definition routing_table_new :: "'id id20_ops \<Rightarrow> 'id \<Rightarrow> nat option \<Rightarrow> instant \<Rightarrow> 'id routing_table" where
  "routing_table_new ops i max_nodes now =
     \<lparr>rt_id = i, rt_size = 0,
      rt_buckets = bucket_tree_new ops (case max_nodes of Some m \<Rightarrow> m | None \<Rightarrow> DEFAULT_MAX_SIZE) now\<rparr>"

definition rt_len :: "'id routing_table \<Rightarrow> nat" where
  "rt_len rt = rt_size rt"

text \<open>\<^verbatim>\<open>sort_by_key\<close> by rank and distance; \<open>None\<close> if the iteration diverged.\<close>

definition sorted_by_distance_from ::
    "('id::linorder) id20_ops \<Rightarrow> 'id routing_table \<Rightarrow> 'id \<Rightarrow> instant
      \<Rightarrow> 'id routing_table_node list option" where
  "sorted_by_distance_from ops rt i now = map_option
     (sort_key (\<lambda>n. (status_rank (status n now), id_distance ops i (node_id n))))
     (bucket_iter (rt_buckets rt))"

definition rt_iter_buckets :: "'id routing_table \<Rightarrow> 'id bucket_tree_iterator_item list option" where
  "rt_iter_buckets rt = iter_leaves (rt_buckets rt)"

definition rt_iter :: "'id routing_table \<Rightarrow> 'id routing_table_node list option" where
  "rt_iter rt = bucket_iter (rt_buckets rt)"

definition rt_add_node ::
    "('id::linorder) id20_ops \<Rightarrow> (nat \<Rightarrow> instant) \<Rightarrow> instant \<Rightarrow> 'id routing_table \<Rightarrow> 'id \<Rightarrow> socket_addr
      \<Rightarrow> abort + 'id routing_table \<times> 'id insert_result" where
  "rt_add_node ops clk now rt i addr =
     and_then (bucket_add_node ops clk now (rt_buckets rt) (rt_id rt) i addr) (\<lambda>(buckets, res).
       let replaced = (case res of WasExisting \<Rightarrow> False | ReplacedBad _ \<Rightarrow> True
             | Added \<Rightarrow> True | Ignored \<Rightarrow> False);
           rt1 = rt\<lparr>rt_buckets := buckets\<rparr>
       in Inr (if replaced then rt1\<lparr>rt_size := rt_size rt1 + 1\<rparr> else rt1, res))"

text \<open>The four marks: each looks the node up and, if it is there, changes it in place.\<close>

definition rt_update ::
    "('id::linorder) routing_table \<Rightarrow> 'id \<Rightarrow> instant option
      \<Rightarrow> ('id routing_table_node \<Rightarrow> 'id routing_table_node) \<Rightarrow> abort + 'id routing_table \<times> bool" where
  "rt_update rt i refresh f = and_then (get_mut (rt_buckets rt) i refresh f)
     (\<lambda>(buckets, found). Inr (rt\<lparr>rt_buckets := buckets\<rparr>, found))"

definition rt_mark_outgoing_request ::
    "('id::linorder) routing_table \<Rightarrow> 'id \<Rightarrow> instant \<Rightarrow> abort + 'id routing_table \<times> bool" where
  "rt_mark_outgoing_request rt i now = rt_update rt i None (\<lambda>r. mark_outgoing_request r now)"

definition rt_mark_response ::
    "('id::linorder) routing_table \<Rightarrow> 'id \<Rightarrow> instant \<Rightarrow> abort + 'id routing_table \<times> bool" where
  "rt_mark_response rt i now = rt_update rt i (Some now) (\<lambda>r. mark_response r now)"

definition rt_mark_error :: "('id::linorder) routing_table \<Rightarrow> 'id \<Rightarrow> abort + 'id routing_table \<times> bool" where
  "rt_mark_error rt i = rt_update rt i None mark_error"

definition rt_mark_last_query ::
    "('id::linorder) routing_table \<Rightarrow> 'id \<Rightarrow> instant \<Rightarrow> abort + 'id routing_table \<times> bool" where
  "rt_mark_last_query rt i now = rt_update rt i None (\<lambda>r. mark_last_query r now)"

fun rt_mark :: "node_event \<Rightarrow> 'id \<Rightarrow> ('id::linorder) routing_table \<Rightarrow> abort + 'id routing_table \<times> bool" where
  "rt_mark (Requested now) i rt = rt_mark_outgoing_request rt i now"
| "rt_mark (Responded now) i rt = rt_mark_response rt i now"
| "rt_mark (Queried now) i rt = rt_mark_last_query rt i now"
| "rt_mark Errored i rt = rt_mark_error rt i"

section \<open>The contract of a table of nodes\<close>

text \<open>A sequence of marks, for any implementation of a mark.\<close>

fun run_marks ::
    "(node_event \<Rightarrow> 'id \<Rightarrow> 't \<Rightarrow> abort + 't \<times> bool) \<Rightarrow> (node_event \<times> 'id) list \<Rightarrow> 't \<Rightarrow> abort + 't" where
  "run_marks mark [] t = Inr t"
| "run_marks mark ((e, i) # es) t = and_then (mark e i t) (\<lambda>(t', found). run_marks mark es t')"

text \<open>
  What the client of a table of nodes relies on: marks never fail, report whether the node is
  there and change exactly its entry, by the step of the node's own state machine.
\<close>

locale node_map =
  fixes inv :: "'t \<Rightarrow> bool"
    and lookup :: "'t \<Rightarrow> 'id \<Rightarrow> 'id routing_table_node option"
    and mark :: "node_event \<Rightarrow> 'id \<Rightarrow> 't \<Rightarrow> abort + 't \<times> bool"
  assumes mark_total: "inv t \<Longrightarrow> \<exists>t'. mark e i t = Inr (t', lookup t i \<noteq> None) \<and> inv t'
    \<and> lookup t' = (lookup t)(i := map_option (\<lambda>n. node_step n e) (lookup t i))"
begin

text \<open>After any marks, each entry is the one its own events lead to.\<close>

lemma marks_lookup:
  assumes "inv t"
  shows "\<exists>t'. run_marks mark es t = Inr t' \<and> inv t'
    \<and> (\<forall>i. lookup t' i = map_option (\<lambda>n. node_run n (map fst (filter (\<lambda>(e, j). j = i) es))) (lookup t i))"
  using assms
proof (induction es arbitrary: t)
  case (Cons a es)
  obtain e i where a: "a = (e, i)" by (cases a) blast
  obtain t1 where t1: "mark e i t = Inr (t1, lookup t i \<noteq> None)" "inv t1"
    "lookup t1 = (lookup t)(i := map_option (\<lambda>n. node_step n e) (lookup t i))"
    using mark_total [OF Cons.prems] by blast
  from Cons.IH [OF t1(2)] obtain t' where "run_marks mark es t1 = Inr t'" "inv t'"
    "\<forall>j. lookup t' j = map_option (\<lambda>n. node_run n (map fst (filter (\<lambda>(e, k). k = j) es))) (lookup t1 j)"
    by blast
  with t1 show ?case by (auto simp: a option.map_comp comp_def)
qed (simp add: option.map_ident)

end

section \<open>The table implements the contract\<close>

definition rt_inv :: "('id::linorder) id20_ops \<Rightarrow> 'id routing_table \<Rightarrow> bool" where
  "rt_inv ops rt \<longleftrightarrow> tree_inv ops (rt_id rt) (rt_buckets rt) \<and> tree_size (rt_buckets rt) \<le> rt_size rt"

definition rt_nodes :: "'id routing_table \<Rightarrow> 'id routing_table_node list" where
  "rt_nodes rt = (case rt_iter rt of Some xs \<Rightarrow> xs | None \<Rightarrow> [])"

definition rt_lookup :: "'id routing_table \<Rightarrow> 'id \<Rightarrow> 'id routing_table_node option" where
  "rt_lookup rt i = find (\<lambda>n. node_id n = i) (rt_nodes rt)"

lemma find_map_update:
  assumes "\<And>n. g (f n) = g n"
  shows "find (\<lambda>n. g n = j) (map (\<lambda>n. if g n = i then f n else n) xs)
    = (if j = i then map_option f (find (\<lambda>n. g n = j) xs) else find (\<lambda>n. g n = j) xs)"
  using assms by (induction xs) auto

lemma rt_lookup_None: "rt_lookup rt i = None \<longleftrightarrow> i \<notin> node_id ` set (rt_nodes rt)"
  by (auto simp: rt_lookup_def find_None_iff)

lemma rt_lookup_Some:
  assumes "distinct (map node_id (rt_nodes rt))"
  shows "rt_lookup rt i = Some n \<longleftrightarrow> n \<in> set (rt_nodes rt) \<and> node_id n = i"
proof -
  have "find (\<lambda>n. node_id n = i) xs = Some n \<longleftrightarrow> n \<in> set xs \<and> node_id n = i"
    if "distinct (map node_id xs)" for xs
    using that by (induction xs) (force simp: image_iff)+
  with assms show ?thesis by (simp add: rt_lookup_def)
qed

lemma rt_mark_update:
  "\<exists>refresh. rt_mark e i rt = rt_update rt i refresh (\<lambda>r. node_step r e)"
  by (cases e) (auto simp: rt_mark_outgoing_request_def rt_mark_response_def rt_mark_last_query_def
      rt_mark_error_def)

lemma node_step_id [simp]: "node_id (node_step r e) = node_id r"
  by (cases e) simp_all

context id20_api
begin

lemma rt_inv_iter:
  assumes "rt_inv ops rt"
  shows "rt_iter rt = Some (rt_nodes rt)" and "sorted_wrt (<) (map node_id (rt_nodes rt))"
    and "length (rt_nodes rt) = tree_size (rt_buckets rt)"
    and "length (rt_nodes rt) \<le> rt_size rt" and "length (rt_nodes rt) \<le> max_size (rt_buckets rt)"
proof -
  have t: "tree_inv ops (rt_id rt) (rt_buckets rt)" using assms by (simp add: rt_inv_def)
  then obtain xs where xs: "bucket_iter (rt_buckets rt) = Some xs" using tree_inv_iter by blast
  then show it: "rt_iter rt = Some (rt_nodes rt)" by (simp add: rt_nodes_def rt_iter_def)
  note s = tree_inv_sorted [OF t, of "rt_nodes rt"]
  show "sorted_wrt (<) (map node_id (rt_nodes rt))" "length (rt_nodes rt) = tree_size (rt_buckets rt)"
    "length (rt_nodes rt) \<le> rt_size rt" "length (rt_nodes rt) \<le> max_size (rt_buckets rt)"
    using s it assms by (simp_all add: rt_iter_def rt_inv_def)
qed

lemma rt_inv_new: "rt_inv ops (routing_table_new ops i m now)" "rt_nodes (routing_table_new ops i m now) = []"
proof -
  show inv: "rt_inv ops (routing_table_new ops i m now)"
    using tree_inv_new [of i "case m of Some m \<Rightarrow> m | None \<Rightarrow> DEFAULT_MAX_SIZE" now]
    by (simp add: rt_inv_def routing_table_new_def bucket_tree_new_def)
  show "rt_nodes (routing_table_new ops i m now) = []"
    using rt_inv_iter(3) [OF inv] by (simp add: routing_table_new_def bucket_tree_new_def)
qed

lemma rt_inv_update:
  assumes "rt_inv ops rt" and "\<And>r. node_id (f r) = node_id r"
  shows "\<exists>rt'. rt_update rt i refresh f = Inr (rt', i \<in> node_id ` set (rt_nodes rt)) \<and> rt_inv ops rt'
    \<and> rt_id rt' = rt_id rt \<and> rt_size rt' = rt_size rt
    \<and> max_size (rt_buckets rt') = max_size (rt_buckets rt)
    \<and> rt_nodes rt' = map (\<lambda>r. if node_id r = i then f r else r) (rt_nodes rt)"
proof -
  have t: "tree_inv ops (rt_id rt) (rt_buckets rt)" "bucket_iter (rt_buckets rt) = Some (rt_nodes rt)"
    using assms(1) rt_inv_iter(1) [OF assms(1)] by (simp_all add: rt_inv_def rt_iter_def)
  obtain b where "get_mut (rt_buckets rt) i refresh f = Inr (b, i \<in> node_id ` set (rt_nodes rt))"
    "tree_inv ops (rt_id rt) b" "tree_size b = tree_size (rt_buckets rt)"
    "max_size b = max_size (rt_buckets rt)"
    "bucket_iter b = Some (map (\<lambda>r. if node_id r = i then f r else r) (rt_nodes rt))"
    using tree_inv_get_mut [OF t assms(2)] by blast
  with assms(1) show ?thesis
    by (intro exI [of _ "rt\<lparr>rt_buckets := b\<rparr>"]) (simp add: rt_update_def rt_inv_def rt_nodes_def rt_iter_def)
qed

lemma rt_inv_mark:
  assumes "rt_inv ops rt"
  shows "\<exists>rt'. rt_mark e i rt = Inr (rt', rt_lookup rt i \<noteq> None) \<and> rt_inv ops rt'
    \<and> rt_lookup rt' = (rt_lookup rt)(i := map_option (\<lambda>n. node_step n e) (rt_lookup rt i))"
proof -
  obtain refresh where "rt_mark e i rt = rt_update rt i refresh (\<lambda>r. node_step r e)"
    using rt_mark_update by blast
  with rt_inv_update [OF assms, of "\<lambda>r. node_step r e" i refresh] obtain rt' where
    rt': "rt_mark e i rt = Inr (rt', i \<in> node_id ` set (rt_nodes rt))" "rt_inv ops rt'"
    "rt_nodes rt' = map (\<lambda>r. if node_id r = i then node_step r e else r) (rt_nodes rt)"
    by auto
  have "rt_lookup rt' j = ((rt_lookup rt)(i := map_option (\<lambda>n. node_step n e) (rt_lookup rt i))) j" for j
    by (simp add: rt_lookup_def rt'(3) find_map_update [of node_id "\<lambda>r. node_step r e"])
  moreover have "(i \<in> node_id ` set (rt_nodes rt)) = (rt_lookup rt i \<noteq> None)"
    by (simp add: rt_lookup_None)
  ultimately show ?thesis using rt'(1,2) by auto
qed

lemma rt_inv_add:
  assumes "rt_inv ops rt"
  shows "\<exists>rt' r. rt_add_node ops clk now rt i addr = Inr (rt', r) \<and> rt_inv ops rt' \<and> rt_id rt' = rt_id rt
    \<and> max_size (rt_buckets rt') = max_size (rt_buckets rt)
    \<and> insert_effect now i addr (mset (rt_nodes rt)) r (mset (rt_nodes rt'))
    \<and> (r = Ignored \<longrightarrow> length (rt_nodes rt) = max_size (rt_buckets rt)
        \<or> (\<exists>n \<in> set (tree_data (rt_buckets rt')). bucket_closed now n (rt_id rt) i))
    \<and> rt_size rt' = rt_size rt + (case r of Added \<Rightarrow> 1 | ReplacedBad _ \<Rightarrow> 1 | _ \<Rightarrow> 0)"
proof -
  have t: "tree_inv ops (rt_id rt) (rt_buckets rt)" "bucket_iter (rt_buckets rt) = Some (rt_nodes rt)"
    using assms rt_inv_iter(1) [OF assms] by (simp_all add: rt_inv_def rt_iter_def)
  obtain b r xs' where b: "bucket_add_node ops clk now (rt_buckets rt) (rt_id rt) i addr = Inr (b, r)"
    "tree_inv ops (rt_id rt) b" "max_size b = max_size (rt_buckets rt)"
    "tree_size b = tree_size (rt_buckets rt) + (if r = Added then 1 else 0)" "bucket_iter b = Some xs'"
    "insert_effect now i addr (mset (rt_nodes rt)) r (mset xs')"
    "r = Ignored \<longrightarrow> tree_size (rt_buckets rt) = max_size (rt_buckets rt)
      \<or> (\<exists>n \<in> set (tree_data b). bucket_closed now n (rt_id rt) i)"
    using tree_inv_add [OF t, of clk now i addr] by blast
  have len: "length (rt_nodes rt) = tree_size (rt_buckets rt)" by (rule rt_inv_iter(3) [OF assms])
  let ?rt = "rt\<lparr>rt_buckets := b, rt_size := rt_size rt + (case r of Added \<Rightarrow> 1 | ReplacedBad _ \<Rightarrow> 1 | _ \<Rightarrow> 0)\<rparr>"
  have "rt_add_node ops clk now rt i addr = Inr (?rt, r)"
    by (cases r) (simp_all add: rt_add_node_def b(1))
  moreover have "rt_inv ops ?rt"
    using b(2,4) assms by (cases r) (simp_all add: rt_inv_def)
  moreover have "rt_nodes ?rt = xs'" by (simp add: rt_nodes_def rt_iter_def b(5))
  ultimately show ?thesis
    using b(3,6,7) len by (intro exI [of _ ?rt] exI [of _ r]) (simp add: len)
qed

end

sublocale id20_api \<subseteq> table: node_map "rt_inv ops" rt_lookup rt_mark
  by unfold_locales (rule rt_inv_mark)

context id20_api
begin

lemmas table_lookup = table.marks_lookup

end

interpretation word_table: node_map "rt_inv id20_word" rt_lookup rt_mark
  by (rule w20.table.node_map_axioms)

section \<open>Reachable tables\<close>

text \<open>
  The tables that a program can reach: a new table, then any sequence of additions and marks, with
  any clock readings.
\<close>

inductive rt_reach :: "('id::linorder) id20_ops \<Rightarrow> 'id \<Rightarrow> nat option \<Rightarrow> 'id routing_table \<Rightarrow> bool"
  for ops i m where
  New: "rt_reach ops i m (routing_table_new ops i m now)"
| Add: "rt_reach ops i m rt \<Longrightarrow> rt_add_node ops clk now rt j addr = Inr (rt', res) \<Longrightarrow>
    rt_reach ops i m rt'"
| Mark: "rt_reach ops i m rt \<Longrightarrow> rt_mark e j rt = Inr (rt', found) \<Longrightarrow> rt_reach ops i m rt'"

lemma rt_reach_inv:
  assumes "id20_api ops" and "rt_reach ops i m rt"
  shows "rt_inv ops rt \<and> rt_id rt = i
    \<and> max_size (rt_buckets rt) = (case m of Some m \<Rightarrow> m | None \<Rightarrow> DEFAULT_MAX_SIZE)"
  using assms(2)
proof induction
  case (New now)
  show ?case using id20_api.rt_inv_new [OF assms(1)]
    by (simp add: routing_table_new_def bucket_tree_new_def)
next
  case (Add rt clk now j addr rt' res)
  then show ?case using id20_api.rt_inv_add [OF assms(1), of rt clk now j addr] by auto
next
  case (Mark rt e j rt' found)
  obtain refresh where u: "rt_mark e j rt = rt_update rt j refresh (\<lambda>r. node_step r e)"
    using rt_mark_update by blast
  from Mark.IH have inv: "rt_inv ops rt" by simp
  show ?case
    using id20_api.rt_inv_update [OF assms(1) inv, of "\<lambda>r. node_step r e" j refresh] u Mark by auto
qed

end
