(* ===== verification/Routing_Props.thy ===== *)
theory Routing_Props
  imports Routing_Table
begin

text \<open>
  The properties of the routing table and of its buckets, for every table that a program can
  reach, and their evaluations on concrete tables over the 160-bit instance of identifiers.
\<close>

section \<open>Concrete tables\<close>

definition sample_addr :: socket_addr where
  "sample_addr = V4 \<lparr>ip4 = 0x7f000001, port4 = 6881\<rparr>"

definition empty_table :: "160 word routing_table" where
  "empty_table = routing_table_new id20_word 9 (Some 4) 0"

definition one_node_table :: "160 word routing_table" where
  "one_node_table = empty_table\<lparr>rt_size := 1, rt_buckets := \<lparr>tree_data = [\<lparr>bits = 160, start = 0,
     end_inclusive = - 1, node_data = Leaf \<lparr>bucket_nodes = [fresh_node 5 sample_addr],
     last_refreshed = 3\<rparr>\<rparr>], tree_size = 1, max_size = 4\<rparr>\<rparr>"

definition bad_node :: "160 word routing_table_node" where
  "bad_node = node_run (fresh_node 5 sample_addr) [Requested 7, Errored, Errored]"

definition bad_table :: "160 word routing_table" where
  "bad_table = empty_table\<lparr>rt_size := 1, rt_buckets := \<lparr>tree_data = [\<lparr>bits = 160, start = 0,
     end_inclusive = - 1, node_data = Leaf \<lparr>bucket_nodes = [bad_node],
     last_refreshed = 3\<rparr>\<rparr>], tree_size = 1, max_size = 4\<rparr>\<rparr>"

lemmas rt_eval = empty_table_def one_node_table_def bad_table_def routing_table_new_def bucket_tree_new_def
  default_leaf_bucket_def rt_add_node_def bucket_add_node_def get_leaf_def insert_into_leaf.simps
  set_node_data_def rt_update_def get_mut_def rt_mark_outgoing_request_def rt_mark_error_def
  rt_mark_response_def rt_mark_last_query_def Let_def

lemma reach_empty: "rt_reach id20_word 9 (Some 4) empty_table"
  unfolding empty_table_def by (rule rt_reach.New)

lemma reach_one: "rt_reach id20_word 9 (Some 4) one_node_table"
  by (rule rt_reach.Add [OF reach_empty, of "\<lambda>_. 3" 3 5 sample_addr _ Added]) (simp add: rt_eval)

lemma reach_bad: "rt_reach id20_word 9 (Some 4) bad_table"
  apply (rule rt_reach.Mark [of _ _ _ _ Errored 5 _ True])
   apply (rule rt_reach.Mark [of _ _ _ _ Errored 5 _ True])
    apply (rule rt_reach.Mark [OF reach_one, of "Requested 7" 5 _ True])
    apply (simp add: rt_eval)
   apply (simp add: rt_eval)
  apply (simp add: rt_eval bad_node_def)
  done

section \<open>Well-formed tables\<close>

text \<open>
  C4. Every reachable routing table is well formed. Iterating over it ends, yields each identifier
  once and in increasing order, and yields at most as many nodes as the capacity and as the
  counter say; the vector of tree nodes never has more than 321 elements, because only buckets
  around the own identifier are split.
\<close>

theorem reachable_table_wf:
  assumes "id20_api ops" and "rt_reach ops i m rt"
  shows "\<exists>xs. rt_iter rt = Some xs \<and> sorted_wrt (<) (map node_id xs)
    \<and> length xs \<le> (case m of Some c \<Rightarrow> c | None \<Rightarrow> 512) \<and> length xs \<le> rt_len rt
    \<and> length (tree_data (rt_buckets rt)) \<le> 321"
proof -
  have inv: "rt_inv ops rt" and cap: "max_size (rt_buckets rt) = (case m of Some c \<Rightarrow> c | None \<Rightarrow> 512)"
    using rt_reach_inv [OF assms] by (auto simp: DEFAULT_MAX_SIZE_def split: option.splits)
  have "length (tree_data (rt_buckets rt)) \<le> 321"
    using id20_api.tree_inv_bound [OF assms(1)] inv by (auto simp: rt_inv_def)
  with id20_api.rt_inv_iter [OF assms(1) inv] cap show ?thesis by (simp add: rt_len_def)
qed

theorem reachable_table_wf_witness:
  "\<exists>xs. rt_iter bad_table = Some xs \<and> sorted_wrt (<) (map node_id xs) \<and> length xs \<le> 4
    \<and> length xs \<le> rt_len bad_table \<and> length (tree_data (rt_buckets bad_table)) \<le> 321"
  using reachable_table_wf [OF id20_word_api reach_bad] by simp

text \<open>
  C6. The buckets of a reachable table partition the identifiers: every identifier lies in
  exactly one bucket, and that is the one \<^verbatim>\<open>get_leaf\<close> finds, without a panic
  and without diverging. All nodes with that identifier are in that bucket.
\<close>

theorem get_leaf_finds_the_bucket:
  assumes "id20_api ops" and "rt_reach ops i m rt"
  shows "\<exists>idx leaf items nodes. get_leaf (rt_buckets rt) x = Inr idx
    \<and> node_data (tree_data (rt_buckets rt) ! idx) = Leaf leaf
    \<and> rt_iter_buckets rt = Some items \<and> rt_iter rt = Some nodes
    \<and> filter (\<lambda>it. item_start it \<le> x \<and> x \<le> item_end_inclusive it) items
        = [leaf_item (tree_data (rt_buckets rt) ! idx)]
    \<and> filter (\<lambda>n. node_id n = x) nodes = filter (\<lambda>n. node_id n = x) (bucket_nodes leaf)"
proof -
  have "tree_inv ops i (rt_buckets rt)" using rt_reach_inv [OF assms] by (auto simp: rt_inv_def)
  from id20_api.tree_inv_partition [OF assms(1) this, of x] show ?thesis
    by (simp add: rt_iter_buckets_def rt_iter_def)
qed

theorem get_leaf_finds_the_bucket_witness:
  "\<exists>idx leaf items nodes. get_leaf (rt_buckets bad_table) 5 = Inr idx
    \<and> node_data (tree_data (rt_buckets bad_table) ! idx) = Leaf leaf
    \<and> rt_iter_buckets bad_table = Some items \<and> rt_iter bad_table = Some nodes
    \<and> filter (\<lambda>it. item_start it \<le> 5 \<and> 5 \<le> item_end_inclusive it) items
        = [leaf_item (tree_data (rt_buckets bad_table) ! idx)]
    \<and> filter (\<lambda>n. node_id n = 5) nodes = filter (\<lambda>n. node_id n = 5) (bucket_nodes leaf)"
  by (rule get_leaf_finds_the_bucket [OF id20_word_api reach_bad])

text \<open>
  The descent of \<^verbatim>\<open>get_leaf\<close> from the root is equivalent to a search of the whole
  vector: it returns the first index of it that holds a leaf whose range has the identifier, and there
  always is one.
\<close>

theorem get_leaf_is_linear_search:
  assumes "id20_api ops" and "rt_reach ops i m rt"
  shows "\<exists>k. scan_leaf (rt_buckets rt) x = Some k \<and> get_leaf (rt_buckets rt) x = Inr k"
proof -
  have inv: "tree_inv ops i (rt_buckets rt)" using rt_reach_inv [OF assms] by (auto simp: rt_inv_def)
  then obtain k where "get_leaf (rt_buckets rt) x = Inr k"
    using id20_api.tree_inv_partition [OF assms(1) inv, of x] by blast
  with id20_api.get_leaf_scan [OF assms(1) inv, of x] show ?thesis by (auto split: option.splits)
qed

theorem get_leaf_is_linear_search_witness:
  "\<exists>k. scan_leaf (rt_buckets bad_table) 5 = Some k \<and> get_leaf (rt_buckets bad_table) 5 = Inr k"
  by (rule get_leaf_is_linear_search [OF id20_word_api reach_bad])

section \<open>Additions\<close>

text \<open>
  C5. Adding a node to a reachable table never panics and never diverges, and its four results
  mean what they say. \<open>WasExisting\<close>: the identifier is stored, nothing changes.
  \<open>ReplacedBad\<close>: it was not, and the returned bad node made room for a fresh entry.
  \<open>Added\<close>: it was not, and a fresh entry was added to the others.
  \<open>Ignored\<close>: it was not, nothing changes, and the reason is that the table is at its
  capacity or that the bucket is full of nodes none of which is bad and is not the own one.
\<close>

theorem add_node_effect:
  assumes "id20_api ops" and "rt_reach ops i m rt"
  shows "\<exists>rt' r xs xs'. rt_add_node ops clk now rt x addr = Inr (rt', r) \<and> rt_reach ops i m rt'
    \<and> rt_iter rt = Some xs \<and> rt_iter rt' = Some xs'
    \<and> insert_effect now x addr (mset xs) r (mset xs')
    \<and> (r = Ignored \<longrightarrow> length xs = (case m of Some c \<Rightarrow> c | None \<Rightarrow> 512)
        \<or> (\<exists>n \<in> set (tree_data (rt_buckets rt')). bucket_closed now n i x))"
proof -
  have inv: "rt_inv ops rt" and self: "rt_id rt = i"
    and cap: "max_size (rt_buckets rt) = (case m of Some c \<Rightarrow> c | None \<Rightarrow> 512)"
    using rt_reach_inv [OF assms] by (auto simp: DEFAULT_MAX_SIZE_def split: option.splits)
  from id20_api.rt_inv_add [OF assms(1) inv] obtain rt' r where
    add: "rt_add_node ops clk now rt x addr = Inr (rt', r)" and inv': "rt_inv ops rt'"
    and eff: "insert_effect now x addr (mset (rt_nodes rt)) r (mset (rt_nodes rt'))"
    and ign: "r = Ignored \<longrightarrow> length (rt_nodes rt) = max_size (rt_buckets rt)
        \<or> (\<exists>n \<in> set (tree_data (rt_buckets rt')). bucket_closed now n (rt_id rt) x)"
    by metis
  have "rt_reach ops i m rt'" by (rule rt_reach.Add [OF assms(2) add])
  with add eff ign self cap id20_api.rt_inv_iter(1) [OF assms(1) inv]
    id20_api.rt_inv_iter(1) [OF assms(1) inv'] show ?thesis by auto
qed

theorem add_node_effect_witness:
  "\<exists>rt' r xs xs'. rt_add_node id20_word (\<lambda>_. 8) 8 bad_table 77 sample_addr = Inr (rt', r)
    \<and> rt_reach id20_word 9 (Some 4) rt' \<and> rt_iter bad_table = Some xs \<and> rt_iter rt' = Some xs'
    \<and> insert_effect 8 77 sample_addr (mset xs) r (mset xs')
    \<and> (r = Ignored \<longrightarrow> length xs = 4 \<or> (\<exists>n \<in> set (tree_data (rt_buckets rt')). bucket_closed 8 n 9 77))"
  using add_node_effect [OF id20_word_api reach_bad, of "\<lambda>_. 8" 8 77 sample_addr] by simp

text \<open>
  \<^verbatim>\<open>len\<close> counts additions, not nodes: when a bad node is replaced, the number
  of stored nodes stays the same and yet the counter of the routing table grows by one.
\<close>

theorem replaced_bad_overcounts:
  assumes "id20_api ops" and "rt_reach ops i m rt"
    and "rt_add_node ops clk now rt x addr = Inr (rt', ReplacedBad old)"
  shows "\<exists>xs xs'. rt_iter rt = Some xs \<and> rt_iter rt' = Some xs' \<and> length xs' = length xs
    \<and> rt_len rt' = rt_len rt + 1"
proof -
  have inv: "rt_inv ops rt" using rt_reach_inv [OF assms(1,2)] by simp
  from id20_api.rt_inv_add [OF assms(1) inv, of clk now x addr] assms(3)
  have r: "rt_inv ops rt'" "insert_effect now x addr (mset (rt_nodes rt)) (ReplacedBad old) (mset (rt_nodes rt'))"
    "rt_size rt' = rt_size rt + 1" by auto
  from insert_effect_size [OF r(2)] r(3) id20_api.rt_inv_iter(1) [OF assms(1) inv]
    id20_api.rt_inv_iter(1) [OF assms(1) r(1)] show ?thesis by (simp add: rt_len_def)
qed

theorem replaced_bad_overcounts_witness:
  "\<exists>rt' xs xs'. rt_add_node id20_word (\<lambda>_. 8) 8 bad_table 77 sample_addr = Inr (rt', ReplacedBad bad_node)
    \<and> rt_iter bad_table = Some xs \<and> rt_iter rt' = Some xs' \<and> length xs' = length xs
    \<and> rt_len rt' = rt_len bad_table + 1"
proof -
  have bad: "is_bad 8 bad_node" "node_id bad_node = 5"
    by (simp_all add: is_bad_def bad_node_def status_eval)
  obtain rt' where "rt_add_node id20_word (\<lambda>_. 8) 8 bad_table 77 sample_addr = Inr (rt', ReplacedBad bad_node)"
    by (simp add: rt_eval bad)
  with replaced_bad_overcounts [OF id20_word_api reach_bad this] show ?thesis by blast
qed

section \<open>Marks\<close>

text \<open>
  The marks implement one state machine per node: after any sequence of requests, responses,
  queries and errors on a reachable table, which never panics, the entry of an identifier is the
  one its own events lead to, and the entries of all other identifiers did not take part.
\<close>

theorem marks_track_each_node:
  assumes "id20_api ops" and "rt_reach ops i m rt"
  shows "\<exists>rt'. run_marks rt_mark es rt = Inr rt' \<and> (\<forall>x. rt_lookup rt' x
    = map_option (\<lambda>n. node_run n (map fst (filter (\<lambda>(e, j). j = x) es))) (rt_lookup rt x))"
proof -
  have "rt_inv ops rt" using rt_reach_inv [OF assms] by simp
  then show ?thesis using id20_api.table_lookup [OF assms(1)] by blast
qed

theorem marks_track_each_node_witness:
  "\<exists>rt'. run_marks rt_mark [(Responded 9, 5), (Errored, 6)] bad_table = Inr rt'
    \<and> (\<forall>x. rt_lookup rt' x = map_option (\<lambda>n. node_run n (map fst
        (filter (\<lambda>(e, j). j = x) [(Responded 9, 5), (Errored, 6)]))) (rt_lookup bad_table x))"
  by (rule marks_track_each_node [OF id20_word_api reach_bad])

section \<open>The nodes to ask\<close>

context id20_api
begin

lemma sorted_nodes:
  assumes inv: "rt_inv ops rt"
  shows "\<exists>ys. sorted_by_distance_from ops rt x now = Some ys \<and> mset ys = mset (rt_nodes rt)
    \<and> sorted_wrt (\<lambda>a b. status a now < status b now
        \<or> status a now = status b now \<and> id_distance ops x (node_id a) < id_distance ops x (node_id b)) ys"
proof -
  let ?key = "\<lambda>n. (status_rank (status n now), id_distance ops x (node_id n))"
  let ?ys = "sort_key ?key (rt_nodes rt)"
  note it = rt_inv_iter [OF inv]
  have "inj_on ?key (set (rt_nodes rt))"
  proof (rule inj_onI)
    fix a b assume ab: "a \<in> set (rt_nodes rt)" "b \<in> set (rt_nodes rt)" "?key a = ?key b"
    then have "node_id a = node_id b" by simp
    moreover have "inj_on node_id (set (rt_nodes rt))"
      using it(2) by (simp add: strict_sorted_iff distinct_map)
    ultimately show "a = b" using ab by (auto dest: inj_onD)
  qed
  moreover have "distinct (rt_nodes rt)" using it(2) by (simp add: strict_sorted_iff distinct_map)
  ultimately have "distinct (map ?key (rt_nodes rt))" by (simp add: distinct_map)
  then have "sorted_wrt (<) (map ?key ?ys)" unfolding strict_sorted_iff by simp
  then have "sorted_wrt (\<lambda>a b. ?key a < ?key b) ?ys" by (simp add: sorted_wrt_map)
  then have "sorted_wrt (\<lambda>a b. status a now < status b now
      \<or> status a now = status b now \<and> id_distance ops x (node_id a) < id_distance ops x (node_id b)) ?ys"
    by (rule sorted_wrt_mono_rel [rotated]) (auto simp: less_node_status_def)
  with it(1) show ?thesis by (simp add: sorted_by_distance_from_def rt_iter_def)
qed

end

text \<open>
  \<^verbatim>\<open>sorted_by_distance_from\<close> returns exactly the stored nodes, in strictly
  increasing order of rank and XOR distance: good nodes come before questionable, unknown and bad
  ones, and of two nodes of one rank the closer comes first, with no ties.
\<close>

theorem sorted_by_distance_spec:
  assumes "id20_api ops" and "rt_reach ops i m rt"
  shows "\<exists>xs ys. rt_iter rt = Some xs \<and> sorted_by_distance_from ops rt x now = Some ys
    \<and> mset ys = mset xs
    \<and> sorted_wrt (\<lambda>a b. status a now < status b now
        \<or> status a now = status b now \<and> id_distance ops x (node_id a) < id_distance ops x (node_id b)) ys"
proof -
  have inv: "rt_inv ops rt" using rt_reach_inv [OF assms] by simp
  show ?thesis
    using id20_api.sorted_nodes [OF assms(1) inv, of x now] id20_api.rt_inv_iter(1) [OF assms(1) inv] by blast
qed

theorem sorted_by_distance_spec_witness:
  "\<exists>xs ys. rt_iter one_node_table = Some xs
    \<and> sorted_by_distance_from id20_word one_node_table 3 100 = Some ys \<and> mset ys = mset xs
    \<and> sorted_wrt (\<lambda>a b. status a 100 < status b 100 \<or> status a 100 = status b 100
        \<and> id_distance id20_word 3 (node_id a) < id_distance id20_word 3 (node_id b)) ys"
  by (rule sorted_by_distance_spec [OF id20_word_api reach_one])

section \<open>Splits and random identifiers\<close>

text \<open>
  A refresh asks for an identifier of the bucket it refreshes: for every bucket of a reachable
  table and any random bytes, \<^verbatim>\<open>random_within\<close> returns an identifier between
  the bounds of that bucket.
\<close>

theorem random_within_bucket:
  assumes "id20_api ops" and "rt_reach ops i m rt"
  shows "\<exists>items. rt_iter_buckets rt = Some items \<and> (\<forall>it \<in> set items. \<exists>x.
    random_within ops rnd it = Inr x \<and> item_start it \<le> x \<and> x \<le> item_end_inclusive it)"
proof -
  have "tree_inv ops i (rt_buckets rt)" using rt_reach_inv [OF assms] by (auto simp: rt_inv_def)
  from id20_api.tree_inv_random [OF assms(1) this] show ?thesis by (simp add: rt_iter_buckets_def)
qed

theorem random_within_bucket_witness:
  "\<exists>items. rt_iter_buckets one_node_table = Some items \<and> (\<forall>it \<in> set items. \<exists>x.
    random_within id20_word (replicate 20 7) it = Inr x \<and> item_start it \<le> x \<and> x \<le> item_end_inclusive it)"
  by (rule random_within_bucket [OF id20_word_api reach_one])

text \<open>
  The split of a block of identifiers with at least two bits passes its debug assertions, and
  an identifier of the block is in the left half exactly if it is less than the start of the
  right half, which is how the code chooses the half to go on with.
\<close>

lemma split_halves_the_block:
  assumes "id20_api ops" and "node_block ops p" and "2 \<le> unat (bits p)"
  shows "\<exists>le rs. compute_split_start_end ops (start p) (end_inclusive p) (bits p)
      = Inr ((start p, le), (rs, end_inclusive p))
    \<and> (\<forall>x. covers p x \<longrightarrow> (if x < rs then start p \<le> x \<and> x \<le> le else rs \<le> x \<and> x \<le> end_inclusive p))
    \<and> le < rs"
proof -
  let ?m = "prefix_len p"
  let ?le = "id_set_bit ops (end_inclusive p) ?m False" and ?rs = "id_set_bit ops (start p) ?m True"
  note ch = id20_api.split_children [OF assms]
  have eq: "compute_split_start_end ops (start p) (end_inclusive p) (bits p)
      = Inr ((start p, ?le), (?rs, end_inclusive p))" by (rule ch(1))
  have "?le < ?rs" using eq by (auto simp: compute_split_start_end_def and_then_eq_Inr Let_def split: if_splits)
  moreover have "x \<le> ?le" if "covers p x" "x < ?rs" for x
    using id20_api.split_member [OF assms that(1)] that(2) by simp
  ultimately show ?thesis using eq by (auto simp: covers_def not_less)
qed

end
