(* ===== verification/Messages.thy ===== *)
theory Messages
  imports Id20
begin

text \<open>
  The messages of the KRPC protocol, the data types of \<^verbatim>\<open>src/bprotocol.rs\<close>.
  Buffers are lists of bytes, \<^verbatim>\<open>i32\<close> and \<^verbatim>\<open>i64\<close> fields are
  integers, and compact node lists are the lists of the nodes they encode.
\<close>

section \<open>Requests and responses\<close>

type_synonym i32 = int
type_synonym i64 = int

datatype message_type = Request_Type | Response_Type | Error_Type

record error_description =
  code :: i32
  description :: bytes

text \<open>\<^verbatim>\<open>Node<A>\<close>, with the two address families it is used at.\<close>

record ('id, 'addr) node =
  nid :: 'id
  naddr :: 'addr

type_synonym 'id node4 = "('id, socket_addr_v4) node"
type_synonym 'id node6 = "('id, socket_addr_v6) node"

definition as_socketaddr :: "('addr \<Rightarrow> socket_addr) \<Rightarrow> ('id, 'addr) node \<Rightarrow> ('id, socket_addr) node" where
  "as_socketaddr into n = \<lparr>nid = nid n, naddr = into (naddr n)\<rparr>"

datatype want = Want_V4 | Want_V6 | Want_Both | Want_None

record 'id find_node_request =
  fn_id :: 'id
  fn_target :: 'id
  fn_want :: "want option"

record 'id response =
  resp_values :: "socket_addr list option"
  resp_id :: 'id
  resp_nodes :: "'id node4 list option"
  resp_nodes6 :: "'id node6 list option"
  resp_token :: "bytes option"
  resp_v :: "bytes option"
  resp_k :: "bytes option"
  resp_sig :: "bytes option"
  resp_seq :: "i64 option"

record 'id get_peers_request =
  gp_id :: 'id
  gp_info_hash :: 'id
  gp_want :: "want option"

record 'id ping_request =
  ping_id :: 'id

record 'id announce_peer =
  ap_id :: 'id
  implied_port :: u8
  ap_info_hash :: 'id
  ap_port :: u16
  ap_token :: bytes

record 'id bep44_get_request =
  bg_id :: 'id
  bg_target :: 'id
  bg_seq :: "i64 option"

record 'id bep44_put_request =
  bp_id :: 'id
  bp_token :: bytes
  bp_k :: bytes
  bp_sig :: bytes
  bp_seq :: i64
  bp_v :: bytes
  bp_salt :: "bytes option"
  bp_cas :: "i64 option"

text \<open>\<^verbatim>\<open>Response::default\<close>, whose identifier is all zeros.\<close>

definition default_response :: "'id id20_ops \<Rightarrow> 'id response" where
  "default_response ops = \<lparr>resp_values = None, resp_id = id_min ops, resp_nodes = None,
     resp_nodes6 = None, resp_token = None, resp_v = None, resp_k = None, resp_sig = None,
     resp_seq = None\<rparr>"

datatype 'id message_kind =
    MK_Error error_description
  | MK_GetPeersRequest "'id get_peers_request"
  | MK_FindNodeRequest "'id find_node_request"
  | MK_Response "'id response"
  | MK_PingRequest "'id ping_request"
  | MK_AnnouncePeer "'id announce_peer"
  | MK_Bep44GetRequest "'id bep44_get_request"
  | MK_Bep44PutRequest "'id bep44_put_request"

record 'id message =
  msg_kind :: "'id message_kind"
  transaction_id :: bytes
  version :: "bytes option"
  msg_ip :: "socket_addr option"

section \<open>Transaction identifiers\<close>

text \<open>
  Two bytes, the high one first. Any other length means that the identifier is not ours.
\<close>

definition get_our_transaction_id :: "'id message \<Rightarrow> u16 option" where
  "get_our_transaction_id m = (let tid = transaction_id m in
     if length tid \<noteq> 2 then None
     else Some (push_bit 8 (ucast (tid ! 0)) + ucast (tid ! 1)))"

text \<open>The two bytes that \<^verbatim>\<open>create_request\<close> writes.\<close>

definition tid_bytes :: "u16 \<Rightarrow> bytes" where
  "tid_bytes tid = [ucast (drop_bit 8 tid), ucast (tid AND 0xff)]"

lemma tid_bytes_roundtrip:
  "push_bit 8 (ucast (ucast (drop_bit 8 tid) :: u8)) + ucast (ucast (tid AND 0xff) :: u8) = (tid :: u16)"
proof -
  have ff: "(0xff :: u16) = mask 8" by (simp add: mask_eq_exp_minus_1)
  have "push_bit 8 (ucast (ucast (drop_bit 8 tid) :: u8)) + ucast (ucast (tid AND 0xff) :: u8)
      = (push_bit 8 (ucast (ucast (drop_bit 8 tid) :: u8)) OR ucast (ucast (tid AND 0xff) :: u8) :: u16)"
    by (rule disjunctive_add) (auto simp: bit_simps)
  also have "\<dots> = tid"
    unfolding ff by (rule bit_word_eqI) (auto simp: bit_simps)
  finally show ?thesis .
qed

lemma our_transaction_id:
  "transaction_id m = tid_bytes tid \<Longrightarrow> get_our_transaction_id m = Some tid"
  by (simp add: get_our_transaction_id_def tid_bytes_def tid_bytes_roundtrip)

end
