(* ===== verification/Bounded_Store.thy ===== *)
theory Bounded_Store
  imports Prelude "HOL-Library.AList"
begin

text \<open>
  What the peer store and the item store share: maps with an iteration order
  (\<^verbatim>\<open>DashMap\<close>), checked arithmetic on \<^verbatim>\<open>u32\<close>, and the
  contract of a store that runs any sequence of operations within a bound.
\<close>

section \<open>Concurrent maps\<close>

text \<open>
  A \<^verbatim>\<open>DashMap\<close> is an association list with distinct keys: its order is the order
  of iteration, which the type does not specify. An update keeps the place of a key that is there
  and appends a new one (\<^const>\<open>AList.update\<close>); a permutation of the list may happen
  between any two operations.
\<close>

lemma keys_update:
  "distinct (map fst m) \<Longrightarrow> distinct (map fst (AList.update k v m))"
  by (rule distinct_update)

lemma map_of_update_simp [simp]: "map_of (AList.update k v m) j = (if j = k then Some v else map_of m j)"
  by (simp add: update_conv')

lemma set_update_distinct:
  "distinct (map fst m) \<Longrightarrow> set (AList.update k v m) = {e \<in> set m. fst e \<noteq> k} \<union> {(k, v)}"
proof (induction m)
  case (Cons a m)
  then show ?case by (cases a) (auto simp: image_iff)
qed simp

lemma map_of_delete_simp [simp]: "map_of (AList.delete k m) j = (if j = k then None else map_of m j)"
  by (simp add: delete_conv')

lemma set_delete_eq: "set (AList.delete k m) = {e \<in> set m. fst e \<noteq> k}"
  by (auto simp: AList.delete_eq)

section \<open>Checked arithmetic\<close>

definition checked_add :: "u32 \<Rightarrow> u32 \<Rightarrow> abort + u32" where
  "checked_add a b = (if unat a + unat b < 2 ^ 32 then Inr (a + b) else Inl ArithmeticOverflow)"

lemma checked_add_ok:
  assumes "unat a + unat b < 2 ^ 32"
  shows "checked_add a b = Inr (a + b)" and "unat (a + b) = unat a + unat b"
  using assms by (simp_all add: checked_add_def unat_word_ariths)

text \<open>\<^verbatim>\<open>map(|x| x as u32).sum()\<close>.\<close>

fun sum_u32 :: "u32 \<Rightarrow> nat list \<Rightarrow> abort + u32" where
  "sum_u32 acc [] = Inr acc"
| "sum_u32 acc (n # ns) = and_then (checked_add acc (of_nat n)) (\<lambda>acc'. sum_u32 acc' ns)"

lemma unat_u32_less: "unat (x :: u32) < 2 ^ 32"
  by (rule order_less_le_trans [OF unsigned_less]) simp

lemma unat_of_nat_small: "n < 2 ^ 32 \<Longrightarrow> unat (of_nat n :: u32) = n"
  by (simp add: unat_of_nat take_bit_nat_eq_self)

lemma sum_u32_ok:
  "unat acc + sum_list ns < 2 ^ 32 \<Longrightarrow>
    \<exists>s. sum_u32 acc ns = Inr s \<and> unat s = unat acc + sum_list ns"
proof (induction ns arbitrary: acc)
  case (Cons n ns)
  then have n: "unat (of_nat n :: u32) = n" by (intro unat_of_nat_small) simp
  have ok: "unat acc + unat (of_nat n :: u32) < 2 ^ 32" using Cons.prems n by simp
  from Cons.IH [of "acc + of_nat n"] Cons.prems checked_add_ok [OF ok] n show ?case by (simp add: add.assoc)
qed simp

section \<open>The contract of a bounded store\<close>

fun run_ops :: "('op \<Rightarrow> 's \<Rightarrow> abort + 's) \<Rightarrow> 'op list \<Rightarrow> 's \<Rightarrow> abort + 's" where
  "run_ops step [] s = Inr s"
| "run_ops step (a # as) s = and_then (step a s) (run_ops step as)"

lemma run_ops_append: "run_ops f (as @ bs) s = and_then (run_ops f as s) (run_ops f bs)"
  by (induction as arbitrary: s) (auto simp: and_then_def split: sum.splits)

locale bounded_store =
  fixes inv :: "'s \<Rightarrow> bool" and step :: "'op \<Rightarrow> 's \<Rightarrow> abort + 's"
    and store_size :: "'s \<Rightarrow> nat" and cap :: "'s \<Rightarrow> nat"
  assumes step_total: "inv s \<Longrightarrow> \<exists>s'. step a s = Inr s' \<and> inv s' \<and> cap s' = cap s"
    and inv_bound: "inv s \<Longrightarrow> store_size s \<le> cap s"
begin

lemma run_total:
  "inv s \<Longrightarrow> \<exists>s'. run_ops step as s = Inr s' \<and> inv s' \<and> cap s' = cap s"
proof (induction as arbitrary: s)
  case (Cons a as)
  then obtain s1 where "step a s = Inr s1" "inv s1" "cap s1 = cap s" using step_total by blast
  with Cons.IH [of s1] show ?case by simp
qed simp

lemma run_bounded:
  "inv s \<Longrightarrow> \<exists>s'. run_ops step as s = Inr s' \<and> inv s' \<and> store_size s' \<le> cap s"
  using run_total [of s as] inv_bound by fastforce

end

end
