(* ===== verification/Peer_Store.thy ===== *)
theory Peer_Store
  imports Messages Id20_Word Bounded_Store
begin

text \<open>
  The peer store, \<^verbatim>\<open>src/peer_store.rs\<close>: the write tokens handed out, the
  peers announced per info hash, and their garbage collection. Times are readings of the wall
  clock, in nanoseconds, and may go back.
\<close>

section \<open>State\<close>

type_synonym datetime = int

record 'id stored_token =
  st_token :: bytes
  st_node_id :: 'id
  st_addr :: socket_addr
  st_time :: datetime

record stored_peer =
  sp_addr :: socket_addr
  sp_time :: datetime

record 'id peer_store =
  ps_self_id :: 'id
  max_remembered_tokens :: u32
  max_remembered_peers :: u32
  max_distance :: 'id
  ps_tokens :: "'id stored_token list"
  ps_peers :: "('id \<times> stored_peer list) list"
  peers_len :: u32

definition MAX_PEERS_PER_INFO_HASH :: nat where
  "MAX_PEERS_PER_INFO_HASH = 100"

definition PEER_TTL :: int where
  "PEER_TTL = 15 * 60 * 1000000000"

definition TOKEN_TTL :: int where
  "TOKEN_TTL = 10 * 60 * 1000000000"

definition peer_store_new :: "'id id20_ops \<Rightarrow> 'id \<Rightarrow> 'id peer_store" where
  "peer_store_new ops self = \<lparr>ps_self_id = self, max_remembered_tokens = 1000,
     max_remembered_peers = 1000,
     max_distance = id_new ops ([0, 0, 0x0f] @ replicate 17 0xff),
     ps_tokens = [], ps_peers = [], peers_len = 0\<rparr>"

section \<open>Operations\<close>

text \<open>The four random bytes of the token and the clock reading are arguments.\<close>

definition gen_token_for ::
    "bytes \<Rightarrow> datetime \<Rightarrow> 'id peer_store \<Rightarrow> 'id \<Rightarrow> socket_addr \<Rightarrow> 'id peer_store \<times> bytes" where
  "gen_token_for token now ps i addr =
    (let tokens = ps_tokens ps @ [\<lparr>st_token = token, st_node_id = i, st_addr = addr, st_time = now\<rparr>];
         tokens' = (if length tokens > unat (max_remembered_tokens ps) then tl tokens else tokens)
     in (ps\<lparr>ps_tokens := tokens'\<rparr>, token))"

definition token_known :: "'id peer_store \<Rightarrow> 'id announce_peer \<Rightarrow> socket_addr \<Rightarrow> bool" where
  "token_known ps ann addr \<longleftrightarrow> (\<exists>t \<in> set (ps_tokens ps).
     st_token t = ap_token ann \<and> st_addr t = addr \<and> st_node_id t = ap_id ann)"

definition store_peer ::
    "('id::linorder) id20_ops \<Rightarrow> datetime \<Rightarrow> 'id peer_store \<Rightarrow> 'id announce_peer \<Rightarrow> socket_addr
      \<Rightarrow> 'id peer_store \<times> bool" where
  "store_peer ops now ps ann addr =
    (if id_distance ops (ap_info_hash ann) (ps_self_id ps) > max_distance ps then (ps, False)
     else if \<not> token_known ps ann addr then (ps, False)
     else
      (let addr' = (if implied_port ann = 0 then set_port addr (ap_port ann) else addr);
           hash = ap_info_hash ann;
           added = \<lambda>peers. (ps\<lparr>ps_peers := AList.update hash peers (ps_peers ps),
              peers_len := peers_len ps + 1\<rparr>, True)
       in case map_of (ps_peers ps) hash of
            Some peers \<Rightarrow>
              (if \<exists>s \<in> set peers. sp_addr s = addr'
               then (ps\<lparr>ps_peers := AList.update hash
                      (update_first (\<lambda>s. sp_addr s = addr') (\<lambda>s. s\<lparr>sp_time := now\<rparr>) peers)
                      (ps_peers ps)\<rparr>, True)
               else if peers_len ps \<ge> max_remembered_peers ps then (ps, False)
               else added (peers @ [\<lparr>sp_addr = addr', sp_time = now\<rparr>]))
          | None \<Rightarrow>
              (if peers_len ps \<ge> max_remembered_peers ps then (ps, False)
               else added [\<lparr>sp_addr = addr', sp_time = now\<rparr>])))"

fun wants :: "want \<Rightarrow> socket_addr \<Rightarrow> bool" where
  "wants Want_V4 a = is_ipv4 a"
| "wants Want_V6 a = is_ipv6 a"
| "wants Want_Both a = True"
| "wants Want_None a = False"

definition get_for_info_hash :: "'id peer_store \<Rightarrow> 'id \<Rightarrow> want \<Rightarrow> socket_addr list" where
  "get_for_info_hash ps hash want = (case map_of (ps_peers ps) hash of
     Some peers \<Rightarrow> map sp_addr (filter (\<lambda>p. wants want (sp_addr p)) peers)
   | None \<Rightarrow> [])"

section \<open>Garbage collection\<close>

text \<open>The peers of one info hash: old ones go, then all but the hundred most recent.\<close>

definition gc_peers :: "datetime \<Rightarrow> stored_peer list \<Rightarrow> stored_peer list" where
  "gc_peers peer_cutoff peers =
    (let fresh = filter (\<lambda>p. sp_time p > peer_cutoff) peers
     in if length fresh > MAX_PEERS_PER_INFO_HASH
        then take MAX_PEERS_PER_INFO_HASH (sort_key (\<lambda>p. - sp_time p) fresh) else fresh)"

text \<open>The first pass: the new entries, the number of removed peers and the emptied hashes.\<close>

fun gc_scan ::
    "datetime \<Rightarrow> u32 \<Rightarrow> ('id \<times> stored_peer list) list
      \<Rightarrow> abort + ('id \<times> stored_peer list) list \<times> u32 \<times> 'id list" where
  "gc_scan cutoff removed [] = Inr ([], removed, [])"
| "gc_scan cutoff removed ((hash, peers) # es) =
    (let peers' = gc_peers cutoff peers in
     and_then (checked_add removed (of_nat (length peers - length peers'))) (\<lambda>removed'.
     and_then (gc_scan cutoff removed' es) (\<lambda>(es', total, empty_hashes).
       Inr ((hash, peers') # es', total, if peers' = [] then hash # empty_hashes else empty_hashes))))"

text \<open>The global cap: the inner loop over the peers of one hash, and the loop over the hashes.\<close>

fun evict_loop :: "u32 \<Rightarrow> stored_peer list \<Rightarrow> u32 \<Rightarrow> abort + stored_peer list \<times> u32" where
  "evict_loop to_evict [] evicted = Inr ([], evicted)"
| "evict_loop to_evict (p # ps) evicted =
    (if evicted < to_evict
     then and_then (checked_add evicted 1) (\<lambda>evicted'. evict_loop to_evict ps evicted')
     else Inr (p # ps, evicted))"

fun evict_entries ::
    "u32 \<Rightarrow> ('id \<times> datetime) list \<Rightarrow> ('id \<times> stored_peer list) list \<Rightarrow> u32
      \<Rightarrow> abort + ('id \<times> stored_peer list) list \<times> u32" where
  "evict_entries to_evict [] m evicted = Inr (m, evicted)"
| "evict_entries to_evict ((hash, _) # es) m evicted =
    (if evicted \<ge> to_evict then Inr (m, evicted)
     else (case map_of m hash of
         None \<Rightarrow> evict_entries to_evict es m evicted
       | Some peers \<Rightarrow>
           and_then (evict_loop to_evict (sort_key sp_time peers) evicted) (\<lambda>(peers', evicted').
             evict_entries to_evict es
               (if peers' = [] then AList.delete hash m else AList.update hash peers' m) evicted')))"

definition entries_by_oldest :: "('id \<times> stored_peer list) list \<Rightarrow> ('id \<times> datetime) list" where
  "entries_by_oldest m = sort_key snd (concat (map (\<lambda>(hash, peers).
     if peers = [] then [] else [(hash, Min (set (map sp_time peers)))]) m))"

definition peer_counts :: "('id \<times> stored_peer list) list \<Rightarrow> nat list" where
  "peer_counts m = map (\<lambda>e. length (snd e)) m"

definition garbage_collect_peers :: "datetime \<Rightarrow> 'id peer_store \<Rightarrow> abort + 'id peer_store" where
  "garbage_collect_peers now ps =
    (let tokens = filter (\<lambda>t. st_time t > now - TOKEN_TTL) (ps_tokens ps) in
     and_then (gc_scan (now - PEER_TTL) 0 (ps_peers ps)) (\<lambda>(m1, total_removed, empty_hashes).
     let m2 = filter (\<lambda>e. fst e \<notin> set empty_hashes) m1;
         cap = max_remembered_peers ps in
     and_then (sum_u32 0 (peer_counts m2)) (\<lambda>actual_count.
     and_then (if actual_count > cap
         then and_then (evict_entries (actual_count - cap) (entries_by_oldest m2) m2 0) (\<lambda>(m3, evicted).
           and_then (checked_add total_removed evicted) (\<lambda>total_removed'. Inr m3))
         else Inr m2) (\<lambda>m3.
     and_then (sum_u32 0 (peer_counts m3)) (\<lambda>final_count.
       Inr (ps\<lparr>ps_tokens := tokens, ps_peers := m3, peers_len := final_count\<rparr>))))))"

section \<open>The invariant\<close>

definition total_peers :: "('id \<times> stored_peer list) list \<Rightarrow> nat" where
  "total_peers m = sum_list (peer_counts m)"

lemma total_peers_simps [simp]:
  "total_peers [] = 0"
  "total_peers (e # m) = length (snd e) + total_peers m"
  by (simp_all add: total_peers_def peer_counts_def)

text \<open>
  Hashes are distinct, near enough and have peers; the addresses of one hash are distinct; the
  counter is exact, and it and the tokens are within their bounds.
\<close>

definition peers_ok :: "('id::linorder) id20_ops \<Rightarrow> 'id \<Rightarrow> 'id \<Rightarrow> ('id \<times> stored_peer list) list \<Rightarrow> bool" where
  "peers_ok ops self limit m \<longleftrightarrow> distinct (map fst m) \<and> (\<forall>(hash, peers) \<in> set m.
     id_distance ops hash self \<le> limit \<and> peers \<noteq> [] \<and> distinct (map sp_addr peers))"

definition peer_store_inv :: "('id::linorder) id20_ops \<Rightarrow> 'id peer_store \<Rightarrow> bool" where
  "peer_store_inv ops ps \<longleftrightarrow> peers_ok ops (ps_self_id ps) (max_distance ps) (ps_peers ps)
     \<and> unat (peers_len ps) = total_peers (ps_peers ps) \<and> peers_len ps \<le> max_remembered_peers ps
     \<and> length (ps_tokens ps) \<le> unat (max_remembered_tokens ps)"

section \<open>Counting peers\<close>

lemma total_update_old:
  "map_of m k = Some v \<Longrightarrow> total_peers (AList.update k w m) + length v = total_peers m + length w"
proof (induction m)
  case (Cons a m)
  then show ?case by (cases a; cases "fst a = k") simp_all
qed simp

lemma total_update_new: "map_of m k = None \<Longrightarrow> total_peers (AList.update k w m) = total_peers m + length w"
proof (induction m)
  case (Cons a m)
  then show ?case by (cases a; cases "fst a = k") simp_all
qed simp

lemma total_delete:
  "distinct (map fst m) \<Longrightarrow> map_of m k = Some v \<Longrightarrow>
    total_peers (AList.delete k m) + length v = total_peers m"
proof (induction m)
  case (Cons a m)
  show ?case
  proof (cases "fst a = k")
    case True
    with Cons.prems have "AList.delete k m = m" by (cases a) (auto simp: delete_idem)
    with True Cons.prems show ?thesis by (cases a) simp
  next
    case False
    with Cons show ?thesis by (cases a) (auto simp: add.assoc)
  qed
qed simp

lemma total_perm: "mset m = mset m' \<Longrightarrow> total_peers m = total_peers m'"
  unfolding total_peers_def peer_counts_def sum_mset_sum_list [symmetric] mset_map by simp

lemma peers_ok_update:
  assumes "peers_ok ops self limit m" and "id_distance ops hash self \<le> limit" and "peers \<noteq> []"
    and "distinct (map sp_addr peers)"
  shows "peers_ok ops self limit (AList.update hash peers m)"
  using assms by (auto simp: peers_ok_def set_update_distinct distinct_update)

lemma peers_ok_get:
  "peers_ok ops self limit m \<Longrightarrow> map_of m hash = Some peers \<Longrightarrow>
    id_distance ops hash self \<le> limit \<and> peers \<noteq> [] \<and> distinct (map sp_addr peers)"
  by (auto simp: peers_ok_def dest!: map_of_SomeD)

section \<open>Storing\<close>

lemma gen_token_inv:
  "peer_store_inv ops ps \<Longrightarrow> peer_store_inv ops (fst (gen_token_for token now ps i addr))"
  by (simp add: peer_store_inv_def gen_token_for_def Let_def)

text \<open>The accepted announcements.\<close>

definition announced_addr :: "'id announce_peer \<Rightarrow> socket_addr \<Rightarrow> socket_addr" where
  "announced_addr ann addr = (if implied_port ann = 0 then set_port addr (ap_port ann) else addr)"

definition peers_of :: "'id peer_store \<Rightarrow> 'id \<Rightarrow> stored_peer list" where
  "peers_of ps hash = (case map_of (ps_peers ps) hash of Some peers \<Rightarrow> peers | None \<Rightarrow> [])"

definition accepts :: "('id::linorder) id20_ops \<Rightarrow> 'id peer_store \<Rightarrow> 'id announce_peer \<Rightarrow> socket_addr \<Rightarrow> bool" where
  "accepts ops ps ann addr \<longleftrightarrow> id_distance ops (ap_info_hash ann) (ps_self_id ps) \<le> max_distance ps
     \<and> token_known ps ann addr
     \<and> (announced_addr ann addr \<in> sp_addr ` set (peers_of ps (ap_info_hash ann))
        \<or> total_peers (ps_peers ps) < unat (max_remembered_peers ps))"

definition touch :: "datetime \<Rightarrow> socket_addr \<Rightarrow> stored_peer \<Rightarrow> stored_peer" where
  "touch now a p = (if sp_addr p = a then p\<lparr>sp_time := now\<rparr> else p)"

definition stored_after :: "datetime \<Rightarrow> socket_addr \<Rightarrow> stored_peer list \<Rightarrow> stored_peer list" where
  "stored_after now a peers = (if a \<in> sp_addr ` set peers then map (touch now a) peers
     else peers @ [\<lparr>sp_addr = a, sp_time = now\<rparr>])"

lemma sp_addr_touch [simp]: "sp_addr (touch now a p) = sp_addr p" "sp_addr \<circ> touch now a = sp_addr"
  by (auto simp: touch_def)

lemma set_sp_addr_stored_after:
  "sp_addr ` set (stored_after now a peers) = insert a (sp_addr ` set peers)"
  by (auto simp: stored_after_def image_image)

lemma update_first_stored:
  assumes "distinct (map sp_addr peers)" and "a \<in> sp_addr ` set peers"
  shows "update_first (\<lambda>s. sp_addr s = a) (\<lambda>s. s\<lparr>sp_time := now\<rparr>) peers = stored_after now a peers"
proof -
  have "touch now a = (\<lambda>p. if sp_addr p = a then p\<lparr>sp_time := now\<rparr> else p)" by (auto simp: touch_def)
  then show ?thesis
    using update_first_distinct [OF assms(1), of a "\<lambda>s. s\<lparr>sp_time := now\<rparr>"] assms(2)
    by (simp only: stored_after_def if_True)
qed

text \<open>The room left in the counter.\<close>

lemma peers_room:
  assumes "peer_store_inv ops ps"
  shows "max_remembered_peers ps \<le> peers_len ps \<longleftrightarrow> \<not> total_peers (ps_peers ps) < unat (max_remembered_peers ps)"
    and "total_peers (ps_peers ps) < unat (max_remembered_peers ps) \<Longrightarrow>
      unat (peers_len ps + 1) = total_peers (ps_peers ps) + 1 \<and> peers_len ps + 1 \<le> max_remembered_peers ps"
proof -
  have len: "unat (peers_len ps) = total_peers (ps_peers ps)"
    using assms by (simp add: peer_store_inv_def)
  then show "max_remembered_peers ps \<le> peers_len ps
      \<longleftrightarrow> \<not> total_peers (ps_peers ps) < unat (max_remembered_peers ps)"
    by (simp add: word_le_nat_alt not_less)
  assume room: "total_peers (ps_peers ps) < unat (max_remembered_peers ps)"
  have "unat (max_remembered_peers ps) < 2 ^ 32" by (rule unat_u32_less)
  with room len have "unat (peers_len ps + 1) = total_peers (ps_peers ps) + 1"
    by (simp add: unat_word_ariths)
  with room show "unat (peers_len ps + 1) = total_peers (ps_peers ps) + 1 \<and> peers_len ps + 1 \<le> max_remembered_peers ps"
    by (simp add: word_le_nat_alt)
qed

text \<open>The three ways in which an announcement that passes the first checks ends.\<close>

lemma store_peer_cases:
  assumes inv: "peer_store_inv ops ps"
    and near: "id_distance ops (ap_info_hash ann) (ps_self_id ps) \<le> max_distance ps"
    and known: "token_known ps ann addr"
  shows "announced_addr ann addr \<in> sp_addr ` set (peers_of ps (ap_info_hash ann)) \<Longrightarrow>
      store_peer ops now ps ann addr = (ps\<lparr>ps_peers := AList.update (ap_info_hash ann)
        (stored_after now (announced_addr ann addr) (peers_of ps (ap_info_hash ann))) (ps_peers ps)\<rparr>, True)"
    and "announced_addr ann addr \<notin> sp_addr ` set (peers_of ps (ap_info_hash ann)) \<Longrightarrow>
      total_peers (ps_peers ps) < unat (max_remembered_peers ps) \<Longrightarrow>
      store_peer ops now ps ann addr = (ps\<lparr>ps_peers := AList.update (ap_info_hash ann)
        (stored_after now (announced_addr ann addr) (peers_of ps (ap_info_hash ann))) (ps_peers ps),
        peers_len := peers_len ps + 1\<rparr>, True)"
    and "announced_addr ann addr \<notin> sp_addr ` set (peers_of ps (ap_info_hash ann)) \<Longrightarrow>
      \<not> total_peers (ps_peers ps) < unat (max_remembered_peers ps) \<Longrightarrow>
      store_peer ops now ps ann addr = (ps, False)"
proof -
  let ?a = "announced_addr ann addr" and ?h = "ap_info_hash ann"
  have a: "(if implied_port ann = 0 then set_port addr (ap_port ann) else addr) = ?a"
    by (simp add: announced_addr_def)
  have near': "\<not> max_distance ps < id_distance ops ?h (ps_self_id ps)" using near by (simp add: not_less)
  note step = store_peer_def [of ops now ps ann addr, unfolded a Let_def] near' known peers_of_def
  have mem: "(\<exists>s \<in> set peers. sp_addr s = ?a) \<longleftrightarrow> ?a \<in> sp_addr ` set peers" for peers
    by (metis image_iff)
  have ok: "distinct (map sp_addr peers)" if "map_of (ps_peers ps) ?h = Some peers" for peers
    using peers_ok_get [OF _ that] inv by (auto simp: peer_store_inv_def)
  note room = peers_room(1) [OF inv]
  show "store_peer ops now ps ann addr = (ps\<lparr>ps_peers := AList.update ?h
        (stored_after now ?a (peers_of ps ?h)) (ps_peers ps)\<rparr>, True)" if "?a \<in> sp_addr ` set (peers_of ps ?h)"
    using that ok by (cases "map_of (ps_peers ps) ?h") (simp_all add: step mem update_first_stored)
  show "store_peer ops now ps ann addr = (ps\<lparr>ps_peers := AList.update ?h
        (stored_after now ?a (peers_of ps ?h)) (ps_peers ps), peers_len := peers_len ps + 1\<rparr>, True)"
    if "?a \<notin> sp_addr ` set (peers_of ps ?h)" "total_peers (ps_peers ps) < unat (max_remembered_peers ps)"
    using that by (cases "map_of (ps_peers ps) ?h") (simp_all add: step mem room stored_after_def)
  show "store_peer ops now ps ann addr = (ps, False)"
    if "?a \<notin> sp_addr ` set (peers_of ps ?h)" "\<not> total_peers (ps_peers ps) < unat (max_remembered_peers ps)"
    using that by (cases "map_of (ps_peers ps) ?h") (simp_all add: step mem room)
qed

lemma store_peer_rejects:
  "\<not> (id_distance ops (ap_info_hash ann) (ps_self_id ps) \<le> max_distance ps \<and> token_known ps ann addr) \<Longrightarrow>
    store_peer ops now ps ann addr = (ps, False)"
  by (auto simp: store_peer_def not_le)

lemma stored_after_ok:
  "distinct (map sp_addr peers) \<Longrightarrow> distinct (map sp_addr (stored_after now a peers)) \<and> stored_after now a peers \<noteq> []"
  unfolding stored_after_def by (cases "a \<in> sp_addr ` set peers") auto

lemma peers_of_update:
  "peers_of (ps\<lparr>ps_peers := AList.update hash peers (ps_peers ps)\<rparr>) h = (if h = hash then peers else peers_of ps h)"
  by (simp add: peers_of_def)

lemma total_stored:
  assumes "distinct (map fst (ps_peers ps))"
  shows "total_peers (AList.update hash (stored_after now a (peers_of ps hash)) (ps_peers ps))
    = total_peers (ps_peers ps) + (if a \<in> sp_addr ` set (peers_of ps hash) then 0 else 1)"
proof (cases "map_of (ps_peers ps) hash")
  case None
  then show ?thesis by (simp add: total_update_new peers_of_def stored_after_def)
next
  case (Some peers)
  with total_update_old [OF Some, of "stored_after now a peers"] show ?thesis
    by (auto simp: peers_of_def stored_after_def)
qed

lemma store_peer_spec:
  assumes inv: "peer_store_inv ops ps" and eq: "store_peer ops now ps ann addr = (ps', r)"
  shows "r = accepts ops ps ann addr" and "peer_store_inv ops ps'" and "\<not> r \<Longrightarrow> ps' = ps"
    and "ps_tokens ps' = ps_tokens ps" and "max_remembered_peers ps' = max_remembered_peers ps"
    and "r \<Longrightarrow> peers_of ps' h = (if h = ap_info_hash ann
      then stored_after now (announced_addr ann addr) (peers_of ps h) else peers_of ps h)"
proof -
  let ?a = "announced_addr ann addr" and ?h = "ap_info_hash ann"
  let ?m = "AList.update ?h (stored_after now ?a (peers_of ps ?h)) (ps_peers ps)"
  have ok: "peers_ok ops (ps_self_id ps) (max_distance ps) (ps_peers ps)"
    using inv by (simp add: peer_store_inv_def)
  then have dist: "distinct (map fst (ps_peers ps))" by (simp add: peers_ok_def)
  have "distinct (map sp_addr (peers_of ps ?h))"
    using peers_ok_get [OF ok] by (auto simp: peers_of_def split: option.splits)
  then have ok': "peers_ok ops (ps_self_id ps) (max_distance ps) ?m"
    if "id_distance ops ?h (ps_self_id ps) \<le> max_distance ps"
    using peers_ok_update [OF ok that] stored_after_ok by blast
  note of_upd = peers_of_def [of "_\<lparr>peers_len := _\<rparr>"] peers_of_update
  consider "\<not> (id_distance ops ?h (ps_self_id ps) \<le> max_distance ps \<and> token_known ps ann addr)"
    | "id_distance ops ?h (ps_self_id ps) \<le> max_distance ps" "token_known ps ann addr"
      "?a \<in> sp_addr ` set (peers_of ps ?h)"
    | "id_distance ops ?h (ps_self_id ps) \<le> max_distance ps" "token_known ps ann addr"
      "?a \<notin> sp_addr ` set (peers_of ps ?h)" "total_peers (ps_peers ps) < unat (max_remembered_peers ps)"
    | "id_distance ops ?h (ps_self_id ps) \<le> max_distance ps" "token_known ps ann addr"
      "?a \<notin> sp_addr ` set (peers_of ps ?h)" "\<not> total_peers (ps_peers ps) < unat (max_remembered_peers ps)"
    by blast
  then have "r = accepts ops ps ann addr \<and> peer_store_inv ops ps' \<and> (\<not> r \<longrightarrow> ps' = ps)
    \<and> ps_tokens ps' = ps_tokens ps \<and> max_remembered_peers ps' = max_remembered_peers ps
    \<and> (r \<longrightarrow> ps_peers ps' = ?m)"
  proof cases
    case 1
    with store_peer_rejects [OF 1, of now] eq inv show ?thesis by (auto simp: accepts_def)
  next
    case 2
    with store_peer_cases(1) [OF inv 2] eq inv ok' total_stored [OF dist, of ?h now ?a] show ?thesis
      by (auto simp: accepts_def peer_store_inv_def)
  next
    case 3
    with store_peer_cases(2) [OF inv 3] eq inv ok' total_stored [OF dist, of ?h now ?a]
      peers_room(2) [OF inv 3(4)] show ?thesis
      by (auto simp: accepts_def peer_store_inv_def)
  next
    case 4
    with store_peer_cases(3) [OF inv 4] eq inv show ?thesis by (auto simp: accepts_def)
  qed
  then show "r = accepts ops ps ann addr" "peer_store_inv ops ps'" "\<not> r \<Longrightarrow> ps' = ps"
    "ps_tokens ps' = ps_tokens ps" "max_remembered_peers ps' = max_remembered_peers ps"
    "r \<Longrightarrow> peers_of ps' h = (if h = ?h then stored_after now ?a (peers_of ps h) else peers_of ps h)"
    by (auto simp: peers_of_def)
qed

end
