(* ===== verification/Peer_GC.thy ===== *)
theory Peer_GC
  imports Peer_Store
begin

text \<open>
  The garbage collection of the peer store: what its two passes keep, that its counters never
  overflow, and the store as an instance of the contract of a bounded store.
\<close>

section \<open>The first pass\<close>

definition fresh_peers :: "datetime \<Rightarrow> stored_peer list \<Rightarrow> stored_peer list" where
  "fresh_peers cutoff peers = filter (\<lambda>p. sp_time p > cutoff) peers"

lemma gc_peers_length: "length (gc_peers c peers) = min MAX_PEERS_PER_INFO_HASH (length (fresh_peers c peers))"
  by (simp add: gc_peers_def fresh_peers_def Let_def)

lemma gc_peers_set: "set (gc_peers c peers) \<subseteq> set (fresh_peers c peers)"
  unfolding gc_peers_def fresh_peers_def [symmetric] Let_def
  by (auto dest: in_set_takeD)

lemma gc_peers_all: "length (fresh_peers c peers) \<le> MAX_PEERS_PER_INFO_HASH \<Longrightarrow> gc_peers c peers = fresh_peers c peers"
  by (simp add: gc_peers_def fresh_peers_def)

lemma gc_peers_distinct: "distinct (map sp_addr peers) \<Longrightarrow> distinct (map sp_addr (gc_peers c peers))"
  unfolding gc_peers_def Let_def
  by (simp add: distinct_map_filter take_map [symmetric] distinct_take)

lemma gc_peers_recent:
  assumes "p \<in> set (gc_peers c peers)" and "q \<in> set (fresh_peers c peers)" and "q \<notin> set (gc_peers c peers)"
  shows "sp_time q \<le> sp_time p"
proof -
  let ?s = "sort_key (\<lambda>p. - sp_time p) (fresh_peers c peers)"
  have gc: "gc_peers c peers = take MAX_PEERS_PER_INFO_HASH ?s"
    using assms(2,3) gc_peers_all [of c peers]
    by (auto simp: gc_peers_def fresh_peers_def Let_def)
  have "q \<in> set ?s" using assms(2) by simp
  then have "q \<in> set (drop MAX_PEERS_PER_INFO_HASH ?s)"
    using assms(3) gc by (metis UnE append_take_drop_id set_append)
  then have "- sp_time p \<le> - sp_time q"
    using assms(1) gc by (intro sorted_take_drop_le [of "\<lambda>p. - sp_time p" ?s]) simp_all
  then show ?thesis by simp
qed

definition gc_map :: "datetime \<Rightarrow> ('id \<times> stored_peer list) list \<Rightarrow> ('id \<times> stored_peer list) list" where
  "gc_map c m = map (\<lambda>e. (fst e, gc_peers c (snd e))) m"

lemma gc_scan_ok:
  "unat removed + total_peers m < 2 ^ 32 \<Longrightarrow>
    \<exists>r eh. gc_scan c removed m = Inr (gc_map c m, r, eh) \<and> unat r + total_peers (gc_map c m) = unat removed + total_peers m
      \<and> set eh = {fst e | e. e \<in> set m \<and> gc_peers c (snd e) = []}"
proof (induction m arbitrary: removed)
  case (Cons e m)
  obtain hash peers where e: "e = (hash, peers)" by (cases e) blast
  let ?n = "length peers - length (gc_peers c peers)"
  have le: "length (gc_peers c peers) \<le> length peers"
    by (simp add: gc_peers_length fresh_peers_def min.coboundedI2)
  have n: "unat (of_nat ?n :: u32) = ?n"
    using Cons.prems e by (intro unat_of_nat_small) simp
  have ok: "unat removed + unat (of_nat ?n :: u32) < 2 ^ 32" unfolding n using Cons.prems e by simp
  have "unat (removed + of_nat ?n) + total_peers m < 2 ^ 32"
    unfolding checked_add_ok(2) [OF ok] n using Cons.prems e by simp
  from Cons.IH [OF this] obtain r eh where r: "gc_scan c (removed + of_nat ?n) m = Inr (gc_map c m, r, eh)"
    "unat r + total_peers (gc_map c m) = unat (removed + of_nat ?n) + total_peers m"
    "set eh = {fst e | e. e \<in> set m \<and> gc_peers c (snd e) = []}" by blast
  have "unat r + total_peers (gc_map c (e # m)) = unat removed + total_peers (e # m)"
    using r(2) le unfolding checked_add_ok(2) [OF ok] n by (simp add: gc_map_def e)
  moreover have "set (if gc_peers c peers = [] then hash # eh else eh)
      = {fst e' | e'. e' \<in> set (e # m) \<and> gc_peers c (snd e') = []}"
    using r(3) by (auto simp: e)
  ultimately show ?case
    using r(1) checked_add_ok(1) [OF ok] by (simp add: e Let_def gc_map_def)
qed (simp add: gc_map_def)

lemma remove_empty:
  assumes "distinct (map fst m)" and "set eh = {fst e | e. e \<in> set m \<and> gc_peers c (snd e) = []}"
  shows "filter (\<lambda>e. fst e \<notin> set eh) (gc_map c m) = filter (\<lambda>e. snd e \<noteq> []) (gc_map c m)"
proof (rule filter_cong [OF refl])
  fix e assume "e \<in> set (gc_map c m)"
  then obtain e0 where e0: "e0 \<in> set m" "e = (fst e0, gc_peers c (snd e0))" by (auto simp: gc_map_def)
  have "e0 = e1" if "e1 \<in> set m" "fst e1 = fst e0" for e1
  proof -
    from assms(1) have "inj_on fst (set m)" by (simp add: distinct_map)
    from inj_onD [OF this that(2) that(1) e0(1)] show ?thesis by simp
  qed
  then have "fst e0 \<in> {fst e | e. e \<in> set m \<and> gc_peers c (snd e) = []} \<longleftrightarrow> gc_peers c (snd e0) = []"
    using e0(1) by fastforce
  with e0(2) assms(2) show "fst e \<notin> set eh \<longleftrightarrow> snd e \<noteq> []" by simp
qed

lemma total_nonempty: "total_peers (filter (\<lambda>e. snd e \<noteq> []) m) = total_peers m"
  by (induction m) auto

section \<open>The eviction\<close>

lemma evict_loop_ok:
  "ev \<le> to \<Longrightarrow> \<exists>ev'. evict_loop to ps ev = Inr (drop (unat to - unat ev) ps, ev')
    \<and> unat ev' = min (unat to) (unat ev + length ps) \<and> ev' \<le> to"
proof (induction ps arbitrary: ev)
  case (Cons p ps)
  show ?case
  proof (cases "ev < to")
    case True
    then have lt: "unat ev < unat to" by (simp add: word_less_nat_alt)
    have "unat to < 2 ^ 32" by (rule unat_u32_less)
    with lt have ok: "unat ev + unat (1 :: u32) < 2 ^ 32" by simp
    have ev1: "unat (ev + 1) = unat ev + 1" using checked_add_ok(2) [OF ok] by simp
    then have "ev + 1 \<le> to" using lt by (simp add: word_le_nat_alt)
    from Cons.IH [OF this] obtain ev' where "evict_loop to ps (ev + 1) = Inr (drop (unat to - unat (ev + 1)) ps, ev')"
      "unat ev' = min (unat to) (unat (ev + 1) + length ps)" "ev' \<le> to" by blast
    moreover have "unat to - unat ev = Suc (unat to - unat (ev + 1))" using ev1 lt by simp
    ultimately show ?thesis using True checked_add_ok(1) [OF ok] ev1 by simp
  next
    case False
    with Cons.prems have "ev = to" by simp
    then show ?thesis by simp
  qed
qed (simp add: word_le_nat_alt min_absorb2)

definition sub_entries :: "('id \<times> stored_peer list) list \<Rightarrow> ('id \<times> stored_peer list) list \<Rightarrow> bool" where
  "sub_entries m' m \<longleftrightarrow> distinct (map fst m') \<and> (\<forall>(h, ps') \<in> set m'. ps' \<noteq> []
     \<and> (\<exists>ps. (h, ps) \<in> set m \<and> mset ps' \<subseteq># mset ps))"

lemma sub_entries_trans: "sub_entries m'' m' \<Longrightarrow> sub_entries m' m \<Longrightarrow> sub_entries m'' m"
  by (fastforce simp: sub_entries_def intro: subset_mset.order_trans)

lemma sub_entries_step:
  assumes "distinct (map fst m)" and "map_of m h = Some peers" and "mset ps' \<subseteq># mset peers"
    and "\<forall>e \<in> set m. snd e \<noteq> []"
  shows "sub_entries (if ps' = [] then AList.delete h m else AList.update h ps' m) m"
proof (cases "ps' = []")
  case True
  then show ?thesis using assms(1,4) by (auto simp: sub_entries_def set_delete_eq AList.distinct_delete)
next
  case False
  have "(h, peers) \<in> set m" using map_of_SomeD [OF assms(2)] .
  with False assms show ?thesis
    by (auto simp: sub_entries_def set_update_distinct AList.distinct_update)
qed

lemma evict_entries_ok:
  "distinct (map fst es) \<Longrightarrow> distinct (map fst m) \<Longrightarrow> \<forall>e \<in> set m. snd e \<noteq> [] \<Longrightarrow> ev \<le> to \<Longrightarrow>
    (\<forall>e \<in> set es. map_of m (fst e) \<noteq> None) \<Longrightarrow>
    unat to \<le> unat ev + sum_list (map (\<lambda>e. length (the (map_of m (fst e)))) es) \<Longrightarrow>
    \<exists>m'. evict_entries to es m ev = Inr (m', to) \<and> sub_entries m' m
      \<and> total_peers m' + unat to = total_peers m + unat ev"
proof (induction es arbitrary: m ev)
  case Nil
  then have "ev = to" by (simp add: word_le_nat_alt antisym)
  then show ?case using Nil by (auto simp: sub_entries_def)
next
  case (Cons e es)
  obtain h d where e: "e = (h, d)" by (cases e) blast
  show ?case
  proof (cases "to \<le> ev")
    case True
    then have "ev = to" using Cons.prems(4) by simp
    then show ?thesis using Cons.prems(2,3) e by (auto simp: sub_entries_def)
  next
    case False
    obtain peers where peers: "map_of m h = Some peers" using Cons.prems(5) e by auto
    obtain ev' where ev': "evict_loop to (sort_key sp_time peers) ev
        = Inr (drop (unat to - unat ev) (sort_key sp_time peers), ev')"
      "unat ev' = min (unat to) (unat ev + length peers)" "ev' \<le> to"
      using evict_loop_ok [OF Cons.prems(4), of "sort_key sp_time peers"] by auto
    define ps' where "ps' = drop (unat to - unat ev) (sort_key sp_time peers)"
    define m1 where "m1 = (if ps' = [] then AList.delete h m else AList.update h ps' m)"
    have "mset ps' \<subseteq># mset (sort_key sp_time peers)" unfolding ps'_def
      by (metis append_take_drop_id mset_append mset_subset_eq_add_right)
    then have sub: "sub_entries m1 m"
      unfolding m1_def using sub_entries_step [OF Cons.prems(2) peers _ Cons.prems(3)] by simp
    have len: "length ps' + unat ev' = length peers + unat ev"
      using ev'(2) Cons.prems(4) False by (simp add: ps'_def word_le_nat_alt min_def)
    have total: "total_peers m1 + length peers = total_peers m + length ps'"
      using total_delete [OF Cons.prems(2) peers] total_update_old [OF peers] by (simp add: m1_def)
    have other: "map_of m1 (fst x) = map_of m (fst x)" if "x \<in> set es" for x
      using that Cons.prems(1) e by (auto simp: m1_def)
    have "map (\<lambda>e. length (the (map_of m1 (fst e)))) es = map (\<lambda>e. length (the (map_of m (fst e)))) es"
      using other by (simp cong: map_cong)
    moreover have "unat to \<le> unat ev' + sum_list (map (\<lambda>e. length (the (map_of m (fst e)))) es)"
      using Cons.prems(6) ev'(2) peers by (simp add: e min_def)
    ultimately have "unat to \<le> unat ev' + sum_list (map (\<lambda>e. length (the (map_of m1 (fst e)))) es)"
      by (simp only:)
    moreover have "distinct (map fst m1)" "\<forall>e \<in> set m1. snd e \<noteq> []"
      using sub by (auto simp: sub_entries_def)
    moreover have "\<forall>x \<in> set es. map_of m1 (fst x) \<noteq> None" using other Cons.prems(5) by simp
    ultimately obtain m' where m': "evict_entries to es m1 ev' = Inr (m', to)" "sub_entries m' m1"
      "total_peers m' + unat to = total_peers m1 + unat ev'"
      using Cons.IH [of m1 ev'] Cons.prems(1) ev'(3) by auto
    have "evict_entries to (e # es) m ev = evict_entries to es m1 ev'"
      using False peers ev'(1) [folded ps'_def] by (simp add: e m1_def)
    with m'(1) have "evict_entries to (e # es) m ev = Inr (m', to)" by simp
    moreover have "total_peers m' + unat to = total_peers m + unat ev" using m'(3) total len by linarith
    ultimately show ?thesis using sub_entries_trans [OF m'(2) sub] by blast
  qed
qed

lemma entries_by_oldest_keys:
  assumes "\<forall>e \<in> set m. snd e \<noteq> []"
  shows "mset (map fst (entries_by_oldest m)) = mset (map fst m)"
proof -
  have "mset (map fst (concat (map (\<lambda>(h, ps). if ps = [] then [] else [(h, Min (set (map sp_time ps)))]) m)))
      = mset (map fst m)"
    using assms by (induction m) auto
  then show ?thesis by (simp add: entries_by_oldest_def)
qed

section \<open>Which peers the cap evicts\<close>

definition entry_of :: "('id \<times> stored_peer list) list \<Rightarrow> 'id \<Rightarrow> stored_peer list" where
  "entry_of m h = (case map_of m h of Some l \<Rightarrow> l | None \<Rightarrow> [])"

lemma entry_of_changed [simp]:
  "entry_of (AList.update k v m) h = (if h = k then v else entry_of m h)"
  "entry_of (AList.delete k m) h = (if h = k then [] else entry_of m h)"
  by (simp_all add: entry_of_def update_conv delete_conv)

lemma evict_loop_drops:
  "evict_loop to l ev = Inr (l', ev') \<Longrightarrow> (\<exists>k. l' = drop k l) \<and> (l' \<noteq> [] \<longrightarrow> to \<le> ev')"
proof (induction to l ev rule: evict_loop.induct)
  case (2 to p l ev)
  show ?case
  proof (cases "ev < to")
    case True
    with "2.prems" obtain ev1 where ev1: "checked_add ev 1 = Inr ev1" "evict_loop to l ev1 = Inr (l', ev')"
      by (auto simp: and_then_eq_Inr)
    from "2.IH" [OF True ev1] obtain k where "l' = drop (Suc k) (p # l)" "l' \<noteq> [] \<longrightarrow> to \<le> ev'" by auto
    then show ?thesis by blast
  next
    case False
    with "2.prems" have "l' = drop 0 (p # l)" "to \<le> ev'" by auto
    then show ?thesis by blast
  qed
qed auto

lemma evict_entries_done: "to \<le> ev \<Longrightarrow> evict_entries to es m ev = Inr (m, ev)"
  by (cases es) auto

text \<open>The hashes are emptied one after the other; of the last one only the oldest peers go.\<close>

lemma evict_entries_spec:
  "evict_entries to es m ev = Inr (m', ev') \<Longrightarrow> distinct (map fst es) \<Longrightarrow>
    (\<forall>h. h \<notin> fst ` set es \<longrightarrow> entry_of m' h = entry_of m h)
    \<and> (\<forall>h. entry_of m' h = entry_of m h \<or> (\<exists>k. entry_of m' h = drop k (sort_key sp_time (entry_of m h))))
    \<and> (\<forall>xs h d ys. es = xs @ (h, d) # ys \<longrightarrow> entry_of m' h \<noteq> entry_of m h \<longrightarrow> (\<forall>x \<in> fst ` set xs. entry_of m' x = []))"
proof (induction es arbitrary: m ev)
  case (Cons e es)
  obtain hash d0 where e: "e = (hash, d0)" by (cases e) blast
  have fresh: "hash \<notin> fst ` set es" and dist: "distinct (map fst es)" using Cons.prems(2) by (simp_all add: e)
  show ?case
  proof (cases "to \<le> ev")
    case True
    then have "m' = m" using Cons.prems(1) by (simp add: e)
    then show ?thesis by simp
  next
    case go: False
    show ?thesis
    proof (cases "map_of m hash")
      case None
      then have r: "evict_entries to es m ev = Inr (m', ev')" using Cons.prems(1) go by (simp add: e)
      note ih = Cons.IH [OF r dist]
      have "entry_of m' hash = []" using ih fresh None by (simp add: entry_of_def)
      moreover have "\<forall>x \<in> fst ` set xs. entry_of m' x = []"
        if c: "e # es = xs @ (h, d) # ys" "entry_of m' h \<noteq> entry_of m h" for xs h d ys
      proof (cases xs)
        case (Cons x xs')
        with c(1) have x: "x = e" "es = xs' @ (h, d) # ys" by simp_all
        with ih c(2) have "\<forall>x \<in> fst ` set xs'. entry_of m' x = []" by blast
        with x(1) Cons \<open>entry_of m' hash = []\<close> show ?thesis by (simp add: e)
      qed simp
      ultimately show ?thesis using ih by (simp add: e)
    next
      case (Some peers)
      then obtain l ev1 where l1: "evict_loop to (sort_key sp_time peers) ev = Inr (l, ev1)"
        "evict_entries to es (if l = [] then AList.delete hash m else AList.update hash l m) ev1 = Inr (m', ev')"
        using Cons.prems(1) go by (auto simp: e and_then_eq_Inr)
      define m1 where "m1 = (if l = [] then AList.delete hash m else AList.update hash l m)"
      note l = l1 [folded m1_def]
      note ih = Cons.IH [OF l(2) dist]
      have m1: "entry_of m1 h = (if h = hash then l else entry_of m h)" for h by (simp add: m1_def)
      from evict_loop_drops [OF l(1)] obtain k where k: "l = drop k (sort_key sp_time peers)" "l \<noteq> [] \<Longrightarrow> to \<le> ev1" by blast
      have stop: "m' = m1" if "l \<noteq> []"
      proof -
        have "evict_entries to es m1 ev1 = Inr (m1, ev1)" by (rule evict_entries_done [OF k(2) [OF that]])
        from trans [OF sym [OF l(2)] this] show ?thesis by (simp only: prod.inject sum.inject)
      qed
      have hash: "entry_of m' hash = l" using ih fresh m1 by simp
      have "entry_of m hash = peers" using Some by (simp add: entry_of_def)
      with hash k(1) have own: "entry_of m' hash = drop k (sort_key sp_time (entry_of m hash))" by simp
      have "entry_of m' h = entry_of m h \<or> (\<exists>k. entry_of m' h = drop k (sort_key sp_time (entry_of m h)))" for h
      proof (cases "h = hash")
        case False
        with m1 have "entry_of m1 h = entry_of m h" by simp
        with ih show ?thesis by metis
      qed (use own in blast)
      moreover have "\<forall>x \<in> fst ` set xs. entry_of m' x = []"
        if c: "e # es = xs @ (h, d) # ys" "entry_of m' h \<noteq> entry_of m h" for xs h d ys
      proof (cases xs)
        case (Cons x xs')
        with c(1) have x: "x = e" "es = xs' @ (h, d) # ys" by simp_all
        then have h: "h \<noteq> hash" using fresh by auto
        with c(2) m1 [of h] have ch: "entry_of m' h \<noteq> entry_of m1 h" by simp
        with ih x(2) have "\<forall>x \<in> fst ` set xs'. entry_of m' x = []" by blast
        moreover have "l = []" using stop ch by blast
        ultimately show ?thesis using hash x(1) Cons by (simp add: e)
      qed simp
      ultimately show ?thesis using ih m1 by (simp add: e)
    qed
  qed
qed simp

definition oldest_of :: "stored_peer list \<Rightarrow> datetime" where
  "oldest_of l = Min (sp_time ` set l)"

lemma entries_by_oldest_set:
  assumes "distinct (map fst m)"
  shows "(h, d) \<in> set (entries_by_oldest m) \<longleftrightarrow> entry_of m h \<noteq> [] \<and> d = oldest_of (entry_of m h)"
proof -
  have "(h, d) \<in> set (entries_by_oldest m) \<longleftrightarrow> (\<exists>l. (h, l) \<in> set m \<and> l \<noteq> [] \<and> d = oldest_of l)"
    by (fastforce simp: entries_by_oldest_def oldest_of_def split: if_splits)
  also have "\<dots> \<longleftrightarrow> entry_of m h \<noteq> [] \<and> d = oldest_of (entry_of m h)"
  proof -
    have "(h, l) \<in> set m \<longleftrightarrow> map_of m h = Some l" for l using assms by (simp add: map_of_eq_Some_iff)
    then show ?thesis by (cases "map_of m h") (auto simp: entry_of_def)
  qed
  finally show ?thesis .
qed

lemma entries_by_oldest_sorted: "sorted (map snd (entries_by_oldest m))"
  by (simp add: entries_by_oldest_def)

lemma drop_sorted_recent:
  assumes "l' = l \<or> l' = drop k (sort_key sp_time l)" and "p \<in> set l'" and "q \<in> set l" and "q \<notin> set l'"
  shows "sp_time q \<le> sp_time p"
proof -
  let ?s = "sort_key sp_time l"
  have l': "l' = drop k ?s" using assms(1,3,4) by auto
  have "q \<in> set (take k ?s)" using assms(3,4) unfolding l' by (metis UnE append_take_drop_id set_append set_sort)
  with assms(2) show ?thesis unfolding l' by (intro sorted_take_drop_le [of sp_time ?s]) simp_all
qed

lemma evicted_after_older:
  assumes d: "distinct (map fst m)" "\<forall>e \<in> set m. snd e \<noteq> []"
    and r: "evict_entries to (entries_by_oldest m) m ev = Inr (m', ev')"
    and h: "entry_of m' h \<noteq> entry_of m h" and h': "entry_of m h' \<noteq> []" "oldest_of (entry_of m h') < oldest_of (entry_of m h)"
  shows "entry_of m' h' = []"
proof -
  let ?es = "entries_by_oldest m"
  have dist: "distinct (map fst ?es)" using d(1) entries_by_oldest_keys [OF d(2)] by (metis mset_eq_imp_distinct_iff)
  note spec = evict_entries_spec [OF r dist]
  have "h \<in> fst ` set ?es" using spec h by blast
  then obtain d1 where "(h, d1) \<in> set ?es" by force
  then obtain xs ys where es: "?es = xs @ (h, d1) # ys" by (meson split_list)
  have d1: "d1 = oldest_of (entry_of m h)" using \<open>(h, d1) \<in> set ?es\<close> entries_by_oldest_set [OF d(1)] by simp
  have "(h', oldest_of (entry_of m h')) \<in> set ?es" using h'(1) entries_by_oldest_set [OF d(1)] by simp
  moreover have "\<forall>x \<in> set ys. d1 \<le> snd x"
    using entries_by_oldest_sorted [of m] by (simp add: es sorted_append)
  ultimately have "(h', oldest_of (entry_of m h')) \<in> set xs" using h'(2) d1 by (auto simp: es)
  then have "h' \<in> fst ` set xs" by force
  with spec es h show ?thesis by blast
qed

section \<open>The whole collection\<close>

lemma sum_lengths_by_key:
  assumes "distinct (map fst m)" and "mset ks = mset (map fst m)"
  shows "sum_list (map (\<lambda>k. length (the (map_of m k))) ks) = total_peers m"
proof -
  have "sum_list (map (\<lambda>k. length (the (map_of m k))) ks)
      = sum_list (map (\<lambda>k. length (the (map_of m k))) (map fst m))"
    unfolding sum_mset_sum_list [symmetric] mset_map assms(2) by simp
  also have "map (\<lambda>k. length (the (map_of m k))) (map fst m) = peer_counts m"
  proof -
    have "the (map_of m (fst e)) = snd e" if "e \<in> set m" for e
      using assms(1) that by (cases e) simp
    then show ?thesis by (simp add: peer_counts_def)
  qed
  finally show ?thesis by (simp add: total_peers_def)
qed

lemma evict_to_cap:
  assumes m: "distinct (map fst m)" "\<forall>e \<in> set m. snd e \<noteq> []" and n: "unat n = total_peers m" "cap < n"
  shows "\<exists>m'. evict_entries (n - cap) (entries_by_oldest m) m 0 = Inr (m', n - cap) \<and> sub_entries m' m
    \<and> total_peers m' = unat cap"
proof -
  have sub: "unat (n - cap) = total_peers m - unat cap" using n by (simp add: unat_sub less_imp_le)
  note keys = entries_by_oldest_keys [OF m(2)]
  have "distinct (map fst (entries_by_oldest m))" using m(1) keys by (metis mset_eq_imp_distinct_iff)
  moreover have "\<forall>e \<in> set (entries_by_oldest m). map_of m (fst e) \<noteq> None"
  proof
    fix e assume "e \<in> set (entries_by_oldest m)"
    then have "fst e \<in> set (map fst (entries_by_oldest m))" by simp
    then have "fst e \<in> set (map fst m)" using keys by (metis set_mset_mset)
    then show "map_of m (fst e) \<noteq> None" by (simp add: map_of_eq_None_iff)
  qed
  moreover have "unat (n - cap) \<le> unat (0 :: u32)
      + sum_list (map (\<lambda>e. length (the (map_of m (fst e)))) (entries_by_oldest m))"
    using sum_lengths_by_key [OF m(1) keys] sub by (simp add: comp_def)
  ultimately obtain m' where m': "evict_entries (n - cap) (entries_by_oldest m) m 0 = Inr (m', n - cap)"
    "sub_entries m' m" "total_peers m' + unat (n - cap) = total_peers m + unat (0 :: u32)"
    using evict_entries_ok [of "entries_by_oldest m" m 0 "n - cap"] m by auto
  moreover have "unat cap < total_peers m" using n by (simp add: word_less_nat_alt)
  ultimately show ?thesis using sub by simp
qed

text \<open>What the first pass leaves of a store.\<close>

definition after_ttl :: "datetime \<Rightarrow> ('id \<times> stored_peer list) list \<Rightarrow> ('id \<times> stored_peer list) list" where
  "after_ttl now m = filter (\<lambda>e. snd e \<noteq> []) (gc_map (now - PEER_TTL) m)"

lemma map_fst_gc_map [simp]: "map fst (gc_map c m) = map fst m"
  by (simp add: gc_map_def)

lemma after_ttl_distinct: "distinct (map fst m) \<Longrightarrow> distinct (map fst (after_ttl now m))"
  unfolding after_ttl_def by (rule distinct_map_filter) simp

lemma total_after_ttl:
  "total_peers (after_ttl now m)
    = sum_list (map (\<lambda>e. min 100 (length (filter (\<lambda>p. now - PEER_TTL < sp_time p) (snd e)))) m)"
proof -
  have "total_peers (gc_map c m) = sum_list (map (\<lambda>e. min 100 (length (filter (\<lambda>p. c < sp_time p) (snd e)))) m)" for c
    by (induction m) (simp_all add: gc_map_def gc_peers_length fresh_peers_def MAX_PEERS_PER_INFO_HASH_def)
  then show ?thesis by (simp add: after_ttl_def total_nonempty)
qed

lemma gc_ok:
  fixes now :: datetime
  assumes dist: "distinct (map fst (ps_peers ps))" and small: "total_peers (ps_peers ps) < 2 ^ 32"
  defines "m2 \<equiv> after_ttl now (ps_peers ps)"
  shows "\<exists>m' n. garbage_collect_peers now ps = Inr (ps\<lparr>
      ps_tokens := filter (\<lambda>t. st_time t > now - TOKEN_TTL) (ps_tokens ps), ps_peers := m', peers_len := n\<rparr>)
    \<and> unat n = total_peers m' \<and> sub_entries m' m2
    \<and> (if total_peers m2 \<le> unat (max_remembered_peers ps) then m' = m2
       else total_peers m' = unat (max_remembered_peers ps)
         \<and> (\<exists>to. evict_entries to (entries_by_oldest m2) m2 0 = Inr (m', to)))"
proof -
  let ?cap = "max_remembered_peers ps" and ?m = "ps_peers ps"
  obtain r eh where r: "gc_scan (now - PEER_TTL) 0 ?m = Inr (gc_map (now - PEER_TTL) ?m, r, eh)"
    "unat r + total_peers (gc_map (now - PEER_TTL) ?m) = total_peers ?m"
    "set eh = {fst e | e. e \<in> set ?m \<and> gc_peers (now - PEER_TTL) (snd e) = []}"
    using gc_scan_ok [of 0 ?m "now - PEER_TTL"] small by auto
  have m2: "filter (\<lambda>e. fst e \<notin> set eh) (gc_map (now - PEER_TTL) ?m) = m2"
    unfolding m2_def after_ttl_def by (rule remove_empty [OF dist r(3)])
  have total2: "unat r + total_peers m2 = total_peers ?m"
    using r(2) by (simp add: m2_def after_ttl_def total_nonempty)
  obtain n where n: "sum_u32 0 (peer_counts m2) = Inr n" "unat n = total_peers m2"
    using sum_u32_ok [of 0 "peer_counts m2"] total2 small by (auto simp: total_peers_def)
  have ok2: "distinct (map fst m2)" "\<forall>e \<in> set m2. snd e \<noteq> []"
    using after_ttl_distinct [OF dist] by (simp_all add: m2_def after_ttl_def)
  show ?thesis
  proof (cases "?cap < n")
    case False
    have "sub_entries m2 m2" using ok2 by (fastforce simp: sub_entries_def)
    moreover have "total_peers m2 \<le> unat ?cap" using False n(2) by (simp add: not_less word_le_nat_alt)
    moreover have "garbage_collect_peers now ps = Inr (ps\<lparr>
      ps_tokens := filter (\<lambda>t. st_time t > now - TOKEN_TTL) (ps_tokens ps), ps_peers := m2, peers_len := n\<rparr>)"
      using r(1) m2 n(1) False by (simp add: garbage_collect_peers_def Let_def)
    ultimately show ?thesis using n(2) by (intro exI [of _ m2] exI [of _ n]) simp
  next
    case True
    obtain m' where m': "evict_entries (n - ?cap) (entries_by_oldest m2) m2 0 = Inr (m', n - ?cap)"
      "sub_entries m' m2" "total_peers m' = unat ?cap"
      using evict_to_cap [OF ok2 n(2) True] by blast
    have "unat ?cap < total_peers m2" using True n(2) by (simp add: word_less_nat_alt)
    moreover have "unat (n - ?cap) = total_peers m2 - unat ?cap"
      using True n(2) by (simp add: unat_sub less_imp_le)
    ultimately have "unat r + unat (n - ?cap) < 2 ^ 32" using total2 small by linarith
    then have add: "checked_add r (n - ?cap) = Inr (r + (n - ?cap))" by (rule checked_add_ok(1))
    have "total_peers m' < 2 ^ 32" using m'(3) unat_u32_less [of ?cap] by simp
    then obtain n' where n': "sum_u32 0 (peer_counts m') = Inr n'" "unat n' = total_peers m'"
      using sum_u32_ok [of 0 "peer_counts m'"] by (auto simp: total_peers_def)
    have "garbage_collect_peers now ps = Inr (ps\<lparr>
      ps_tokens := filter (\<lambda>t. st_time t > now - TOKEN_TTL) (ps_tokens ps), ps_peers := m', peers_len := n'\<rparr>)"
      using r(1) m2 n(1) True m'(1) add n'(1) by (simp add: garbage_collect_peers_def Let_def)
    moreover have "\<exists>to. evict_entries to (entries_by_oldest m2) m2 0 = Inr (m', to)" using m'(1) by blast
    ultimately show ?thesis using n'(2) m'(2,3) \<open>unat ?cap < total_peers m2\<close>
      by (intro exI [of _ m'] exI [of _ n']) simp
  qed
qed

end
