(* ===== verification/Peer_Props.thy ===== *)
theory Peer_Props
  imports Peer_GC
begin

text \<open>
  The operations of the peer store in any sequence, the store as a bounded store, and the
  properties of the peer store with their evaluations.
\<close>

section \<open>Runs of the store\<close>

text \<open>
  The operations that change a store. \<open>Rehash f\<close> changes the order of iteration to that
  of the ranks \<open>f\<close> gives the hashes, so it is any permutation at all.
\<close>

datatype 'id peer_op =
    GenToken bytes datetime 'id socket_addr
  | StorePeer datetime "'id announce_peer" socket_addr
  | Collect datetime
  | Rehash "'id \<Rightarrow> nat"

fun peer_step :: "('id::linorder) id20_ops \<Rightarrow> 'id peer_op \<Rightarrow> 'id peer_store \<Rightarrow> abort + 'id peer_store" where
  "peer_step ops (GenToken token now i addr) ps = Inr (fst (gen_token_for token now ps i addr))"
| "peer_step ops (StorePeer now ann addr) ps = Inr (fst (store_peer ops now ps ann addr))"
| "peer_step ops (Collect now) ps = garbage_collect_peers now ps"
| "peer_step ops (Rehash f) ps = Inr (ps\<lparr>ps_peers := sort_key (f \<circ> fst) (ps_peers ps)\<rparr>)"

lemma distinct_sub_mset:
  assumes "mset xs \<subseteq># mset ys" and "distinct ys"
  shows "distinct xs"
proof -
  obtain M where "mset ys = mset xs + M" using assms(1) by (metis mset_subset_eq_exists_conv)
  moreover obtain zs where "mset zs = M" using ex_mset by blast
  ultimately have "mset ys = mset (xs @ zs)" by simp
  then show ?thesis using assms(2) by (metis distinct_append mset_eq_imp_distinct_iff)
qed

lemma sub_entries_ok:
  assumes "peers_ok ops self limit m" and "sub_entries m' (after_ttl now m)"
  shows "peers_ok ops self limit m'"
proof -
  have "id_distance ops h self \<le> limit \<and> ps' \<noteq> [] \<and> distinct (map sp_addr ps')" if "(h, ps') \<in> set m'" for h ps'
  proof -
    from that assms(2) obtain ps where ps: "(h, ps) \<in> set (after_ttl now m)" "mset ps' \<subseteq># mset ps" "ps' \<noteq> []"
      by (fastforce simp: sub_entries_def)
    then obtain ps0 where "(h, ps0) \<in> set m" "ps = gc_peers (now - PEER_TTL) ps0"
      by (auto simp: after_ttl_def gc_map_def)
    with assms(1) have near: "id_distance ops h self \<le> limit" and "distinct (map sp_addr ps)"
      using gc_peers_distinct by (fastforce simp: peers_ok_def)+
    moreover have "mset (map sp_addr ps') \<subseteq># mset (map sp_addr ps)"
      using ps(2) by (simp add: image_mset_subseteq_mono)
    ultimately have "distinct (map sp_addr ps')" using distinct_sub_mset by blast
    with near ps(3) show ?thesis by blast
  qed
  then show ?thesis using assms(2) by (auto simp: peers_ok_def sub_entries_def)
qed

lemma garbage_collect_inv:
  assumes inv: "peer_store_inv ops ps"
  shows "\<exists>ps'. garbage_collect_peers now ps = Inr ps' \<and> peer_store_inv ops ps'
    \<and> max_remembered_peers ps' = max_remembered_peers ps \<and> max_remembered_tokens ps' = max_remembered_tokens ps
    \<and> ps_tokens ps' = filter (\<lambda>t. st_time t > now - TOKEN_TTL) (ps_tokens ps)"
proof -
  let ?m2 = "after_ttl now (ps_peers ps)" and ?cap = "max_remembered_peers ps"
  have ok: "peers_ok ops (ps_self_id ps) (max_distance ps) (ps_peers ps)"
    and le: "total_peers (ps_peers ps) \<le> unat ?cap" and tok: "length (ps_tokens ps) \<le> unat (max_remembered_tokens ps)"
    using inv by (simp_all add: peer_store_inv_def word_le_nat_alt)
  then have dist: "distinct (map fst (ps_peers ps))" by (simp add: peers_ok_def)
  have small: "total_peers (ps_peers ps) < 2 ^ 32" using le unat_u32_less [of ?cap] by simp
  obtain m' n where m': "garbage_collect_peers now ps = Inr (ps\<lparr>
      ps_tokens := filter (\<lambda>t. st_time t > now - TOKEN_TTL) (ps_tokens ps), ps_peers := m', peers_len := n\<rparr>)"
    "unat n = total_peers m'" "sub_entries m' ?m2"
    "if total_peers ?m2 \<le> unat ?cap then m' = ?m2 else total_peers m' = unat ?cap"
    using gc_ok [OF dist small, of now] by (auto split: if_splits)
  have "peers_ok ops (ps_self_id ps) (max_distance ps) m'" by (rule sub_entries_ok [OF ok m'(3)])
  moreover have "n \<le> ?cap" using m'(2,4) by (auto simp: word_le_nat_alt split: if_splits)
  moreover have "length (filter (\<lambda>t. st_time t > now - TOKEN_TTL) (ps_tokens ps)) \<le> unat (max_remembered_tokens ps)"
    using tok by (meson le_trans length_filter_le)
  ultimately show ?thesis using m'(1,2) by (simp add: peer_store_inv_def)
qed

lemma rehash_inv:
  assumes "peer_store_inv ops ps"
  shows "peer_store_inv ops (ps\<lparr>ps_peers := sort_key (f \<circ> fst) (ps_peers ps)\<rparr>)"
  using assms total_perm [of "sort_key (f \<circ> fst) (ps_peers ps)" "ps_peers ps"]
  by (simp add: peer_store_inv_def peers_ok_def)

lemma peer_step_inv:
  assumes "peer_store_inv ops ps"
  shows "\<exists>ps'. peer_step ops a ps = Inr ps' \<and> peer_store_inv ops ps'
    \<and> unat (max_remembered_peers ps') = unat (max_remembered_peers ps)"
proof (cases a)
  case (GenToken token now i addr)
  then show ?thesis using gen_token_inv [OF assms] by (simp add: gen_token_for_def Let_def)
next
  case (StorePeer now ann addr)
  obtain ps' r where "store_peer ops now ps ann addr = (ps', r)" by (cases "store_peer ops now ps ann addr") blast
  with store_peer_spec [OF assms this] StorePeer show ?thesis by simp
next
  case (Collect now)
  then show ?thesis using garbage_collect_inv [OF assms, of now] by auto
next
  case (Rehash f)
  then show ?thesis using rehash_inv [OF assms] by simp
qed

lemma peer_store_inv_bound:
  "peer_store_inv ops ps \<Longrightarrow> total_peers (ps_peers ps) \<le> unat (max_remembered_peers ps)"
  by (simp add: peer_store_inv_def word_le_nat_alt)

interpretation peer_bounded: bounded_store "peer_store_inv ops" "peer_step ops"
    "\<lambda>ps. total_peers (ps_peers ps)" "\<lambda>ps. unat (max_remembered_peers ps)"
  for ops
  by unfold_locales (fact peer_step_inv, fact peer_store_inv_bound)

text \<open>The tokens are bounded in the same way.\<close>

lemma peer_step_tokens:
  assumes "peer_store_inv ops ps"
  shows "\<exists>ps'. peer_step ops a ps = Inr ps' \<and> peer_store_inv ops ps'
    \<and> unat (max_remembered_tokens ps') = unat (max_remembered_tokens ps)"
proof (cases a)
  case (GenToken token now i addr)
  then show ?thesis using gen_token_inv [OF assms] by (simp add: gen_token_for_def Let_def)
next
  case (StorePeer now ann addr)
  obtain ps' r where e: "store_peer ops now ps ann addr = (ps', r)" by (cases "store_peer ops now ps ann addr") blast
  then have "max_remembered_tokens ps' = max_remembered_tokens ps"
    by (auto simp: store_peer_def Let_def split: if_splits option.splits)
  with store_peer_spec(2) [OF assms e] e StorePeer show ?thesis by simp
next
  case (Collect now)
  then show ?thesis using garbage_collect_inv [OF assms, of now] by auto
next
  case (Rehash f)
  then show ?thesis using rehash_inv [OF assms] by simp
qed

interpretation token_bounded: bounded_store "peer_store_inv ops" "peer_step ops"
    "\<lambda>ps. length (ps_tokens ps)" "\<lambda>ps. unat (max_remembered_tokens ps)"
  for ops
  by unfold_locales (fact peer_step_tokens, simp add: peer_store_inv_def)

lemma peer_store_new_inv: "peer_store_inv ops (peer_store_new ops self)"
  by (simp add: peer_store_inv_def peer_store_new_def peers_ok_def)

section \<open>Bounds\<close>

text \<open>
  C10. The peer store stays within its limits: from a new store, no sequence of operations panics,
  and after it at most 1000 peers and 1000 tokens are stored, the atomic counter is the number
  of stored peers, and under each info hash, none of them too far from the own identifier, every
  address is stored once.
\<close>

theorem peer_store_bounded:
  "\<exists>ps. run_ops (peer_step ops) as (peer_store_new ops self) = Inr ps
    \<and> total_peers (ps_peers ps) \<le> 1000 \<and> length (ps_tokens ps) \<le> 1000
    \<and> unat (peers_len ps) = total_peers (ps_peers ps)
    \<and> peers_ok ops (ps_self_id ps) (max_distance ps) (ps_peers ps) \<and> peer_store_inv ops ps"
proof -
  obtain ps where ps: "run_ops (peer_step ops) as (peer_store_new ops self) = Inr ps" "peer_store_inv ops ps"
    "total_peers (ps_peers ps) \<le> unat (max_remembered_peers (peer_store_new ops self))"
    using peer_bounded.run_bounded [OF peer_store_new_inv] by blast
  moreover have "length (ps_tokens ps) \<le> unat (max_remembered_tokens (peer_store_new ops self))"
    using token_bounded.run_bounded [OF peer_store_new_inv, of ops as self] ps(1) by auto
  ultimately show ?thesis by (simp add: peer_store_inv_def peer_store_new_def)
qed

section \<open>Announcements\<close>

text \<open>
  C26. An announcement is accepted exactly if the info hash is near enough, a token was handed out
  for this very address and node, and the peer is stored already or there is room. The accepted
  peer is returned by lookups of its hash, with the announced port unless the port is implied;
  nothing else changes, and a rejected announcement changes nothing.
\<close>

theorem store_peer_accepts:
  assumes "peer_store_inv ops ps" and "store_peer ops now ps ann addr = (ps', r)"
  shows "(r \<longleftrightarrow> id_distance ops (ap_info_hash ann) (ps_self_id ps) \<le> max_distance ps \<and> token_known ps ann addr
        \<and> (announced_addr ann addr \<in> set (get_for_info_hash ps (ap_info_hash ann) Want_Both)
            \<or> total_peers (ps_peers ps) < unat (max_remembered_peers ps)))
    \<and> (r \<longrightarrow> set (get_for_info_hash ps' (ap_info_hash ann) Want_Both)
        = insert (announced_addr ann addr) (set (get_for_info_hash ps (ap_info_hash ann) Want_Both)))
    \<and> (r \<longrightarrow> (\<forall>h w. h \<noteq> ap_info_hash ann \<longrightarrow> get_for_info_hash ps' h w = get_for_info_hash ps h w))
    \<and> (\<not> r \<longrightarrow> ps' = ps) \<and> peer_store_inv ops ps'"
proof -
  have get: "get_for_info_hash q h w = map sp_addr (filter (\<lambda>p. wants w (sp_addr p)) (peers_of q h))" for q h w
    by (simp add: get_for_info_hash_def peers_of_def split: option.splits)
  have both: "set (get_for_info_hash q h Want_Both) = sp_addr ` set (peers_of q h)" for q h
    by (simp add: get)
  note spec = store_peer_spec [OF assms]
  have "r \<longrightarrow> set (get_for_info_hash ps' (ap_info_hash ann) Want_Both)
      = insert (announced_addr ann addr) (set (get_for_info_hash ps (ap_info_hash ann) Want_Both))"
    using spec(6) by (simp add: both set_sp_addr_stored_after)
  moreover have "r \<longrightarrow> (\<forall>h w. h \<noteq> ap_info_hash ann \<longrightarrow> get_for_info_hash ps' h w = get_for_info_hash ps h w)"
    using spec(6) by (simp add: get)
  moreover have "r \<longleftrightarrow> id_distance ops (ap_info_hash ann) (ps_self_id ps) \<le> max_distance ps \<and> token_known ps ann addr
      \<and> (announced_addr ann addr \<in> set (get_for_info_hash ps (ap_info_hash ann) Want_Both)
          \<or> total_peers (ps_peers ps) < unat (max_remembered_peers ps))"
    unfolding both spec(1) accepts_def ..
  ultimately show ?thesis using spec(2,3) by blast
qed

definition sample_addr4 :: "u16 \<Rightarrow> socket_addr" where
  "sample_addr4 p = V4 \<lparr>ip4 = 0x0a000001, port4 = p\<rparr>"

definition sample_announce :: "160 word announce_peer" where
  "sample_announce = \<lparr>ap_id = 3, implied_port = 0, ap_info_hash = 1, ap_port = 80, ap_token = [1, 2, 3, 4]\<rparr>"

definition token_store :: "160 word peer_store" where
  "token_store = \<lparr>ps_self_id = 0, max_remembered_tokens = 2, max_remembered_peers = 2, max_distance = 9,
     ps_tokens = [\<lparr>st_token = [1, 2, 3, 4], st_node_id = 3, st_addr = sample_addr4 6881, st_time = 5\<rparr>],
     ps_peers = [], peers_len = 0\<rparr>"

lemmas peer_eval = token_store_def sample_announce_def sample_addr4_def store_peer_def token_known_def
  announced_addr_def peer_store_inv_def peers_ok_def

theorem store_peer_accepts_witness:
  "\<exists>ps'. store_peer id20_word 7 token_store sample_announce (sample_addr4 6881) = (ps', True)
    \<and> sample_addr4 80 \<in> set (get_for_info_hash ps' 1 Want_Both)"
proof -
  have inv: "peer_store_inv id20_word token_store" by (simp add: peer_eval)
  obtain ps' where ps': "store_peer id20_word 7 token_store sample_announce (sample_addr4 6881) = (ps', True)"
    by (simp add: peer_eval Let_def)
  have "announced_addr sample_announce (sample_addr4 6881) = sample_addr4 80" "ap_info_hash sample_announce = 1"
    by (simp_all add: peer_eval)
  with store_peer_accepts [OF inv ps'] ps' show ?thesis by auto
qed

section \<open>Tokens\<close>

fun is_gen :: "'id peer_op \<Rightarrow> bool" where
  "is_gen (GenToken _ _ _ _) = True"
| "is_gen _ = False"

text \<open>Collections that run before the token of time \<open>t\<close> has expired.\<close>

fun before_expiry :: "datetime \<Rightarrow> 'id peer_op \<Rightarrow> bool" where
  "before_expiry t (Collect now) \<longleftrightarrow> now < t + TOKEN_TTL"
| "before_expiry t _ \<longleftrightarrow> True"

definition token_at :: "'id stored_token \<Rightarrow> nat \<Rightarrow> 'id stored_token list \<Rightarrow> bool" where
  "token_at tok n tokens \<longleftrightarrow> (\<exists>xs ys. tokens = xs @ tok # ys \<and> length ys \<le> n)"

lemma gen_token_tokens:
  "ps_tokens (fst (gen_token_for token now ps i addr))
    = (let ts = ps_tokens ps @ [\<lparr>st_token = token, st_node_id = i, st_addr = addr, st_time = now\<rparr>]
       in if length ts > unat (max_remembered_tokens ps) then tl ts else ts)"
  by (simp add: gen_token_for_def Let_def)

lemma token_at_push:
  assumes "token_at tok n ts" and "Suc n < c"
  shows "token_at tok (Suc n) (if length (ts @ [x]) > c then tl (ts @ [x]) else ts @ [x])"
proof -
  obtain xs ys where ts: "ts = xs @ tok # ys" "length ys \<le> n" using assms(1) by (auto simp: token_at_def)
  show ?thesis
  proof (cases "length (ts @ [x]) > c")
    case True
    with ts assms(2) obtain x0 xs' where "xs = x0 # xs'" by (cases xs) auto
    then have "tl (ts @ [x]) = xs' @ tok # ys @ [x]" using ts(1) by simp
    with True ts(2) show ?thesis
      unfolding token_at_def by (intro exI [of _ xs'] exI [of _ "ys @ [x]"]) simp
  next
    case False
    have "ts @ [x] = xs @ tok # ys @ [x]" using ts(1) by simp
    with False ts(2) show ?thesis unfolding token_at_def
      by (metis (no_types, lifting) Suc_le_mono length_append_singleton)
  qed
qed

lemma token_at_filter: "token_at tok n ts \<Longrightarrow> P tok \<Longrightarrow> token_at tok n (filter P ts)"
  by (fastforce simp: token_at_def intro: order_trans [OF length_filter_le])

lemma token_survives:
  assumes "peer_store_inv ops ps" and "token_at tok n (ps_tokens ps)"
    and "n + length (filter is_gen as) < unat (max_remembered_tokens ps)"
    and "\<forall>a \<in> set as. before_expiry (st_time tok) a"
  shows "\<exists>ps'. run_ops (peer_step ops) as ps = Inr ps' \<and> peer_store_inv ops ps' \<and> tok \<in> set (ps_tokens ps')"
  using assms
proof (induction as arbitrary: ps n)
  case Nil
  then show ?case by (auto simp: token_at_def)
next
  case (Cons a as)
  have step: "\<exists>ps1. peer_step ops a ps = Inr ps1 \<and> peer_store_inv ops ps1
      \<and> max_remembered_tokens ps1 = max_remembered_tokens ps
      \<and> token_at tok (if is_gen a then Suc n else n) (ps_tokens ps1)"
  proof (cases a)
    case (GenToken token now i addr)
    have "Suc n < unat (max_remembered_tokens ps)" using Cons.prems(3) GenToken by simp
    from token_at_push [OF Cons.prems(2) this]
    have "token_at tok (Suc n) (ps_tokens (fst (gen_token_for token now ps i addr)))"
      unfolding gen_token_tokens Let_def by blast
    then show ?thesis using gen_token_inv [OF Cons.prems(1)] GenToken by (simp add: gen_token_for_def Let_def)
  next
    case (StorePeer now ann addr)
    obtain ps' r where "store_peer ops now ps ann addr = (ps', r)" by (cases "store_peer ops now ps ann addr") blast
    moreover from this have "max_remembered_tokens ps' = max_remembered_tokens ps"
      by (auto simp: store_peer_def Let_def split: if_splits option.splits)
    ultimately show ?thesis using store_peer_spec [OF Cons.prems(1), of now ann addr ps' r] StorePeer Cons.prems(2) by simp
  next
    case (Collect now)
    have "st_time tok > now - TOKEN_TTL" using Cons.prems(4) Collect by simp
    with garbage_collect_inv [OF Cons.prems(1), of now] token_at_filter [OF Cons.prems(2)] Collect
    show ?thesis by auto
  next
    case (Rehash f)
    then show ?thesis using rehash_inv [OF Cons.prems(1)] Cons.prems(2) by simp
  qed
  then obtain ps1 where ps1: "peer_step ops a ps = Inr ps1" "peer_store_inv ops ps1"
    "max_remembered_tokens ps1 = max_remembered_tokens ps" "token_at tok (if is_gen a then Suc n else n) (ps_tokens ps1)"
    by blast
  from Cons.IH [OF ps1(2,4)] Cons.prems(3,4) ps1(1,3) show ?case by (auto split: if_splits)
qed

text \<open>
  C32. A token is good for as long as it should be: after \<^verbatim>\<open>gen_token_for\<close>, and
  then any operations with fewer further tokens than the store remembers and no collection after
  the token has expired, an announcement with this token, from the node and address it was handed
  to, of a near enough hash is accepted, provided the peer is stored already or there is room.
\<close>

theorem token_accepted_until_expiry:
  assumes "peer_store_inv ops ps" and "gen_token_for token now ps i addr = (ps1, token)"
    and "Suc (length (filter is_gen as)) \<le> unat (max_remembered_tokens ps)"
    and "\<forall>a \<in> set as. before_expiry now a" and "ap_token ann = token" and "ap_id ann = i"
  shows "\<exists>ps2. run_ops (peer_step ops) as ps1 = Inr ps2
    \<and> (id_distance ops (ap_info_hash ann) (ps_self_id ps2) \<le> max_distance ps2 \<longrightarrow>
        announced_addr ann addr \<in> set (get_for_info_hash ps2 (ap_info_hash ann) Want_Both)
          \<or> total_peers (ps_peers ps2) < unat (max_remembered_peers ps2) \<longrightarrow>
        snd (store_peer ops t ps2 ann addr))"
proof -
  let ?tok = "\<lparr>st_token = token, st_node_id = i, st_addr = addr, st_time = now\<rparr>"
  have ps1: "ps1 = fst (gen_token_for token now ps i addr)" using assms(2) by simp
  have "max_remembered_tokens ps1 = max_remembered_tokens ps" by (simp add: ps1 gen_token_for_def Let_def)
  moreover have "token_at ?tok 0 (ps_tokens ps1)"
    using assms(3) unfolding ps1 gen_token_tokens by (cases "ps_tokens ps") (auto simp: Let_def token_at_def)
  ultimately obtain ps2 where ps2: "run_ops (peer_step ops) as ps1 = Inr ps2" "peer_store_inv ops ps2"
    "?tok \<in> set (ps_tokens ps2)"
    using token_survives [OF gen_token_inv [OF assms(1)], of ?tok 0 token now i addr as] assms(3,4) ps1 by auto
  then have "token_known ps2 ann addr" using assms(5,6) by (auto simp: token_known_def intro!: bexI [of _ ?tok])
  moreover have "announced_addr ann addr \<in> sp_addr ` set (peers_of ps2 h)"
    if "announced_addr ann addr \<in> set (get_for_info_hash ps2 h Want_Both)" for h
    using that by (auto simp: get_for_info_hash_def peers_of_def split: option.splits)
  ultimately have "accepts ops ps2 ann addr"
    if "id_distance ops (ap_info_hash ann) (ps_self_id ps2) \<le> max_distance ps2"
      "announced_addr ann addr \<in> set (get_for_info_hash ps2 (ap_info_hash ann) Want_Both)
        \<or> total_peers (ps_peers ps2) < unat (max_remembered_peers ps2)"
    using that by (auto simp: accepts_def)
  with ps2(1) store_peer_spec(1) [OF ps2(2) surjective_pairing] show ?thesis by auto
qed

definition small_store :: "160 word peer_store" where
  "small_store = token_store\<lparr>ps_tokens := []\<rparr>"

theorem token_accepted_until_expiry_witness:
  "\<exists>ps2. run_ops (peer_step id20_word) [Collect 100, GenToken [9, 9, 9, 9] 8 4 (sample_addr4 1)]
      (fst (gen_token_for [1, 2, 3, 4] 5 small_store 3 (sample_addr4 6881))) = Inr ps2
    \<and> (id_distance id20_word 1 (ps_self_id ps2) \<le> max_distance ps2 \<longrightarrow>
        sample_addr4 80 \<in> set (get_for_info_hash ps2 1 Want_Both)
          \<or> total_peers (ps_peers ps2) < unat (max_remembered_peers ps2) \<longrightarrow>
        snd (store_peer id20_word 200 ps2 sample_announce (sample_addr4 6881)))"
proof -
  have inv: "peer_store_inv id20_word small_store" by (simp add: small_store_def peer_eval)
  have gen: "gen_token_for [1, 2, 3, 4] 5 small_store 3 (sample_addr4 6881)
      = (fst (gen_token_for [1, 2, 3, 4] 5 small_store 3 (sample_addr4 6881)), [1, 2, 3, 4])"
    by (simp add: gen_token_for_def Let_def)
  have ann: "announced_addr sample_announce (sample_addr4 6881) = sample_addr4 80" "ap_info_hash sample_announce = 1"
    by (simp_all add: peer_eval)
  show ?thesis
    using token_accepted_until_expiry [OF inv gen, of "[Collect 100, GenToken [9, 9, 9, 9] 8 4 (sample_addr4 1)]"
        sample_announce 200] ann
    by (simp add: small_store_def token_store_def sample_announce_def TOKEN_TTL_def)
qed

section \<open>Collections\<close>

lemma peers_of_after_ttl:
  assumes "distinct (map fst m)"
  shows "(case map_of (after_ttl now m) h of Some l \<Rightarrow> l | None \<Rightarrow> [])
    = gc_peers (now - PEER_TTL) (case map_of m h of Some l \<Rightarrow> l | None \<Rightarrow> [])"
  using assms
proof (induction m)
  case (Cons e m)
  have "map_of (after_ttl now m) (fst e) = None" if "fst e \<notin> fst ` set m"
  proof -
    have "fst ` set (after_ttl now m) \<subseteq> fst ` set m" by (force simp: after_ttl_def gc_map_def)
    with that show ?thesis by (auto simp: map_of_eq_None_iff)
  qed
  with Cons show ?case by (cases e) (auto simp: after_ttl_def gc_map_def)
qed (simp add: after_ttl_def gc_map_def gc_peers_def)

lemma gc_peers_bounds:
  "length (gc_peers c l) \<le> 100" "p \<in> set (gc_peers c l) \<Longrightarrow> p \<in> set l \<and> c < sp_time p"
  using gc_peers_length [of c l] gc_peers_set [of c l]
  by (auto simp: MAX_PEERS_PER_INFO_HASH_def fresh_peers_def)

text \<open>
  C11. A collection keeps its promises on any store, also on one that holds more peers than its limit, as
  one read from a dump may, and none of its counters overflows. It keeps the tokens of the last ten
  minutes. Of each info hash it first keeps the peers of the last fifteen minutes, or the hundred most
  recent of them if there are more. If these are within the global limit they stay; if not, exactly
  that many peers stay: the hashes lose their peers one after the other, those with the older oldest
  peer first, and no peer stays while a more recent one of the same hash goes. The counter of peers is
  exact afterwards, and a store that only exceeded its limit satisfies the invariant again.
\<close>

theorem garbage_collection_keeps:
  fixes now :: datetime
  assumes "distinct (map fst (ps_peers ps))" and "total_peers (ps_peers ps) < 2 ^ 32"
  defines "cutoff \<equiv> now - PEER_TTL" and "most \<equiv> unat (max_remembered_peers ps)"
    and "left \<equiv> sum_list (map (\<lambda>e. min 100 (length (filter (\<lambda>p. now - PEER_TTL < sp_time p) (snd e)))) (ps_peers ps))"
  shows "\<exists>ps' keep. garbage_collect_peers now ps = Inr ps'
    \<and> ps_tokens ps' = filter (\<lambda>t. now - TOKEN_TTL < st_time t) (ps_tokens ps)
    \<and> (\<forall>h. let fresh = filter (\<lambda>p. cutoff < sp_time p) (peers_of ps h) in
         if length fresh \<le> 100 then keep h = fresh
         else length (keep h) = 100 \<and> set (keep h) \<subseteq> set fresh
           \<and> (\<forall>p \<in> set (keep h). \<forall>q \<in> set fresh. q \<notin> set (keep h) \<longrightarrow> sp_time q \<le> sp_time p))
    \<and> total_peers (ps_peers ps') = min left most \<and> unat (peers_len ps') = total_peers (ps_peers ps')
    \<and> (left \<le> most \<longrightarrow> (\<forall>h. peers_of ps' h = keep h))
    \<and> (most < left \<longrightarrow> (\<forall>h. set (peers_of ps' h) \<subseteq> set (keep h)
         \<and> (\<forall>p \<in> set (peers_of ps' h). \<forall>q \<in> set (keep h). q \<notin> set (peers_of ps' h) \<longrightarrow> sp_time q \<le> sp_time p)
         \<and> (peers_of ps' h \<noteq> keep h \<longrightarrow> (\<forall>h'. keep h' \<noteq> [] \<and> Min (sp_time ` set (keep h')) < Min (sp_time ` set (keep h))
              \<longrightarrow> peers_of ps' h' = []))))
    \<and> (peers_ok ops (ps_self_id ps) (max_distance ps) (ps_peers ps) \<longrightarrow> length (ps_tokens ps) \<le> unat (max_remembered_tokens ps)
         \<longrightarrow> peer_store_inv ops ps')"
proof -
  let ?m = "ps_peers ps" and ?m2 = "after_ttl now (ps_peers ps)"
  define keep where "keep = (\<lambda>h. gc_peers cutoff (peers_of ps h))"
  have left: "left = total_peers ?m2" unfolding left_def cutoff_def [symmetric] by (simp add: total_after_ttl cutoff_def)
  obtain m' n where gc: "garbage_collect_peers now ps = Inr (ps\<lparr>
      ps_tokens := filter (\<lambda>t. st_time t > now - TOKEN_TTL) (ps_tokens ps), ps_peers := m', peers_len := n\<rparr>)"
    "unat n = total_peers m'" "sub_entries m' ?m2"
    "if total_peers ?m2 \<le> most then m' = ?m2 else total_peers m' = most
       \<and> (\<exists>to. evict_entries to (entries_by_oldest ?m2) ?m2 0 = Inr (m', to))"
    using gc_ok [OF assms(1,2), of now] unfolding most_def by blast
  define ps' where "ps' = ps\<lparr>ps_tokens := filter (\<lambda>t. st_time t > now - TOKEN_TTL) (ps_tokens ps),
    ps_peers := m', peers_len := n\<rparr>"
  have of': "peers_of ps' h = entry_of m' h" for h by (simp add: ps'_def peers_of_def entry_of_def)
  have of2: "entry_of ?m2 h = keep h" for h
    using peers_of_after_ttl [OF assms(1), of now h] by (simp add: keep_def entry_of_def peers_of_def cutoff_def)
  have m2: "distinct (map fst ?m2)" "\<forall>e \<in> set ?m2. snd e \<noteq> []"
    using after_ttl_distinct [OF assms(1)] by (simp_all add: after_ttl_def)
  have fits: "peers_of ps' h = keep h" if "left \<le> most" for h using gc(4) that of' of2 by (simp add: left)
  have over: "set (peers_of ps' h) \<subseteq> set (keep h)
      \<and> (\<forall>p \<in> set (peers_of ps' h). \<forall>q \<in> set (keep h). q \<notin> set (peers_of ps' h) \<longrightarrow> sp_time q \<le> sp_time p)
      \<and> (peers_of ps' h \<noteq> keep h \<longrightarrow> (\<forall>h'. keep h' \<noteq> [] \<and> Min (sp_time ` set (keep h')) < Min (sp_time ` set (keep h))
           \<longrightarrow> peers_of ps' h' = []))" if ml: "most < left" for h
  proof -
    obtain to where r: "evict_entries to (entries_by_oldest ?m2) ?m2 0 = Inr (m', to)"
      using gc(4) ml left by auto
    have "distinct (map fst (entries_by_oldest ?m2))"
      using m2(1) entries_by_oldest_keys [OF m2(2)] by (metis mset_eq_imp_distinct_iff)
    with evict_entries_spec [OF r] obtain k where
      k: "entry_of m' h = entry_of ?m2 h \<or> entry_of m' h = drop k (sort_key sp_time (entry_of ?m2 h))" by blast
    then have "set (peers_of ps' h) \<subseteq> set (keep h)" unfolding of' of2 [symmetric] by (metis set_drop_subset set_sort subsetI)
    moreover have "sp_time q \<le> sp_time p" if "p \<in> set (peers_of ps' h)" "q \<in> set (keep h)" "q \<notin> set (peers_of ps' h)" for p q
      using drop_sorted_recent [OF k] that unfolding of' of2 [symmetric] by blast
    moreover have "peers_of ps' h' = []" if "peers_of ps' h \<noteq> keep h" "keep h' \<noteq> []"
      "Min (sp_time ` set (keep h')) < Min (sp_time ` set (keep h))" for h'
      using evicted_after_older [OF m2 r] that unfolding of' of2 [symmetric] oldest_of_def by blast
    ultimately show ?thesis by blast
  qed
  have kept: "(let fresh = filter (\<lambda>p. cutoff < sp_time p) (peers_of ps h) in
         if length fresh \<le> 100 then keep h = fresh
         else length (keep h) = 100 \<and> set (keep h) \<subseteq> set fresh
           \<and> (\<forall>p \<in> set (keep h). \<forall>q \<in> set fresh. q \<notin> set (keep h) \<longrightarrow> sp_time q \<le> sp_time p))" for h
    using gc_peers_all [of cutoff "peers_of ps h"] gc_peers_length [of cutoff "peers_of ps h"]
      gc_peers_recent [of _ cutoff "peers_of ps h"] gc_peers_set [of cutoff "peers_of ps h"]
    by (simp add: keep_def fresh_peers_def MAX_PEERS_PER_INFO_HASH_def Let_def)
  have total: "total_peers m' = min left most" using gc(4) by (auto simp: left split: if_splits)
  have inv: "peer_store_inv ops ps'" if "peers_ok ops (ps_self_id ps) (max_distance ps) (ps_peers ps)"
    "length (ps_tokens ps) \<le> unat (max_remembered_tokens ps)"
    using sub_entries_ok [OF that(1) gc(3)] that(2) total gc(2) le_trans [OF length_filter_le that(2)]
    by (simp add: peer_store_inv_def ps'_def word_le_nat_alt most_def)
  have "garbage_collect_peers now ps = Inr ps'" "ps_tokens ps' = filter (\<lambda>t. now - TOKEN_TTL < st_time t) (ps_tokens ps)"
    "total_peers (ps_peers ps') = min left most" "unat (peers_len ps') = total_peers (ps_peers ps')"
    using gc(1,2) total by (simp_all add: ps'_def)
  with kept fits over inv show ?thesis by (intro exI [of _ ps'] exI [of _ keep]) blast
qed

definition crowded_store :: "160 word peer_store" where
  "crowded_store = token_store\<lparr>max_remembered_peers := 1, ps_peers := [(1, [\<lparr>sp_addr = sample_addr4 1, sp_time = 30\<rparr>]),
     (2, [\<lparr>sp_addr = sample_addr4 2, sp_time = 20\<rparr>])], peers_len := 2\<rparr>"

theorem garbage_collection_keeps_witness:
  "\<exists>ps'. garbage_collect_peers 100 crowded_store = Inr ps' \<and> total_peers (ps_peers ps') = 1
    \<and> peers_of ps' 2 = [] \<and> peer_store_inv id20_word ps'"
proof -
  let ?fresh = "\<lambda>p :: stored_peer. 100 - PEER_TTL < sp_time p"
  have d: "distinct (map fst (ps_peers crowded_store))" "total_peers (ps_peers crowded_store) < 2 ^ 32"
    by (simp_all add: crowded_store_def token_store_def)
  have n: "sum_list (map (\<lambda>e. min 100 (length (filter ?fresh (snd e)))) (ps_peers crowded_store)) = 2"
    "unat (max_remembered_peers crowded_store) = 1"
    "peers_ok id20_word (ps_self_id crowded_store) (max_distance crowded_store) (ps_peers crowded_store)"
    "length (ps_tokens crowded_store) \<le> unat (max_remembered_tokens crowded_store)"
    by (simp_all add: crowded_store_def peer_eval PEER_TTL_def)
  have "garbage_collect_peers 100 crowded_store
      = Inr (crowded_store\<lparr>ps_peers := [(1, [\<lparr>sp_addr = sample_addr4 1, sp_time = 30\<rparr>])], peers_len := 1\<rparr>)"
    by (simp add: crowded_store_def token_store_def garbage_collect_peers_def gc_peers_def entries_by_oldest_def peer_counts_def
        PEER_TTL_def TOKEN_TTL_def MAX_PEERS_PER_INFO_HASH_def checked_add_def Let_def)
  then have "peers_of ps' 2 = []" if "garbage_collect_peers 100 crowded_store = Inr ps'" for ps'
    using that by (auto simp: peers_of_def)
  with garbage_collection_keeps [OF d, where ops = id20_word and now = 100] n show ?thesis
    by (elim exE conjE) (intro exI conjI, simp_all)
qed

definition evict_store :: "160 word peer_store" where
  "evict_store = token_store\<lparr>max_remembered_peers := 1, ps_tokens := [],
     ps_peers := [(1, [\<lparr>sp_addr = sample_addr4 1, sp_time = 10\<rparr>, \<lparr>sp_addr = sample_addr4 2, sp_time = 20\<rparr>]),
       (2, [\<lparr>sp_addr = sample_addr4 3, sp_time = 15\<rparr>])], peers_len := 3\<rparr>"

text \<open>
  The global cap does not evict the oldest peers first, as the comments of
  \<^verbatim>\<open>garbage_collect_peers\<close> say: it takes the hashes in the order of their
  oldest peer and empties one after the other. Here the peer of time 20 goes and the one of
  time 15, of another hash, stays.
\<close>

theorem eviction_is_not_by_age:
  "garbage_collect_peers 30 evict_store = Inr (evict_store\<lparr>
     ps_peers := [(2, [\<lparr>sp_addr = sample_addr4 3, sp_time = 15\<rparr>])], peers_len := 1\<rparr>)"
  by (simp add: evict_store_def token_store_def garbage_collect_peers_def Let_def gc_peers_def PEER_TTL_def
      TOKEN_TTL_def checked_add_def peer_counts_def entries_by_oldest_def MAX_PEERS_PER_INFO_HASH_def)

end
