(* ===== verification/Item_Store.thy ===== *)
theory Item_Store
  imports Messages Bounded_Store
begin

text \<open>
  The store of BEP 44 items, \<^verbatim>\<open>src/mutable_item_store.rs\<close>: items by their
  target, replaced only by higher sequence numbers, and a capacity kept by evicting the item that
  was updated least recently.
\<close>

section \<open>State\<close>

record stored_mutable_item =
  mi_k :: bytes
  mi_sig :: bytes
  mi_seq :: i64
  mi_v :: bytes
  mi_salt :: "bytes option"
  last_updated :: instant

record 'id mutable_item_store =
  mis_items :: "('id \<times> stored_mutable_item) list"
  max_items :: nat

definition item_store_new :: "nat \<Rightarrow> 'id mutable_item_store" where
  "item_store_new m = \<lparr>mis_items = [], max_items = m\<rparr>"

section \<open>Operations\<close>

text \<open>\<^verbatim>\<open>Iterator::min_by_key\<close>: the first of the least elements.\<close>

fun min_by_key :: "('a \<Rightarrow> 'b::linorder) \<Rightarrow> 'a list \<Rightarrow> 'a option" where
  "min_by_key f [] = None"
| "min_by_key f (x # xs) = (case min_by_key f xs of
     None \<Rightarrow> Some x
   | Some y \<Rightarrow> Some (if f y < f x then y else x))"

definition evict_oldest :: "'id mutable_item_store \<Rightarrow> 'id mutable_item_store" where
  "evict_oldest s = (case map_option fst (min_by_key (\<lambda>e. last_updated (snd e)) (mis_items s)) of
     Some key \<Rightarrow> s\<lparr>mis_items := AList.delete key (mis_items s)\<rparr>
   | None \<Rightarrow> s)"

definition item_store ::
    "'id mutable_item_store \<Rightarrow> 'id \<Rightarrow> stored_mutable_item \<Rightarrow> 'id mutable_item_store \<times> bool" where
  "item_store s target item =
    (if case map_of (mis_items s) target of Some existing \<Rightarrow> mi_seq existing \<ge> mi_seq item | None \<Rightarrow> False
     then (s, False)
     else
      (let s1 = (if map_of (mis_items s) target = None \<and> length (mis_items s) \<ge> max_items s
                 then evict_oldest s else s)
       in (s1\<lparr>mis_items := AList.update target item (mis_items s1)\<rparr>, True)))"

definition item_get :: "'id mutable_item_store \<Rightarrow> 'id \<Rightarrow> stored_mutable_item option" where
  "item_get s target = map_of (mis_items s) target"

definition item_len :: "'id mutable_item_store \<Rightarrow> nat" where
  "item_len s = length (mis_items s)"

definition item_is_empty :: "'id mutable_item_store \<Rightarrow> bool" where
  "item_is_empty s = (mis_items s = [])"

lemma min_by_key_None [simp]: "min_by_key f xs = None \<longleftrightarrow> xs = []"
  by (cases xs) (auto split: option.splits)

lemma min_by_key_Some: "min_by_key f xs = Some x \<Longrightarrow> x \<in> set xs \<and> (\<forall>y \<in> set xs. f x \<le> f y)"
proof (induction xs arbitrary: x)
  case (Cons a xs)
  show ?case
  proof (cases "min_by_key f xs")
    case None
    with Cons.prems show ?thesis by simp
  next
    case (Some y)
    with Cons.IH [OF Some] Cons.prems show ?thesis by (auto split: if_splits)
  qed
qed simp

lemma length_delete_less: "map_of m k \<noteq> None \<Longrightarrow> length (AList.delete k m) < length m"
proof (induction m)
  case (Cons e m)
  show ?case
  proof (cases "fst e = k")
    case True
    have "length (AList.delete k m) \<le> length m" by (rule length_delete_le)
    with True show ?thesis by (cases e) simp
  next
    case False
    with Cons show ?thesis by (cases e) simp
  qed
qed simp

lemma evict_oldest_nonempty:
  assumes "mis_items s \<noteq> []"
  obtains e where "e \<in> set (mis_items s)" and "\<forall>e' \<in> set (mis_items s). last_updated (snd e) \<le> last_updated (snd e')"
    and "evict_oldest s = s\<lparr>mis_items := AList.delete (fst e) (mis_items s)\<rparr>"
proof -
  from assms obtain e where e: "min_by_key (\<lambda>e. last_updated (snd e)) (mis_items s) = Some e"
    by (cases "min_by_key (\<lambda>e. last_updated (snd e)) (mis_items s)") simp_all
  show thesis
  proof (rule that)
    show "e \<in> set (mis_items s)" "\<forall>e' \<in> set (mis_items s). last_updated (snd e) \<le> last_updated (snd e')"
      using min_by_key_Some [OF e] by auto
    show "evict_oldest s = s\<lparr>mis_items := AList.delete (fst e) (mis_items s)\<rparr>" by (simp add: evict_oldest_def e)
  qed
qed

lemma evict_oldest_length: "mis_items s \<noteq> [] \<Longrightarrow> length (mis_items (evict_oldest s)) < length (mis_items s)"
proof -
  assume "mis_items s \<noteq> []"
  then obtain e where e: "e \<in> set (mis_items s)" "evict_oldest s = s\<lparr>mis_items := AList.delete (fst e) (mis_items s)\<rparr>"
    by (rule evict_oldest_nonempty)
  then have "map_of (mis_items s) (fst e) \<noteq> None" by (simp add: map_of_eq_None_iff)
  from length_delete_less [OF this] e(2) show ?thesis by simp
qed

lemma evict_oldest_max [simp]: "max_items (evict_oldest s) = max_items s"
  by (simp add: evict_oldest_def split: option.splits)

text \<open>The loop evicts one item per round, so it ends.\<close>

function item_garbage_collect :: "'id mutable_item_store \<Rightarrow> 'id mutable_item_store" where
  "item_garbage_collect s =
    (if length (mis_items s) > max_items s then item_garbage_collect (evict_oldest s) else s)"
  by pat_completeness auto
termination
proof (relation "measure (\<lambda>s. length (mis_items s))")
  fix s :: "'id mutable_item_store"
  assume "max_items s < length (mis_items s)"
  then have "mis_items s \<noteq> []" by auto
  from evict_oldest_length [OF this] show "(evict_oldest s, s) \<in> measure (\<lambda>s. length (mis_items s))" by simp
qed simp

declare item_garbage_collect.simps [simp del]

section \<open>Runs of the store\<close>

datatype 'id item_op =
    StoreItem 'id stored_mutable_item
  | CollectItems
  | RehashItems "'id \<Rightarrow> nat"

fun item_step :: "'id item_op \<Rightarrow> 'id mutable_item_store \<Rightarrow> abort + 'id mutable_item_store" where
  "item_step (StoreItem target item) s = Inr (fst (item_store s target item))"
| "item_step CollectItems s = Inr (item_garbage_collect s)"
| "item_step (RehashItems f) s = Inr (s\<lparr>mis_items := sort_key (f \<circ> fst) (mis_items s)\<rparr>)"

definition item_cap :: "'id mutable_item_store \<Rightarrow> nat" where
  "item_cap s = (if max_items s = 0 then 1 else max_items s)"

definition item_inv :: "'id mutable_item_store \<Rightarrow> bool" where
  "item_inv s \<longleftrightarrow> distinct (map fst (mis_items s)) \<and> length (mis_items s) \<le> item_cap s"

lemma length_update: "length (AList.update k v m) = (if map_of m k = None then Suc (length m) else length m)"
  by (induction m) auto

lemma evict_oldest_distinct:
  "distinct (map fst (mis_items s)) \<Longrightarrow> distinct (map fst (mis_items (evict_oldest s)))"
  by (simp add: evict_oldest_def AList.distinct_delete split: option.splits)

lemma evict_oldest_subset: "set (mis_items (evict_oldest s)) \<subseteq> set (mis_items s)"
  by (auto simp: evict_oldest_def set_delete_eq split: option.splits)

lemma item_garbage_collect_inv:
  "distinct (map fst (mis_items s)) \<Longrightarrow> distinct (map fst (mis_items (item_garbage_collect s)))
    \<and> max_items (item_garbage_collect s) = max_items s
    \<and> length (mis_items (item_garbage_collect s)) \<le> max_items s"
proof (induction s rule: item_garbage_collect.induct)
  case (1 s)
  then show ?case
    using evict_oldest_distinct [of s] by (subst (1 2 3) item_garbage_collect.simps) auto
qed

lemma item_step_inv:
  assumes "item_inv s"
  shows "\<exists>s'. item_step a s = Inr s' \<and> item_inv s' \<and> item_cap s' = item_cap s"
proof (cases a)
  case (StoreItem target item)
  have d: "distinct (map fst (mis_items s))" "distinct (map fst (mis_items (evict_oldest s)))"
    using assms evict_oldest_distinct by (auto simp: item_inv_def)
  have "map_of (mis_items (evict_oldest s)) target = None" if "map_of (mis_items s) target = None"
    using that evict_oldest_subset [of s] by (force simp: map_of_eq_None_iff)
  moreover have "length (mis_items (evict_oldest s)) < item_cap s"
    using evict_oldest_length [of s] assms by (cases "mis_items s = []") (auto simp: item_inv_def item_cap_def evict_oldest_def)
  ultimately have "item_inv (fst (item_store s target item))"
    using assms d by (auto simp: item_inv_def item_cap_def item_store_def Let_def length_update
        AList.distinct_update split: option.splits if_splits)
  then show ?thesis using StoreItem by (simp add: item_cap_def item_store_def Let_def)
next
  case CollectItems
  then show ?thesis
    using assms item_garbage_collect_inv [of s] by (auto simp: item_inv_def item_cap_def)
next
  case (RehashItems f)
  then show ?thesis using assms by (auto simp: item_inv_def item_cap_def)
qed

interpretation item_bounded: bounded_store item_inv item_step item_len item_cap
  by unfold_locales (fact item_step_inv, simp add: item_inv_def item_len_def)

section \<open>Properties\<close>

text \<open>
  The item store stays within its capacity: after any operations on a new store with a
  capacity above zero there are at most that many items, each target once. (A store of capacity
  zero holds one item after an insertion.)
\<close>

theorem item_store_bounded:
  "\<exists>s. run_ops item_step as (item_store_new m) = Inr s \<and> item_len s \<le> (if m = 0 then 1 else m)
    \<and> distinct (map fst (mis_items s))"
proof -
  have "item_inv (item_store_new m)" by (simp add: item_inv_def item_store_new_def)
  from item_bounded.run_bounded [OF this, of as] show ?thesis
    by (auto simp: item_inv_def item_cap_def item_store_new_def)
qed

text \<open>
  C34. Sequence numbers of a target only grow. An item is refused exactly if one with the same or
  a higher number is stored for its target, and then nothing changes; otherwise it is the one
  returned for its target from then on. The items of other targets stay, but for at most one,
  which goes only if the target is new and the store is full, and which no other item is older than.
\<close>

theorem item_store_effect:
  assumes "item_inv s" and "item_store s target item = (s', stored)"
  shows "(stored \<longleftrightarrow> (\<forall>old. item_get s target = Some old \<longrightarrow> mi_seq old < mi_seq item))
    \<and> (\<not> stored \<longrightarrow> s' = s) \<and> (stored \<longrightarrow> item_get s' target = Some item)
    \<and> (stored \<longrightarrow> (if item_get s target = None \<and> item_len s \<ge> max_items s \<and> 0 < item_len s
        then \<exists>t old. item_get s t = Some old
          \<and> (\<forall>t' it. item_get s t' = Some it \<longrightarrow> last_updated old \<le> last_updated it)
          \<and> (\<forall>t'. t' \<noteq> target \<longrightarrow> item_get s' t' = (if t' = t then None else item_get s t'))
        else \<forall>t'. t' \<noteq> target \<longrightarrow> item_get s' t' = item_get s t'))"
proof -
  have d: "distinct (map fst (mis_items s))" using assms(1) by (simp add: item_inv_def)
  have stored: "stored \<longleftrightarrow> (\<forall>old. item_get s target = Some old \<longrightarrow> mi_seq old < mi_seq item)"
    using assms(2) by (auto simp: item_store_def item_get_def Let_def split: option.splits if_splits)
  have refused: "\<not> stored \<longrightarrow> s' = s"
    using assms(2) by (auto simp: item_store_def Let_def split: option.splits if_splits)
  have new: "stored \<longrightarrow> item_get s' target = Some item"
    using assms(2) by (auto simp: item_store_def item_get_def Let_def split: option.splits if_splits)
  have others: "if item_get s target = None \<and> item_len s \<ge> max_items s \<and> 0 < item_len s
        then \<exists>t old. item_get s t = Some old
          \<and> (\<forall>t' it. item_get s t' = Some it \<longrightarrow> last_updated old \<le> last_updated it)
          \<and> (\<forall>t'. t' \<noteq> target \<longrightarrow> item_get s' t' = (if t' = t then None else item_get s t'))
        else \<forall>t'. t' \<noteq> target \<longrightarrow> item_get s' t' = item_get s t'" if st: "stored"
  proof (cases "item_get s target = None \<and> item_len s \<ge> max_items s \<and> 0 < item_len s")
    case True
    then have "mis_items s \<noteq> []" by (auto simp: item_len_def)
    then obtain e where e: "e \<in> set (mis_items s)" "\<forall>e' \<in> set (mis_items s). last_updated (snd e) \<le> last_updated (snd e')"
      "evict_oldest s = s\<lparr>mis_items := AList.delete (fst e) (mis_items s)\<rparr>" by (rule evict_oldest_nonempty)
    have "item_get s (fst e) = Some (snd e)"
      using map_of_is_SomeI [OF d, of "fst e" "snd e"] e(1) by (simp add: item_get_def)
    moreover have "\<forall>t' it. item_get s t' = Some it \<longrightarrow> last_updated (snd e) \<le> last_updated it"
      using e(2) by (fastforce simp: item_get_def dest: map_of_SomeD)
    moreover have "\<forall>t'. t' \<noteq> target \<longrightarrow> item_get s' t' = (if t' = fst e then None else item_get s t')"
      using assms(2) True e(3) st by (auto simp: item_store_def item_get_def item_len_def Let_def)
    ultimately show ?thesis using True by auto
  next
    case False
    have "\<forall>t'. t' \<noteq> target \<longrightarrow> item_get s' t' = item_get s t'"
    proof (cases "item_get s target = None \<and> item_len s \<ge> max_items s")
      case True
      with False have "mis_items s = []" by (simp add: item_len_def)
      then have "evict_oldest s = s" by (simp add: evict_oldest_def)
      then show ?thesis using assms(2) st by (auto simp: item_store_def item_get_def Let_def split: if_splits option.splits)
    next
      case False
      then show ?thesis using assms(2) st
        by (auto simp: item_store_def item_get_def item_len_def Let_def split: if_splits option.splits)
    qed
    then show ?thesis by (simp only: if_not_P [OF False])
  qed
  show ?thesis using stored refused new others by blast
qed

definition sample_item :: "i64 \<Rightarrow> instant \<Rightarrow> stored_mutable_item" where
  "sample_item seq t = \<lparr>mi_k = [], mi_sig = [], mi_seq = seq, mi_v = [49], mi_salt = None, last_updated = t\<rparr>"

theorem item_store_effect_witness:
  "\<exists>s'. item_store \<lparr>mis_items = [(1 :: nat, sample_item 4 10), (2, sample_item 1 9)], max_items = 2\<rparr> 3
      (sample_item 0 20) = (s', True) \<and> item_get s' 3 = Some (sample_item 0 20)"
proof -
  define s where "s = \<lparr>mis_items = [(1 :: nat, sample_item 4 10), (2, sample_item 1 9)], max_items = 2\<rparr>"
  have inv: "item_inv s" by (simp add: s_def item_inv_def item_cap_def)
  obtain s' where "item_store s 3 (sample_item 0 20) = (s', True)"
    by (simp add: s_def item_store_def Let_def)
  with item_store_effect [OF inv this] show ?thesis by (auto simp: s_def)
qed

text \<open>
  A collection brings the store to its capacity and drops the oldest items: every item it
  keeps was updated no earlier than every item it drops, and a store within its capacity is left alone.
\<close>

theorem item_collection_keeps_newest:
  assumes "distinct (map fst (mis_items s))"
  shows "item_len (item_garbage_collect s) = min (item_len s) (max_items s)
    \<and> set (mis_items (item_garbage_collect s)) \<subseteq> set (mis_items s)
    \<and> (\<forall>kept \<in> set (mis_items (item_garbage_collect s)). \<forall>gone \<in> set (mis_items s).
        gone \<notin> set (mis_items (item_garbage_collect s)) \<longrightarrow> last_updated (snd gone) \<le> last_updated (snd kept))"
  using assms
proof (induction s rule: item_garbage_collect.induct)
  case (1 s)
  show ?case
  proof (cases "max_items s < length (mis_items s)")
    case True
    then have "mis_items s \<noteq> []" by auto
    then obtain e where e: "e \<in> set (mis_items s)" "\<forall>e' \<in> set (mis_items s). last_updated (snd e) \<le> last_updated (snd e')"
      "evict_oldest s = s\<lparr>mis_items := AList.delete (fst e) (mis_items s)\<rparr>" by (rule evict_oldest_nonempty)
    let ?s1 = "evict_oldest s"
    have ih: "item_len (item_garbage_collect ?s1) = min (item_len ?s1) (max_items s)"
      "set (mis_items (item_garbage_collect ?s1)) \<subseteq> set (mis_items ?s1)"
      "\<forall>kept \<in> set (mis_items (item_garbage_collect ?s1)). \<forall>gone \<in> set (mis_items ?s1).
        gone \<notin> set (mis_items (item_garbage_collect ?s1)) \<longrightarrow> last_updated (snd gone) \<le> last_updated (snd kept)"
      using 1(1) [OF True] evict_oldest_distinct [OF 1(2)] by auto
    have only: "x = e" if "x \<in> set (mis_items s)" "x \<notin> set (mis_items ?s1)" for x
    proof -
      have "fst x = fst e" using that e(3) by (simp add: set_delete_eq)
      moreover have "inj_on fst (set (mis_items s))" using 1(2) by (simp add: distinct_map)
      ultimately show ?thesis using that(1) e(1) by (auto dest: inj_onD)
    qed
    have "item_len ?s1 = item_len s - 1"
    proof -
      have "distinct (mis_items s)" "distinct (mis_items ?s1)"
        using 1(2) evict_oldest_distinct [OF 1(2)] by (simp_all add: distinct_map)
      moreover have "set (mis_items ?s1) = set (mis_items s) - {e}"
        using only evict_oldest_subset [of s] e(3) by (auto simp: set_delete_eq)
      ultimately show ?thesis using e(1) by (simp add: item_len_def flip: distinct_card)
    qed
    with True ih(1) have "item_len (item_garbage_collect ?s1) = min (item_len s) (max_items s)"
      by (simp add: item_len_def)
    moreover have "set (mis_items (item_garbage_collect ?s1)) \<subseteq> set (mis_items s)"
      using ih(2) evict_oldest_subset [of s] by blast
    moreover have "last_updated (snd gone) \<le> last_updated (snd kept)"
      if "kept \<in> set (mis_items (item_garbage_collect ?s1))" "gone \<in> set (mis_items s)"
        "gone \<notin> set (mis_items (item_garbage_collect ?s1))" for kept gone
      using that ih(2,3) only [OF that(2)] e(2) evict_oldest_subset [of s] by blast
    ultimately show ?thesis using True by (simp add: item_garbage_collect.simps [of s])
  next
    case False
    then show ?thesis by (simp add: item_garbage_collect.simps [of s] item_len_def)
  qed
qed

theorem item_collection_keeps_newest_witness:
  "item_len (item_garbage_collect \<lparr>mis_items = [(1 :: nat, sample_item 4 10), (2, sample_item 1 9)], max_items = 1\<rparr>) = 1"
  using item_collection_keeps_newest [of "\<lparr>mis_items = [(1 :: nat, sample_item 4 10), (2, sample_item 1 9)], max_items = 1\<rparr>"]
  by (simp add: item_len_def)

end
