(* ===== verification/Bep44.thy ===== *)
theory Bep44
  imports Messages Id20_Word
begin

text \<open>
  The data that BEP 44 items are signed over and the targets they are stored under,
  \<^verbatim>\<open>src/bep44_crypto.rs\<close>. SHA-1 and Ed25519 are library code: the
  functions that use them take them as arguments.
\<close>

section \<open>Decimal numbers\<close>

text \<open>Formatting of integers by \<^verbatim>\<open>format!\<close>, as bytes.\<close>

function show_nat :: "nat \<Rightarrow> bytes" where
  "show_nat n = (if n < 10 then [of_nat (48 + n)] else show_nat (n div 10) @ [of_nat (48 + n mod 10)])"
  by pat_completeness auto
termination by (relation "measure id") auto

declare show_nat.simps [simp del]

definition show_int :: "int \<Rightarrow> bytes" where
  "show_int i = (if i < 0 then 45 # show_nat (nat (- i)) else show_nat (nat i))"

definition read_nat :: "bytes \<Rightarrow> nat" where
  "read_nat = foldl (\<lambda>n d. 10 * n + (unat d - 48)) 0"

lemma unat_digit: "k < 10 \<Longrightarrow> unat (of_nat (48 + k) :: u8) = 48 + k"
  by (simp add: unat_of_nat take_bit_nat_eq_self del: of_nat_add)

lemma read_show_nat [simp]: "read_nat (show_nat n) = n"
proof (induction n rule: show_nat.induct)
  case (1 n)
  show ?case
  proof (cases "n < 10")
    case True
    then show ?thesis using unat_digit [OF True] by (simp add: show_nat.simps [of n] read_nat_def)
  next
    case False
    then show ?thesis using 1 unat_digit [of "n mod 10"] by (simp add: show_nat.simps [of n] read_nat_def)
  qed
qed

lemma show_nat_digits: "d \<in> set (show_nat n) \<Longrightarrow> 48 \<le> unat d \<and> unat d < 58"
proof (induction n rule: show_nat.induct)
  case (1 n)
  show ?case
  proof (cases "n < 10")
    case True
    then show ?thesis using 1(2) unat_digit [OF True] by (simp add: show_nat.simps [of n])
  next
    case False
    then show ?thesis using 1 unat_digit [of "n mod 10"] by (auto simp: show_nat.simps [of n])
  qed
qed

lemma show_nat_inject [simp]: "show_nat m = show_nat n \<longleftrightarrow> m = n"
  by (metis read_show_nat)

lemma not_digit: "d = 45 \<or> d = 58 \<or> d = 101 \<Longrightarrow> d \<notin> set (show_nat n)"
  using show_nat_digits [of d n] by auto

lemma show_int_inject [simp]: "show_int i = show_int j \<longleftrightarrow> i = j"
proof -
  have ne: "45 # xs \<noteq> show_nat n" "show_nat n \<noteq> 45 # xs" for xs n
    using not_digit [of 45 n] by (metis list.set_intros(1))+
  show ?thesis
    by (cases "i < 0"; cases "j < 0") (simp_all add: show_int_def ne eq_nat_nat_iff)
qed

lemma not_in_show_int: "(101 :: u8) \<notin> set (show_int i)"
  using not_digit [of 101] by (simp add: show_int_def)

lemma split_at_first:
  assumes "xs @ c # ys = xs' @ c # ys'" and "c \<notin> set xs" and "c \<notin> set xs'"
  shows "xs = xs' \<and> ys = ys'"
  using assms
proof (induction xs arbitrary: xs')
  case Nil
  then show ?case by (cases xs') auto
next
  case (Cons x xs)
  then show ?case by (cases xs') auto
qed

section \<open>Signable data and targets\<close>

definition mutable_item_target :: "'id id20_ops \<Rightarrow> (bytes \<Rightarrow> bytes) \<Rightarrow> bytes \<Rightarrow> bytes option \<Rightarrow> 'id" where
  "mutable_item_target ops sha1 public_key salt =
     id_new ops (sha1 (public_key @ (case salt of Some s \<Rightarrow> s | None \<Rightarrow> [])))"

definition signable_data :: "bytes option \<Rightarrow> i64 \<Rightarrow> bytes \<Rightarrow> bytes" where
  "signable_data salt seq v =
     (case salt of Some s \<Rightarrow> ascii ''4:salt'' @ show_nat (length s) @ ascii '':'' @ s | None \<Rightarrow> [])
     @ (ascii ''3:seqi'' @ show_int seq @ ascii ''e'') @ ascii ''1:v'' @ v"

text \<open>The Ed25519 operations of the library, with seeds, keys and signatures as bytes.\<close>

record ed25519 =
  ed_public :: "bytes \<Rightarrow> bytes"
  ed_sign :: "bytes \<Rightarrow> bytes \<Rightarrow> bytes"
  ed_verify :: "bytes \<Rightarrow> bytes \<Rightarrow> bytes \<Rightarrow> bool"

definition verify_mutable_item ::
    "ed25519 \<Rightarrow> bytes \<Rightarrow> bytes \<Rightarrow> bytes option \<Rightarrow> i64 \<Rightarrow> bytes \<Rightarrow> bool" where
  "verify_mutable_item ed public_key sig salt seq v = ed_verify ed public_key (signable_data salt seq v) sig"

definition sign_mutable_item :: "ed25519 \<Rightarrow> bytes \<Rightarrow> bytes option \<Rightarrow> i64 \<Rightarrow> bytes \<Rightarrow> bytes" where
  "sign_mutable_item ed seed salt seq v = ed_sign ed seed (signable_data salt seq v)"

definition public_key_from_seed :: "ed25519 \<Rightarrow> bytes \<Rightarrow> bytes" where
  "public_key_from_seed ed seed = ed_public ed seed"

section \<open>Properties\<close>

lemma signable_tail_inject:
  "ascii ''3:seqi'' @ show_int i @ ascii ''e'' @ ascii ''1:v'' @ v
    = ascii ''3:seqi'' @ show_int j @ ascii ''e'' @ ascii ''1:v'' @ w \<Longrightarrow> i = j \<and> v = w"
proof -
  assume "ascii ''3:seqi'' @ show_int i @ ascii ''e'' @ ascii ''1:v'' @ v
    = ascii ''3:seqi'' @ show_int j @ ascii ''e'' @ ascii ''1:v'' @ w"
  then have "show_int i @ 101 # (ascii ''1:v'' @ v) = show_int j @ 101 # (ascii ''1:v'' @ w)"
    by (simp add: ascii_def)
  from split_at_first [OF this not_in_show_int not_in_show_int] show ?thesis by simp
qed

lemma signable_data_inject:
  "signable_data salt seq v = signable_data salt' seq' v' \<longleftrightarrow> salt = salt' \<and> seq = seq' \<and> v = v'"
proof
  assume eq: "signable_data salt seq v = signable_data salt' seq' v'"
  show "salt = salt' \<and> seq = seq' \<and> v = v'"
  proof (cases "salt = None \<or> salt' = None")
    case True
    with eq have "salt = None \<and> salt' = None"
      by (cases salt; cases salt') (simp_all add: signable_data_def ascii_def)
    with eq signable_tail_inject [of seq v seq' v'] show ?thesis by (simp add: signable_data_def)
  next
    case False
    then obtain s s' where s: "salt = Some s" "salt' = Some s'" by (cases salt; cases salt') auto
    let ?tail = "\<lambda>seq v. ascii ''3:seqi'' @ show_int seq @ ascii ''e'' @ ascii ''1:v'' @ v"
    from eq have "show_nat (length s) @ 58 # (s @ ?tail seq v) = show_nat (length s') @ 58 # (s' @ ?tail seq' v')"
      by (simp add: signable_data_def s ascii_def)
    from split_at_first [OF this] have "length s = length s'" "s @ ?tail seq v = s' @ ?tail seq' v'"
      using not_digit by auto
    then have "s = s'" "?tail seq v = ?tail seq' v'" by simp_all
    with signable_tail_inject [of seq v seq' v'] s show ?thesis by simp
  qed
qed simp

text \<open>
  C35. The data that is signed determines what it was made of: two items with the same signable
  data have the same salt (with no salt and the empty salt told apart), sequence number and value,
  so a signature of one can not be replayed for another.
\<close>

theorem signable_data_injective:
  "signable_data salt seq v = signable_data salt' seq' v' \<longleftrightarrow> salt = salt' \<and> seq = seq' \<and> v = v'"
  by (rule signable_data_inject)

text \<open>
  What a seed signs, its public key verifies, for the same salt, sequence number and value.
  The hypothesis is the documented behaviour of Ed25519.
\<close>

theorem sign_then_verify:
  assumes "\<And>seed msg. length seed = 32 \<Longrightarrow> ed_verify ed (ed_public ed seed) msg (ed_sign ed seed msg)"
    and "length seed = 32"
  shows "verify_mutable_item ed (public_key_from_seed ed seed) (sign_mutable_item ed seed salt seq v) salt seq v"
  using assms by (simp add: verify_mutable_item_def sign_mutable_item_def public_key_from_seed_def)

definition toy_ed25519 :: ed25519 where
  "toy_ed25519 = \<lparr>ed_public = (\<lambda>seed. seed), ed_sign = (\<lambda>seed msg. seed @ msg),
     ed_verify = (\<lambda>pk msg sig. sig = pk @ msg)\<rparr>"

theorem sign_then_verify_witness:
  "verify_mutable_item toy_ed25519 (public_key_from_seed toy_ed25519 (replicate 32 7))
     (sign_mutable_item toy_ed25519 (replicate 32 7) (Some [1]) (- 3) [49, 58, 97]) (Some [1]) (- 3) [49, 58, 97]"
  by (rule sign_then_verify) (simp_all add: toy_ed25519_def)

text \<open>
  The target of an item without a salt is that of an item with the empty salt, although the
  data they are signed over differ: such a pair of items competes for one place in the store.
\<close>

lemma empty_salt_shares_target:
  "mutable_item_target ops sha1 pk None = mutable_item_target ops sha1 pk (Some [])
    \<and> signable_data None seq v \<noteq> signable_data (Some []) seq v"
  by (simp add: mutable_item_target_def signable_data_def ascii_def)

end
