(* ===== verification/Dht_State.thy ===== *)
theory Dht_State
  imports Routing_Props Peer_Props
begin

text \<open>
  The shared state of a DHT node, \<^verbatim>\<open>DhtState\<close> of
  \<^verbatim>\<open>src/dht.rs\<close>, with its errors (\<^verbatim>\<open>src/error.rs\<close>): the
  requests in flight, the two routing tables, the peer store and the queue of the sending worker.
  It holds the creation of requests, their answers, and the handler of incoming messages.
\<close>

section \<open>Errors\<close>

text \<open>Library errors are carried as their text.\<close>

type_synonym library_error = string

record lookup_error =
  hostname :: string
  lookup_err :: library_error

datatype dht_error =
    Bind library_error
  | BootstrapFailed
  | TaskFailed string dht_error
  | TaskQuit string
  | NoSuccessfulLookups nat
  | DhtDead
  | ReceiverDead
  | ErrorResponse
  | ResponseTimeout duration
  | BadTransactionId
  | RequestNotFound
  | BootstrapLookup lookup_error
  | SendError library_error
  | RecvError library_error
  | SerializeError library_error

definition lookup_failed :: "string \<Rightarrow> library_error \<Rightarrow> dht_error" where
  "lookup_failed host err = BootstrapLookup \<lparr>hostname = host, lookup_err = err\<rparr>"

fun task_finished :: "string \<Rightarrow> dht_error + unit \<Rightarrow> dht_error + unit" where
  "task_finished name (Inr ()) = Inl (TaskQuit name)"
| "task_finished name (Inl e) = Inl (TaskFailed name e)"

section \<open>State\<close>

datatype 'id request =
    GetPeers 'id
  | FindNode 'id
  | Announce 'id bytes u16
  | Ping

datatype 'id response_or_error = ROE_Response "'id response" | ROE_Error error_description

record 'id worker_send_request =
  our_tid :: "u16 option"
  wsr_message :: "'id message"
  wsr_addr :: socket_addr

text \<open>
  A request in flight owns the sending end of a oneshot channel; here the number of the channel.
  \<open>completed\<close> holds what was sent into the channels. The worker's queue holds the messages
  to send; sending to it fails once the worker is gone.
\<close>

record 'id dht_state =
  dht_id :: 'id
  next_transaction_id :: u16
  inflight :: "(u16 \<times> socket_addr) \<rightharpoonup> nat"
  next_channel :: nat
  completed :: "nat \<rightharpoonup> (dht_error + 'id response_or_error)"
  routing_table_v4 :: "'id routing_table"
  routing_table_v6 :: "'id routing_table"
  listen_addr :: socket_addr
  worker_queue :: "'id worker_send_request list"
  worker_alive :: bool
  dht_peer_store :: "'id peer_store"

text \<open>
  What a handler reads from its environment: the monotonic clock when it collects nodes and when
  it marks the query, the wall clock, and random bytes.
\<close>

record dht_env =
  env_now :: instant
  env_query_now :: instant
  env_utc :: datetime
  env_random :: bytes

record 'id dht_stats =
  stats_id :: 'id
  outstanding_requests :: nat
  routing_table_size :: nat
  routing_table_size_v6 :: nat

definition get_stats :: "'id dht_state \<Rightarrow> 'id dht_stats" where
  "get_stats s = \<lparr>stats_id = dht_id s, outstanding_requests = card (dom (inflight s)),
     routing_table_size = rt_len (routing_table_v4 s), routing_table_size_v6 = rt_len (routing_table_v6 s)\<rparr>"

definition dht_new_internal ::
    "'id id20_ops \<Rightarrow> instant \<Rightarrow> 'id \<Rightarrow> 'id routing_table option \<Rightarrow> 'id routing_table option
      \<Rightarrow> socket_addr \<Rightarrow> 'id peer_store \<Rightarrow> 'id dht_state" where
  "dht_new_internal ops now i v4 v6 addr store = \<lparr>dht_id = i, next_transaction_id = 0, inflight = Map.empty,
     next_channel = 0, completed = Map.empty,
     routing_table_v4 = (case v4 of Some t \<Rightarrow> t | None \<Rightarrow> routing_table_new ops i None now),
     routing_table_v6 = (case v6 of Some t \<Rightarrow> t | None \<Rightarrow> routing_table_new ops i None now),
     listen_addr = addr, worker_queue = [], worker_alive = True, dht_peer_store = store\<rparr>"

section \<open>Sending\<close>

definition worker_send :: "'id worker_send_request \<Rightarrow> 'id dht_state \<Rightarrow> 'id dht_state \<times> bool" where
  "worker_send m s = (if worker_alive s then (s\<lparr>worker_queue := worker_queue s @ [m]\<rparr>, True) else (s, False))"

definition create_request ::
    "'id request \<Rightarrow> socket_addr \<Rightarrow> 'id dht_state \<Rightarrow> 'id dht_state \<times> u16 \<times> 'id message" where
  "create_request request addr s =
    (let tid = next_transaction_id s;
         s1 = s\<lparr>next_transaction_id := tid + 1\<rparr>;
         want = (if is_ipv6 addr then Some Want_V6 else Some Want_V4);
         kind = (case request of
             GetPeers info_hash \<Rightarrow> MK_GetPeersRequest \<lparr>gp_id = dht_id s, gp_info_hash = info_hash, gp_want = want\<rparr>
           | FindNode target \<Rightarrow> MK_FindNodeRequest \<lparr>fn_id = dht_id s, fn_target = target, fn_want = want\<rparr>
           | Ping \<Rightarrow> MK_PingRequest \<lparr>ping_id = dht_id s\<rparr>
           | Announce info_hash token port \<Rightarrow> MK_AnnouncePeer \<lparr>ap_id = dht_id s, implied_port = 0,
               ap_info_hash = info_hash, ap_port = port, ap_token = token\<rparr>)
     in (s1, tid, \<lparr>msg_kind = kind, transaction_id = tid_bytes tid, version = None, msg_ip = None\<rparr>))"

text \<open>
  \<^verbatim>\<open>request\<close> up to its wait, after the rate limiter let it through: the result is the
  key and channel it waits for, or the error it returns at once. Inserting under a key that is in
  use drops the old channel's sending end.
\<close>

definition request_start ::
    "'id request \<Rightarrow> socket_addr \<Rightarrow> 'id dht_state
      \<Rightarrow> 'id dht_state \<times> (dht_error + (u16 \<times> socket_addr) \<times> nat)" where
  "request_start request addr s =
    (let (s1, tid, message) = create_request request addr s;
         key = (tid, addr);
         ch = next_channel s1;
         s2 = s1\<lparr>inflight := (inflight s1)(key \<mapsto> ch), next_channel := Suc ch\<rparr>;
         (s3, sent) = worker_send \<lparr>our_tid = Some tid, wsr_message = message, wsr_addr = addr\<rparr> s2
     in if sent then (s3, Inr (key, ch))
        else (s3\<lparr>inflight := (inflight s3)(key := None)\<rparr>, Inl DhtDead))"

text \<open>
  The end of the wait: the channel has a value, or its sending end was dropped, or the timeout
  passed. In the last two cases the key is removed. A future that is dropped while it waits runs none
  of this code, and so is no end of the wait: it is an event of its own in \<open>Dht_System\<close> (\<open>EvDrop\<close>).
\<close>

datatype wait_end = Received | SenderDropped | TimedOut

fun request_finish ::
    "(u16 \<times> socket_addr) \<Rightarrow> nat \<Rightarrow> wait_end \<Rightarrow> 'id dht_state
      \<Rightarrow> 'id dht_state \<times> (dht_error + 'id response_or_error)" where
  "request_finish key ch Received s = (s, case completed s ch of Some r \<Rightarrow> r | None \<Rightarrow> Inl DhtDead)"
| "request_finish key ch SenderDropped s = (s\<lparr>inflight := (inflight s)(key := None)\<rparr>, Inl DhtDead)"
| "request_finish key ch TimedOut s =
    (s\<lparr>inflight := (inflight s)(key := None)\<rparr>, Inl (ResponseTimeout RESPONSE_TIMEOUT))"

text \<open>\<^verbatim>\<open>DhtWorker::on_send_error\<close>.\<close>

definition on_send_error :: "u16 \<Rightarrow> socket_addr \<Rightarrow> dht_error \<Rightarrow> 'id dht_state \<Rightarrow> 'id dht_state" where
  "on_send_error tid addr err s = (case inflight s (tid, addr) of
     Some ch \<Rightarrow> s\<lparr>inflight := (inflight s)((tid, addr) := None), completed := (completed s)(ch \<mapsto> Inl err)\<rparr>
   | None \<Rightarrow> s)"

section \<open>Answers\<close>

fun v4_of :: "socket_addr \<Rightarrow> socket_addr_v4 option" where
  "v4_of (V4 a) = Some a"
| "v4_of (V6 a) = None"

fun v6_of :: "socket_addr \<Rightarrow> socket_addr_v6 option" where
  "v6_of (V6 a) = Some a"
| "v6_of (V4 a) = None"

definition generate_compact_nodes ::
    "('id::linorder) id20_ops \<Rightarrow> (socket_addr \<Rightarrow> 'a option) \<Rightarrow> 'id \<Rightarrow> 'id routing_table \<Rightarrow> instant
      \<Rightarrow> abort + ('id, 'a) node list" where
  "generate_compact_nodes ops from_socket_addr target table now =
    (case sorted_by_distance_from ops table target now of
       None \<Rightarrow> Inl Diverged
     | Some nodes \<Rightarrow> Inr (take 8 (List.map_filter
         (\<lambda>r. map_option (\<lambda>a. \<lparr>nid = node_id r, naddr = a\<rparr>) (from_socket_addr (node_addr r))) nodes)))"

definition generate_compact_nodes_both ::
    "('id::linorder) id20_ops \<Rightarrow> 'id \<Rightarrow> want \<Rightarrow> instant \<Rightarrow> 'id dht_state
      \<Rightarrow> abort + 'id node4 list option \<times> 'id node6 list option" where
  "generate_compact_nodes_both ops target want now s =
    (let v4 = generate_compact_nodes ops v4_of target (routing_table_v4 s) now;
         v6 = generate_compact_nodes ops v6_of target (routing_table_v6 s) now
     in case want of
          Want_V4 \<Rightarrow> and_then v4 (\<lambda>n. Inr (Some n, None))
        | Want_V6 \<Rightarrow> and_then v6 (\<lambda>n6. Inr (None, Some n6))
        | Want_Both \<Rightarrow> and_then v4 (\<lambda>n. and_then v6 (\<lambda>n6. Inr (Some n, Some n6)))
        | Want_None \<Rightarrow> Inr (None, None))"

definition get_table_for_addr :: "socket_addr \<Rightarrow> 'id dht_state \<Rightarrow> 'id routing_table" where
  "get_table_for_addr addr s = (if is_ipv4 addr then routing_table_v4 s else routing_table_v6 s)"

definition set_table_for_addr :: "socket_addr \<Rightarrow> 'id routing_table \<Rightarrow> 'id dht_state \<Rightarrow> 'id dht_state" where
  "set_table_for_addr addr t s =
     (if is_ipv4 addr then s\<lparr>routing_table_v4 := t\<rparr> else s\<lparr>routing_table_v6 := t\<rparr>)"

definition mark_query_from ::
    "dht_env \<Rightarrow> 'id \<Rightarrow> socket_addr \<Rightarrow> ('id::linorder) dht_state \<Rightarrow> abort + 'id dht_state" where
  "mark_query_from env i addr s = and_then (rt_mark_last_query (get_table_for_addr addr s) i (env_query_now env))
     (\<lambda>(t, found). Inr (set_table_for_addr addr t s))"

text \<open>The common end of all query handlers: the response goes to the worker's queue.\<close>

definition respond ::
    "'id message \<Rightarrow> socket_addr \<Rightarrow> 'id response \<Rightarrow> 'id dht_state \<Rightarrow> 'id dht_state \<times> (dht_error + unit)" where
  "respond msg addr resp s =
    (let message = \<lparr>msg_kind = MK_Response resp, transaction_id = transaction_id msg, version = None,
           msg_ip = Some addr\<rparr>;
         (s1, sent) = worker_send \<lparr>our_tid = None, wsr_message = message, wsr_addr = addr\<rparr> s
     in (s1, if sent then Inr () else Inl DhtDead))"

definition new_token ::
    "dht_env \<Rightarrow> 'id \<Rightarrow> socket_addr \<Rightarrow> 'id dht_state \<Rightarrow> 'id dht_state \<times> bytes" where
  "new_token env i addr s =
    (let (ps, token) = gen_token_for (env_random env) (env_utc env) (dht_peer_store s) i addr
     in (s\<lparr>dht_peer_store := ps\<rparr>, token))"

definition own_response :: "'id id20_ops \<Rightarrow> 'id dht_state \<Rightarrow> 'id response" where
  "own_response ops s = (default_response ops)\<lparr>resp_id := dht_id s\<rparr>"

definition default_want :: "want option \<Rightarrow> socket_addr \<Rightarrow> want" where
  "default_want w addr = (case w of Some w \<Rightarrow> w | None \<Rightarrow> if is_ipv6 addr then Want_V6 else Want_V4)"

section \<open>The handler of incoming messages\<close>

definition on_answer ::
    "'id message \<Rightarrow> socket_addr \<Rightarrow> 'id response_or_error \<Rightarrow> 'id dht_state
      \<Rightarrow> 'id dht_state \<times> (dht_error + unit)" where
  "on_answer msg addr roe s = (case get_our_transaction_id msg of
     None \<Rightarrow> (s, Inl BadTransactionId)
   | Some tid \<Rightarrow> (case inflight s (tid, addr) of
       None \<Rightarrow> (s, Inl RequestNotFound)
     | Some ch \<Rightarrow> (s\<lparr>inflight := (inflight s)((tid, addr) := None),
         completed := (completed s)(ch \<mapsto> Inr roe)\<rparr>, Inr ())))"

text \<open>The arms of \<^verbatim>\<open>on_received_message\<close> that answer queries.\<close>

definition on_ping ::
    "('id::linorder) id20_ops \<Rightarrow> dht_env \<Rightarrow> 'id message \<Rightarrow> socket_addr \<Rightarrow> 'id ping_request \<Rightarrow> 'id dht_state
      \<Rightarrow> abort + 'id dht_state \<times> (dht_error + unit)" where
  "on_ping ops env msg addr req s = and_then (mark_query_from env (ping_id req) addr s) (\<lambda>s1.
     Inr (respond msg addr (own_response ops s1) s1))"

definition on_announce_peer ::
    "('id::linorder) id20_ops \<Rightarrow> dht_env \<Rightarrow> 'id message \<Rightarrow> socket_addr \<Rightarrow> 'id announce_peer \<Rightarrow> 'id dht_state
      \<Rightarrow> abort + 'id dht_state \<times> (dht_error + unit)" where
  "on_announce_peer ops env msg addr ann s = and_then (mark_query_from env (ap_id ann) addr s) (\<lambda>s1.
     let (ps, added) = store_peer ops (env_utc env) (dht_peer_store s1) ann addr;
         s2 = s1\<lparr>dht_peer_store := ps\<rparr>
     in Inr (respond msg addr (own_response ops s2) s2))"

definition on_get_peers ::
    "('id::linorder) id20_ops \<Rightarrow> dht_env \<Rightarrow> 'id message \<Rightarrow> socket_addr \<Rightarrow> 'id get_peers_request \<Rightarrow> 'id dht_state
      \<Rightarrow> abort + 'id dht_state \<times> (dht_error + unit)" where
  "on_get_peers ops env msg addr req s =
    (let want = default_want (gp_want req) addr in
     and_then (generate_compact_nodes_both ops (gp_info_hash req) want (env_now env) s) (\<lambda>(nodes, nodes6).
       let peers = get_for_info_hash (dht_peer_store s) (gp_info_hash req) want in
       and_then (mark_query_from env (gp_id req) addr s) (\<lambda>s1.
         let (s2, token) = new_token env (gp_id req) addr s1
         in Inr (respond msg addr ((own_response ops s2)\<lparr>resp_nodes := nodes, resp_nodes6 := nodes6,
              resp_values := Some peers, resp_token := Some token\<rparr>) s2))))"

definition on_find_node ::
    "('id::linorder) id20_ops \<Rightarrow> dht_env \<Rightarrow> 'id message \<Rightarrow> socket_addr \<Rightarrow> 'id find_node_request \<Rightarrow> 'id dht_state
      \<Rightarrow> abort + 'id dht_state \<times> (dht_error + unit)" where
  "on_find_node ops env msg addr req s =
    and_then (generate_compact_nodes_both ops (fn_target req) (default_want (fn_want req) addr) (env_now env) s)
      (\<lambda>(nodes, nodes6). and_then (mark_query_from env (fn_id req) addr s) (\<lambda>s1.
         Inr (respond msg addr ((own_response ops s1)\<lparr>resp_nodes := nodes, resp_nodes6 := nodes6\<rparr>) s1)))"

definition on_bep44_get ::
    "('id::linorder) id20_ops \<Rightarrow> dht_env \<Rightarrow> 'id message \<Rightarrow> socket_addr \<Rightarrow> 'id bep44_get_request \<Rightarrow> 'id dht_state
      \<Rightarrow> abort + 'id dht_state \<times> (dht_error + unit)" where
  "on_bep44_get ops env msg addr req s =
    and_then (generate_compact_nodes_both ops (bg_target req) Want_Both (env_now env) s)
      (\<lambda>(nodes, nodes6). and_then (mark_query_from env (bg_id req) addr s) (\<lambda>s1.
         let (s2, token) = new_token env (bg_id req) addr s1
         in Inr (respond msg addr ((own_response ops s2)\<lparr>resp_nodes := nodes, resp_nodes6 := nodes6,
              resp_token := Some token\<rparr>) s2)))"

definition on_bep44_put ::
    "('id::linorder) id20_ops \<Rightarrow> dht_env \<Rightarrow> 'id message \<Rightarrow> socket_addr \<Rightarrow> 'id bep44_put_request \<Rightarrow> 'id dht_state
      \<Rightarrow> abort + 'id dht_state \<times> (dht_error + unit)" where
  "on_bep44_put ops env msg addr req s = and_then (mark_query_from env (bp_id req) addr s) (\<lambda>s1.
     Inr (respond msg addr (own_response ops s1) s1))"

definition on_received_message ::
    "('id::linorder) id20_ops \<Rightarrow> dht_env \<Rightarrow> 'id message \<Rightarrow> socket_addr \<Rightarrow> 'id dht_state
      \<Rightarrow> abort + 'id dht_state \<times> (dht_error + unit)" where
  "on_received_message ops env msg addr s = (case msg_kind msg of
      MK_Error e \<Rightarrow> Inr (on_answer msg addr (ROE_Error e) s)
    | MK_Response r \<Rightarrow> Inr (on_answer msg addr (ROE_Response r) s)
    | MK_PingRequest req \<Rightarrow> on_ping ops env msg addr req s
    | MK_AnnouncePeer ann \<Rightarrow> on_announce_peer ops env msg addr ann s
    | MK_GetPeersRequest req \<Rightarrow> on_get_peers ops env msg addr req s
    | MK_FindNodeRequest req \<Rightarrow> on_find_node ops env msg addr req s
    | MK_Bep44GetRequest req \<Rightarrow> on_bep44_get ops env msg addr req s
    | MK_Bep44PutRequest req \<Rightarrow> on_bep44_put ops env msg addr req s)"

lemmas query_handlers = on_ping_def on_announce_peer_def on_get_peers_def on_find_node_def on_bep44_get_def on_bep44_put_def

end
