(* ===== verification/Dht_System.thy ===== *)
theory Dht_System
  imports Dht_State
begin

text \<open>
  The DHT node as one system: the events that change its state, in any order, the invariant they
  keep, and what follows for whole runs: no panic, no leaked request, and answers that reach the
  request they belong to.
\<close>

section \<open>Events\<close>

text \<open>
  Tasks run concurrently, and every critical section of the code is one event. A request is two
  events, its start and the end of its wait, with anything in between; \<open>waiting\<close> holds
  the channels and keys of the requests whose wait has not ended. A wait ends with a value only if
  there is one, and with a dropped sender only if the channel's sending end is gone. The future of a
  request may also be dropped while it waits, as when the stream of \<^verbatim>\<open>get_peers\<close> is dropped or
  a \<^verbatim>\<open>select!\<close> of the worker returns: no code runs then, so the node stays as it is, and
  \<open>dropped\<close> remembers that this wait will never end.
\<close>

datatype 'id dht_event =
    EvRequest "'id request" socket_addr
  | EvAnnounce "'id request" socket_addr
  | EvMessage dht_env "'id message" socket_addr
  | EvSendError u16 socket_addr dht_error
  | EvFinish nat wait_end
  | EvDrop nat
  | EvCollect datetime
  | EvAddNode "nat \<Rightarrow> instant" instant 'id socket_addr
  | EvMark node_event 'id socket_addr
  | EvWorkerTakes
  | EvWorkerDies

record 'id dht_system =
  node_state :: "'id dht_state"
  waiting :: "nat \<rightharpoonup> u16 \<times> socket_addr"
  dropped :: "nat set"

fun wait_may_end :: "wait_end \<Rightarrow> nat \<Rightarrow> 'id dht_state \<Rightarrow> bool" where
  "wait_may_end Received ch s \<longleftrightarrow> completed s ch \<noteq> None"
| "wait_may_end SenderDropped ch s \<longleftrightarrow> completed s ch = None \<and> ch \<notin> ran (inflight s)"
| "wait_may_end TimedOut ch s \<longleftrightarrow> True"

fun dht_step :: "('id::linorder) id20_ops \<Rightarrow> 'id dht_event \<Rightarrow> 'id dht_system \<Rightarrow> abort + 'id dht_system" where
  "dht_step ops (EvRequest req addr) y = (case request_start req addr (node_state y) of
     (s, Inl e) \<Rightarrow> Inr (y\<lparr>node_state := s\<rparr>)
   | (s, Inr (key, ch)) \<Rightarrow> Inr (y\<lparr>node_state := s, waiting := (waiting y)(ch \<mapsto> key)\<rparr>))"
| "dht_step ops (EvAnnounce req addr) y =
    (let (s, tid, message) = create_request req addr (node_state y)
     in Inr (y\<lparr>node_state := fst (worker_send \<lparr>our_tid = Some tid, wsr_message = message, wsr_addr = addr\<rparr> s)\<rparr>))"
| "dht_step ops (EvMessage env msg addr) y =
    and_then (on_received_message ops env msg addr (node_state y)) (\<lambda>(s, r). Inr (y\<lparr>node_state := s\<rparr>))"
| "dht_step ops (EvSendError tid addr err) y = Inr (y\<lparr>node_state := on_send_error tid addr err (node_state y)\<rparr>)"
| "dht_step ops (EvFinish ch w) y = (case waiting y ch of
     Some key \<Rightarrow>
       if ch \<notin> dropped y \<and> wait_may_end w ch (node_state y)
       then Inr (y\<lparr>node_state := fst (request_finish key ch w (node_state y)), waiting := (waiting y)(ch := None)\<rparr>)
       else Inr y
   | None \<Rightarrow> Inr y)"
| "dht_step ops (EvDrop ch) y = Inr (if waiting y ch = None then y else y\<lparr>dropped := insert ch (dropped y)\<rparr>)"
| "dht_step ops (EvCollect now) y =
    and_then (garbage_collect_peers now (dht_peer_store (node_state y))) (\<lambda>ps.
      Inr (y\<lparr>node_state := (node_state y)\<lparr>dht_peer_store := ps\<rparr>\<rparr>))"
| "dht_step ops (EvAddNode clk now i addr) y =
    and_then (rt_add_node ops clk now (get_table_for_addr addr (node_state y)) i addr) (\<lambda>(t, r).
      Inr (y\<lparr>node_state := set_table_for_addr addr t (node_state y)\<rparr>))"
| "dht_step ops (EvMark e i addr) y =
    and_then (rt_mark e i (get_table_for_addr addr (node_state y))) (\<lambda>(t, r).
      Inr (y\<lparr>node_state := set_table_for_addr addr t (node_state y)\<rparr>))"
| "dht_step ops EvWorkerTakes y =
    Inr (y\<lparr>node_state := (node_state y)\<lparr>worker_queue := tl (worker_queue (node_state y))\<rparr>\<rparr>)"
| "dht_step ops EvWorkerDies y = Inr (y\<lparr>node_state := (node_state y)\<lparr>worker_alive := False\<rparr>\<rparr>)"

definition dht_start :: "'id id20_ops \<Rightarrow> instant \<Rightarrow> 'id \<Rightarrow> socket_addr \<Rightarrow> 'id dht_system" where
  "dht_start ops now i addr =
     \<lparr>node_state = dht_new_internal ops now i None None addr (peer_store_new ops i), waiting = Map.empty, dropped = {}\<rparr>"

section \<open>The invariant\<close>

definition stores_ok :: "('id::linorder) id20_ops \<Rightarrow> 'id dht_state \<Rightarrow> bool" where
  "stores_ok ops s \<longleftrightarrow> rt_inv ops (routing_table_v4 s) \<and> rt_inv ops (routing_table_v6 s)
     \<and> peer_store_inv ops (dht_peer_store s)"

text \<open>
  A request in flight is waiting under its key; a channel is completed once; the channels of
  waiting requests have been handed out.
\<close>

definition requests_ok :: "'id dht_system \<Rightarrow> bool" where
  "requests_ok y \<longleftrightarrow> (\<forall>key ch. inflight (node_state y) key = Some ch \<longrightarrow>
       waiting y ch = Some key \<and> completed (node_state y) ch = None)
     \<and> (\<forall>ch. waiting y ch \<noteq> None \<or> completed (node_state y) ch \<noteq> None \<longrightarrow> ch < next_channel (node_state y))"

definition dht_inv :: "('id::linorder) id20_ops \<Rightarrow> 'id dht_system \<Rightarrow> bool" where
  "dht_inv ops y \<longleftrightarrow> stores_ok ops (node_state y) \<and> requests_ok y"

lemma get_table_ok: "stores_ok ops s \<Longrightarrow> rt_inv ops (get_table_for_addr addr s)"
  by (simp add: stores_ok_def get_table_for_addr_def)

lemma set_table_ok: "stores_ok ops s \<Longrightarrow> rt_inv ops t \<Longrightarrow> stores_ok ops (set_table_for_addr addr t s)"
  by (simp add: stores_ok_def set_table_for_addr_def)

lemma set_table_fields [simp]:
  "dht_id (set_table_for_addr addr t s) = dht_id s"
  "next_transaction_id (set_table_for_addr addr t s) = next_transaction_id s"
  "inflight (set_table_for_addr addr t s) = inflight s"
  "next_channel (set_table_for_addr addr t s) = next_channel s"
  "completed (set_table_for_addr addr t s) = completed s"
  "worker_queue (set_table_for_addr addr t s) = worker_queue s"
  "worker_alive (set_table_for_addr addr t s) = worker_alive s"
  "dht_peer_store (set_table_for_addr addr t s) = dht_peer_store s"
  by (simp_all add: set_table_for_addr_def)

lemma requests_complete:
  assumes "requests_ok y" and "inflight (node_state y) key = Some ch"
  shows "requests_ok (y\<lparr>node_state := (node_state y)\<lparr>inflight := (inflight (node_state y))(key := None),
    completed := (completed (node_state y))(ch \<mapsto> r)\<rparr>\<rparr>)"
proof -
  note ok = assms(1) [unfolded requests_ok_def]
  have only: "k = key" if "inflight (node_state y) k = Some ch" for k
    using ok assms(2) that by (metis option.inject)
  have "waiting y c = Some k \<and> ((completed (node_state y))(ch \<mapsto> r)) c = None"
    if "((inflight (node_state y))(key := None)) k = Some c" for k c
  proof -
    from that have k: "k \<noteq> key" "inflight (node_state y) k = Some c" by (auto split: if_splits)
    with only have "c \<noteq> ch" by blast
    moreover have "waiting y c = Some k \<and> completed (node_state y) c = None" using ok k(2) by blast
    ultimately show ?thesis by simp
  qed
  moreover have "c < next_channel (node_state y)"
    if "waiting y c \<noteq> None \<or> ((completed (node_state y))(ch \<mapsto> r)) c \<noteq> None" for c
  proof (cases "c = ch")
    case True
    have "waiting y ch \<noteq> None" using ok assms(2) by (metis option.distinct(1))
    with True ok show ?thesis by blast
  qed (use that ok in auto)
  ultimately show ?thesis by (simp add: requests_ok_def)
qed

lemma requests_remove:
  "requests_ok y \<Longrightarrow> requests_ok (y\<lparr>node_state := (node_state y)\<lparr>inflight := (inflight (node_state y))(key := None)\<rparr>\<rparr>)"
  by (auto simp: requests_ok_def)

lemma stores_ok_requests [simp]:
  "stores_ok ops (s\<lparr>inflight := m\<rparr>) = stores_ok ops s"
  "stores_ok ops (s\<lparr>completed := c\<rparr>) = stores_ok ops s"
  "stores_ok ops (s\<lparr>next_channel := n\<rparr>) = stores_ok ops s"
  "stores_ok ops (s\<lparr>next_transaction_id := t\<rparr>) = stores_ok ops s"
  "stores_ok ops (s\<lparr>worker_queue := q\<rparr>) = stores_ok ops s"
  "stores_ok ops (s\<lparr>worker_alive := b\<rparr>) = stores_ok ops s"
  by (simp_all add: stores_ok_def)

text \<open>What the query handlers leave alone.\<close>

definition same_requests :: "'id dht_state \<Rightarrow> 'id dht_state \<Rightarrow> bool" where
  "same_requests s s' \<longleftrightarrow> inflight s' = inflight s \<and> completed s' = completed s
     \<and> next_channel s' = next_channel s \<and> next_transaction_id s' = next_transaction_id s \<and> dht_id s' = dht_id s"

lemma same_requests_ok: "requests_ok y \<Longrightarrow> same_requests (node_state y) s \<Longrightarrow> requests_ok (y\<lparr>node_state := s\<rparr>)"
  by (simp add: requests_ok_def same_requests_def)

lemma respond_eq:
  "respond msg addr resp s = (if worker_alive s
     then (s\<lparr>worker_queue := worker_queue s @ [\<lparr>our_tid = None, wsr_message =
        \<lparr>msg_kind = MK_Response resp, transaction_id = transaction_id msg, version = None, msg_ip = Some addr\<rparr>,
        wsr_addr = addr\<rparr>]\<rparr>, Inr ())
     else (s, Inl DhtDead))"
  by (simp add: respond_def worker_send_def Let_def)

lemma respond_keeps:
  "stores_ok ops (fst (respond msg addr resp s)) = stores_ok ops s"
  "same_requests s' (fst (respond msg addr resp s)) = same_requests s' s"
  by (simp_all add: respond_eq stores_ok_def same_requests_def)

text \<open>A query has been answered: the state before the sending of the response, and the response.\<close>

definition answers ::
    "('id::linorder) id20_ops \<Rightarrow> 'id dht_state \<Rightarrow> 'id message \<Rightarrow> socket_addr
      \<Rightarrow> abort + 'id dht_state \<times> (dht_error + unit) \<Rightarrow> bool" where
  "answers ops s msg addr res \<longleftrightarrow> (\<exists>s0 resp. res = Inr (respond msg addr resp s0) \<and> resp_id resp = dht_id s
     \<and> stores_ok ops s0 \<and> same_requests s s0 \<and> worker_alive s0 = worker_alive s \<and> worker_queue s0 = worker_queue s)"

lemma answersI:
  "resp_id resp = dht_id s \<Longrightarrow> stores_ok ops s0 \<Longrightarrow> same_requests s s0 \<Longrightarrow> worker_alive s0 = worker_alive s
    \<Longrightarrow> worker_queue s0 = worker_queue s \<Longrightarrow> answers ops s msg addr (Inr (respond msg addr resp s0))"
  by (auto simp: answers_def)

lemma own_response_id [simp]: "resp_id (own_response ops s) = dht_id s"
  by (simp add: own_response_def)

lemma same_requests_table: "same_requests s (set_table_for_addr addr t s)"
  by (simp add: same_requests_def)

context id20_api
begin

lemma mark_query_ok:
  assumes "stores_ok ops s"
  shows "\<exists>t. mark_query_from env i addr s = Inr (set_table_for_addr addr t s) \<and> stores_ok ops (set_table_for_addr addr t s)"
proof -
  obtain t where t: "rt_mark (Queried (env_query_now env)) i (get_table_for_addr addr s)
      = Inr (t, rt_lookup (get_table_for_addr addr s) i \<noteq> None)" "rt_inv ops t"
    using rt_inv_mark [OF get_table_ok [OF assms]] by blast
  then show ?thesis using set_table_ok [OF assms t(2)]
    by (intro exI [of _ t]) (simp add: mark_query_from_def)
qed

lemma compact_nodes_ok:
  assumes "rt_inv ops t"
  shows "\<exists>ns. generate_compact_nodes ops from target t now = Inr ns"
  using rt_inv_iter(1) [OF assms]
  by (simp add: generate_compact_nodes_def sorted_by_distance_from_def rt_iter_def)

lemma compact_nodes_both_ok:
  assumes "stores_ok ops s"
  shows "\<exists>ns. generate_compact_nodes_both ops target want now s = Inr ns"
proof -
  obtain n4 n6 where "generate_compact_nodes ops v4_of target (routing_table_v4 s) now = Inr n4"
    "generate_compact_nodes ops v6_of target (routing_table_v6 s) now = Inr n6"
    using compact_nodes_ok assms unfolding stores_ok_def by metis
  then show ?thesis by (cases want) (simp_all add: generate_compact_nodes_both_def)
qed

lemma new_token_ok:
  "stores_ok ops s \<Longrightarrow> new_token env i addr s = (s', token) \<Longrightarrow> stores_ok ops s' \<and> same_requests s s'"
  using gen_token_inv [of ops "dht_peer_store s" "env_random env" "env_utc env" i addr]
  by (auto simp: new_token_def stores_ok_def same_requests_def gen_token_for_def Let_def)

lemma new_token_worker:
  "new_token env i addr s = (s', token) \<Longrightarrow>
    worker_alive s' = worker_alive s \<and> worker_queue s' = worker_queue s \<and> dht_id s' = dht_id s"
  by (auto simp: new_token_def split: prod.splits)

lemma query_answered:
  assumes ok: "stores_ok ops s" and q: "\<forall>e. msg_kind msg \<noteq> MK_Error e" "\<forall>r. msg_kind msg \<noteq> MK_Response r"
  shows "answers ops s msg addr (on_received_message ops env msg addr s)"
proof -
  have mark: "\<exists>t. mark_query_from env i addr s = Inr (set_table_for_addr addr t s)
      \<and> stores_ok ops (set_table_for_addr addr t s)" for i
    by (rule mark_query_ok [OF ok])
  have both: "\<exists>n n6. generate_compact_nodes_both ops target want (env_now env) s = Inr (n, n6)" for target want
    using compact_nodes_both_ok [OF ok, of target want "env_now env"] by (metis surj_pair)
  show ?thesis
  proof (cases "msg_kind msg")
    case (MK_PingRequest req)
    obtain t where "mark_query_from env (ping_id req) addr s = Inr (set_table_for_addr addr t s)"
      "stores_ok ops (set_table_for_addr addr t s)" using mark by blast
    then show ?thesis
      by (simp add: on_received_message_def query_handlers MK_PingRequest answersI same_requests_table)
  next
    case (MK_Bep44PutRequest req)
    obtain t where "mark_query_from env (bp_id req) addr s = Inr (set_table_for_addr addr t s)"
      "stores_ok ops (set_table_for_addr addr t s)" using mark by blast
    then show ?thesis
      by (simp add: on_received_message_def query_handlers MK_Bep44PutRequest answersI same_requests_table)
  next
    case (MK_AnnouncePeer ann)
    obtain t where t: "mark_query_from env (ap_id ann) addr s = Inr (set_table_for_addr addr t s)"
      "stores_ok ops (set_table_for_addr addr t s)" using mark by blast
    obtain ps r where ps: "store_peer ops (env_utc env) (dht_peer_store s) ann addr = (ps, r)" by fastforce
    have "peer_store_inv ops (dht_peer_store s)" using ok by (simp add: stores_ok_def)
    from store_peer_spec(2) [OF this ps] t(2)
    have "stores_ok ops ((set_table_for_addr addr t s)\<lparr>dht_peer_store := ps\<rparr>)" by (simp add: stores_ok_def)
    moreover have "same_requests s ((set_table_for_addr addr t s)\<lparr>dht_peer_store := ps\<rparr>)"
      by (simp add: same_requests_def)
    ultimately show ?thesis
      by (simp add: on_received_message_def query_handlers MK_AnnouncePeer t(1) ps Let_def answersI)
  next
    case (MK_FindNodeRequest req)
    obtain t where "mark_query_from env (fn_id req) addr s = Inr (set_table_for_addr addr t s)"
      "stores_ok ops (set_table_for_addr addr t s)" using mark by blast
    moreover obtain n n6 where "generate_compact_nodes_both ops (fn_target req) (default_want (fn_want req) addr)
        (env_now env) s = Inr (n, n6)" using both by blast
    ultimately show ?thesis
      by (simp add: on_received_message_def query_handlers MK_FindNodeRequest answersI same_requests_table)
  next
    case (MK_GetPeersRequest req)
    obtain t where t: "mark_query_from env (gp_id req) addr s = Inr (set_table_for_addr addr t s)"
      "stores_ok ops (set_table_for_addr addr t s)" using mark by blast
    obtain n n6 where "generate_compact_nodes_both ops (gp_info_hash req) (default_want (gp_want req) addr)
        (env_now env) s = Inr (n, n6)" using both by blast
    moreover obtain s2 token where s2: "new_token env (gp_id req) addr (set_table_for_addr addr t s) = (s2, token)"
      by fastforce
    moreover have "same_requests s s2"
      using new_token_ok [OF t(2) s2] by (simp add: same_requests_def)
    ultimately show ?thesis
      using new_token_ok [OF t(2) s2] new_token_worker [OF s2] t(1)
      by (simp add: on_received_message_def query_handlers MK_GetPeersRequest Let_def answersI)
  next
    case (MK_Bep44GetRequest req)
    obtain t where t: "mark_query_from env (bg_id req) addr s = Inr (set_table_for_addr addr t s)"
      "stores_ok ops (set_table_for_addr addr t s)" using mark by blast
    obtain n n6 where "generate_compact_nodes_both ops (bg_target req) Want_Both (env_now env) s = Inr (n, n6)"
      using both by blast
    moreover obtain s2 token where s2: "new_token env (bg_id req) addr (set_table_for_addr addr t s) = (s2, token)"
      by fastforce
    moreover have "same_requests s s2"
      using new_token_ok [OF t(2) s2] by (simp add: same_requests_def)
    ultimately show ?thesis
      using new_token_ok [OF t(2) s2] new_token_worker [OF s2] t(1)
      by (simp add: on_received_message_def query_handlers MK_Bep44GetRequest Let_def answersI)
  qed (use q in simp_all)
qed

lemma on_answer_ok:
  assumes "dht_inv ops y"
  shows "dht_inv ops (y\<lparr>node_state := fst (on_answer msg addr roe (node_state y))\<rparr>)"
proof (cases "get_our_transaction_id msg")
  case (Some tid)
  then show ?thesis
    using assms requests_complete [of y "(tid, addr)"]
    by (cases "inflight (node_state y) (tid, addr)") (simp_all add: on_answer_def dht_inv_def)
qed (use assms in \<open>simp add: on_answer_def dht_inv_def\<close>)

lemma message_ok:
  assumes inv: "dht_inv ops y"
  shows "\<exists>s r. on_received_message ops env msg addr (node_state y) = Inr (s, r) \<and> dht_inv ops (y\<lparr>node_state := s\<rparr>)"
proof (cases "\<exists>roe. on_received_message ops env msg addr (node_state y) = Inr (on_answer msg addr roe (node_state y))")
  case True
  then obtain roe where "on_received_message ops env msg addr (node_state y)
    = Inr (on_answer msg addr roe (node_state y))" by blast
  with on_answer_ok [OF inv, of msg addr roe] show ?thesis by (metis surjective_pairing)
next
  case False
  then have "\<forall>e. msg_kind msg \<noteq> MK_Error e" "\<forall>r. msg_kind msg \<noteq> MK_Response r"
    by (auto simp: on_received_message_def query_handlers)
  from query_answered [OF _ this, of "node_state y" addr env] inv obtain s0 resp where
    r: "on_received_message ops env msg addr (node_state y) = Inr (respond msg addr resp s0)"
      "stores_ok ops s0" "same_requests (node_state y) s0"
    by (auto simp: answers_def dht_inv_def)
  have "stores_ok ops (fst (respond msg addr resp s0))" "same_requests (node_state y) (fst (respond msg addr resp s0))"
    using r(2,3) respond_keeps by blast+
  with inv same_requests_ok [of y "fst (respond msg addr resp s0)"]
  have "dht_inv ops (y\<lparr>node_state := fst (respond msg addr resp s0)\<rparr>)" by (simp add: dht_inv_def)
  with r(1) show ?thesis by (metis surjective_pairing)
qed

lemma table_step_ok:
  assumes "dht_inv ops y" and "rt_inv ops t"
  shows "dht_inv ops (y\<lparr>node_state := set_table_for_addr addr t (node_state y)\<rparr>)"
  using assms set_table_ok [of ops "node_state y" t addr] same_requests_ok [OF _ same_requests_table, of y addr t]
  by (simp add: dht_inv_def)

lemma request_ok:
  assumes inv: "dht_inv ops y"
  shows "\<exists>y'. dht_step ops (EvRequest req addr) y = Inr y' \<and> dht_inv ops y'"
proof -
  let ?s = "node_state y" and ?n = "next_channel (node_state y)" and ?key = "(next_transaction_id (node_state y), addr)"
  obtain s1 tid message where c: "create_request req addr ?s = (s1, tid, message)" by (metis prod_cases3)
  then have s1: "s1 = ?s\<lparr>next_transaction_id := next_transaction_id ?s + 1\<rparr>" "tid = next_transaction_id ?s"
    by (auto simp: create_request_def Let_def)
  have stores: "stores_ok ops ?s" and req: "requests_ok y" using inv by (simp_all add: dht_inv_def)
  show ?thesis
  proof (cases "worker_alive ?s")
    case True
    have "waiting y ?n = None" "completed ?s ?n = None"
      using req by (metis (no_types, lifting) less_irrefl requests_ok_def)+
    moreover have "ch \<noteq> ?n" if "inflight ?s k = Some ch" for k ch
      using req that by (metis (no_types, lifting) less_irrefl option.distinct(1) requests_ok_def)
    ultimately show ?thesis
      using True c s1 stores req
      by (auto simp: request_start_def worker_send_def Let_def dht_inv_def requests_ok_def less_Suc_eq split: if_splits)
  next
    case False
    then show ?thesis
      using c s1 stores req
      by (auto simp: request_start_def worker_send_def Let_def dht_inv_def requests_ok_def less_Suc_eq split: if_splits)
  qed
qed

text \<open>The end of a wait, whoever ends it.\<close>

lemma finish_inv:
  assumes inv: "dht_inv ops y" and Some: "waiting y ch = Some key" and True: "wait_may_end w ch (node_state y)"
  shows "dht_inv ops (y\<lparr>node_state := fst (request_finish key ch w (node_state y)), waiting := (waiting y)(ch := None)\<rparr>)"
proof -
  have req: "requests_ok y" and stores: "stores_ok ops (node_state y)" using inv by (simp_all add: dht_inv_def)
  have other: "k = key" if "inflight (node_state y) k = Some ch" for k
    using req that Some unfolding requests_ok_def by (metis option.inject)
  have gone: "inflight (node_state y) k \<noteq> Some ch" if "k \<noteq> key \<or> w = Received" for k
  proof
    assume k: "inflight (node_state y) k = Some ch"
    then have "k = key" by (rule other)
    with that have "w = Received" by simp
    with True req k show False unfolding requests_ok_def by (metis wait_may_end.simps(1))
  qed
  show ?thesis
    using True Some gone req stores
    by (cases w) (auto simp: dht_inv_def requests_ok_def)
qed

lemma finish_ok:
  assumes "dht_inv ops y"
  shows "\<exists>y'. dht_step ops (EvFinish ch w) y = Inr y' \<and> dht_inv ops y'"
  using assms finish_inv [OF assms] by (simp split: option.split)

text \<open>Every event succeeds and keeps the invariant.\<close>

lemma dht_step_ok:
  assumes inv: "dht_inv ops y"
  shows "\<exists>y'. dht_step ops e y = Inr y' \<and> dht_inv ops y'"
proof (cases e)
  case (EvRequest req addr)
  then show ?thesis using request_ok [OF inv] by blast
next
  case (EvFinish ch w)
  then show ?thesis using finish_ok [OF inv] by blast
next
  case (EvAnnounce req addr)
  then show ?thesis
    using inv by (simp add: create_request_def worker_send_def Let_def dht_inv_def requests_ok_def)
next
  case (EvMessage env msg addr)
  then show ?thesis using message_ok [OF inv, of env msg addr] by auto
next
  case (EvSendError tid addr err)
  then show ?thesis
    using inv requests_complete [of y "(tid, addr)"]
    by (cases "inflight (node_state y) (tid, addr)") (simp_all add: on_send_error_def dht_inv_def)
next
  case (EvCollect now)
  have "peer_store_inv ops (dht_peer_store (node_state y))" using inv by (simp add: dht_inv_def stores_ok_def)
  from garbage_collect_inv [OF this, of now] obtain ps where
    "garbage_collect_peers now (dht_peer_store (node_state y)) = Inr ps" "peer_store_inv ops ps" by blast
  then show ?thesis using EvCollect inv by (simp add: dht_inv_def stores_ok_def requests_ok_def)
next
  case (EvAddNode clk now i addr)
  have "rt_inv ops (get_table_for_addr addr (node_state y))"
    using inv by (intro get_table_ok) (simp add: dht_inv_def)
  from rt_inv_add [OF this, of clk now i addr] obtain t r where
    "rt_add_node ops clk now (get_table_for_addr addr (node_state y)) i addr = Inr (t, r)" "rt_inv ops t" by blast
  then show ?thesis using EvAddNode table_step_ok [OF inv] by simp
next
  case (EvMark ev i addr)
  have "rt_inv ops (get_table_for_addr addr (node_state y))"
    using inv by (intro get_table_ok) (simp add: dht_inv_def)
  from rt_inv_mark [OF this, of ev i] obtain t where
    "rt_mark ev i (get_table_for_addr addr (node_state y))
      = Inr (t, rt_lookup (get_table_for_addr addr (node_state y)) i \<noteq> None)" "rt_inv ops t" by blast
  then show ?thesis using EvMark table_step_ok [OF inv] by simp
qed (use inv in \<open>simp_all add: dht_inv_def requests_ok_def\<close>)

lemma dht_run_ok:
  "dht_inv ops y \<Longrightarrow> \<exists>y'. run_ops (dht_step ops) es y = Inr y' \<and> dht_inv ops y'"
proof (induction es arbitrary: y)
  case (Cons e es)
  then show ?case using dht_step_ok [OF Cons.prems, of e] by auto
qed simp

lemma dht_start_ok: "dht_inv ops (dht_start ops now i addr)"
  by (simp add: dht_inv_def stores_ok_def requests_ok_def dht_start_def dht_new_internal_def rt_inv_new
      peer_store_new_inv)

end

end
