(* ===== verification/Dht_Props.thy ===== *)
theory Dht_Props
  imports Dht_System
begin

text \<open>
  The properties of the DHT node as a system: whole runs, the life of a request, the answers to
  queries, and the announcement of a peer from end to end.
\<close>

section \<open>Whole runs\<close>

text \<open>
  C3. A DHT node never panics: from its start, every sequence of requests, incoming messages,
  send errors, timeouts, collections, additions and marks, in any order and with any clock
  readings, can be executed, and after it both routing tables iterate in order over at most 512
  nodes and the peer store holds at most 1000 peers.
\<close>

theorem dht_never_panics:
  assumes "id20_api ops"
  shows "\<exists>y n4 n6. run_ops (dht_step ops) es (dht_start ops now i addr) = Inr y
    \<and> rt_iter (routing_table_v4 (node_state y)) = Some n4 \<and> sorted_wrt (<) (map node_id n4)
    \<and> rt_iter (routing_table_v6 (node_state y)) = Some n6 \<and> sorted_wrt (<) (map node_id n6)
    \<and> peer_store_inv ops (dht_peer_store (node_state y)) \<and> requests_ok y"
proof -
  obtain y where y: "run_ops (dht_step ops) es (dht_start ops now i addr) = Inr y" "dht_inv ops y"
    using id20_api.dht_run_ok [OF assms id20_api.dht_start_ok [OF assms]] by blast
  then have "rt_inv ops (routing_table_v4 (node_state y))" "rt_inv ops (routing_table_v6 (node_state y))"
    "peer_store_inv ops (dht_peer_store (node_state y))" "requests_ok y"
    by (simp_all add: dht_inv_def stores_ok_def)
  with y(1) id20_api.rt_inv_iter(1,2) [OF assms] show ?thesis by blast
qed

theorem dht_never_panics_witness:
  "\<exists>y n4 n6. run_ops (dht_step id20_word) [EvRequest Ping sample_addr, EvFinish 0 TimedOut]
      (dht_start id20_word 0 5 sample_addr) = Inr y
    \<and> rt_iter (routing_table_v4 (node_state y)) = Some n4 \<and> sorted_wrt (<) (map node_id n4)
    \<and> rt_iter (routing_table_v6 (node_state y)) = Some n6 \<and> sorted_wrt (<) (map node_id n6)
    \<and> peer_store_inv id20_word (dht_peer_store (node_state y)) \<and> requests_ok y"
  by (rule dht_never_panics [OF id20_word_api])

lemma outstanding_bound:
  assumes "requests_ok y"
  shows "finite (dom (waiting y)) \<and> card (dom (inflight (node_state y))) \<le> card (dom (waiting y))"
proof
  have "dom (waiting y) \<subseteq> {..<next_channel (node_state y)}" using assms by (auto simp: requests_ok_def)
  then show fin: "finite (dom (waiting y))" by (rule finite_subset) simp
  note w = assms [unfolded requests_ok_def, THEN conjunct1, rule_format]
  show "card (dom (inflight (node_state y))) \<le> card (dom (waiting y))"
  proof (rule card_inj_on_le [OF _ _ fin])
    show "inj_on (\<lambda>k. the (inflight (node_state y) k)) (dom (inflight (node_state y)))"
    proof (rule inj_onI)
      fix k k' assume "k \<in> dom (inflight (node_state y))" "k' \<in> dom (inflight (node_state y))"
        and eq: "the (inflight (node_state y) k) = the (inflight (node_state y) k')"
      then obtain c c' where "inflight (node_state y) k = Some c" "inflight (node_state y) k' = Some c'" by blast
      with w eq show "k = k'" by (metis option.inject option.sel)
    qed
    show "(\<lambda>k. the (inflight (node_state y) k)) ` dom (inflight (node_state y)) \<subseteq> dom (waiting y)"
      using w by (auto simp del: split_paired_All) 
  qed
qed

fun is_drop :: "'id dht_event \<Rightarrow> bool" where
  "is_drop (EvDrop _) = True"
| "is_drop _ = False"

lemma step_dropped:
  assumes "dht_step ops e y = Inr y'"
  shows "dropped y' \<subseteq> dropped y \<or> (\<exists>ch. is_drop e \<and> dropped y' = insert ch (dropped y))"
  using assms by (cases e) (auto simp: and_then_eq_Inr case_prod_beta Let_def split: option.splits if_splits sum.splits)

lemma run_dropped:
  "run_ops (dht_step ops) es y = Inr y' \<Longrightarrow> finite (dropped y) \<Longrightarrow>
    finite (dropped y') \<and> card (dropped y') \<le> card (dropped y) + length (filter is_drop es)"
proof (induction es arbitrary: y)
  case (Cons e es)
  from Cons.prems(1) obtain y1 where y1: "dht_step ops e y = Inr y1" "run_ops (dht_step ops) es y1 = Inr y'"
    by (auto simp: and_then_eq_Inr)
  have "finite (dropped y1) \<and> card (dropped y1) \<le> card (dropped y) + (if is_drop e then 1 else 0)"
    using step_dropped [OF y1(1)] Cons.prems(2)
    by (auto simp: card_insert_if intro: finite_subset le_SucI card_mono)
  with Cons.IH [OF y1(2)] show ?case by auto
qed simp

text \<open>
  C12. A request leaks only if its future is dropped: in every state a node can reach, an entry of the table
  of outstanding requests belongs to a request that began to wait under this very transaction and
  address and whose wait has not ended; there are at most as many entries as requests that still wait
  and waits that were dropped, the latter no more than the events that dropped one; every wait that was
  not dropped can end by its timeout, and then its entry is gone. So without drops there is no entry when
  no request waits, and when none waits but the dropped ones, every entry left is that of a dropped one.
\<close>

theorem no_request_leaks:
  assumes "id20_api ops" and "run_ops (dht_step ops) es (dht_start ops now i addr) = Inr y"
  shows "(\<forall>key ch. inflight (node_state y) key = Some ch \<longrightarrow> waiting y ch = Some key)
    \<and> finite (dom (waiting y)) \<and> finite (dropped y)
    \<and> outstanding_requests (get_stats (node_state y)) \<le> card (dom (waiting y) - dropped y) + card (dropped y)
    \<and> card (dropped y) \<le> length (filter is_drop es)
    \<and> (\<forall>ch key. waiting y ch = Some key \<longrightarrow> ch \<notin> dropped y \<longrightarrow> (\<exists>y'. dht_step ops (EvFinish ch TimedOut) y = Inr y'
        \<and> waiting y' = (waiting y)(ch := None) \<and> inflight (node_state y') key = None))
    \<and> (dom (waiting y) - dropped y = {} \<longrightarrow> (\<forall>key ch. inflight (node_state y) key = Some ch \<longrightarrow> ch \<in> dropped y))"
proof -
  obtain y' where "run_ops (dht_step ops) es (dht_start ops now i addr) = Inr y'" "dht_inv ops y'"
    using id20_api.dht_run_ok [OF assms(1) id20_api.dht_start_ok [OF assms(1)]] by blast
  with assms(2) have req: "requests_ok y" by (simp add: dht_inv_def)
  have d: "finite (dropped y)" "card (dropped y) \<le> length (filter is_drop es)"
    using run_dropped [OF assms(2)] by (simp_all add: dht_start_def)
  have fin: "finite (dom (waiting y))" "card (dom (inflight (node_state y))) \<le> card (dom (waiting y))"
    using outstanding_bound [OF req] by simp_all
  have "card (dom (waiting y)) \<le> card ((dom (waiting y) - dropped y) \<union> dropped y)"
    using fin(1) d(1) by (intro card_mono) auto
  also have "\<dots> \<le> card (dom (waiting y) - dropped y) + card (dropped y)" by (rule card_Un_le)
  finally have "outstanding_requests (get_stats (node_state y)) \<le> card (dom (waiting y) - dropped y) + card (dropped y)"
    using fin(2) by (simp add: get_stats_def)
  moreover have w: "\<forall>key ch. inflight (node_state y) key = Some ch \<longrightarrow> waiting y ch = Some key"
    using req by (simp add: requests_ok_def)
  moreover from w have "\<forall>key ch. inflight (node_state y) key = Some ch \<longrightarrow> ch \<in> dropped y" if "dom (waiting y) - dropped y = {}"
    using that by blast
  moreover have "\<exists>y'. dht_step ops (EvFinish ch TimedOut) y = Inr y' \<and> waiting y' = (waiting y)(ch := None)
      \<and> inflight (node_state y') key = None" if "waiting y ch = Some key" "ch \<notin> dropped y" for ch key
    using that by simp
  ultimately show ?thesis using fin(1) d by blast
qed

lemma word_run_exists: "\<exists>y. run_ops (dht_step id20_word) es (dht_start id20_word now i addr) = Inr y"
  using w20.dht_run_ok [OF w20.dht_start_ok] by blast

theorem no_request_leaks_witness:
  "\<exists>y. run_ops (dht_step id20_word) [EvRequest Ping sample_addr, EvRequest (FindNode 3) sample_addr, EvFinish 0 TimedOut, EvDrop 1]
      (dht_start id20_word 0 5 sample_addr) = Inr y
    \<and> outstanding_requests (get_stats (node_state y)) \<le> card (dom (waiting y) - dropped y) + card (dropped y)
    \<and> card (dropped y) \<le> 1"
proof -
  let ?es = "[EvRequest Ping sample_addr, EvRequest (FindNode 3) sample_addr, EvFinish 0 TimedOut, EvDrop 1]"
  obtain y where y: "run_ops (dht_step id20_word) ?es (dht_start id20_word 0 5 sample_addr) = Inr y"
    using word_run_exists by blast
  from no_request_leaks [OF id20_word_api y] y show ?thesis by auto
qed

section \<open>The life of a request\<close>

fun is_answer :: "'id message_kind \<Rightarrow> bool" where
  "is_answer (MK_Error _) = True"
| "is_answer (MK_Response _) = True"
| "is_answer _ = False"

fun takes_tid :: "'id dht_event \<Rightarrow> bool" where
  "takes_tid (EvRequest _ _) = True"
| "takes_tid (EvAnnounce _ _) = True"
| "takes_tid _ = False"

text \<open>Events that are not about the request with this transaction, address and channel.\<close>

fun leaves_alone :: "u16 \<Rightarrow> socket_addr \<Rightarrow> nat \<Rightarrow> 'id dht_event \<Rightarrow> bool" where
  "leaves_alone tid addr ch (EvMessage _ msg a) \<longleftrightarrow>
     \<not> (is_answer (msg_kind msg) \<and> a = addr \<and> get_our_transaction_id msg = Some tid)"
| "leaves_alone tid addr ch (EvSendError t a _) \<longleftrightarrow> (t, a) \<noteq> (tid, addr)"
| "leaves_alone tid addr ch (EvFinish c _) \<longleftrightarrow> c \<noteq> ch"
| "leaves_alone tid addr ch (EvDrop c) \<longleftrightarrow> c \<noteq> ch"
| "leaves_alone tid addr ch _ \<longleftrightarrow> True"

text \<open>The request waits, no other one under its key, and \<open>n\<close> transactions came after it.\<close>

definition pending ::
    "u16 \<Rightarrow> socket_addr \<Rightarrow> nat \<Rightarrow> nat \<Rightarrow> 'id dht_system \<Rightarrow> bool" where
  "pending tid addr ch n y \<longleftrightarrow> inflight (node_state y) (tid, addr) = Some ch
     \<and> (\<forall>c. waiting y c = Some (tid, addr) \<longleftrightarrow> c = ch)
     \<and> next_transaction_id (node_state y) = tid + of_nat (Suc n)"

lemma tid_differs:
  assumes "Suc n < 65536"
  shows "(tid :: u16) + of_nat (Suc n) \<noteq> tid"
proof
  assume "tid + of_nat (Suc n) = tid"
  then have "unat (of_nat (Suc n) :: u16) = 0" by simp
  moreover have "unat (of_nat (Suc n) :: u16) = Suc n"
    using assms by (simp add: unat_of_nat take_bit_nat_eq_self del: of_nat_Suc)
  ultimately show False by simp
qed

lemma respond_state:
  "inflight (fst (respond msg addr resp s)) = inflight s"
  "next_transaction_id (fst (respond msg addr resp s)) = next_transaction_id s"
  by (simp_all add: respond_eq)

lemma created: "fst (create_request req addr s) = s\<lparr>next_transaction_id := next_transaction_id s + 1\<rparr>"
  by (simp add: create_request_def Let_def)

lemma request_start_eq:
  "request_start req addr s = (let tid = next_transaction_id s; ch = next_channel s;
       s2 = s\<lparr>next_transaction_id := tid + 1, inflight := (inflight s)((tid, addr) \<mapsto> ch), next_channel := Suc ch\<rparr>
     in if worker_alive s
        then (s2\<lparr>worker_queue := worker_queue s @ [\<lparr>our_tid = Some tid,
               wsr_message = snd (snd (create_request req addr s)), wsr_addr = addr\<rparr>]\<rparr>, Inr ((tid, addr), ch))
        else (s2\<lparr>inflight := (inflight s)((tid, addr) := None)\<rparr>, Inl DhtDead))"
  by (simp add: request_start_def create_request_def worker_send_def Let_def)

lemma pendingI:
  assumes "pending tid addr ch n y" and "inflight (node_state y') (tid, addr) = inflight (node_state y) (tid, addr)"
    and "\<And>c. waiting y' c = Some (tid, addr) \<longleftrightarrow> waiting y c = Some (tid, addr)"
  shows "next_transaction_id (node_state y') = next_transaction_id (node_state y) \<Longrightarrow> pending tid addr ch n y'"
    and "next_transaction_id (node_state y') = next_transaction_id (node_state y) + 1 \<Longrightarrow> pending tid addr ch (Suc n) y'"
  using assms by (simp_all add: pending_def add.assoc add.commute)

lemma pending_request:
  assumes p: "pending tid addr ch n y" and fresh: "waiting y (next_channel (node_state y)) = None"
    and differs: "next_transaction_id (node_state y) \<noteq> tid" and step: "dht_step ops (EvRequest req a) y = Inr y'"
  shows "pending tid addr ch (Suc n) y'"
proof -
  define ch' where "ch' = next_channel (node_state y)"
  have y': "inflight (node_state y') (tid, addr) = inflight (node_state y) (tid, addr)"
    "next_transaction_id (node_state y') = next_transaction_id (node_state y) + 1"
    "waiting y' = waiting y \<or> waiting y' = (waiting y)(ch' \<mapsto> (next_transaction_id (node_state y), a))"
    using step differs by (auto simp: request_start_eq Let_def ch'_def split: if_splits)
  have "waiting y' c = Some (tid, addr) \<longleftrightarrow> waiting y c = Some (tid, addr)" for c
    using y'(3) fresh differs by (auto simp: ch'_def split: if_splits)
  from pendingI(2) [OF p y'(1) this y'(2)] show ?thesis .
qed

context id20_api
begin

lemma pending_step:
  assumes inv: "dht_inv ops y" and p: "pending tid addr ch n y" and alone: "leaves_alone tid addr ch e"
    and room: "Suc n < 65536" and step: "dht_step ops e y = Inr y'"
  shows "pending tid addr ch (if takes_tid e then Suc n else n) y'"
proof (cases e)
  case (EvRequest req a)
  have differs: "next_transaction_id (node_state y) \<noteq> tid"
    using p tid_differs [OF room] unfolding pending_def by metis
  have "requests_ok y" using inv by (simp add: dht_inv_def)
  then have fresh: "waiting y (next_channel (node_state y)) = None"
    unfolding requests_ok_def by (metis less_irrefl)
  have "pending tid addr ch (Suc n) y'"
    by (rule pending_request [OF p fresh differs step [unfolded EvRequest]])
  then show ?thesis by (simp add: EvRequest)
next
  case (EvAnnounce req a)
  have "inflight (node_state y') = inflight (node_state y)" "waiting y' = waiting y"
    "next_transaction_id (node_state y') = next_transaction_id (node_state y) + 1"
    using step EvAnnounce by (auto simp: create_request_def worker_send_def Let_def)
  then have "pending tid addr ch (Suc n) y'" by (intro pendingI(2) [OF p]) simp_all
  then show ?thesis by (simp add: EvAnnounce)
next
  case (EvMessage env msg a)
  show ?thesis
  proof (cases "is_answer (msg_kind msg)")
    case True
    then obtain roe where "on_received_message ops env msg a (node_state y) = Inr (on_answer msg a roe (node_state y))"
      by (cases "msg_kind msg") (simp_all add: on_received_message_def query_handlers)
    with step EvMessage have y': "y' = y\<lparr>node_state := fst (on_answer msg a roe (node_state y))\<rparr>"
      by (simp split: prod.splits) 
    have "inflight (node_state y') (tid, addr) = inflight (node_state y) (tid, addr)" "waiting y' = waiting y"
      "next_transaction_id (node_state y') = next_transaction_id (node_state y)"
      using alone EvMessage True by (auto simp: y' on_answer_def split: option.splits)
    then have "pending tid addr ch n y'" by (intro pendingI(1) [OF p]) simp_all
  then show ?thesis by (simp add: EvMessage)
  next
    case False
    then have "\<forall>e. msg_kind msg \<noteq> MK_Error e" "\<forall>r. msg_kind msg \<noteq> MK_Response r" by auto
    from query_answered [OF _ this, of "node_state y" a env] inv obtain s0 resp where
      "on_received_message ops env msg a (node_state y) = Inr (respond msg a resp s0)"
      "same_requests (node_state y) s0"
      by (auto simp: answers_def dht_inv_def)
    moreover from this step EvMessage have "y' = y\<lparr>node_state := fst (respond msg a resp s0)\<rparr>"
      by (simp split: prod.splits)
    ultimately have "inflight (node_state y') = inflight (node_state y)" "waiting y' = waiting y"
      "next_transaction_id (node_state y') = next_transaction_id (node_state y)"
      by (simp_all add: same_requests_def respond_state)
    then have "pending tid addr ch n y'" by (intro pendingI(1) [OF p]) simp_all
  then show ?thesis by (simp add: EvMessage)
  qed
next
  case (EvSendError t a err)
  have "inflight (node_state y') (tid, addr) = inflight (node_state y) (tid, addr)" "waiting y' = waiting y"
    "next_transaction_id (node_state y') = next_transaction_id (node_state y)"
    using step alone EvSendError by (auto simp: on_send_error_def split: option.splits)
  then have "pending tid addr ch n y'" by (intro pendingI(1) [OF p]) simp_all
  then show ?thesis by (simp add: EvSendError)
next
  case (EvFinish c w)
  have c: "c \<noteq> ch" using alone EvFinish by simp
  have other: "waiting y c \<noteq> Some (tid, addr)" using p c unfolding pending_def by blast
  have "inflight (node_state y') (tid, addr) = inflight (node_state y) (tid, addr)"
    "next_transaction_id (node_state y') = next_transaction_id (node_state y)"
    "waiting y' = waiting y \<or> waiting y' = (waiting y)(c := None)"
    using step EvFinish other by (cases w; auto split: option.splits if_splits)+
  moreover from this(3) other have "waiting y' d = Some (tid, addr) \<longleftrightarrow> waiting y d = Some (tid, addr)" for d
    by (auto split: if_splits)
  ultimately have "pending tid addr ch n y'" by (intro pendingI(1) [OF p]) simp_all
  then show ?thesis by (simp add: EvFinish)
next
  case (EvDrop c)
  with step pendingI(1) [OF p, of y'] show ?thesis by (auto split: if_splits)
next
  case (EvCollect now)
  have "inflight (node_state y') = inflight (node_state y)" "waiting y' = waiting y"
    "next_transaction_id (node_state y') = next_transaction_id (node_state y)"
    using step EvCollect by (auto simp: and_then_eq_Inr)
  then have "pending tid addr ch n y'" by (intro pendingI(1) [OF p]) simp_all
  then show ?thesis by (simp add: EvCollect)
next
  case (EvAddNode clk now i a)
  have "inflight (node_state y') = inflight (node_state y)" "waiting y' = waiting y"
    "next_transaction_id (node_state y') = next_transaction_id (node_state y)"
    using step EvAddNode by (auto simp: and_then_eq_Inr)
  then have "pending tid addr ch n y'" by (intro pendingI(1) [OF p]) simp_all
  then show ?thesis by (simp add: EvAddNode)
next
  case (EvMark ev i a)
  have "inflight (node_state y') = inflight (node_state y)" "waiting y' = waiting y"
    "next_transaction_id (node_state y') = next_transaction_id (node_state y)"
    using step EvMark by (auto simp: and_then_eq_Inr)
  then have "pending tid addr ch n y'" by (intro pendingI(1) [OF p]) simp_all
  then show ?thesis by (simp add: EvMark)
next
  case EvWorkerTakes
  with step pendingI(1) [OF p, of y'] show ?thesis by auto
next
  case EvWorkerDies
  with step pendingI(1) [OF p, of y'] show ?thesis by auto
qed

lemma pending_run:
  "dht_inv ops y \<Longrightarrow> pending tid addr ch n y \<Longrightarrow> \<forall>e \<in> set es. leaves_alone tid addr ch e \<Longrightarrow>
    Suc n + length (filter takes_tid es) < 65536 \<Longrightarrow>
    \<exists>y' m. run_ops (dht_step ops) es y = Inr y' \<and> dht_inv ops y' \<and> pending tid addr ch m y'"
proof (induction es arbitrary: y n)
  case (Cons e es)
  obtain y1 where y1: "dht_step ops e y = Inr y1" "dht_inv ops y1" using dht_step_ok [OF Cons.prems(1)] by blast
  have "pending tid addr ch (if takes_tid e then Suc n else n) y1"
    using pending_step [OF Cons.prems(1,2) _ _ y1(1)] Cons.prems(3,4) by simp
  from Cons.IH [OF y1(2) this] Cons.prems(3,4) y1(1) show ?case by (auto split: if_splits)
qed auto

end

text \<open>
  C1. An answer reaches its request. A request is started under a transaction and address no
  other request waits under; then anything happens that is not an answer from this address to this
  transaction, a send error or timeout of it, with fewer than 65535 new transactions. When a
  response from that address with the two bytes of the transaction identifier comes in, the request
  returns this very response, and its entry in the table of outstanding requests is gone.
\<close>

theorem response_reaches_its_request:
  assumes "id20_api ops" and "dht_inv ops y" and "worker_alive (node_state y)"
    and "next_transaction_id (node_state y) = tid" and "\<forall>c. waiting y c \<noteq> Some (tid, addr)"
    and "\<forall>e \<in> set es. leaves_alone tid addr (next_channel (node_state y)) e"
    and "length (filter takes_tid es) < 65535"
    and "transaction_id msg = tid_bytes tid" and "msg_kind msg = MK_Response r"
  shows "\<exists>y'. run_ops (dht_step ops) (EvRequest req addr # es @ [EvMessage env msg addr]) y = Inr y'
    \<and> wait_may_end Received (next_channel (node_state y)) (node_state y')
    \<and> snd (request_finish (tid, addr) (next_channel (node_state y)) Received (node_state y')) = Inr (ROE_Response r)
    \<and> inflight (node_state y') (tid, addr) = None"
proof -
  let ?ch = "next_channel (node_state y)"
  obtain y1 where y1: "dht_step ops (EvRequest req addr) y = Inr y1" "dht_inv ops y1"
    using id20_api.dht_step_ok [OF assms(1,2)] by blast
  have "pending tid addr ?ch 0 y1"
    using y1(1) assms(3,4,5) by (auto simp: request_start_eq Let_def pending_def split: if_splits)
  from id20_api.pending_run [OF assms(1) y1(2) this assms(6)] assms(7) obtain y2 m where
    y2: "run_ops (dht_step ops) es y1 = Inr y2" "inflight (node_state y2) (tid, addr) = Some ?ch"
    by (auto simp: pending_def)
  have tid: "get_our_transaction_id msg = Some tid" by (rule our_transaction_id [OF assms(8)])
  define y3 where "y3 = y2\<lparr>node_state := fst (on_answer msg addr (ROE_Response r) (node_state y2))\<rparr>"
  have "dht_step ops (EvMessage env msg addr) y2 = Inr y3"
    by (simp add: on_received_message_def query_handlers assms(9) y3_def split: prod.splits)
  then have "run_ops (dht_step ops) (EvRequest req addr # es @ [EvMessage env msg addr]) y = Inr y3"
    using y1(1) y2(1) by (simp add: run_ops_append)
  moreover have "completed (node_state y3) ?ch = Some (Inr (ROE_Response r))"
    "inflight (node_state y3) (tid, addr) = None"
    by (simp_all add: y3_def on_answer_def tid y2(2))
  ultimately show ?thesis by simp
qed

definition sample_response :: "160 word response" where
  "sample_response = \<lparr>resp_values = None, resp_id = 8, resp_nodes = None, resp_nodes6 = None, resp_token = None,
     resp_v = None, resp_k = None, resp_sig = None, resp_seq = None\<rparr>"

definition sample_env :: dht_env where
  "sample_env = \<lparr>env_now = 1, env_query_now = 2, env_utc = 3, env_random = [1, 2, 3, 4]\<rparr>"

theorem response_reaches_its_request_witness:
  "\<exists>y'. run_ops (dht_step id20_word) (EvRequest Ping sample_addr
      # [EvRequest (FindNode 3) sample_addr, EvFinish 1 TimedOut]
      @ [EvMessage sample_env \<lparr>msg_kind = MK_Response sample_response, transaction_id = tid_bytes 0, version = None,
          msg_ip = None\<rparr> sample_addr]) (dht_start id20_word 0 5 sample_addr) = Inr y'
    \<and> wait_may_end Received 0 (node_state y')
    \<and> snd (request_finish (0, sample_addr) 0 Received (node_state y')) = Inr (ROE_Response sample_response)
    \<and> inflight (node_state y') (0, sample_addr) = None"
proof -
  have start: "next_channel (node_state (dht_start id20_word 0 5 sample_addr)) = 0"
    "next_transaction_id (node_state (dht_start id20_word 0 5 sample_addr)) = 0"
    "worker_alive (node_state (dht_start id20_word 0 5 sample_addr))"
    "waiting (dht_start id20_word 0 5 sample_addr) = Map.empty"
    by (simp_all add: dht_start_def dht_new_internal_def)
  show ?thesis
    using response_reaches_its_request [OF id20_word_api w20.dht_start_ok, of 0 5 sample_addr 0 sample_addr
      "[EvRequest (FindNode 3) sample_addr, EvFinish 1 TimedOut]"
      "\<lparr>msg_kind = MK_Response sample_response, transaction_id = tid_bytes 0, version = None, msg_ip = None\<rparr>"
      sample_response Ping sample_env]
    by (simp only: start) simp
qed

section \<open>Answers to queries\<close>

text \<open>
  C24. Every query is answered, once: for a ping, find_node, get_peers, announce_peer, get or put
  the handler does not panic, puts exactly one message at the end of the worker's queue, a response
  to the sender with the sender's transaction identifier and address and with the own identifier,
  and touches no outstanding request. Only if the worker is gone there is an error instead.
\<close>

theorem query_is_answered_once:
  assumes "id20_api ops" and "stores_ok ops s" and "\<not> is_answer (msg_kind msg)"
  shows "\<exists>s' resp. on_received_message ops env msg addr s
      = Inr (s', if worker_alive s then Inr () else Inl DhtDead)
    \<and> worker_queue s' = worker_queue s @ (if worker_alive s then [\<lparr>our_tid = None, wsr_message =
        \<lparr>msg_kind = MK_Response resp, transaction_id = transaction_id msg, version = None, msg_ip = Some addr\<rparr>,
        wsr_addr = addr\<rparr>] else [])
    \<and> resp_id resp = dht_id s \<and> same_requests s s' \<and> stores_ok ops s'"
proof -
  have "\<forall>e. msg_kind msg \<noteq> MK_Error e" "\<forall>r. msg_kind msg \<noteq> MK_Response r" using assms(3) by auto
  from id20_api.query_answered [OF assms(1,2) this, of addr env] obtain s0 resp where
    r: "on_received_message ops env msg addr s = Inr (respond msg addr resp s0)" "resp_id resp = dht_id s"
      "stores_ok ops s0" "same_requests s s0" "worker_alive s0 = worker_alive s" "worker_queue s0 = worker_queue s"
    by (auto simp: answers_def)
  then show ?thesis
    by (intro exI [of _ "fst (respond msg addr resp s0)"] exI [of _ resp])
      (simp add: respond_eq same_requests_def)
qed

theorem query_is_answered_once_witness:
  "\<exists>s' resp. on_received_message id20_word sample_env
      \<lparr>msg_kind = MK_PingRequest \<lparr>ping_id = 7\<rparr>, transaction_id = [1], version = None, msg_ip = None\<rparr>
      sample_addr (node_state (dht_start id20_word 0 5 sample_addr)) = Inr (s', Inr ())
    \<and> worker_queue s' = [\<lparr>our_tid = None, wsr_message = \<lparr>msg_kind = MK_Response resp, transaction_id = [1],
        version = None, msg_ip = Some sample_addr\<rparr>, wsr_addr = sample_addr\<rparr>] \<and> resp_id resp = 5"
proof -
  let ?s = "node_state (dht_start id20_word 0 5 sample_addr)"
  have ok: "stores_ok id20_word ?s" using w20.dht_start_ok by (simp add: dht_inv_def)
  have start: "worker_alive ?s" "worker_queue ?s = []" "dht_id ?s = 5"
    by (simp_all add: dht_start_def dht_new_internal_def)
  show ?thesis
    using query_is_answered_once [OF id20_word_api ok, of "\<lparr>msg_kind = MK_PingRequest \<lparr>ping_id = 7\<rparr>,
        transaction_id = [1], version = None, msg_ip = None\<rparr>" sample_env sample_addr]
    by (simp add: start) blast
qed

text \<open>
  C33. An answer nobody waits for changes nothing: if its transaction identifier is not two bytes
  long, or no request to its sender has it, the handler reports which and leaves the state as it is.
\<close>

theorem stray_answer_ignored:
  assumes "is_answer (msg_kind msg)"
    and "\<forall>tid. get_our_transaction_id msg = Some tid \<longrightarrow> inflight s (tid, addr) = None"
  shows "on_received_message ops env msg addr s
    = Inr (s, Inl (if length (transaction_id msg) = 2 then RequestNotFound else BadTransactionId))"
proof -
  from assms(1) obtain roe where "on_received_message ops env msg addr s = Inr (on_answer msg addr roe s)"
    by (cases "msg_kind msg") (simp_all add: on_received_message_def query_handlers)
  moreover have "on_answer msg addr roe s
      = (s, Inl (if length (transaction_id msg) = 2 then RequestNotFound else BadTransactionId))"
  proof (cases "length (transaction_id msg) = 2")
    case True
    then obtain tid where "get_our_transaction_id msg = Some tid" by (simp add: get_our_transaction_id_def Let_def)
    with True assms(2) show ?thesis by (simp add: on_answer_def)
  qed (simp add: on_answer_def get_our_transaction_id_def Let_def)
  ultimately show ?thesis by simp
qed

theorem stray_answer_ignored_witness:
  "on_received_message id20_word sample_env
      \<lparr>msg_kind = MK_Response sample_response, transaction_id = [1, 2], version = None, msg_ip = None\<rparr>
      sample_addr (node_state (dht_start id20_word 0 5 sample_addr))
    = Inr (node_state (dht_start id20_word 0 5 sample_addr), Inl RequestNotFound)"
  using stray_answer_ignored [of "\<lparr>msg_kind = MK_Response sample_response, transaction_id = [1, 2],
      version = None, msg_ip = None\<rparr>" "node_state (dht_start id20_word 0 5 sample_addr)" sample_addr]
  by (simp add: dht_start_def dht_new_internal_def)

section \<open>The nodes in an answer\<close>

lemma sorted_wrt_take_drop:
  assumes "sorted_wrt R xs" and "x \<in> set (take n xs)" and "y \<in> set (drop n xs)"
  shows "R x y"
proof -
  have "sorted_wrt R (take n xs @ drop n xs)" using assms(1) by simp
  then show ?thesis using assms(2,3) by (simp only: sorted_wrt_append)
qed

definition node_before :: "('id::linorder) id20_ops \<Rightarrow> 'id \<Rightarrow> instant \<Rightarrow> 'id routing_table_node \<Rightarrow> 'id routing_table_node \<Rightarrow> bool" where
  "node_before ops x now a b \<longleftrightarrow> status a now < status b now
     \<or> status a now = status b now \<and> id_distance ops x (node_id a) < id_distance ops x (node_id b)"

text \<open>
  The best nodes of a table: eight of those whose address is of the family that \<open>from\<close> accepts, or
  all if there are fewer, each once, in order, and each before every one left out.
\<close>

definition best_nodes ::
    "('id::linorder) id20_ops \<Rightarrow> (socket_addr \<Rightarrow> 'a option) \<Rightarrow> 'id \<Rightarrow> instant \<Rightarrow> 'id routing_table \<Rightarrow> ('id, 'a) node list \<Rightarrow> bool" where
  "best_nodes ops from target now rt ns \<longleftrightarrow> (\<exists>nodes rs. rt_iter rt = Some nodes
     \<and> set rs \<subseteq> {r \<in> set nodes. from (node_addr r) \<noteq> None} \<and> distinct (map node_id rs)
     \<and> length rs = min 8 (length (filter (\<lambda>r. from (node_addr r) \<noteq> None) nodes))
     \<and> sorted_wrt (node_before ops target now) rs
     \<and> (\<forall>q \<in> set rs. \<forall>r \<in> set nodes - set rs. from (node_addr r) \<noteq> None \<longrightarrow> node_before ops target now q r)
     \<and> map nid ns = map node_id rs \<and> map (Some \<circ> naddr) ns = map (from \<circ> node_addr) rs)"

lemma compact_nodes_best:
  fixes ops :: "('id::linorder) id20_ops"
  assumes "id20_api ops" and inv: "rt_inv ops rt"
  shows "\<exists>ns. generate_compact_nodes ops from target rt now = Inr ns \<and> best_nodes ops from target now rt ns"
proof -
  note it = id20_api.rt_inv_iter [OF assms]
  obtain ys where ys: "sorted_by_distance_from ops rt target now = Some ys" "mset ys = mset (rt_nodes rt)"
    "sorted_wrt (node_before ops target now) ys"
    using id20_api.sorted_nodes [OF assms, of target now] unfolding node_before_def [abs_def] by blast
  define L where "L = filter (\<lambda>r. from (node_addr r) \<noteq> None) ys"
  define g where "g = (\<lambda>r :: 'id routing_table_node. \<lparr>nid = node_id r, naddr = the (from (node_addr r))\<rparr>)"
  have "List.map_filter (\<lambda>r. map_option (\<lambda>a. \<lparr>nid = node_id r, naddr = a\<rparr>) (from (node_addr r))) xs
      = map g (filter (\<lambda>r. from (node_addr r) \<noteq> None) xs)" for xs
    by (induction xs) (auto simp: List.map_filter_simps g_def split: option.splits)
  then have gen: "generate_compact_nodes ops from target rt now = Inr (map g (take 8 L))"
    by (simp add: generate_compact_nodes_def ys(1) L_def take_map)
  have set_eq: "set ys = set (rt_nodes rt)" using ys(2) by (metis set_mset_mset)
  have "length L = length (filter (\<lambda>r. from (node_addr r) \<noteq> None) (rt_nodes rt))"
    unfolding L_def by (metis ys(2) mset_filter size_mset)
  then have len: "length (take 8 L) = min 8 (length (filter (\<lambda>r. from (node_addr r) \<noteq> None) (rt_nodes rt)))"
    by (simp add: min.commute)
  have "set L = {r \<in> set (rt_nodes rt). from (node_addr r) \<noteq> None}" unfolding L_def set_filter set_eq ..
  then have sub: "set (take 8 L) \<subseteq> {r \<in> set (rt_nodes rt). from (node_addr r) \<noteq> None}" using set_take_subset by metis
  have "mset (map node_id ys) = mset (map node_id (rt_nodes rt))" using ys(2) by simp
  then have "distinct (map node_id ys)" using it(2) by (metis mset_eq_imp_distinct_iff strict_sorted_iff)
  then have dist: "distinct (map node_id (take 8 L))"
    unfolding L_def by (simp add: distinct_map_filter take_map [symmetric] distinct_take)
  have srt: "sorted_wrt (node_before ops target now) L" unfolding L_def by (rule sorted_wrt_filter [OF ys(3)])
  then have srt8: "sorted_wrt (node_before ops target now) (take 8 L)" by (rule sorted_wrt_take)
  have "node_before ops target now q r"
    if "q \<in> set (take 8 L)" "r \<in> set (rt_nodes rt) - set (take 8 L)" "from (node_addr r) \<noteq> None" for q r
  proof (rule sorted_wrt_take_drop [OF srt that(1)])
    have "r \<in> set L" using that(2,3) set_eq by (simp add: L_def)
    with that(2) show "r \<in> set (drop 8 L)" by (metis DiffE UnE append_take_drop_id set_append)
  qed
  then have best: "\<forall>q \<in> set (take 8 L). \<forall>r \<in> set (rt_nodes rt) - set (take 8 L). from (node_addr r) \<noteq> None
      \<longrightarrow> node_before ops target now q r" by blast
  have ids: "map nid (map g (take 8 L)) = map node_id (take 8 L)" by (simp add: g_def)
  have addrs: "map (Some \<circ> naddr) (map g (take 8 L)) = map (from \<circ> node_addr) (take 8 L)"
    using sub by (auto simp: g_def)
  have "best_nodes ops from target now rt (map g (take 8 L))"
    unfolding best_nodes_def
    by (intro exI [of _ "rt_nodes rt"] exI [of _ "take 8 L"] conjI) (fact it(1) sub dist len srt8 best ids addrs)+
  with gen show ?thesis by blast
qed

text \<open>
  C25. A \<^verbatim>\<open>find_node\<close> query is answered with the best nodes: for each family of addresses that
  it asks for, or by default the family of the sender, the response in the queue has the at most eight
  best nodes of the table of that family for the target, with identifier and address, in the order of
  their status and then of their distance, and it has no nodes of a family that was not asked for.
\<close>

theorem compact_nodes_are_the_best:
  assumes "id20_api ops" and "stores_ok ops s" and "worker_alive s" and k: "msg_kind msg = MK_FindNodeRequest req"
  shows "\<exists>s' resp. on_received_message ops env msg addr s = Inr (s', Inr ())
    \<and> msg_kind (wsr_message (last (worker_queue s'))) = MK_Response resp \<and> wsr_addr (last (worker_queue s')) = addr
    \<and> (let w = (case fn_want req of Some w \<Rightarrow> w | None \<Rightarrow> if is_ipv4 addr then Want_V4 else Want_V6) in
        (case resp_nodes resp of None \<Rightarrow> w \<noteq> Want_V4 \<and> w \<noteq> Want_Both
         | Some ns \<Rightarrow> (w = Want_V4 \<or> w = Want_Both) \<and> best_nodes ops v4_of (fn_target req) (env_now env) (routing_table_v4 s) ns)
        \<and> (case resp_nodes6 resp of None \<Rightarrow> w \<noteq> Want_V6 \<and> w \<noteq> Want_Both
         | Some ns \<Rightarrow> (w = Want_V6 \<or> w = Want_Both) \<and> best_nodes ops v6_of (fn_target req) (env_now env) (routing_table_v6 s) ns))"
proof -
  obtain t where t: "mark_query_from env (fn_id req) addr s = Inr (set_table_for_addr addr t s)"
    using id20_api.mark_query_ok [OF assms(1,2)] by blast
  have inv: "rt_inv ops (routing_table_v4 s)" "rt_inv ops (routing_table_v6 s)" using assms(2) by (simp_all add: stores_ok_def)
  obtain ns where ns: "generate_compact_nodes ops v4_of (fn_target req) (routing_table_v4 s) (env_now env) = Inr ns"
    "best_nodes ops v4_of (fn_target req) (env_now env) (routing_table_v4 s) ns"
    using compact_nodes_best [OF assms(1) inv(1)] by blast
  obtain ns6 where ns6: "generate_compact_nodes ops v6_of (fn_target req) (routing_table_v6 s) (env_now env) = Inr ns6"
    "best_nodes ops v6_of (fn_target req) (env_now env) (routing_table_v6 s) ns6"
    using compact_nodes_best [OF assms(1) inv(2)] by blast
  let ?w = "case fn_want req of Some w \<Rightarrow> w | None \<Rightarrow> if is_ipv4 addr then Want_V4 else Want_V6"
  have w: "default_want (fn_want req) addr = ?w" by (simp add: default_want_def split: option.split)
  let ?n = "if ?w = Want_V4 \<or> ?w = Want_Both then Some ns else None"
    and ?n6 = "if ?w = Want_V6 \<or> ?w = Want_Both then Some ns6 else None"
  have both: "generate_compact_nodes_both ops (fn_target req) ?w (env_now env) s = Inr (?n, ?n6)"
    using ns(1) ns6(1) by (cases ?w) (simp_all add: generate_compact_nodes_both_def)
  have "on_received_message ops env msg addr s = Inr (respond msg addr ((own_response ops (set_table_for_addr addr t s))
      \<lparr>resp_nodes := ?n, resp_nodes6 := ?n6\<rparr>) (set_table_for_addr addr t s))"
    using t both w by (simp add: on_received_message_def query_handlers k)
  then show ?thesis using assms(3) ns(2) ns6(2) by (simp add: respond_eq Let_def)
qed

definition one_node_state :: "160 word dht_state" where
  "one_node_state = (node_state (dht_start id20_word 0 5 sample_addr))\<lparr>routing_table_v4 := one_node_table\<rparr>"

theorem compact_nodes_are_the_best_witness:
  "\<exists>s' resp ns. on_received_message id20_word sample_env \<lparr>msg_kind = MK_FindNodeRequest \<lparr>fn_id = 7, fn_target = 3, fn_want = Some Want_V4\<rparr>,
        transaction_id = [1], version = None, msg_ip = None\<rparr> sample_addr one_node_state = Inr (s', Inr ())
    \<and> msg_kind (wsr_message (last (worker_queue s'))) = MK_Response resp \<and> resp_nodes resp = Some ns
    \<and> best_nodes id20_word v4_of 3 1 one_node_table ns \<and> resp_nodes6 resp = None"
proof -
  let ?req = "\<lparr>fn_id = 7, fn_target = 3, fn_want = Some Want_V4\<rparr> :: 160 word find_node_request"
  let ?m = "\<lparr>msg_kind = MK_FindNodeRequest ?req, transaction_id = [1], version = None, msg_ip = None\<rparr>"
  have "rt_inv id20_word one_node_table" using rt_reach_inv [OF id20_word_api reach_one] by simp
  then have ok: "stores_ok id20_word one_node_state"
    using w20.dht_start_ok [of 0 5 sample_addr] by (simp add: one_node_state_def dht_inv_def stores_ok_def)
  have "worker_alive one_node_state" "routing_table_v4 one_node_state = one_node_table"
    by (simp_all add: one_node_state_def dht_start_def dht_new_internal_def)
  with compact_nodes_are_the_best [OF id20_word_api ok _, of ?m ?req sample_env sample_addr] show ?thesis
    by (auto simp: sample_env_def split: option.splits)
qed

section \<open>An announcement from end to end\<close>

lemma get_peers_answer:
  assumes "id20_api ops" and "stores_ok ops s" and "worker_alive s" and k: "msg_kind msg = MK_GetPeersRequest req"
  shows "\<exists>s' resp. on_received_message ops env msg addr s = Inr (s', Inr ()) \<and> stores_ok ops s' \<and> worker_alive s'
    \<and> wsr_message (last (worker_queue s')) = \<lparr>msg_kind = MK_Response resp, transaction_id = transaction_id msg,
        version = None, msg_ip = Some addr\<rparr> \<and> wsr_addr (last (worker_queue s')) = addr
    \<and> resp_values resp = Some (get_for_info_hash (dht_peer_store s) (gp_info_hash req) (default_want (gp_want req) addr))
    \<and> resp_token resp = Some (env_random env)
    \<and> dht_peer_store s' = fst (gen_token_for (env_random env) (env_utc env) (dht_peer_store s) (gp_id req) addr)"
proof -
  obtain t where t: "mark_query_from env (gp_id req) addr s = Inr (set_table_for_addr addr t s)"
    "stores_ok ops (set_table_for_addr addr t s)" using id20_api.mark_query_ok [OF assms(1,2)] by blast
  obtain n n6 where n: "generate_compact_nodes_both ops (gp_info_hash req) (default_want (gp_want req) addr)
      (env_now env) s = Inr (n, n6)"
    using id20_api.compact_nodes_both_ok [OF assms(1,2)] by (metis surj_pair)
  let ?ps = "fst (gen_token_for (env_random env) (env_utc env) (dht_peer_store s) (gp_id req) addr)"
  have tok: "new_token env (gp_id req) addr (set_table_for_addr addr t s)
      = ((set_table_for_addr addr t s)\<lparr>dht_peer_store := ?ps\<rparr>, env_random env)"
    by (simp add: new_token_def gen_token_for_def Let_def)
  have "stores_ok ops ((set_table_for_addr addr t s)\<lparr>dht_peer_store := ?ps\<rparr>)"
    using t(2) gen_token_inv [of ops "dht_peer_store s"] by (simp add: stores_ok_def)
  then show ?thesis
    using t(1) n tok assms(3) by (simp add: on_received_message_def query_handlers k Let_def respond_eq stores_ok_def)
qed

lemma announce_answer:
  assumes "id20_api ops" and "stores_ok ops s" and "worker_alive s" and k: "msg_kind msg = MK_AnnouncePeer ann"
  shows "\<exists>s'. on_received_message ops env msg addr s = Inr (s', Inr ()) \<and> stores_ok ops s' \<and> worker_alive s'
    \<and> dht_peer_store s' = fst (store_peer ops (env_utc env) (dht_peer_store s) ann addr)"
proof -
  obtain t where t: "mark_query_from env (ap_id ann) addr s = Inr (set_table_for_addr addr t s)"
    "stores_ok ops (set_table_for_addr addr t s)" using id20_api.mark_query_ok [OF assms(1,2)] by blast
  obtain ps r where ps: "store_peer ops (env_utc env) (dht_peer_store s) ann addr = (ps, r)" by fastforce
  have "peer_store_inv ops (dht_peer_store s)" using assms(2) by (simp add: stores_ok_def)
  from store_peer_spec(2) [OF this ps] t(2)
  have "stores_ok ops ((set_table_for_addr addr t s)\<lparr>dht_peer_store := ps\<rparr>)" by (simp add: stores_ok_def)
  then show ?thesis
    using t(1) ps assms(3) by (simp add: on_received_message_def query_handlers k Let_def respond_eq stores_ok_def)
qed

text \<open>
  C7. A peer can announce itself and be found. A node asks for peers and gets a token in the answer;
  it announces itself with this token for a near enough hash, while there is room; whoever asks for
  peers of that hash next, and for addresses of that family, as it does by default if its own address
  is of that family, finds the announced address and port in the answer.
\<close>

theorem announced_peer_is_found:
  assumes "id20_api ops" and "stores_ok ops s" and "worker_alive s"
    and "id_distance ops hash (ps_self_id (dht_peer_store s)) \<le> max_distance (dht_peer_store s)"
    and "total_peers (ps_peers (dht_peer_store s)) < unat (max_remembered_peers (dht_peer_store s))"
    and "0 < max_remembered_tokens (dht_peer_store s)"
    and "msg_kind m1 = MK_GetPeersRequest q1" and "gp_id q1 = i"
    and "msg_kind m3 = MK_GetPeersRequest q3" and "gp_info_hash q3 = hash"
    and "case gp_want q3 of Some w \<Rightarrow> w = Want_Both \<or> w = (if is_ipv4 addr then Want_V4 else Want_V6)
         | None \<Rightarrow> is_ipv4 addr3 = is_ipv4 addr"
  shows "\<exists>s1 resp1 token. on_received_message ops env1 m1 addr s = Inr (s1, Inr ())
    \<and> msg_kind (wsr_message (last (worker_queue s1))) = MK_Response resp1 \<and> resp_token resp1 = Some token
    \<and> (\<forall>m2 ann. msg_kind m2 = MK_AnnouncePeer ann \<longrightarrow> ap_id ann = i \<longrightarrow> ap_info_hash ann = hash \<longrightarrow> ap_token ann = token \<longrightarrow>
        (\<exists>s2 s3 resp3 peers. on_received_message ops env2 m2 addr s1 = Inr (s2, Inr ())
          \<and> on_received_message ops env3 m3 addr3 s2 = Inr (s3, Inr ())
          \<and> msg_kind (wsr_message (last (worker_queue s3))) = MK_Response resp3
          \<and> resp_values resp3 = Some peers
          \<and> (if implied_port ann = 0 then set_port addr (ap_port ann) else addr) \<in> set peers))"
proof -
  let ?ps = "dht_peer_store s"
  obtain s1 resp1 where s1: "on_received_message ops env1 m1 addr s = Inr (s1, Inr ())" "stores_ok ops s1" "worker_alive s1"
    "msg_kind (wsr_message (last (worker_queue s1))) = MK_Response resp1" "resp_token resp1 = Some (env_random env1)"
    "dht_peer_store s1 = fst (gen_token_for (env_random env1) (env_utc env1) ?ps i addr)"
    using get_peers_answer [OF assms(1,2,3,7), of env1 addr] assms(8) by (metis message.select_convs(1))
  have same: "ps_self_id (dht_peer_store s1) = ps_self_id ?ps" "max_distance (dht_peer_store s1) = max_distance ?ps"
    "ps_peers (dht_peer_store s1) = ps_peers ?ps" "max_remembered_peers (dht_peer_store s1) = max_remembered_peers ?ps"
    by (simp_all add: s1(6) gen_token_for_def Let_def)
  have "0 < unat (max_remembered_tokens ?ps)" using assms(6) by (simp add: word_less_nat_alt)
  then have tok: "\<lparr>st_token = env_random env1, st_node_id = i, st_addr = addr, st_time = env_utc env1\<rparr> \<in> set (ps_tokens (dht_peer_store s1))"
    unfolding s1(6) gen_token_tokens by (cases "ps_tokens ?ps") (auto simp: Let_def)
  have inv1: "peer_store_inv ops (dht_peer_store s1)" using s1(2) by (simp add: stores_ok_def)
  let ?w = "default_want (gp_want q3) addr3"
  have want: "wants ?w addr" using assms(11) by (auto simp: default_want_def split: option.splits)
  have "\<exists>s2 s3 resp3 peers. on_received_message ops env2 m2 addr s1 = Inr (s2, Inr ())
      \<and> on_received_message ops env3 m3 addr3 s2 = Inr (s3, Inr ())
      \<and> msg_kind (wsr_message (last (worker_queue s3))) = MK_Response resp3
      \<and> resp_values resp3 = Some peers \<and> (if implied_port ann = 0 then set_port addr (ap_port ann) else addr) \<in> set peers"
    if m2: "msg_kind m2 = MK_AnnouncePeer ann" and ann: "ap_id ann = i" "ap_info_hash ann = hash" "ap_token ann = env_random env1"
    for m2 ann
  proof -
    have "token_known (dht_peer_store s1) ann addr" unfolding token_known_def using tok ann by (intro bexI [OF _ tok]) simp
    then have acc: "accepts ops (dht_peer_store s1) ann addr"
      using assms(4,5) ann(2) by (simp add: accepts_def same)
    obtain s2 where s2: "on_received_message ops env2 m2 addr s1 = Inr (s2, Inr ())" "stores_ok ops s2" "worker_alive s2"
      "dht_peer_store s2 = fst (store_peer ops (env_utc env2) (dht_peer_store s1) ann addr)"
      using announce_answer [OF assms(1) s1(2,3) m2] by blast
    obtain ps2 r where ps2: "store_peer ops (env_utc env2) (dht_peer_store s1) ann addr = (ps2, r)" by fastforce
    have "announced_addr ann addr \<in> sp_addr ` set (peers_of ps2 hash)"
      using store_peer_spec(1,6) [OF inv1 ps2] acc ann(2) by (simp add: set_sp_addr_stored_after)
    moreover have "dht_peer_store s2 = ps2" using s2(4) ps2 by simp
    moreover have "wants ?w (announced_addr ann addr)"
      using want by (cases ?w) (simp_all add: announced_addr_def)
    ultimately have "announced_addr ann addr \<in> set (get_for_info_hash (dht_peer_store s2) hash ?w)"
      by (auto simp: get_for_info_hash_def peers_of_def split: option.splits)
    moreover obtain s3 resp3 where "on_received_message ops env3 m3 addr3 s2 = Inr (s3, Inr ())"
      "msg_kind (wsr_message (last (worker_queue s3))) = MK_Response resp3"
      "resp_values resp3 = Some (get_for_info_hash (dht_peer_store s2) hash ?w)"
      using get_peers_answer [OF assms(1) s2(2,3) assms(9), of env3 addr3] assms(10) by auto
    ultimately show ?thesis using s2(1) unfolding announced_addr_def by blast
  qed
  with s1(1,4,5) show ?thesis by blast
qed

theorem announced_peer_is_found_witness:
  "\<exists>s1 resp1 token s2 s3 resp3 peers. on_received_message id20_word sample_env \<lparr>msg_kind = MK_GetPeersRequest
        \<lparr>gp_id = 7, gp_info_hash = 5, gp_want = None\<rparr>, transaction_id = [1], version = None, msg_ip = None\<rparr>
        sample_addr (node_state (dht_start id20_word 0 5 sample_addr)) = Inr (s1, Inr ())
    \<and> msg_kind (wsr_message (last (worker_queue s1))) = MK_Response resp1 \<and> resp_token resp1 = Some token
    \<and> on_received_message id20_word sample_env \<lparr>msg_kind = MK_AnnouncePeer \<lparr>ap_id = 7, implied_port = 0, ap_info_hash = 5,
        ap_port = 80, ap_token = token\<rparr>, transaction_id = [2], version = None, msg_ip = None\<rparr> sample_addr s1 = Inr (s2, Inr ())
    \<and> on_received_message id20_word sample_env \<lparr>msg_kind = MK_GetPeersRequest
        \<lparr>gp_id = 8, gp_info_hash = 5, gp_want = None\<rparr>, transaction_id = [3], version = None, msg_ip = None\<rparr>
        sample_addr s2 = Inr (s3, Inr ())
    \<and> msg_kind (wsr_message (last (worker_queue s3))) = MK_Response resp3 \<and> resp_values resp3 = Some peers
    \<and> set_port sample_addr 80 \<in> set peers"
proof -
  let ?s = "node_state (dht_start id20_word 0 5 sample_addr)"
  have ok: "stores_ok id20_word ?s" using w20.dht_start_ok by (simp add: dht_inv_def)
  have ps: "dht_peer_store ?s = peer_store_new id20_word 5" "worker_alive ?s"
    by (simp_all add: dht_start_def dht_new_internal_def)
  have near: "id_distance id20_word 5 (ps_self_id (dht_peer_store ?s)) \<le> max_distance (dht_peer_store ?s)"
    by (simp add: ps peer_store_new_def)
  have room: "total_peers (ps_peers (dht_peer_store ?s)) < unat (max_remembered_peers (dht_peer_store ?s))"
    "0 < max_remembered_tokens (dht_peer_store ?s)"
    by (simp_all add: ps peer_store_new_def)
  let ?q = "\<lambda>i. \<lparr>gp_id = i, gp_info_hash = 5, gp_want = None\<rparr> :: 160 word get_peers_request"
  let ?m = "\<lambda>t q. \<lparr>msg_kind = MK_GetPeersRequest q, transaction_id = [t], version = None, msg_ip = None\<rparr>"
  have q: "msg_kind (?m 1 (?q 7)) = MK_GetPeersRequest (?q 7)" "gp_id (?q 7) = 7"
    "msg_kind (?m 3 (?q 8)) = MK_GetPeersRequest (?q 8)" "gp_info_hash (?q 8) = 5" by simp_all
  have w: "case gp_want (?q 8) of Some w \<Rightarrow> w = Want_Both \<or> w = (if is_ipv4 sample_addr then Want_V4 else Want_V6)
         | None \<Rightarrow> is_ipv4 sample_addr = is_ipv4 sample_addr" by simp
  obtain s1 resp1 token where s1: "on_received_message id20_word sample_env (?m 1 (?q 7)) sample_addr ?s = Inr (s1, Inr ())"
    "msg_kind (wsr_message (last (worker_queue s1))) = MK_Response resp1" "resp_token resp1 = Some token"
    and rest: "\<forall>m2 ann. msg_kind m2 = MK_AnnouncePeer ann \<longrightarrow> ap_id ann = 7 \<longrightarrow> ap_info_hash ann = 5 \<longrightarrow> ap_token ann = token \<longrightarrow>
        (\<exists>s2 s3 resp3 peers. on_received_message id20_word sample_env m2 sample_addr s1 = Inr (s2, Inr ())
          \<and> on_received_message id20_word sample_env (?m 3 (?q 8)) sample_addr s2 = Inr (s3, Inr ())
          \<and> msg_kind (wsr_message (last (worker_queue s3))) = MK_Response resp3 \<and> resp_values resp3 = Some peers
          \<and> (if implied_port ann = 0 then set_port sample_addr (ap_port ann) else sample_addr) \<in> set peers)"
    using announced_peer_is_found [OF id20_word_api ok ps(2) near room q w, of sample_env sample_env sample_env]
    by (elim exE conjE) blast
  let ?ann = "\<lparr>ap_id = 7, implied_port = 0, ap_info_hash = 5, ap_port = 80, ap_token = token\<rparr> :: 160 word announce_peer"
  let ?m2 = "\<lparr>msg_kind = MK_AnnouncePeer ?ann, transaction_id = [2], version = None, msg_ip = None\<rparr>"
  from rest [rule_format, of ?m2 ?ann] s1 show ?thesis
    by auto
qed

end
