(* ===== verification/Recursive_Request.thy ===== *)
theory Recursive_Request
  imports Dht_System
begin

text \<open>
  The recursive lookups of \<^verbatim>\<open>src/dht.rs\<close>: the list of useful nodes with its limit,
  the decision whether to ask a node, one request of the recursion, and the two sets of callbacks,
  which are instances of one contract (locale \<open>recursion_callbacks\<close>).
\<close>

section \<open>State\<close>

record 'id maybe_useful_node =
  mu_id :: 'id
  mu_addr :: socket_addr
  mu_last_request :: instant
  mu_last_response :: "instant option"
  mu_errors_in_a_row :: nat
  mu_returned_peers :: bool

text \<open>
  The sending ends of the two channels are modelled by what was sent, and by whether the receiver
  is still there. \<open>rr_requests\<close> is the list of the requests that were made.
\<close>

record 'id recursive_request =
  max_depth :: nat
  useful_nodes_limit :: nat
  info_hash :: 'id
  rr_request :: "'id request"
  useful_nodes :: "'id maybe_useful_node list"
  peer_tx :: "socket_addr list"
  peer_rx_alive :: bool
  node_tx :: "('id option \<times> socket_addr \<times> nat) list"
  node_rx_alive :: bool
  rr_requests :: "('id request \<times> socket_addr) list"

definition get_peers_recursion :: "'id \<Rightarrow> 'id recursive_request" where
  "get_peers_recursion hash = \<lparr>max_depth = 4, useful_nodes_limit = 256, info_hash = hash,
     rr_request = GetPeers hash, useful_nodes = [], peer_tx = [], peer_rx_alive = True, node_tx = [],
     node_rx_alive = True, rr_requests = []\<rparr>"

text \<open>Here the receiver of the peers is dropped at once.\<close>

definition find_node_recursion :: "'id \<Rightarrow> 'id recursive_request" where
  "find_node_recursion target = \<lparr>max_depth = 4, useful_nodes_limit = 32, info_hash = target,
     rr_request = FindNode target, useful_nodes = [], peer_tx = [], peer_rx_alive = False, node_tx = [],
     node_rx_alive = True, rr_requests = []\<rparr>"

section \<open>Useful nodes\<close>

definition mark_node_error :: "socket_addr \<Rightarrow> 'id recursive_request \<Rightarrow> 'id recursive_request" where
  "mark_node_error addr rr = rr\<lparr>useful_nodes := update_first (\<lambda>n. mu_addr n = addr)
     (\<lambda>n. n\<lparr>mu_errors_in_a_row := mu_errors_in_a_row n + 1\<rparr>) (useful_nodes rr)\<rparr>"

definition mark_node_responded ::
    "instant \<Rightarrow> socket_addr \<Rightarrow> 'id response_or_error \<Rightarrow> 'id recursive_request \<Rightarrow> 'id recursive_request" where
  "mark_node_responded now addr response rr = rr\<lparr>useful_nodes := update_first (\<lambda>n. mu_addr n = addr)
     (\<lambda>n. n\<lparr>mu_last_response := Some now, mu_errors_in_a_row := 0,
        mu_returned_peers := (case response of
            ROE_Response r \<Rightarrow> (case resp_values r of Some c \<Rightarrow> c \<noteq> [] | None \<Rightarrow> False)
          | ROE_Error _ \<Rightarrow> False)\<rparr>) (useful_nodes rr)\<rparr>"

definition DURATION_MAX :: duration where
  "DURATION_MAX = from_secs (2 ^ 64 - 1) + 999999999"

text \<open>\<^verbatim>\<open>Reverse\<close> of a boolean is its negation.\<close>

definition useful_key ::
    "('id::linorder) id20_ops \<Rightarrow> 'id \<Rightarrow> instant \<Rightarrow> 'id maybe_useful_node \<Rightarrow> bool \<times> bool \<times> 'id \<times> duration" where
  "useful_key ops hash now n = (\<not> mu_returned_peers n, mu_last_response n = None, id_distance ops (mu_id n) hash,
     case mu_last_response n of Some r \<Rightarrow> now - r | None \<Rightarrow> DURATION_MAX)"

definition should_request_node ::
    "('id::linorder) id20_ops \<Rightarrow> 'id \<Rightarrow> socket_addr \<Rightarrow> nat \<Rightarrow> instant \<Rightarrow> 'id recursive_request
      \<Rightarrow> 'id recursive_request \<times> bool" where
  "should_request_node ops i addr depth now rr =
    (if depth \<ge> max_depth rr then (rr, False)
     else case find (\<lambda>n. mu_id n = i) (useful_nodes rr) of
       Some existing \<Rightarrow>
         (if now - mu_last_request existing > from_secs 60
          then (rr\<lparr>useful_nodes := update_first (\<lambda>n. mu_id n = i) (\<lambda>n. n\<lparr>mu_last_request := now\<rparr>)
            (useful_nodes rr)\<rparr>, True)
          else (rr, False))
     | None \<Rightarrow>
        (let new = \<lparr>mu_id = i, mu_addr = addr, mu_last_request = now, mu_last_response = None,
               mu_errors_in_a_row = 0, mu_returned_peers = False\<rparr>;
             nodes = sort_key (useful_key ops (info_hash rr) now) (useful_nodes rr @ [new])
         in if length nodes > useful_nodes_limit rr
            then (rr\<lparr>useful_nodes := butlast nodes\<rparr>, mu_id (last nodes) \<noteq> i)
            else (rr\<lparr>useful_nodes := nodes\<rparr>, True)))"

section \<open>Callbacks\<close>

text \<open>
  The trait \<^verbatim>\<open>RecursiveRequestCallbacks\<close>, its two implementations, and the
  environment they read: the clock when a node is added and when it is marked.
\<close>

record callback_env =
  ce_clk :: "nat \<Rightarrow> instant"
  ce_add_now :: instant
  ce_mark_now :: instant

record 'id callbacks =
  on_request_start :: "callback_env \<Rightarrow> 'id recursive_request \<Rightarrow> 'id \<Rightarrow> socket_addr \<Rightarrow> 'id dht_state
    \<Rightarrow> abort + 'id dht_state"
  on_request_end :: "callback_env \<Rightarrow> 'id recursive_request \<Rightarrow> 'id \<Rightarrow> socket_addr
    \<Rightarrow> dht_error + 'id response_or_error \<Rightarrow> 'id dht_state \<Rightarrow> abort + 'id dht_state"

definition get_peers_end ::
    "('id::linorder) id20_ops \<Rightarrow> 'id \<Rightarrow> u16 option \<Rightarrow> 'id recursive_request \<Rightarrow> 'id \<Rightarrow> socket_addr
      \<Rightarrow> dht_error + 'id response_or_error \<Rightarrow> 'id dht_state \<Rightarrow> 'id dht_state" where
  "get_peers_end ops min_distance announce_port rr target_node addr resp s =
    (case announce_port of None \<Rightarrow> s | Some port \<Rightarrow>
     (case resp of Inr (ROE_Response r) \<Rightarrow>
       (case resp_token r of None \<Rightarrow> s | Some token \<Rightarrow>
         if id_distance ops (info_hash rr) target_node > min_distance then s
         else (let (s1, tid, message) = create_request (Announce (info_hash rr) token port) addr s
               in fst (worker_send \<lparr>our_tid = Some tid, wsr_message = message, wsr_addr = addr\<rparr> s1)))
      | _ \<Rightarrow> s))"

definition callbacks_get_peers :: "('id::linorder) id20_ops \<Rightarrow> 'id \<Rightarrow> u16 option \<Rightarrow> 'id callbacks" where
  "callbacks_get_peers ops min_distance announce_port = \<lparr>
     on_request_start = (\<lambda>env rr target_node addr s. Inr s),
     on_request_end = (\<lambda>env rr target_node addr resp s.
       Inr (get_peers_end ops min_distance announce_port rr target_node addr resp s))\<rparr>"

definition MIN_DISTANCE_TO_ANNOUNCE :: "'id id20_ops \<Rightarrow> 'id" where
  "MIN_DISTANCE_TO_ANNOUNCE ops = id_new ops ([0, 0] @ replicate 18 0xff)"

definition find_nodes_start ::
    "('id::linorder) id20_ops \<Rightarrow> callback_env \<Rightarrow> 'id \<Rightarrow> socket_addr \<Rightarrow> 'id dht_state \<Rightarrow> abort + 'id dht_state" where
  "find_nodes_start ops env target_node addr s =
     and_then (rt_add_node ops (ce_clk env) (ce_add_now env) (get_table_for_addr addr s) target_node addr) (\<lambda>(t, r).
       case r of
         Ignored \<Rightarrow> Inr (set_table_for_addr addr t s)
       | _ \<Rightarrow> and_then (rt_mark_outgoing_request t target_node (ce_mark_now env)) (\<lambda>(t', found).
           Inr (set_table_for_addr addr t' s)))"

definition find_nodes_end ::
    "callback_env \<Rightarrow> ('id::linorder) \<Rightarrow> socket_addr \<Rightarrow> dht_error + 'id response_or_error \<Rightarrow> 'id dht_state
      \<Rightarrow> abort + 'id dht_state" where
  "find_nodes_end env target_node addr resp s =
     and_then (case resp of
         Inr _ \<Rightarrow> rt_mark_response (get_table_for_addr addr s) target_node (ce_mark_now env)
       | Inl _ \<Rightarrow> rt_mark_error (get_table_for_addr addr s) target_node) (\<lambda>(t, found).
       Inr (set_table_for_addr addr t s))"

definition callbacks_find_nodes :: "('id::linorder) id20_ops \<Rightarrow> 'id callbacks" where
  "callbacks_find_nodes ops = \<lparr>
     on_request_start = (\<lambda>env rr target_node addr s. find_nodes_start ops env target_node addr s),
     on_request_end = (\<lambda>env rr target_node addr resp s. find_nodes_end env target_node addr resp s)\<rparr>"

section \<open>One request of the recursion\<close>

fun send_peers :: "socket_addr list \<Rightarrow> 'id recursive_request \<Rightarrow> 'id recursive_request \<times> (dht_error + unit)" where
  "send_peers [] rr = (rr, Inr ())"
| "send_peers (p # ps) rr =
    (if peer_rx_alive rr then send_peers ps (rr\<lparr>peer_tx := peer_tx rr @ [p]\<rparr>) else (rr, Inl ReceiverDead))"

fun send_nodes ::
    "('id::linorder) id20_ops \<Rightarrow> instant \<Rightarrow> nat \<Rightarrow> ('id, socket_addr) node list \<Rightarrow> 'id recursive_request
      \<Rightarrow> 'id recursive_request \<times> (dht_error + unit)" where
  "send_nodes ops now depth [] rr = (rr, Inr ())"
| "send_nodes ops now depth (n # ns) rr =
    (let (rr1, should_request) = should_request_node ops (nid n) (naddr n) depth now rr in
     if should_request
     then (if node_rx_alive rr1
           then send_nodes ops now depth ns
             (rr1\<lparr>node_tx := node_tx rr1 @ [(Some (nid n), naddr n, depth + 1)]\<rparr>)
           else (rr1, Inl ReceiverDead))
     else send_nodes ops now depth ns rr1)"

definition response_nodes :: "'id response \<Rightarrow> ('id, socket_addr) node list" where
  "response_nodes r =
     map (as_socketaddr V4) (case resp_nodes r of Some ns \<Rightarrow> ns | None \<Rightarrow> [])
     @ map (as_socketaddr V6) (case resp_nodes6 r of Some ns \<Rightarrow> ns | None \<Rightarrow> [])"

definition on_recursive_response ::
    "('id::linorder) id20_ops \<Rightarrow> instant \<Rightarrow> socket_addr \<Rightarrow> nat \<Rightarrow> 'id response \<Rightarrow> 'id recursive_request
      \<Rightarrow> 'id recursive_request \<times> (dht_error + unit)" where
  "on_recursive_response ops now addr depth r rr =
    (case send_peers (case resp_values r of Some ps \<Rightarrow> ps | None \<Rightarrow> []) rr of
       (rr1, Inl e) \<Rightarrow> (rr1, Inl e)
     | (rr1, Inr _) \<Rightarrow> send_nodes ops now depth
         (filter (\<lambda>n. is_ipv4 addr = is_ipv4 (naddr n)) (response_nodes r)) rr1)"

text \<open>
  \<^verbatim>\<open>request_one\<close> makes the request twice. The results of the two requests are
  arguments; the first one is marked and given to the callback, the second one is used. Between
  its parts other tasks may run, so the three parts are also separate definitions.
\<close>

definition request_one_begin ::
    "'id callbacks \<Rightarrow> callback_env \<Rightarrow> 'id option \<Rightarrow> socket_addr \<Rightarrow> 'id recursive_request \<Rightarrow> 'id dht_state
      \<Rightarrow> abort + 'id recursive_request \<times> 'id dht_state" where
  "request_one_begin cb env i addr rr s =
     and_then (case i of Some i \<Rightarrow> on_request_start cb env rr i addr s | None \<Rightarrow> Inr s) (\<lambda>s1.
       Inr (rr\<lparr>rr_requests := rr_requests rr @ [(rr_request rr, addr)]\<rparr>, s1))"

definition request_one_middle ::
    "'id callbacks \<Rightarrow> callback_env \<Rightarrow> instant \<Rightarrow> 'id option \<Rightarrow> socket_addr \<Rightarrow> dht_error + 'id response_or_error
      \<Rightarrow> 'id recursive_request \<Rightarrow> 'id dht_state \<Rightarrow> abort + 'id recursive_request \<times> 'id dht_state" where
  "request_one_middle cb env now i addr response rr s =
    (let rr1 = (case response of Inr r \<Rightarrow> mark_node_responded now addr r rr | Inl _ \<Rightarrow> rr) in
     and_then (case i of Some i \<Rightarrow> on_request_end cb env rr1 i addr response s | None \<Rightarrow> Inr s) (\<lambda>s1.
       Inr (rr1\<lparr>rr_requests := rr_requests rr1 @ [(rr_request rr1, addr)]\<rparr>, s1)))"

definition request_one_end ::
    "('id::linorder) id20_ops \<Rightarrow> instant \<Rightarrow> socket_addr \<Rightarrow> nat \<Rightarrow> dht_error + 'id response_or_error
      \<Rightarrow> 'id recursive_request \<Rightarrow> 'id recursive_request \<times> (dht_error + unit)" where
  "request_one_end ops now addr depth response rr = (case response of
     Inr (ROE_Response r) \<Rightarrow> on_recursive_response ops now addr depth r rr
   | Inr (ROE_Error e) \<Rightarrow> (rr, Inl ErrorResponse)
   | Inl e \<Rightarrow> (mark_node_error addr rr, Inl e))"

definition request_one ::
    "('id::linorder) id20_ops \<Rightarrow> 'id callbacks \<Rightarrow> callback_env \<Rightarrow> callback_env \<Rightarrow> instant \<Rightarrow> instant
      \<Rightarrow> 'id option \<Rightarrow> socket_addr \<Rightarrow> nat \<Rightarrow> dht_error + 'id response_or_error \<Rightarrow> dht_error + 'id response_or_error
      \<Rightarrow> 'id recursive_request \<Rightarrow> 'id dht_state
      \<Rightarrow> abort + 'id recursive_request \<times> 'id dht_state \<times> (dht_error + unit)" where
  "request_one ops cb env1 env2 now1 now2 i addr depth r1 r2 rr s =
     and_then (request_one_begin cb env1 i addr rr s) (\<lambda>(rr1, s1).
     and_then (request_one_middle cb env2 now1 i addr r1 rr1 s1) (\<lambda>(rr2, s2).
       let (rr3, result) = request_one_end ops now2 addr depth r2 rr2 in Inr (rr3, s2, result)))"

section \<open>The tasks around it\<close>

text \<open>The eight best nodes of the table go into the queue at depth zero.\<close>

fun send_roots ::
    "('id \<times> socket_addr) list \<Rightarrow> nat \<Rightarrow> 'id recursive_request \<Rightarrow> 'id recursive_request \<times> (dht_error + nat)" where
  "send_roots [] n rr = (rr, Inr n)"
| "send_roots ((i, addr) # rest) n rr =
    (if node_rx_alive rr
     then send_roots rest (n + 1) (rr\<lparr>node_tx := node_tx rr @ [(Some i, addr, 0)]\<rparr>)
     else (rr, Inl DhtDead))"

definition get_peers_root ::
    "('id::linorder) id20_ops \<Rightarrow> bool \<Rightarrow> instant \<Rightarrow> 'id dht_state \<Rightarrow> 'id recursive_request
      \<Rightarrow> abort + 'id recursive_request \<times> (dht_error + nat)" where
  "get_peers_root ops is_v4 now s rr =
    (case sorted_by_distance_from ops (if is_v4 then routing_table_v4 s else routing_table_v6 s) (info_hash rr) now of
       None \<Rightarrow> Inl Diverged
     | Some nodes \<Rightarrow> Inr (send_roots (take 8 (map (\<lambda>n. (node_id n, node_addr n)) nodes)) 0 rr))"

text \<open>How long the looper of \<^verbatim>\<open>request_peers_forever\<close> sleeps.\<close>

definition looper_sleep :: "nat \<Rightarrow> duration" where
  "looper_sleep n = (if n = 0 then from_secs 1 else if n < 8 then REQUERY_INTERVAL div 8 * n else REQUERY_INTERVAL)"

text \<open>The result of \<^verbatim>\<open>find_node_for_routing_table\<close> from those of its requests.\<close>

definition find_node_result :: "(dht_error + unit) list \<Rightarrow> dht_error + unit" where
  "find_node_result results =
    (let successes = length (filter (\<lambda>r. \<exists>u. r = Inr u) results);
         errors = length (filter (\<lambda>r. \<not> (\<exists>u. r = Inr u)) results)
     in if successes = 0 then Inl (NoSuccessfulLookups errors) else Inr ())"

section \<open>The invariant of a lookup\<close>

definition rr_inv :: "'id recursive_request \<Rightarrow> bool" where
  "rr_inv rr \<longleftrightarrow> distinct (map mu_id (useful_nodes rr)) \<and> length (useful_nodes rr) \<le> useful_nodes_limit rr
     \<and> (\<forall>(i, addr, depth) \<in> set (node_tx rr). depth \<le> max_depth rr)"

lemma mu_update_inv:
  assumes "rr_inv rr" and "\<And>n. mu_id (f n) = mu_id n"
  shows "rr_inv (rr\<lparr>useful_nodes := update_first p f (useful_nodes rr)\<rparr>)"
  using assms map_update_first [of p mu_id f "useful_nodes rr"] by (simp add: rr_inv_def)

lemma mark_node_inv:
  "rr_inv rr \<Longrightarrow> rr_inv (mark_node_error addr rr)"
  "rr_inv rr \<Longrightarrow> rr_inv (mark_node_responded now addr response rr)"
  unfolding mark_node_error_def mark_node_responded_def by (rule mu_update_inv; simp)+

text \<open>What the decision about a node depends on and changes.\<close>

lemma should_request_deep:
  "max_depth rr \<le> depth \<Longrightarrow> should_request_node ops i addr depth now rr = (rr, False)"
  by (simp add: should_request_node_def)

lemma should_request_known:
  assumes "depth < max_depth rr" and "distinct (map mu_id (useful_nodes rr))" and "n \<in> set (useful_nodes rr)"
  shows "should_request_node ops (mu_id n) addr depth now rr =
    (if from_secs 60 < now - mu_last_request n
     then (rr\<lparr>useful_nodes := map (\<lambda>m. if mu_id m = mu_id n then m\<lparr>mu_last_request := now\<rparr> else m) (useful_nodes rr)\<rparr>, True)
     else (rr, False))"
proof -
  have "find (\<lambda>m. mu_id m = mu_id n) xs = Some n" if "distinct (map mu_id xs)" "n \<in> set xs" for xs
    using that by (induction xs) auto
  with assms show ?thesis
    using update_first_distinct [OF assms(2), of "mu_id n" "\<lambda>m. m\<lparr>mu_last_request := now\<rparr>"]
    by (simp add: should_request_node_def)
qed

definition new_useful_node :: "'id \<Rightarrow> socket_addr \<Rightarrow> instant \<Rightarrow> 'id maybe_useful_node" where
  "new_useful_node i addr now = \<lparr>mu_id = i, mu_addr = addr, mu_last_request = now, mu_last_response = None,
     mu_errors_in_a_row = 0, mu_returned_peers = False\<rparr>"

lemma should_request_new:
  assumes "depth < max_depth rr" and "i \<notin> mu_id ` set (useful_nodes rr)"
  shows "should_request_node ops i addr depth now rr =
    (let nodes = sort_key (useful_key ops (info_hash rr) now) (useful_nodes rr @ [new_useful_node i addr now])
     in if length nodes > useful_nodes_limit rr
        then (rr\<lparr>useful_nodes := butlast nodes\<rparr>, mu_id (last nodes) \<noteq> i)
        else (rr\<lparr>useful_nodes := nodes\<rparr>, True))"
proof -
  have "find (\<lambda>n. mu_id n = i) (useful_nodes rr) = None" using assms(2) by (auto simp: find_None_iff)
  then show ?thesis using assms(1) by (simp add: should_request_node_def new_useful_node_def)
qed

lemma map_mu_id_touch:
  "map mu_id (map (\<lambda>m. if mu_id m = i then m\<lparr>mu_last_request := now\<rparr> else m) xs) = map mu_id xs"
  by (induction xs) auto

lemma should_request_inv:
  assumes inv: "rr_inv rr" and eq: "should_request_node ops i addr depth now rr = (rr', asked)"
  shows "rr_inv rr' \<and> node_tx rr' = node_tx rr \<and> max_depth rr' = max_depth rr
    \<and> useful_nodes_limit rr' = useful_nodes_limit rr \<and> rr_requests rr' = rr_requests rr
    \<and> node_rx_alive rr' = node_rx_alive rr \<and> rr_request rr' = rr_request rr \<and> (asked \<longrightarrow> depth < max_depth rr)"
proof (cases "depth < max_depth rr")
  case False
  then show ?thesis using eq inv by (simp add: should_request_deep)
next
  case depth: True
  have d: "distinct (map mu_id (useful_nodes rr))" using inv by (simp add: rr_inv_def)
  show ?thesis
  proof (cases "i \<in> mu_id ` set (useful_nodes rr)")
    case True
    then obtain n where n: "n \<in> set (useful_nodes rr)" "i = mu_id n" by blast
    from should_request_known [OF depth d n(1), of ops addr now] eq inv depth n(2) show ?thesis
      by (auto simp: rr_inv_def map_mu_id_touch split: if_splits simp del: map_map)
  next
    case False
    let ?nodes = "sort_key (useful_key ops (info_hash rr) now) (useful_nodes rr @ [new_useful_node i addr now])"
    have dn: "distinct (map mu_id ?nodes)" using d False by (simp add: new_useful_node_def)
    have "length ?nodes = Suc (length (useful_nodes rr))" by simp
    moreover have "distinct (map mu_id (butlast ?nodes))" using dn by (simp add: map_butlast distinct_butlast)
    ultimately show ?thesis
      using should_request_new [OF depth False, of ops addr now] eq inv dn depth
      by (auto simp: rr_inv_def Let_def split: if_splits)
  qed
qed

lemma send_nodes_inv:
  "rr_inv rr \<Longrightarrow> send_nodes ops now depth ns rr = (rr', result) \<Longrightarrow>
    rr_inv rr' \<and> max_depth rr' = max_depth rr \<and> rr_requests rr' = rr_requests rr \<and> rr_request rr' = rr_request rr
      \<and> useful_nodes_limit rr' = useful_nodes_limit rr"
proof (induction ns arbitrary: rr)
  case (Cons n ns)
  obtain rr1 asked where sr: "should_request_node ops (nid n) (naddr n) depth now rr = (rr1, asked)" by fastforce
  note inv1 = should_request_inv [OF Cons.prems(1) sr]
  have "rr_inv (rr1\<lparr>node_tx := node_tx rr1 @ [(Some (nid n), naddr n, depth + 1)]\<rparr>)" if asked
    using that inv1 by (auto simp: rr_inv_def)
  with Cons sr inv1 show ?case by (fastforce simp: Let_def split: if_splits)
qed simp

lemma send_peers_inv:
  "rr_inv rr \<Longrightarrow> send_peers ps rr = (rr', result) \<Longrightarrow>
    rr_inv rr' \<and> max_depth rr' = max_depth rr \<and> rr_requests rr' = rr_requests rr \<and> rr_request rr' = rr_request rr
      \<and> useful_nodes_limit rr' = useful_nodes_limit rr"
proof (induction ps arbitrary: rr)
  case (Cons p ps)
  have "rr_inv (rr\<lparr>peer_tx := peer_tx rr @ [p]\<rparr>)" using Cons.prems(1) by (simp add: rr_inv_def)
  with Cons show ?case by (fastforce split: if_splits)
qed simp

lemma request_one_end_inv:
  assumes "rr_inv rr" and "request_one_end ops now addr depth response rr = (rr', result)"
  shows "rr_inv rr' \<and> max_depth rr' = max_depth rr \<and> rr_requests rr' = rr_requests rr
    \<and> useful_nodes_limit rr' = useful_nodes_limit rr"
proof (cases "\<exists>r. response = Inr (ROE_Response r)")
  case True
  then obtain r where r: "response = Inr (ROE_Response r)" by blast
  obtain rr1 res1 where sp: "send_peers (case resp_values r of Some ps \<Rightarrow> ps | None \<Rightarrow> []) rr = (rr1, res1)" by fastforce
  note inv1 = send_peers_inv [OF assms(1) sp]
  show ?thesis
  proof (cases res1)
    case (Inl e)
    then show ?thesis using assms(2) r sp inv1 by (simp add: request_one_end_def on_recursive_response_def)
  next
    case (Inr u)
    then have "send_nodes ops now depth (filter (\<lambda>n. is_ipv4 addr = is_ipv4 (naddr n)) (response_nodes r)) rr1 = (rr', result)"
      using assms(2) r sp by (simp add: request_one_end_def on_recursive_response_def)
    with send_nodes_inv [OF _ this] inv1 show ?thesis by simp
  qed
next
  case False
  then show ?thesis
    using assms mark_node_inv(1) [OF assms(1), of addr]
    by (auto simp: request_one_end_def mark_node_error_def split: sum.splits response_or_error.splits)
qed

section \<open>The contract of the callbacks\<close>

locale recursion_callbacks =
  fixes ops :: "('id::linorder) id20_ops" and cb :: "'id callbacks"
  assumes start_ok: "stores_ok ops s \<Longrightarrow> \<exists>s'. on_request_start cb env rr i addr s = Inr s'
      \<and> stores_ok ops s' \<and> inflight s' = inflight s"
    and end_ok: "stores_ok ops s \<Longrightarrow> \<exists>s'. on_request_end cb env rr i addr resp s = Inr s'
      \<and> stores_ok ops s' \<and> inflight s' = inflight s"
begin

text \<open>Any callbacks that keep the contract make a request that keeps the invariants.\<close>

lemma request_one_ok:
  assumes "stores_ok ops s" and "rr_inv rr"
  shows "\<exists>rr' s' result. request_one ops cb env1 env2 now1 now2 i addr depth r1 r2 rr s = Inr (rr', s', result)
    \<and> stores_ok ops s' \<and> inflight s' = inflight s \<and> rr_inv rr' \<and> max_depth rr' = max_depth rr
    \<and> useful_nodes_limit rr' = useful_nodes_limit rr
    \<and> rr_requests rr' = rr_requests rr @ [(rr_request rr, addr), (rr_request rr, addr)]"
proof -
  obtain s1 where s1: "(case i of Some i \<Rightarrow> on_request_start cb env1 rr i addr s | None \<Rightarrow> Inr s) = Inr s1"
    "stores_ok ops s1" "inflight s1 = inflight s"
  proof -
    have "\<exists>s1. (case i of Some i \<Rightarrow> on_request_start cb env1 rr i addr s | None \<Rightarrow> Inr s) = Inr s1
        \<and> stores_ok ops s1 \<and> inflight s1 = inflight s"
      using assms(1) by (cases i) (simp_all add: start_ok)
    with that show thesis by blast
  qed
  define rr1 where "rr1 = rr\<lparr>rr_requests := rr_requests rr @ [(rr_request rr, addr)]\<rparr>"
  define rr2 where "rr2 = (case r1 of Inr r \<Rightarrow> mark_node_responded now1 addr r rr1 | Inl _ \<Rightarrow> rr1)"
  have "rr_inv rr1" using assms(2) by (simp add: rr1_def rr_inv_def)
  then have rr2: "rr_inv rr2" using mark_node_inv(2) by (auto simp: rr2_def split: sum.splits)
  have same2: "rr_requests rr2 = rr_requests rr1" "rr_request rr2 = rr_request rr" "max_depth rr2 = max_depth rr"
    "useful_nodes_limit rr2 = useful_nodes_limit rr"
    by (auto simp: rr2_def rr1_def mark_node_responded_def split: sum.splits)
  obtain s2 where s2: "(case i of Some i \<Rightarrow> on_request_end cb env2 rr2 i addr r1 s1 | None \<Rightarrow> Inr s1) = Inr s2"
    "stores_ok ops s2" "inflight s2 = inflight s"
  proof -
    have "\<exists>s2. (case i of Some i \<Rightarrow> on_request_end cb env2 rr2 i addr r1 s1 | None \<Rightarrow> Inr s1) = Inr s2
        \<and> stores_ok ops s2 \<and> inflight s2 = inflight s"
      using s1(2,3) by (cases i) (simp_all add: end_ok flip: s1(3))
    with that show thesis by blast
  qed
  define rr3 where "rr3 = rr2\<lparr>rr_requests := rr_requests rr2 @ [(rr_request rr2, addr)]\<rparr>"
  have rr3: "rr_inv rr3" using rr2 by (simp add: rr3_def rr_inv_def)
  obtain rr4 result where rr4: "request_one_end ops now2 addr depth r2 rr3 = (rr4, result)" by fastforce
  have "request_one ops cb env1 env2 now1 now2 i addr depth r1 r2 rr s = Inr (rr4, s2, result)"
  proof -
    have "request_one_begin cb env1 i addr rr s = Inr (rr1, s1)"
      by (simp add: request_one_begin_def s1(1) rr1_def)
    moreover have "request_one_middle cb env2 now1 i addr r1 rr1 s1 = Inr (rr3, s2)"
      unfolding request_one_middle_def Let_def rr2_def [symmetric] s2(1) by (simp add: rr3_def)
    ultimately show ?thesis by (simp add: request_one_def rr4)
  qed
  with request_one_end_inv [OF rr3 rr4] s2(2,3) same2 show ?thesis by (simp add: rr3_def rr1_def)
qed

end

lemma get_peers_callbacks:
  "recursion_callbacks ops (callbacks_get_peers ops d port)"
proof
  fix s :: "'a dht_state" and env rr i addr resp
  assume "stores_ok ops s"
  then show "\<exists>s'. on_request_start (callbacks_get_peers ops d port) env rr i addr s = Inr s'
      \<and> stores_ok ops s' \<and> inflight s' = inflight s"
    "\<exists>s'. on_request_end (callbacks_get_peers ops d port) env rr i addr resp s = Inr s'
      \<and> stores_ok ops s' \<and> inflight s' = inflight s"
    by (auto simp: callbacks_get_peers_def get_peers_end_def create_request_def worker_send_def Let_def
        split: option.splits sum.splits response_or_error.splits)
qed

interpretation get_peers_cb: recursion_callbacks ops "callbacks_get_peers ops d port" for ops d port
  by (rule get_peers_callbacks)

context id20_api
begin

lemma find_nodes_start_ok:
  assumes "stores_ok ops s"
  shows "\<exists>s'. find_nodes_start ops env i addr s = Inr s' \<and> stores_ok ops s' \<and> inflight s' = inflight s"
proof -
  obtain t r where t: "rt_add_node ops (ce_clk env) (ce_add_now env) (get_table_for_addr addr s) i addr = Inr (t, r)"
    "rt_inv ops t" using rt_inv_add [OF get_table_ok [OF assms]] by blast
  obtain t' where t': "rt_mark (Requested (ce_mark_now env)) i t = Inr (t', rt_lookup t i \<noteq> None)" "rt_inv ops t'"
    using rt_inv_mark [OF t(2)] by blast
  then have "rt_mark_outgoing_request t i (ce_mark_now env) = Inr (t', rt_lookup t i \<noteq> None)" by simp
  with t set_table_ok [OF assms t(2)] set_table_ok [OF assms t'(2)] show ?thesis
    by (cases r) (simp_all add: find_nodes_start_def)
qed

lemma find_nodes_end_ok:
  assumes "stores_ok ops s"
  shows "\<exists>s'. find_nodes_end env i addr resp s = Inr s' \<and> stores_ok ops s' \<and> inflight s' = inflight s"
proof -
  let ?e = "case resp of Inr _ \<Rightarrow> Responded (ce_mark_now env) | Inl _ \<Rightarrow> Errored"
  obtain t where t: "rt_mark ?e i (get_table_for_addr addr s) = Inr (t, rt_lookup (get_table_for_addr addr s) i \<noteq> None)"
    "rt_inv ops t" using rt_inv_mark [OF get_table_ok [OF assms]] by blast
  with set_table_ok [OF assms t(2)] show ?thesis by (cases resp) (simp_all add: find_nodes_end_def)
qed

end

sublocale id20_api \<subseteq> find_nodes_cb: recursion_callbacks ops "callbacks_find_nodes ops"
  by unfold_locales (simp_all add: callbacks_find_nodes_def find_nodes_start_ok find_nodes_end_ok)

context id20_api
begin

lemma find_nodes_contract: "recursion_callbacks ops (callbacks_find_nodes ops)"
  by (rule find_nodes_cb.recursion_callbacks_axioms)

end

interpretation word_find_nodes: recursion_callbacks id20_word "callbacks_find_nodes id20_word"
  by (rule w20.find_nodes_cb.recursion_callbacks_axioms)

end
