(* ===== verification/Recursive_Props.thy ===== *)
theory Recursive_Props
  imports Recursive_Request
begin

text \<open>
  The properties of the recursive lookups: which nodes are asked and how often, that a lookup keeps
  its bounds whatever the answers are, and what becomes of the two requests of one step.
\<close>

section \<open>Which nodes are asked\<close>

lemma set_last_butlast: "xs \<noteq> [] \<Longrightarrow> set xs = insert (last xs) (set (butlast xs))"
  by (induction xs rule: rev_induct) auto

lemma sort_key_append_max:
  assumes "\<forall>x \<in> set xs. f x \<le> f y"
  shows "sort_key f (xs @ [y]) = sort_key f xs @ [y]"
proof (rule properties_for_sort_key)
  show "mset (sort_key f xs @ [y]) = mset (xs @ [y])" by simp
  show "filter (\<lambda>x. f k = f x) (sort_key f xs @ [y]) = filter (\<lambda>x. f k = f x) (xs @ [y])" for k
    using sort_key_stable [of f "f k" xs] by (simp add: eq_commute)
  show "sorted (map f (sort_key f xs @ [y]))" using assms by (simp add: sorted_append)
qed

lemma last_sort_key:
  assumes "y \<notin> set xs"
  shows "last (sort_key f (xs @ [y])) = y \<longleftrightarrow> (\<forall>x \<in> set xs. f x \<le> f y)"
proof
  assume last: "last (sort_key f (xs @ [y])) = y"
  let ?s = "sort_key f (xs @ [y])"
  have "?s \<noteq> []" by (metis length_0_conv length_append_singleton length_sort nat.distinct(1))
  then have s: "?s = butlast ?s @ [y]" using last by (metis append_butlast_last_id)
  have "sorted (map f (butlast ?s @ [y]))" by (metis s sorted_sort_key)
  moreover have "set xs \<subseteq> set (butlast ?s)"
  proof
    fix x assume "x \<in> set xs"
    then have "x \<in> set ?s" "x \<noteq> y" using assms by auto
    then show "x \<in> set (butlast ?s)" by (subst (asm) s) auto
  qed
  ultimately show "\<forall>x \<in> set xs. f x \<le> f y" by (auto simp: sorted_append)
qed (simp add: sort_key_append_max)

text \<open>
  A new node is asked unless the lookup is at its depth limit or already knows enough better
  nodes: it is refused exactly if there are as many useful nodes as the limit allows and every one
  of them ranks at least as high, by having returned peers, having responded, being closer and
  having responded more recently.
\<close>

theorem new_node_refused_iff:
  assumes "rr_inv rr" and "i \<notin> mu_id ` set (useful_nodes rr)"
  shows "\<not> snd (should_request_node ops i addr depth now rr) \<longleftrightarrow>
    max_depth rr \<le> depth \<or> length (useful_nodes rr) = useful_nodes_limit rr
      \<and> (\<forall>n \<in> set (useful_nodes rr). useful_key ops (info_hash rr) now n
            \<le> useful_key ops (info_hash rr) now (new_useful_node i addr now))"
proof (cases "depth < max_depth rr")
  case False
  then show ?thesis by (simp add: should_request_deep)
next
  case True
  let ?f = "useful_key ops (info_hash rr) now" and ?new = "new_useful_node i addr now"
  let ?s = "sort_key ?f (useful_nodes rr @ [?new])"
  have new: "?new \<notin> set (useful_nodes rr)" "mu_id ?new = i"
    using assms(2) by (force simp: new_useful_node_def)+
  have len: "length ?s = Suc (length (useful_nodes rr))" by simp
  then have "?s \<noteq> []" by (metis length_0_conv nat.distinct(1))
  then have "last ?s \<in> set ?s" by (rule last_in_set)
  then have "last ?s = ?new \<or> last ?s \<in> set (useful_nodes rr)" by auto
  then have "mu_id (last ?s) = i \<longleftrightarrow> last ?s = ?new" using assms(2) new(2) by (metis imageI)
  also have "\<dots> \<longleftrightarrow> (\<forall>n \<in> set (useful_nodes rr). ?f n \<le> ?f ?new)" by (rule last_sort_key [OF new(1)])
  finally have last: "mu_id (last ?s) = i \<longleftrightarrow> (\<forall>n \<in> set (useful_nodes rr). ?f n \<le> ?f ?new)" .
  have limit: "length (useful_nodes rr) \<le> useful_nodes_limit rr" using assms(1) by (simp add: rr_inv_def)
  show ?thesis
    using should_request_new [OF True assms(2), of ops addr now] last limit True len
    by (simp only: Let_def) (auto split: if_splits)
qed

definition sample_rr :: "160 word recursive_request" where
  "sample_rr = (find_node_recursion 5)\<lparr>useful_nodes_limit := 1, useful_nodes :=
     [\<lparr>mu_id = 4, mu_addr = sample_addr, mu_last_request = 10, mu_last_response = Some 12, mu_errors_in_a_row = 0,
       mu_returned_peers = True\<rparr>]\<rparr>"

lemma sample_rr_inv: "rr_inv sample_rr"
  by (simp add: sample_rr_def find_node_recursion_def rr_inv_def)

theorem new_node_refused_iff_witness:
  "\<not> snd (should_request_node id20_word 9 sample_addr 2 20 sample_rr)"
  using new_node_refused_iff [OF sample_rr_inv, of 9 id20_word sample_addr 2 20]
  by (simp add: sample_rr_def find_node_recursion_def useful_key_def new_useful_node_def less_eq_prod_def)

text \<open>
  A node is asked at most once a minute: when it has just been decided to ask a node, it is
  not asked again within the next sixty seconds, at whatever address and depth it is found, while
  it is among the useful nodes; and deciding so changes nothing.
\<close>

theorem asked_once_a_minute:
  assumes "rr_inv rr" and "should_request_node ops i addr depth now rr = (rr1, True)"
    and "now' - now \<le> from_secs 60"
  shows "should_request_node ops i addr' depth' now' rr1 = (rr1, False)"
proof -
  have depth: "depth < max_depth rr" using should_request_inv [OF assms(1,2)] by simp
  have inv1: "rr_inv rr1" using should_request_inv [OF assms(1,2)] by simp
  then have d1: "distinct (map mu_id (useful_nodes rr1))" by (simp add: rr_inv_def)
  have d: "distinct (map mu_id (useful_nodes rr))" using assms(1) by (simp add: rr_inv_def)
  have "\<exists>n \<in> set (useful_nodes rr1). mu_id n = i \<and> mu_last_request n = now"
  proof (cases "i \<in> mu_id ` set (useful_nodes rr)")
    case True
    then obtain n where n: "n \<in> set (useful_nodes rr)" "i = mu_id n" by blast
    let ?f = "\<lambda>m. if mu_id m = mu_id n then m\<lparr>mu_last_request := now\<rparr> else m"
    have "useful_nodes rr1 = map ?f (useful_nodes rr)"
      using should_request_known [OF depth d n(1), of ops addr now] assms(2) n(2) by (auto split: if_splits)
    then have "?f n \<in> set (useful_nodes rr1)" by (simp only: set_map) (rule imageI [OF n(1)])
    moreover have "mu_id (?f n) = i" "mu_last_request (?f n) = now" using n(2) by simp_all
    ultimately show ?thesis by blast
  next
    case False
    let ?new = "new_useful_node i addr now"
    let ?s = "sort_key (useful_key ops (info_hash rr) now) (useful_nodes rr @ [?new])"
    have "?s \<noteq> []" by (metis length_0_conv length_append_singleton length_sort nat.distinct(1))
    then have s: "set ?s = insert (last ?s) (set (butlast ?s))"
      by (rule set_last_butlast)
    have new: "mu_id ?new = i" "mu_last_request ?new = now" by (simp_all add: new_useful_node_def)
    have mem: "?new \<in> set ?s" by simp
    have r: "(let nodes = ?s in if length nodes > useful_nodes_limit rr
        then (rr\<lparr>useful_nodes := butlast nodes\<rparr>, mu_id (last nodes) \<noteq> i)
        else (rr\<lparr>useful_nodes := nodes\<rparr>, True)) = (rr1, True)"
      using should_request_new [OF depth False, of ops addr now] assms(2) by simp
    show ?thesis
    proof (cases "length ?s > useful_nodes_limit rr")
      case True
      with r have "useful_nodes rr1 = butlast ?s" "mu_id (last ?s) \<noteq> i" by (auto simp: Let_def)
      moreover have "?new \<in> set (butlast ?s)"
        using mem \<open>mu_id (last ?s) \<noteq> i\<close> new(1) unfolding s by (metis insertE)
      ultimately show ?thesis using new by auto
    next
      case False
      with r have "useful_nodes rr1 = ?s" by (auto simp: Let_def)
      with mem new show ?thesis by metis
    qed
  qed
  then obtain n where n: "n \<in> set (useful_nodes rr1)" "mu_id n = i" "mu_last_request n = now" by blast
  show ?thesis
  proof (cases "depth' < max_depth rr1")
    case True
    from should_request_known [OF True d1 n(1), of ops addr' now'] n(2,3) assms(3) show ?thesis by simp
  qed (simp add: should_request_deep)
qed

theorem asked_once_a_minute_witness:
  "\<exists>rr1. should_request_node id20_word 4 sample_addr 0 60000000011 sample_rr = (rr1, True)
    \<and> should_request_node id20_word 4 sample_addr 1 120000000011 rr1 = (rr1, False)"
proof -
  obtain rr1 where "should_request_node id20_word 4 sample_addr 0 60000000011 sample_rr = (rr1, True)"
    by (simp add: should_request_node_def sample_rr_def find_node_recursion_def from_secs_def)
  with asked_once_a_minute [OF sample_rr_inv this, of 120000000011 sample_addr 1] show ?thesis
    by (simp add: from_secs_def)
qed

section \<open>One step of a lookup\<close>

text \<open>
  C29. A step of a lookup never panics, whatever the network answers to its requests: with the
  callbacks of a search for nodes or for peers it keeps the routing tables, the peer store and the
  outstanding requests in order, the useful nodes distinct and within their limit, and no node in
  the queue of the recursion is deeper than the depth limit.
\<close>

theorem lookup_step_keeps_bounds:
  assumes "id20_api ops" and "stores_ok ops s" and "rr_inv rr"
    and "cb = callbacks_find_nodes ops \<or> cb = callbacks_get_peers ops d port"
  shows "\<exists>rr' s' result. request_one ops cb env1 env2 now1 now2 i addr depth r1 r2 rr s = Inr (rr', s', result)
    \<and> stores_ok ops s' \<and> inflight s' = inflight s \<and> distinct (map mu_id (useful_nodes rr'))
    \<and> length (useful_nodes rr') \<le> useful_nodes_limit rr
    \<and> (\<forall>(j, a, n) \<in> set (node_tx rr'). n \<le> max_depth rr) \<and> rr_inv rr'"
proof -
  have "recursion_callbacks ops cb"
    using assms(4) id20_api.find_nodes_contract [OF assms(1)] get_peers_callbacks by blast
  from recursion_callbacks.request_one_ok [OF this assms(2,3)] obtain rr' s' result where
    r: "request_one ops cb env1 env2 now1 now2 i addr depth r1 r2 rr s = Inr (rr', s', result)"
      "stores_ok ops s'" "inflight s' = inflight s" "rr_inv rr'" "max_depth rr' = max_depth rr"
      "useful_nodes_limit rr' = useful_nodes_limit rr" by blast
  from r(4) have "distinct (map mu_id (useful_nodes rr'))" "length (useful_nodes rr') \<le> useful_nodes_limit rr"
    "\<forall>(j, a, n) \<in> set (node_tx rr'). n \<le> max_depth rr"
    using r(5,6) by (simp_all add: rr_inv_def)
  with r(1-4) show ?thesis by blast
qed

theorem lookup_step_keeps_bounds_witness:
  "\<exists>rr' s' result. request_one id20_word (callbacks_find_nodes id20_word)
      \<lparr>ce_clk = (\<lambda>_. 1), ce_add_now = 1, ce_mark_now = 2\<rparr> \<lparr>ce_clk = (\<lambda>_. 3), ce_add_now = 3, ce_mark_now = 4\<rparr> 5 6
      (Some 7) sample_addr 0 (Inl DhtDead) (Inl (ResponseTimeout 9)) sample_rr
      (node_state (dht_start id20_word 0 5 sample_addr)) = Inr (rr', s', result)
    \<and> length (useful_nodes rr') \<le> useful_nodes_limit sample_rr"
proof -
  have ok: "stores_ok id20_word (node_state (dht_start id20_word 0 5 sample_addr))"
    using w20.dht_start_ok by (simp add: dht_inv_def)
  have cb: "callbacks_find_nodes id20_word = callbacks_find_nodes id20_word
      \<or> callbacks_find_nodes id20_word = callbacks_get_peers id20_word 0 None" by simp
  show ?thesis using lookup_step_keeps_bounds [OF id20_word_api ok sample_rr_inv cb] by metis
qed

text \<open>
  Every step makes its request twice, and only the second answer counts: when the first request
  is answered with peers and nodes and the second one fails, the step fails, and neither a
  peer nor a node of the first answer is passed on.
\<close>

theorem lookup_step_requests_twice:
  assumes "request_one ops cb env1 env2 now1 now2 i addr depth (Inr (ROE_Response r)) (Inl e) rr s
    = Inr (rr', s', result)"
  shows "rr_requests rr' = rr_requests rr @ [(rr_request rr, addr), (rr_request rr, addr)]
    \<and> result = Inl e \<and> peer_tx rr' = peer_tx rr \<and> node_tx rr' = node_tx rr"
  using assms
  by (auto simp: request_one_def request_one_begin_def request_one_middle_def request_one_end_def Let_def
      mark_node_responded_def mark_node_error_def and_then_eq_Inr)

theorem lookup_step_requests_twice_witness:
  "\<exists>rr' s'. request_one id20_word (callbacks_get_peers id20_word 0 None)
      \<lparr>ce_clk = (\<lambda>_. 1), ce_add_now = 1, ce_mark_now = 2\<rparr> \<lparr>ce_clk = (\<lambda>_. 3), ce_add_now = 3, ce_mark_now = 4\<rparr> 5 6
      None sample_addr 0 (Inr (ROE_Response ((default_response id20_word)\<lparr>resp_values := Some [sample_addr]\<rparr>)))
      (Inl DhtDead) sample_rr (node_state (dht_start id20_word 0 5 sample_addr)) = Inr (rr', s', Inl DhtDead)
    \<and> peer_tx rr' = [] \<and> rr_requests rr' = [(FindNode 5, sample_addr), (FindNode 5, sample_addr)]"
proof -
  obtain rr' s' where r: "request_one id20_word (callbacks_get_peers id20_word 0 None)
      \<lparr>ce_clk = (\<lambda>_. 1), ce_add_now = 1, ce_mark_now = 2\<rparr> \<lparr>ce_clk = (\<lambda>_. 3), ce_add_now = 3, ce_mark_now = 4\<rparr> 5 6
      None sample_addr 0 (Inr (ROE_Response ((default_response id20_word)\<lparr>resp_values := Some [sample_addr]\<rparr>)))
      (Inl DhtDead) sample_rr (node_state (dht_start id20_word 0 5 sample_addr)) = Inr (rr', s', Inl DhtDead)"
    by (simp add: request_one_def request_one_begin_def request_one_middle_def request_one_end_def Let_def)
  from lookup_step_requests_twice [OF r] r show ?thesis
    by (simp add: sample_rr_def find_node_recursion_def)
qed

section \<open>The roots of a lookup\<close>

lemma send_roots_alive:
  "node_rx_alive rr \<Longrightarrow> send_roots xs n rr
    = (rr\<lparr>node_tx := node_tx rr @ map (\<lambda>(i, a). (Some i, a, 0)) xs\<rparr>, Inr (n + length xs))"
  by (induction xs arbitrary: n rr) auto

text \<open>
  A lookup of peers starts at the eight best nodes: with the queue's receiver alive,
  \<^verbatim>\<open>get_peers_root\<close> appends at depth zero the first eight nodes of the routing table
  of the wanted family, in the order of \<^verbatim>\<open>sorted_by_distance_from\<close>, and returns
  their number, which is eight or, if fewer are stored, the number of stored nodes.
\<close>

theorem roots_are_the_best_nodes:
  fixes is_v4 :: bool
  assumes "id20_api ops" and "stores_ok ops s" and "node_rx_alive rr"
  defines "table \<equiv> if is_v4 then routing_table_v4 s else routing_table_v6 s"
  shows "\<exists>rr' nodes stored. sorted_by_distance_from ops table (info_hash rr) now = Some nodes
    \<and> rt_iter table = Some stored \<and> mset nodes = mset stored
    \<and> get_peers_root ops is_v4 now s rr = Inr (rr', Inr (min 8 (length stored)))
    \<and> node_tx rr' = node_tx rr @ map (\<lambda>n. (Some (node_id n), node_addr n, 0)) (take 8 nodes)"
proof -
  have inv: "rt_inv ops table" using assms(2) by (simp add: table_def stores_ok_def)
  obtain nodes where n: "sorted_by_distance_from ops table (info_hash rr) now = Some nodes"
    "mset nodes = mset (rt_nodes table)"
    using id20_api.sorted_nodes [OF assms(1) inv] by blast
  have "length nodes = length (rt_nodes table)" using n(2) by (metis size_mset)
  then have "get_peers_root ops is_v4 now s rr
      = Inr (rr\<lparr>node_tx := node_tx rr @ map (\<lambda>n. (Some (node_id n), node_addr n, 0)) (take 8 nodes)\<rparr>,
          Inr (min 8 (length (rt_nodes table))))"
    using n(1) by (simp add: get_peers_root_def table_def send_roots_alive [OF assms(3)] take_map comp_def min.commute)
  with n id20_api.rt_inv_iter(1) [OF assms(1) inv] show ?thesis by auto
qed

theorem roots_are_the_best_nodes_witness:
  "\<exists>rr'. get_peers_root id20_word True 8 (node_state (dht_start id20_word 0 5 sample_addr)) sample_rr = Inr (rr', Inr 0)"
proof -
  let ?s = "node_state (dht_start id20_word 0 5 sample_addr)"
  have ok: "stores_ok id20_word ?s" using w20.dht_start_ok by (simp add: dht_inv_def)
  have rx: "node_rx_alive sample_rr" by (simp add: sample_rr_def find_node_recursion_def)
  have t: "routing_table_v4 ?s = routing_table_new id20_word 5 None 0" by (simp add: dht_start_def dht_new_internal_def)
  have "rt_iter (routing_table_new id20_word 5 None 0) = Some []"
    using w20.rt_inv_iter(1) [OF w20.rt_inv_new(1)] w20.rt_inv_new(2) by simp
  with roots_are_the_best_nodes [OF id20_word_api ok rx, of True 8] show ?thesis by (auto simp: t)
qed

end
