(* ===== verification/Lookup.thy ===== *)
theory Lookup
  imports Recursive_Props
begin

text \<open>
  A whole lookup, \<^verbatim>\<open>find_node_for_routing_table\<close> of \<^verbatim>\<open>src/dht.rs\<close>:
  the loop that takes nodes from the queue and drives the requests for them, as a step relation
  over the queue and the requests that run, in any interleaving. It always ends.
\<close>

section \<open>Steps\<close>

text \<open>
  A request of the lookup has not been polled, waits for its first answer or waits for its second
  answer.
\<close>

datatype request_phase = Fresh | First_Wait | Second_Wait

type_synonym 'id target = "'id option \<times> socket_addr \<times> nat"

record 'id lookup =
  lk_rr :: "'id recursive_request"
  lk_futs :: "('id target \<times> request_phase) list"
  lk_results :: "(dht_error + unit) list"

definition lookup_start :: "'id \<Rightarrow> socket_addr list \<Rightarrow> 'id lookup" where
  "lookup_start target addrs = \<lparr>lk_rr = find_node_recursion target,
     lk_futs = map (\<lambda>addr. ((None, addr, 0), Fresh)) addrs, lk_results = []\<rparr>"

text \<open>
  The state of the node is shared with all other tasks, so a step may find it in any state
  \<open>s\<close>; what the step makes of it is a matter of the parts of \<^verbatim>\<open>request_one\<close>.
\<close>

inductive lookup_step :: "('id::linorder) id20_ops \<Rightarrow> 'id callbacks \<Rightarrow> 'id lookup \<Rightarrow> 'id lookup \<Rightarrow> bool"
  for ops cb where
  Receive: "node_tx (lk_rr l) = x # xs \<Longrightarrow>
    lookup_step ops cb l (l\<lparr>lk_rr := (lk_rr l)\<lparr>node_tx := xs\<rparr>, lk_futs := lk_futs l @ [(x, Fresh)]\<rparr>)"
| Poll: "lk_futs l = pre @ ((i, addr, depth), Fresh) # post \<Longrightarrow>
    request_one_begin cb env i addr (lk_rr l) s = Inr (rr, s') \<Longrightarrow>
    lookup_step ops cb l (l\<lparr>lk_rr := rr, lk_futs := pre @ ((i, addr, depth), First_Wait) # post\<rparr>)"
| Answer: "lk_futs l = pre @ ((i, addr, depth), First_Wait) # post \<Longrightarrow>
    request_one_middle cb env now i addr response (lk_rr l) s = Inr (rr, s') \<Longrightarrow>
    lookup_step ops cb l (l\<lparr>lk_rr := rr, lk_futs := pre @ ((i, addr, depth), Second_Wait) # post\<rparr>)"
| Finish: "lk_futs l = pre @ ((i, addr, depth), Second_Wait) # post \<Longrightarrow>
    request_one_end ops now addr depth response (lk_rr l) = (rr, result) \<Longrightarrow>
    lookup_step ops cb l (l\<lparr>lk_rr := rr, lk_futs := pre @ post, lk_results := lk_results l @ [result]\<rparr>)"

text \<open>The loop is left when nothing is queued and nothing runs; its result is that of all requests.\<close>

definition lookup_done :: "'id lookup \<Rightarrow> bool" where
  "lookup_done l \<longleftrightarrow> node_tx (lk_rr l) = [] \<and> lk_futs l = []"

definition lookup_result :: "'id lookup \<Rightarrow> dht_error + unit" where
  "lookup_result l = find_node_result (lk_results l)"

section \<open>What one step can add to the queue\<close>

definition queued_below :: "nat \<Rightarrow> 'id recursive_request \<Rightarrow> 'id recursive_request \<Rightarrow> bool" where
  "queued_below depth rr rr' \<longleftrightarrow> max_depth rr' = max_depth rr
     \<and> (\<exists>new. node_tx rr' = node_tx rr @ new \<and> (\<forall>(i, a, d) \<in> set new. d = depth + 1 \<and> depth < max_depth rr))"

lemma queued_refl: "max_depth rr' = max_depth rr \<Longrightarrow> node_tx rr' = node_tx rr \<Longrightarrow> queued_below depth rr rr'"
  by (simp add: queued_below_def)

lemma queued_trans: "queued_below depth a b \<Longrightarrow> queued_below depth b c \<Longrightarrow> queued_below depth a c"
  unfolding queued_below_def by (elim conjE exE, intro conjI exI [of _ "_ @ _"]) auto

lemma should_request_queued:
  assumes "should_request_node ops i addr depth now rr = (rr', asked)"
  shows "max_depth rr' = max_depth rr \<and> node_tx rr' = node_tx rr \<and> (asked \<longrightarrow> depth < max_depth rr)"
  using assms by (auto simp: should_request_node_def Let_def split: if_splits option.splits)

lemma send_nodes_queued: "send_nodes ops now depth ns rr = (rr', result) \<Longrightarrow> queued_below depth rr rr'"
proof (induction ns arbitrary: rr)
  case (Cons n ns)
  obtain rr1 asked where sr: "should_request_node ops (nid n) (naddr n) depth now rr = (rr1, asked)" by fastforce
  note q = should_request_queued [OF sr]
  let ?rr2 = "rr1\<lparr>node_tx := node_tx rr1 @ [(Some (nid n), naddr n, depth + 1)]\<rparr>"
  consider (sent) "asked" "send_nodes ops now depth ns ?rr2 = (rr', result)"
    | (gone) "rr' = rr1" | (skipped) "send_nodes ops now depth ns rr1 = (rr', result)"
    using Cons.prems sr by (auto simp: Let_def split: if_splits)
  then show ?case
  proof cases
    case sent
    with q have "queued_below depth rr ?rr2" by (simp add: queued_below_def)
    then show ?thesis using queued_trans Cons.IH [OF sent(2)] by blast
  next
    case skipped
    with q show ?thesis using queued_trans [OF queued_refl Cons.IH [OF skipped]] by simp
  qed (use q in \<open>simp add: queued_refl\<close>)
qed (simp add: queued_refl)

lemma send_peers_queued: "send_peers ps rr = (rr', result) \<Longrightarrow> max_depth rr' = max_depth rr \<and> node_tx rr' = node_tx rr"
proof (induction ps arbitrary: rr)
  case (Cons p ps)
  then show ?case by (fastforce split: if_splits)
qed simp

lemma request_one_end_queued:
  assumes "request_one_end ops now addr depth response rr = (rr', result)"
  shows "queued_below depth rr rr'"
proof (cases "\<exists>r. response = Inr (ROE_Response r)")
  case True
  then obtain r where r: "response = Inr (ROE_Response r)" by blast
  obtain rr1 res1 where sp: "send_peers (case resp_values r of Some ps \<Rightarrow> ps | None \<Rightarrow> []) rr = (rr1, res1)" by fastforce
  then have "queued_below depth rr rr1" using send_peers_queued queued_refl by blast
  moreover have "queued_below depth rr1 rr'"
    using assms r sp send_nodes_queued [of ops now depth _ rr1 rr' result]
    by (cases res1) (auto simp: request_one_end_def on_recursive_response_def queued_refl)
  ultimately show ?thesis by (rule queued_trans)
next
  case False
  then show ?thesis
    using assms by (auto simp: request_one_end_def mark_node_error_def queued_refl split: sum.splits response_or_error.splits)
qed

section \<open>The measure\<close>

text \<open>
  Every queued or running request weighs more the shallower it is and the less it has done. A
  step replaces one of them by lighter ones.
\<close>

definition weight :: "nat \<Rightarrow> nat \<Rightarrow> nat \<Rightarrow> nat" where
  "weight limit depth left = 4 * (limit + 1 - depth) + left"

fun phase_left :: "request_phase \<Rightarrow> nat" where
  "phase_left Fresh = 2"
| "phase_left First_Wait = 1"
| "phase_left Second_Wait = 0"

definition lookup_weight :: "'id lookup \<Rightarrow> nat multiset" where
  "lookup_weight l = image_mset (\<lambda>(i, a, d). weight (max_depth (lk_rr l)) d 3) (mset (node_tx (lk_rr l)))
     + image_mset (\<lambda>((i, a, d), p). weight (max_depth (lk_rr l)) d (phase_left p)) (mset (lk_futs l))"

lemma step_lighter:
  assumes "lookup_step ops cb l l'"
  shows "(lookup_weight l', lookup_weight l) \<in> mult less_than"
  using assms
proof cases
  case (Receive x xs)
  obtain i a d where x: "x = (i, a, d)" by (cases x)
  let ?D = "max_depth (lk_rr l)"
  let ?M = "image_mset (\<lambda>(i, a, d). weight ?D d 3) (mset xs)
    + image_mset (\<lambda>((i, a, d), p). weight ?D d (phase_left p)) (mset (lk_futs l))"
  have "lookup_weight l = ?M + {#weight ?D d 3#}" "lookup_weight l' = ?M + {#weight ?D d 2#}"
    using Receive x by (simp_all add: lookup_weight_def)
  then show ?thesis
    using one_step_implies_mult [of "{#weight ?D d 3#}" "{#weight ?D d 2#}" less_than ?M] by (simp add: weight_def)
next
  case (Poll pre i addr depth post env s rr s')
  then have rr: "max_depth rr = max_depth (lk_rr l)" "node_tx rr = node_tx (lk_rr l)"
    by (auto simp: request_one_begin_def and_then_eq_Inr)
  let ?D = "max_depth (lk_rr l)"
  let ?M = "image_mset (\<lambda>(i, a, d). weight ?D d 3) (mset (node_tx (lk_rr l)))
    + image_mset (\<lambda>((i, a, d), p). weight ?D d (phase_left p)) (mset (pre @ post))"
  have "lookup_weight l = ?M + {#weight ?D depth 2#}" "lookup_weight l' = ?M + {#weight ?D depth 1#}"
    using Poll rr by (simp_all add: lookup_weight_def)
  then show ?thesis
    using one_step_implies_mult [of "{#weight ?D depth 2#}" "{#weight ?D depth 1#}" less_than ?M] by (simp add: weight_def)
next
  case (Answer pre i addr depth post env now response s rr s')
  then have rr: "max_depth rr = max_depth (lk_rr l)" "node_tx rr = node_tx (lk_rr l)"
    by (auto simp: request_one_middle_def and_then_eq_Inr Let_def mark_node_responded_def split: sum.splits)
  let ?D = "max_depth (lk_rr l)"
  let ?M = "image_mset (\<lambda>(i, a, d). weight ?D d 3) (mset (node_tx (lk_rr l)))
    + image_mset (\<lambda>((i, a, d), p). weight ?D d (phase_left p)) (mset (pre @ post))"
  have "lookup_weight l = ?M + {#weight ?D depth 1#}" "lookup_weight l' = ?M + {#weight ?D depth 0#}"
    using Answer rr by (simp_all add: lookup_weight_def)
  then show ?thesis
    using one_step_implies_mult [of "{#weight ?D depth 1#}" "{#weight ?D depth 0#}" less_than ?M] by (simp add: weight_def)
next
  case (Finish pre i addr depth post now response rr result)
  let ?D = "max_depth (lk_rr l)"
  obtain new where new: "max_depth rr = ?D" "node_tx rr = node_tx (lk_rr l) @ new"
    "\<forall>(i, a, d) \<in> set new. d = depth + 1 \<and> depth < ?D"
    using request_one_end_queued [OF Finish(3)] by (auto simp: queued_below_def)
  let ?M = "image_mset (\<lambda>(i, a, d). weight ?D d 3) (mset (node_tx (lk_rr l)))
    + image_mset (\<lambda>((i, a, d), p). weight ?D d (phase_left p)) (mset (pre @ post))"
  let ?N = "image_mset (\<lambda>(i, a, d). weight ?D d 3) (mset new)"
  have "lookup_weight l = ?M + {#weight ?D depth 0#}" "lookup_weight l' = ?M + ?N"
    using Finish new by (simp_all add: lookup_weight_def)
  moreover have "\<forall>v \<in># ?N. v < weight ?D depth 0"
    using new(3) by (auto simp: weight_def)
  ultimately show ?thesis
    using one_step_implies_mult [of "{#weight ?D depth 0#}" ?N less_than ?M] by simp
qed

lemma lookup_step_wf: "wfp (\<lambda>l' l. lookup_step ops cb l l')"
proof -
  have "wf (inv_image (mult less_than) lookup_weight)" by (intro wf_inv_image wf_mult wf_less_than)
  then show ?thesis
    unfolding wfp_def by (rule wf_subset) (auto simp: step_lighter)
qed

inductive_cases lookup_stepE: "lookup_step ops cb l l'"

context recursion_callbacks
begin

text \<open>As long as something is queued or runs, a step is possible: the parts of a request cannot fail.\<close>

lemma lookup_progress:
  assumes "stores_ok ops s" and "\<not> lookup_done l"
  shows "\<exists>l'. lookup_step ops cb l l'"
proof (cases "node_tx (lk_rr l)")
  case (Cons x xs)
  then show ?thesis using lookup_step.Receive by blast
next
  case Nil
  with assms(2) obtain f fs where "lk_futs l = f # fs" by (cases "lk_futs l") (auto simp: lookup_done_def)
  moreover obtain i addr depth p where "f = ((i, addr, depth), p)" by (cases f) auto
  ultimately have f: "lk_futs l = [] @ ((i, addr, depth), p) # fs" by simp
  show ?thesis
  proof (cases p)
    case Fresh
    have "\<exists>rr s'. request_one_begin cb env i addr (lk_rr l) s = Inr (rr, s')" for env
      using start_ok [OF assms(1), of env "lk_rr l" "the i" addr] by (cases i) (auto simp: request_one_begin_def)
    then show ?thesis using lookup_step.Poll [OF f [unfolded Fresh]] by blast
  next
    case First_Wait
    have "\<exists>rr s'. request_one_middle cb env now i addr (Inl DhtDead) (lk_rr l) s = Inr (rr, s')" for env now
      using end_ok [OF assms(1), of env "lk_rr l" "the i" addr "Inl DhtDead"] by (cases i) (auto simp: request_one_middle_def Let_def)
    then show ?thesis using lookup_step.Answer [OF f [unfolded First_Wait]] by blast
  next
    case Second_Wait
    then show ?thesis using lookup_step.Finish [OF f [unfolded Second_Wait]] by (metis surj_pair)
  qed
qed

end

section \<open>Every lookup ends\<close>

lemma find_node_result_cases:
  "find_node_result rs = Inr () \<longleftrightarrow> (\<exists>u. Inr u \<in> set rs)"
  "(\<forall>u. Inr u \<notin> set rs) \<Longrightarrow> find_node_result rs = Inl (NoSuccessfulLookups (length rs))"
proof -
  have "filter (\<lambda>r. \<exists>u. r = Inr u) rs \<noteq> [] \<longleftrightarrow> (\<exists>u. Inr u \<in> set rs)" by (auto simp: filter_empty_conv)
  then show "find_node_result rs = Inr () \<longleftrightarrow> (\<exists>u. Inr u \<in> set rs)" by (auto simp: find_node_result_def Let_def)
  assume none: "\<forall>u. Inr u \<notin> set rs"
  then have "filter (\<lambda>r. \<exists>u. r = Inr u) rs = []" "filter (\<lambda>r. \<not> (\<exists>u. r = Inr u)) rs = rs"
    by (auto simp: filter_empty_conv filter_id_conv)
  then show "find_node_result rs = Inl (NoSuccessfulLookups (length rs))" by (simp add: find_node_result_def Let_def)
qed

text \<open>
  C9. A lookup always ends. Whatever the nodes answer and however the requests interleave with each
  other and with all other tasks of the node, no lookup takes infinitely many steps, because a node
  from an answer is only asked at a depth below the limit; and as long as something is queued or
  runs, a step is possible. So the lookup comes to its end, where it succeeds exactly if one of its
  requests did.
\<close>

theorem lookup_ends:
  assumes "id20_api (ops :: ('id::linorder) id20_ops)"
  shows "wfp (\<lambda>l' l. lookup_step ops (callbacks_find_nodes ops) l l')
    \<and> (\<forall>l. lookup_done l \<or> (\<exists>l'. lookup_step ops (callbacks_find_nodes ops) l l'))
    \<and> (\<forall>l :: 'id lookup. lookup_result l = Inr () \<longleftrightarrow> (\<exists>u. Inr u \<in> set (lk_results l)))"
proof -
  have "\<exists>l'. lookup_step ops (callbacks_find_nodes ops) l l'" if "\<not> lookup_done l" for l
  proof -
    fix i :: 'id
    have "stores_ok ops (node_state (dht_start ops 0 i (V4 \<lparr>ip4 = 0, port4 = 0\<rparr>)))"
      using id20_api.dht_start_ok [OF assms] by (simp add: dht_inv_def)
    from recursion_callbacks.lookup_progress [OF id20_api.find_nodes_contract [OF assms] this that]
    show ?thesis .
  qed
  then show ?thesis using lookup_step_wf by (auto simp: lookup_result_def find_node_result_cases)
qed

theorem lookup_ends_witness:
  "\<exists>l'. lookup_step id20_word (callbacks_find_nodes id20_word) (lookup_start 5 [sample_addr]) l'"
proof -
  have "\<not> lookup_done (lookup_start 5 [sample_addr])" by (simp add: lookup_done_def lookup_start_def)
  then show ?thesis using lookup_ends [OF id20_word_api] by blast
qed

end
