(* ===== verification/Wire.thy ===== *)
theory Wire
  imports Messages Id20_Word
begin

text \<open>
  The wire format of the messages, the serialization code of \<^verbatim>\<open>src/bprotocol.rs\<close>:
  compact nodes, the hand-written and derived conversions between messages and bencode values, and
  the two passes of \<^verbatim>\<open>deserialize_message\<close>. The bencode library, the compact
  addresses and the compact lists of other crates are parameters.
\<close>

section \<open>Compact nodes\<close>

lemma those_map_Some [simp]: "those (map Some xs) = Some xs"
  by (induction xs) simp_all

text \<open>
  A codec of fixed length, lossless on the values that \<open>ok\<close> accepts: what compact lists
  rely on.
\<close>

definition list_from_slice :: "nat \<Rightarrow> (bytes \<Rightarrow> 'a option) \<Rightarrow> bytes \<Rightarrow> 'a list option" where
  "list_from_slice len f bs = (if length bs mod len \<noteq> 0 then None
     else those (map (\<lambda>i. f (take len (drop (i * len) bs))) [0..<length bs div len]))"

locale fixed_codec =
  fixes len :: nat and as_slice :: "'a \<Rightarrow> bytes" and from_slice :: "bytes \<Rightarrow> 'a option"
    and ok :: "'a \<Rightarrow> bool"
  assumes len_pos: "0 < len"
    and slice_length: "length (as_slice x) = len"
    and from_as_slice: "ok x \<Longrightarrow> from_slice (as_slice x) = Some x"
    and from_other_length: "length bs \<noteq> len \<Longrightarrow> from_slice bs = None"
begin

lemma length_concat_slices [simp]: "length (concat (map as_slice xs)) = len * length xs"
  by (induction xs) (simp_all add: slice_length)

text \<open>Items that follow each other in a buffer can be read back.\<close>

lemma take_drop_slices:
  "i < length xs \<Longrightarrow> take len (drop (i * len) (concat (map as_slice xs))) = as_slice (xs ! i)"
proof (induction xs arbitrary: i)
  case (Cons x xs)
  then show ?case by (cases i) (simp_all add: slice_length)
qed simp

lemma list_roundtrip:
  assumes "\<forall>x\<in>set xs. ok x"
  shows "list_from_slice len from_slice (concat (map as_slice xs)) = Some xs"
proof -
  have "map (\<lambda>i. from_slice (take len (drop (i * len) (concat (map as_slice xs))))) [0..<length xs] = map Some xs"
    by (rule nth_equalityI) (simp_all add: take_drop_slices from_as_slice assms)
  then show ?thesis using len_pos by (simp add: list_from_slice_def those_map_Some)
qed

end

text \<open>The address codec of the other crate: a length and two conversions.\<close>

record 'a addr_codec =
  addr_len :: nat
  addr_as_slice :: "'a \<Rightarrow> bytes"
  addr_from_slice_unchecked_len :: "bytes \<Rightarrow> 'a"

definition node_as_slice :: "'id id20_ops \<Rightarrow> 'a addr_codec \<Rightarrow> ('id, 'a) node \<Rightarrow> bytes" where
  "node_as_slice ops ac n = id_bytes ops (nid n) @ addr_as_slice ac (naddr n)"

definition node_from_slice_unchecked_len :: "'id id20_ops \<Rightarrow> 'a addr_codec \<Rightarrow> bytes \<Rightarrow> ('id, 'a) node" where
  "node_from_slice_unchecked_len ops ac buf =
     \<lparr>nid = id_new ops (take 20 buf), naddr = addr_from_slice_unchecked_len ac (drop 20 buf)\<rparr>"

definition node_fixed_len :: "'a addr_codec \<Rightarrow> nat" where
  "node_fixed_len ac = 20 + addr_len ac"

definition node_from_slice :: "'id id20_ops \<Rightarrow> 'a addr_codec \<Rightarrow> bytes \<Rightarrow> ('id, 'a) node option" where
  "node_from_slice ops ac buf =
     (if length buf \<noteq> node_fixed_len ac then None else Some (node_from_slice_unchecked_len ops ac buf))"

text \<open>
  What the address codec has to keep: the length, and the addresses that the format can carry
  (it has no place for the flow label and the scope of an IPv6 address).
\<close>

definition addr_codec_ok :: "'a addr_codec \<Rightarrow> ('a \<Rightarrow> bool) \<Rightarrow> bool" where
  "addr_codec_ok ac ok \<longleftrightarrow> (\<forall>a. length (addr_as_slice ac a) = addr_len ac
     \<and> (ok a \<longrightarrow> addr_from_slice_unchecked_len ac (addr_as_slice ac a) = a))"

lemma node_codec:
  assumes "id20_api ops" and "addr_codec_ok ac ok"
  shows "fixed_codec (node_fixed_len ac) (node_as_slice ops ac) (node_from_slice ops ac) (\<lambda>n. ok (naddr n))"
proof
  show "length (node_as_slice ops ac x) = node_fixed_len ac" for x
    using assms by (simp add: node_as_slice_def node_fixed_len_def id20_api.length_bytes addr_codec_ok_def)
  then show "node_from_slice ops ac (node_as_slice ops ac x) = Some x" if "ok (naddr x)" for x
    using assms that by (simp add: node_from_slice_def node_from_slice_unchecked_len_def node_as_slice_def
        id20_api.length_bytes id20_api.new_bytes addr_codec_ok_def)
qed (simp_all add: node_from_slice_def node_fixed_len_def)

text \<open>The compact addresses of BEP 5 and BEP 32, for nodes of 26 and 38 bytes.\<close>

definition be_bytes :: "nat \<Rightarrow> 'w::len word \<Rightarrow> bytes" where
  "be_bytes n w = map (\<lambda>i. ucast (drop_bit (8 * i) w)) (rev [0..<n])"

definition be_word :: "bytes \<Rightarrow> 'w::len word" where
  "be_word = foldl (\<lambda>w b. push_bit 8 w OR ucast b) 0"

lemma foldl_be_bytes:
  "foldl (\<lambda>w b. push_bit 8 w OR ucast b) a (be_bytes n w) = (push_bit (8 * n) a OR take_bit (8 * n) w :: 'w::len word)"
proof (induction n arbitrary: a)
  case (Suc n)
  have "foldl (\<lambda>w b. push_bit 8 w OR ucast b) a (be_bytes (Suc n) w)
      = push_bit (8 * n) (push_bit 8 a OR ucast (ucast (drop_bit (8 * n) w) :: u8)) OR take_bit (8 * n) w"
    using Suc.IH by (simp add: be_bytes_def)
  also have "\<dots> = push_bit (8 * Suc n) a OR take_bit (8 * Suc n) w"
    by (rule bit_word_eqI) (auto simp: bit_simps add.commute less_diff_conv2)
  finally show ?case .
qed (simp add: be_bytes_def)

lemma length_be_bytes [simp]: "length (be_bytes n w) = n"
  by (simp add: be_bytes_def)

lemma be_word_be_bytes: "LENGTH('w) \<le> 8 * n \<Longrightarrow> be_word (be_bytes n w) = (w :: 'w::len word)"
  by (simp add: be_word_def foldl_be_bytes take_bit_word_eq_self)

definition compact_v4 :: "socket_addr_v4 addr_codec" where
  "compact_v4 = \<lparr>addr_len = 6, addr_as_slice = (\<lambda>a. be_bytes 4 (ip4 a) @ be_bytes 2 (port4 a)),
     addr_from_slice_unchecked_len = (\<lambda>b. \<lparr>ip4 = be_word (take 4 b), port4 = be_word (drop 4 b)\<rparr>)\<rparr>"

definition compact_v6 :: "socket_addr_v6 addr_codec" where
  "compact_v6 = \<lparr>addr_len = 18, addr_as_slice = (\<lambda>a. be_bytes 16 (ip6 a) @ be_bytes 2 (port6 a)),
     addr_from_slice_unchecked_len = (\<lambda>b. \<lparr>ip6 = be_word (take 16 b), port6 = be_word (drop 16 b),
       flowinfo = 0, scope_id = 0\<rparr>)\<rparr>"

definition plain_v6 :: "socket_addr_v6 \<Rightarrow> bool" where
  "plain_v6 a \<longleftrightarrow> flowinfo a = 0 \<and> scope_id a = 0"

lemma compact_v4_ok: "addr_codec_ok compact_v4 (\<lambda>_. True)"
  by (simp add: addr_codec_ok_def compact_v4_def be_word_be_bytes)

lemma compact_v6_ok: "addr_codec_ok compact_v6 plain_v6"
  by (simp add: addr_codec_ok_def compact_v6_def plain_v6_def be_word_be_bytes)

interpretation node4: fixed_codec 26 "node_as_slice id20_word compact_v4" "node_from_slice id20_word compact_v4" "\<lambda>_. True"
  using node_codec [OF id20_word_api compact_v4_ok] by (simp add: node_fixed_len_def compact_v4_def)

interpretation node6: fixed_codec 38 "node_as_slice id20_word compact_v6" "node_from_slice id20_word compact_v6"
    "\<lambda>n. plain_v6 (naddr n)"
  using node_codec [OF id20_word_api compact_v6_ok] by (simp add: node_fixed_len_def compact_v6_def)

section \<open>Bencode values\<close>

datatype bvalue = BInt int | BBytes bytes | BList "bvalue list" | BDict "(bytes \<times> bvalue) list"

text \<open>A struct with its fields in the order of their keys; absent optional fields are skipped.\<close>

definition struct_fields :: "(string \<times> bvalue option) list \<Rightarrow> (bytes \<times> bvalue) list" where
  "struct_fields fs = concat (map (\<lambda>(k, v). case v of Some v \<Rightarrow> [(ascii k, v)] | None \<Rightarrow> []) fs)"

definition struct_value :: "(string \<times> bvalue option) list \<Rightarrow> bvalue" where
  "struct_value fs = BDict (struct_fields fs)"

text \<open>
  A field of a derived \<^verbatim>\<open>Deserialize\<close>: absent, there, or an error because it is there
  twice. Fields with other keys are ignored.
\<close>

definition get_field :: "string \<Rightarrow> (bytes \<times> bvalue) list \<Rightarrow> bvalue option option" where
  "get_field k fs = (case filter (\<lambda>e. fst e = ascii k) fs of
     [] \<Rightarrow> Some None
   | [e] \<Rightarrow> Some (Some (snd e))
   | _ \<Rightarrow> None)"

definition required :: "string \<Rightarrow> (bvalue \<Rightarrow> 'a option) \<Rightarrow> (bytes \<times> bvalue) list \<Rightarrow> 'a option" where
  "required k p fs = Option.bind (get_field k fs) (\<lambda>v. case v of Some v \<Rightarrow> p v | None \<Rightarrow> None)"

definition optional :: "string \<Rightarrow> (bvalue \<Rightarrow> 'a option) \<Rightarrow> (bytes \<times> bvalue) list \<Rightarrow> 'a option option" where
  "optional k p fs = Option.bind (get_field k fs) (\<lambda>v. case v of Some v \<Rightarrow> map_option Some (p v) | None \<Rightarrow> Some None)"

fun struct_of :: "((bytes \<times> bvalue) list \<Rightarrow> 'a option) \<Rightarrow> bvalue \<Rightarrow> 'a option" where
  "struct_of p (BDict fs) = p fs"
| "struct_of p _ = None"

fun bytes_of :: "bvalue \<Rightarrow> bytes option" where
  "bytes_of (BBytes b) = Some b"
| "bytes_of _ = None"

fun int_of :: "int \<Rightarrow> int \<Rightarrow> bvalue \<Rightarrow> int option" where
  "int_of lo hi (BInt i) = (if lo \<le> i \<and> i < hi then Some i else None)"
| "int_of lo hi _ = None"

definition i32_of :: "bvalue \<Rightarrow> i32 option" where
  "i32_of = int_of (- (2 ^ 31)) (2 ^ 31)"

definition i64_of :: "bvalue \<Rightarrow> i64 option" where
  "i64_of = int_of (- (2 ^ 63)) (2 ^ 63)"

definition word_of :: "bvalue \<Rightarrow> ('w::len) word option" where
  "word_of v = map_option word_of_int (int_of 0 (2 ^ LENGTH('w)) v)"

definition word_value :: "('w::len) word \<Rightarrow> bvalue" where
  "word_value w = BInt (uint w)"

definition ignored_any :: "bvalue \<Rightarrow> unit option" where
  "ignored_any v = Some ()"

fun list_of :: "(bvalue \<Rightarrow> 'a option) \<Rightarrow> bvalue \<Rightarrow> 'a list option" where
  "list_of p (BList vs) = those (map p vs)"
| "list_of p _ = None"

section \<open>Hand-written conversions\<close>

fun message_type_value :: "message_type \<Rightarrow> bvalue" where
  "message_type_value Request_Type = BBytes (ascii ''q'')"
| "message_type_value Response_Type = BBytes (ascii ''r'')"
| "message_type_value Error_Type = BBytes (ascii ''e'')"

definition message_type_of :: "bvalue \<Rightarrow> message_type option" where
  "message_type_of v = Option.bind (bytes_of v) (\<lambda>b.
     if b = ascii ''q'' then Some Request_Type
     else if b = ascii ''r'' then Some Response_Type
     else if b = ascii ''e'' then Some Error_Type
     else None)"

definition error_description_value :: "error_description \<Rightarrow> bvalue" where
  "error_description_value e = BList [BInt (code e), BBytes (description e)]"

fun error_description_of :: "bvalue \<Rightarrow> error_description option" where
  "error_description_of (BList (c # d # rest)) = Option.bind (i32_of c) (\<lambda>c. Option.bind (bytes_of d) (\<lambda>d.
     if rest \<noteq> [] then None else Some \<lparr>code = c, description = d\<rparr>))"
| "error_description_of _ = None"

fun want_value :: "want \<Rightarrow> bvalue" where
  "want_value Want_V4 = BList [BBytes (ascii ''n4'')]"
| "want_value Want_V6 = BList [BBytes (ascii ''n6'')]"
| "want_value Want_Both = BList [BBytes (ascii ''n4''), BBytes (ascii ''n6'')]"
| "want_value Want_None = BList []"

definition want_of :: "bvalue \<Rightarrow> want option" where
  "want_of v = map_option (\<lambda>items.
     let want_v4 = ascii ''n4'' \<in> set items; want_v6 = ascii ''n6'' \<in> set items
     in if want_v4 \<and> want_v6 then Want_Both else if want_v4 then Want_V4 else if want_v6 then Want_V6
        else Want_None) (list_of bytes_of v)"

section \<open>Parameters\<close>

text \<open>
  The libraries: bencode values as bytes, identifiers, compact addresses and lists of compact nodes.
\<close>

record 'id wire =
  w_bencode :: "bvalue \<Rightarrow> bytes"
  w_bdecode :: "bytes \<Rightarrow> bvalue option"
  w_id :: "'id \<Rightarrow> bytes"
  w_id_of :: "bytes \<Rightarrow> 'id option"
  w_addr :: "socket_addr \<Rightarrow> bytes"
  w_addr_of :: "bytes \<Rightarrow> socket_addr option"
  w_nodes4 :: "'id node4 list \<Rightarrow> bytes"
  w_nodes4_of :: "bytes \<Rightarrow> 'id node4 list option"
  w_nodes6 :: "'id node6 list \<Rightarrow> bytes"
  w_nodes6_of :: "bytes \<Rightarrow> 'id node6 list option"

definition id_value :: "'id wire \<Rightarrow> 'id \<Rightarrow> bvalue" where
  "id_value w i = BBytes (w_id w i)"

definition id_of :: "'id wire \<Rightarrow> bvalue \<Rightarrow> 'id option" where
  "id_of w v = Option.bind (bytes_of v) (w_id_of w)"

definition addr_value :: "'id wire \<Rightarrow> socket_addr \<Rightarrow> bvalue" where
  "addr_value w a = BBytes (w_addr w a)"

definition addr_of :: "'id wire \<Rightarrow> bvalue \<Rightarrow> socket_addr option" where
  "addr_of w v = Option.bind (bytes_of v) (w_addr_of w)"

section \<open>Derived conversions\<close>

definition find_node_value :: "'id wire \<Rightarrow> 'id find_node_request \<Rightarrow> bvalue" where
  "find_node_value w q = struct_value [(''id'', Some (id_value w (fn_id q))),
     (''target'', Some (id_value w (fn_target q))), (''want'', map_option want_value (fn_want q))]"

definition find_node_of :: "'id wire \<Rightarrow> bvalue \<Rightarrow> 'id find_node_request option" where
  "find_node_of w = struct_of (\<lambda>fs. Option.bind (required ''id'' (id_of w) fs) (\<lambda>i.
     Option.bind (required ''target'' (id_of w) fs) (\<lambda>t. Option.bind (optional ''want'' want_of fs) (\<lambda>wt.
     Some \<lparr>fn_id = i, fn_target = t, fn_want = wt\<rparr>))))"

definition get_peers_value :: "'id wire \<Rightarrow> 'id get_peers_request \<Rightarrow> bvalue" where
  "get_peers_value w q = struct_value [(''id'', Some (id_value w (gp_id q))),
     (''info_hash'', Some (id_value w (gp_info_hash q))), (''want'', map_option want_value (gp_want q))]"

definition get_peers_of :: "'id wire \<Rightarrow> bvalue \<Rightarrow> 'id get_peers_request option" where
  "get_peers_of w = struct_of (\<lambda>fs. Option.bind (required ''id'' (id_of w) fs) (\<lambda>i.
     Option.bind (required ''info_hash'' (id_of w) fs) (\<lambda>h. Option.bind (optional ''want'' want_of fs) (\<lambda>wt.
     Some \<lparr>gp_id = i, gp_info_hash = h, gp_want = wt\<rparr>))))"

definition ping_value :: "'id wire \<Rightarrow> 'id ping_request \<Rightarrow> bvalue" where
  "ping_value w q = struct_value [(''id'', Some (id_value w (ping_id q)))]"

definition ping_of :: "'id wire \<Rightarrow> bvalue \<Rightarrow> 'id ping_request option" where
  "ping_of w = struct_of (\<lambda>fs. Option.bind (required ''id'' (id_of w) fs) (\<lambda>i. Some \<lparr>ping_id = i\<rparr>))"

definition announce_value :: "'id wire \<Rightarrow> 'id announce_peer \<Rightarrow> bvalue" where
  "announce_value w q = struct_value [(''id'', Some (id_value w (ap_id q))),
     (''implied_port'', Some (word_value (implied_port q))), (''info_hash'', Some (id_value w (ap_info_hash q))),
     (''port'', Some (word_value (ap_port q))), (''token'', Some (BBytes (ap_token q)))]"

definition announce_of :: "'id wire \<Rightarrow> bvalue \<Rightarrow> 'id announce_peer option" where
  "announce_of w = struct_of (\<lambda>fs. Option.bind (required ''id'' (id_of w) fs) (\<lambda>i.
     Option.bind (required ''implied_port'' word_of fs) (\<lambda>ip. Option.bind (required ''info_hash'' (id_of w) fs) (\<lambda>h.
     Option.bind (required ''port'' word_of fs) (\<lambda>p. Option.bind (required ''token'' bytes_of fs) (\<lambda>t.
     Some \<lparr>ap_id = i, implied_port = ip, ap_info_hash = h, ap_port = p, ap_token = t\<rparr>))))))"

definition bep44_get_value :: "'id wire \<Rightarrow> 'id bep44_get_request \<Rightarrow> bvalue" where
  "bep44_get_value w q = struct_value [(''id'', Some (id_value w (bg_id q))),
     (''seq'', map_option BInt (bg_seq q)), (''target'', Some (id_value w (bg_target q)))]"

definition bep44_get_of :: "'id wire \<Rightarrow> bvalue \<Rightarrow> 'id bep44_get_request option" where
  "bep44_get_of w = struct_of (\<lambda>fs. Option.bind (required ''id'' (id_of w) fs) (\<lambda>i.
     Option.bind (required ''target'' (id_of w) fs) (\<lambda>t. Option.bind (optional ''seq'' i64_of fs) (\<lambda>s.
     Some \<lparr>bg_id = i, bg_target = t, bg_seq = s\<rparr>))))"

definition bep44_put_value :: "'id wire \<Rightarrow> 'id bep44_put_request \<Rightarrow> bvalue" where
  "bep44_put_value w q = struct_value [(''cas'', map_option BInt (bp_cas q)), (''id'', Some (id_value w (bp_id q))),
     (''k'', Some (BBytes (bp_k q))), (''salt'', map_option BBytes (bp_salt q)), (''seq'', Some (BInt (bp_seq q))),
     (''sig'', Some (BBytes (bp_sig q))), (''token'', Some (BBytes (bp_token q))), (''v'', Some (BBytes (bp_v q)))]"

definition bep44_put_of :: "'id wire \<Rightarrow> bvalue \<Rightarrow> 'id bep44_put_request option" where
  "bep44_put_of w = struct_of (\<lambda>fs. Option.bind (required ''id'' (id_of w) fs) (\<lambda>i.
     Option.bind (required ''token'' bytes_of fs) (\<lambda>t. Option.bind (required ''k'' bytes_of fs) (\<lambda>k.
     Option.bind (required ''sig'' bytes_of fs) (\<lambda>sg. Option.bind (required ''seq'' i64_of fs) (\<lambda>s.
     Option.bind (required ''v'' bytes_of fs) (\<lambda>v. Option.bind (optional ''salt'' bytes_of fs) (\<lambda>salt.
     Option.bind (optional ''cas'' i64_of fs) (\<lambda>c.
     Some \<lparr>bp_id = i, bp_token = t, bp_k = k, bp_sig = sg, bp_seq = s, bp_v = v, bp_salt = salt, bp_cas = c\<rparr>)))))))))"

definition response_value :: "'id wire \<Rightarrow> 'id response \<Rightarrow> bvalue" where
  "response_value w r = struct_value [(''id'', Some (id_value w (resp_id r))),
     (''k'', map_option BBytes (resp_k r)), (''nodes'', map_option (\<lambda>ns. BBytes (w_nodes4 w ns)) (resp_nodes r)),
     (''nodes6'', map_option (\<lambda>ns. BBytes (w_nodes6 w ns)) (resp_nodes6 r)), (''seq'', map_option BInt (resp_seq r)),
     (''sig'', map_option BBytes (resp_sig r)), (''token'', map_option BBytes (resp_token r)),
     (''v'', map_option BBytes (resp_v r)),
     (''values'', map_option (\<lambda>as. BList (map (addr_value w) as)) (resp_values r))]"

definition response_of :: "'id wire \<Rightarrow> bvalue \<Rightarrow> 'id response option" where
  "response_of w = struct_of (\<lambda>fs. Option.bind (optional ''values'' (list_of (addr_of w)) fs) (\<lambda>vs.
     Option.bind (required ''id'' (id_of w) fs) (\<lambda>i.
     Option.bind (optional ''nodes'' (\<lambda>v. Option.bind (bytes_of v) (w_nodes4_of w)) fs) (\<lambda>n4.
     Option.bind (optional ''nodes6'' (\<lambda>v. Option.bind (bytes_of v) (w_nodes6_of w)) fs) (\<lambda>n6.
     Option.bind (optional ''token'' bytes_of fs) (\<lambda>t. Option.bind (optional ''v'' bytes_of fs) (\<lambda>v.
     Option.bind (optional ''k'' bytes_of fs) (\<lambda>k. Option.bind (optional ''sig'' bytes_of fs) (\<lambda>sg.
     Option.bind (optional ''seq'' i64_of fs) (\<lambda>s.
     Some \<lparr>resp_values = vs, resp_id = i, resp_nodes = n4, resp_nodes6 = n6, resp_token = t, resp_v = v,
       resp_k = k, resp_sig = sg, resp_seq = s\<rparr>))))))))))"

section \<open>Messages\<close>

record ('a, 'r) raw_message =
  raw_message_type :: message_type
  raw_transaction_id :: bytes
  raw_error :: "error_description option"
  raw_response :: "'r option"
  raw_method_name :: "bytes option"
  raw_arguments :: "'a option"
  raw_version :: "bytes option"
  raw_ip :: "socket_addr option"

definition raw_message_value ::
    "'id wire \<Rightarrow> ('a \<Rightarrow> bvalue) \<Rightarrow> ('r \<Rightarrow> bvalue) \<Rightarrow> ('a, 'r) raw_message \<Rightarrow> bvalue" where
  "raw_message_value w args resp m = struct_value [(''a'', map_option args (raw_arguments m)),
     (''e'', map_option error_description_value (raw_error m)), (''ip'', map_option (addr_value w) (raw_ip m)),
     (''q'', map_option BBytes (raw_method_name m)), (''r'', map_option resp (raw_response m)),
     (''t'', Some (BBytes (raw_transaction_id m))), (''v'', map_option BBytes (raw_version m)),
     (''y'', Some (message_type_value (raw_message_type m)))]"

definition raw_message_of ::
    "'id wire \<Rightarrow> (bvalue \<Rightarrow> 'a option) \<Rightarrow> (bvalue \<Rightarrow> 'r option) \<Rightarrow> bvalue \<Rightarrow> ('a, 'r) raw_message option" where
  "raw_message_of w args resp = struct_of (\<lambda>fs. Option.bind (required ''y'' message_type_of fs) (\<lambda>y.
     Option.bind (required ''t'' bytes_of fs) (\<lambda>t. Option.bind (optional ''e'' error_description_of fs) (\<lambda>e.
     Option.bind (optional ''r'' resp fs) (\<lambda>r. Option.bind (optional ''q'' bytes_of fs) (\<lambda>q.
     Option.bind (optional ''a'' args fs) (\<lambda>a. Option.bind (optional ''v'' bytes_of fs) (\<lambda>v.
     Option.bind (optional ''ip'' (addr_of w) fs) (\<lambda>ip.
     Some \<lparr>raw_message_type = y, raw_transaction_id = t, raw_error = e, raw_response = r, raw_method_name = q,
       raw_arguments = a, raw_version = v, raw_ip = ip\<rparr>)))))))))"

definition request_value ::
    "'id wire \<Rightarrow> bytes \<Rightarrow> bytes option \<Rightarrow> socket_addr option \<Rightarrow> string \<Rightarrow> bvalue \<Rightarrow> bvalue" where
  "request_value w tid ver ip method_name args = raw_message_value w (\<lambda>v. v) (\<lambda>_ :: unit. BList [])
     \<lparr>raw_message_type = Request_Type, raw_transaction_id = tid, raw_error = None, raw_response = None,
      raw_method_name = Some (ascii method_name), raw_arguments = Some args, raw_version = ver, raw_ip = ip\<rparr>"

definition serialize_message ::
    "'id wire \<Rightarrow> bytes \<Rightarrow> bytes option \<Rightarrow> socket_addr option \<Rightarrow> 'id message_kind \<Rightarrow> bytes" where
  "serialize_message w tid ver ip kind = w_bencode w (case kind of
      MK_Error e \<Rightarrow> raw_message_value w (\<lambda>_ :: unit. BList []) (\<lambda>_ :: unit. BList [])
        \<lparr>raw_message_type = Error_Type, raw_transaction_id = tid, raw_error = Some e, raw_response = None,
         raw_method_name = None, raw_arguments = None, raw_version = ver, raw_ip = ip\<rparr>
    | MK_GetPeersRequest q \<Rightarrow> request_value w tid ver ip ''get_peers'' (get_peers_value w q)
    | MK_FindNodeRequest q \<Rightarrow> request_value w tid ver ip ''find_node'' (find_node_value w q)
    | MK_Response r \<Rightarrow> raw_message_value w (\<lambda>_ :: unit. BList []) (response_value w)
        \<lparr>raw_message_type = Response_Type, raw_transaction_id = tid, raw_error = None, raw_response = Some r,
         raw_method_name = None, raw_arguments = None, raw_version = ver, raw_ip = ip\<rparr>
    | MK_PingRequest q \<Rightarrow> request_value w tid ver ip ''ping'' (ping_value w q)
    | MK_AnnouncePeer q \<Rightarrow> request_value w tid ver ip ''announce_peer'' (announce_value w q)
    | MK_Bep44GetRequest q \<Rightarrow> request_value w tid ver ip ''get'' (bep44_get_value w q)
    | MK_Bep44PutRequest q \<Rightarrow> request_value w tid ver ip ''put'' (bep44_put_value w q))"

datatype parse_error =
    BencodeError
  | UnsupportedMethod bytes
  | NotARequest
  | NotAResponse
  | NotAnError

text \<open>
  The second pass over the buffer, with the type that the first pass found, and the message with
  the kind built from its arguments (\<^verbatim>\<open>unwrap\<close> is safe there).
\<close>

definition second_pass ::
    "'id wire \<Rightarrow> (bvalue \<Rightarrow> 'a option) \<Rightarrow> (bvalue \<Rightarrow> 'r option)
      \<Rightarrow> (('a, 'r) raw_message \<Rightarrow> 'id message_kind option) \<Rightarrow> bytes \<Rightarrow> parse_error + 'id message" where
  "second_pass w args resp kind buf = (case Option.bind (w_bdecode w buf) (raw_message_of w args resp) of
     None \<Rightarrow> Inl BencodeError
   | Some de \<Rightarrow> (case kind de of
       None \<Rightarrow> Inl BencodeError
     | Some k \<Rightarrow> Inr \<lparr>msg_kind = k, transaction_id = raw_transaction_id de, version = raw_version de,
         msg_ip = raw_ip de\<rparr>))"

definition deserialize_message ::
    "'id wire \<Rightarrow> bytes \<Rightarrow> parse_error + 'id message" where
  "deserialize_message w buf =
    (case Option.bind (w_bdecode w buf) (raw_message_of w ignored_any ignored_any) of
       None \<Rightarrow> Inl BencodeError
     | Some de \<Rightarrow> (case raw_message_type de of
         Request_Type \<Rightarrow> (case (raw_arguments de, raw_method_name de, raw_response de, raw_error de) of
             (Some _, Some method_name, None, None) \<Rightarrow>
               (if method_name = ascii ''find_node'' then
                  second_pass w (find_node_of w) ignored_any (\<lambda>de. map_option MK_FindNodeRequest (raw_arguments de)) buf
                else if method_name = ascii ''get_peers'' then
                  second_pass w (get_peers_of w) ignored_any (\<lambda>de. map_option MK_GetPeersRequest (raw_arguments de)) buf
                else if method_name = ascii ''ping'' then
                  second_pass w (ping_of w) ignored_any (\<lambda>de. map_option MK_PingRequest (raw_arguments de)) buf
                else if method_name = ascii ''announce_peer'' then
                  second_pass w (announce_of w) ignored_any (\<lambda>de. map_option MK_AnnouncePeer (raw_arguments de)) buf
                else if method_name = ascii ''get'' then
                  second_pass w (bep44_get_of w) ignored_any (\<lambda>de. map_option MK_Bep44GetRequest (raw_arguments de)) buf
                else if method_name = ascii ''put'' then
                  second_pass w (bep44_put_of w) ignored_any (\<lambda>de. map_option MK_Bep44PutRequest (raw_arguments de)) buf
                else Inl (UnsupportedMethod method_name))
           | _ \<Rightarrow> Inl NotARequest)
       | Response_Type \<Rightarrow> (case (raw_arguments de, raw_response de, raw_error de) of
             (None, Some _, None) \<Rightarrow>
               second_pass w ignored_any (response_of w) (\<lambda>de. map_option MK_Response (raw_response de)) buf
           | _ \<Rightarrow> Inl NotAResponse)
       | Error_Type \<Rightarrow> (case (raw_arguments de, raw_response de, raw_error de) of
             (None, None, Some _) \<Rightarrow>
               second_pass w ignored_any (response_of w) (\<lambda>de. map_option MK_Error (raw_error de)) buf
           | _ \<Rightarrow> Inl NotAnError)))"

end
