(* ===== verification/Bencode.thy ===== *)
theory Bencode
  imports Wire Bep44
begin

text \<open>
  Bencoding as BEP 3 has it, with a parser: an instance of the library that the wire format takes
  as a parameter, for the evaluation of properties on concrete messages. The parser takes fuel; the
  length of the input is enough.
\<close>

fun benc :: "bvalue \<Rightarrow> bytes" where
  "benc (BInt i) = 105 # show_int i @ [101]"
| "benc (BBytes b) = show_nat (length b) @ 58 # b"
| "benc (BList vs) = 108 # concat (map benc vs) @ [101]"
| "benc (BDict fs) = 100 # concat (map (\<lambda>(k, v). show_nat (length k) @ 58 # k @ benc v) fs) @ [101]"

definition read_int :: "bytes \<Rightarrow> int" where
  "read_int ds = (if ds \<noteq> [] \<and> hd ds = 45 then - int (read_nat (tl ds)) else int (read_nat ds))"

definition read_bytes :: "bytes \<Rightarrow> (bytes \<times> bytes) option" where
  "read_bytes bs = (case dropWhile (\<lambda>c. c \<noteq> 58) bs of
     [] \<Rightarrow> None
   | _ # body \<Rightarrow> let n = read_nat (takeWhile (\<lambda>c. c \<noteq> 58) bs) in
       if length body < n then None else Some (take n body, drop n body))"

fun bdec :: "nat \<Rightarrow> bytes \<Rightarrow> (bvalue \<times> bytes) option"
  and bdec_list :: "nat \<Rightarrow> bytes \<Rightarrow> (bvalue list \<times> bytes) option"
  and bdec_dict :: "nat \<Rightarrow> bytes \<Rightarrow> ((bytes \<times> bvalue) list \<times> bytes) option" where
  "bdec (Suc n) (c # bs) =
    (if c = 105 then (case dropWhile (\<lambda>c. c \<noteq> 101) bs of
        [] \<Rightarrow> None | _ # rest \<Rightarrow> Some (BInt (read_int (takeWhile (\<lambda>c. c \<noteq> 101) bs)), rest))
     else if c = 108 then map_option (\<lambda>(vs, rest). (BList vs, rest)) (bdec_list n bs)
     else if c = 100 then map_option (\<lambda>(fs, rest). (BDict fs, rest)) (bdec_dict n bs)
     else map_option (\<lambda>(b, rest). (BBytes b, rest)) (read_bytes (c # bs)))"
| "bdec _ _ = None"
| "bdec_list (Suc n) (c # bs) =
    (if c = 101 then Some ([], bs)
     else Option.bind (bdec n (c # bs)) (\<lambda>(v, rest).
       map_option (\<lambda>(vs, rest). (v # vs, rest)) (bdec_list n rest)))"
| "bdec_list _ _ = None"
| "bdec_dict (Suc n) (c # bs) =
    (if c = 101 then Some ([], bs)
     else Option.bind (read_bytes (c # bs)) (\<lambda>(k, rest). Option.bind (bdec n rest) (\<lambda>(v, rest).
       map_option (\<lambda>(fs, rest). ((k, v) # fs, rest)) (bdec_dict n rest))))"
| "bdec_dict _ _ = None"

definition bdecode :: "bytes \<Rightarrow> bvalue option" where
  "bdecode bs = (case bdec (length bs) bs of Some (v, []) \<Rightarrow> Some v | _ \<Rightarrow> None)"

section \<open>The parser reads what was written\<close>

lemma show_nat_cons: "\<exists>d ds. show_nat n = d # ds \<and> 48 \<le> unat d \<and> unat d < 58"
proof (cases "show_nat n")
  case Nil
  then show ?thesis by (simp add: show_nat.simps [of n] split: if_splits)
next
  case (Cons d ds)
  then show ?thesis using show_nat_digits [of d n] by simp
qed

lemma take_drop_until:
  assumes "c \<notin> set xs"
  shows "takeWhile (\<lambda>d. d \<noteq> c) (xs @ c # ys) = xs" and "dropWhile (\<lambda>d. d \<noteq> c) (xs @ c # ys) = c # ys"
  using assms by (induction xs) auto

lemma read_written_bytes [simp]: "read_bytes (show_nat (length b) @ 58 # b @ rest) = Some (b, rest)"
  by (simp add: read_bytes_def take_drop_until not_digit)

lemma read_show_int [simp]: "read_int (show_int i) = i"
proof (cases "i < 0")
  case False
  obtain d ds where "show_nat (nat i) = d # ds" "48 \<le> unat d" using show_nat_cons by blast
  then have "hd (show_nat (nat i)) \<noteq> 45" by auto
  with False show ?thesis by (simp add: read_int_def show_int_def)
qed (simp add: read_int_def show_int_def)

lemma benc_cons: "\<exists>c cs. benc v = c # cs \<and> c \<noteq> 101"
proof (cases v)
  case (BBytes b)
  then show ?thesis using show_nat_cons [of "length b"] by auto
qed simp_all

lemma bdec_bytes: "0 < n \<Longrightarrow> bdec n (show_nat (length b) @ 58 # b @ rest) = Some (BBytes b, rest)"
proof -
  assume "0 < n"
  moreover obtain d ds where d: "show_nat (length b) = d # ds" "48 \<le> unat d" "unat d < 58" using show_nat_cons by blast
  then have "d \<noteq> 105" "d \<noteq> 108" "d \<noteq> 100" by auto
  ultimately show ?thesis using d(1) read_written_bytes [of b rest] by (cases n) simp_all
qed

lemma bdec_list_written:
  assumes "\<And>v n rest. v \<in> set vs \<Longrightarrow> length (benc v) \<le> n \<Longrightarrow> bdec n (benc v @ rest) = Some (v, rest)"
    and "length (concat (map benc vs)) < n"
  shows "bdec_list n (concat (map benc vs) @ 101 # rest) = Some (vs, rest)"
  using assms
proof (induction vs arbitrary: n)
  case Nil
  then show ?case by (cases n) simp_all
next
  case (Cons v vs)
  obtain c cs where c: "benc v = c # cs" "c \<noteq> 101" using benc_cons by blast
  obtain m where m: "n = Suc m" using Cons.prems(2) by (cases n) auto
  have "bdec m (benc v @ concat (map benc vs) @ 101 # rest) = Some (v, concat (map benc vs) @ 101 # rest)"
    using Cons.prems(2) m by (intro Cons.prems(1)) auto
  moreover have "bdec_list m (concat (map benc vs) @ 101 # rest) = Some (vs, rest)"
    using Cons.prems m c(1) by (intro Cons.IH) auto
  ultimately show ?case using c m by simp
qed

lemma bdec_dict_written:
  assumes "\<And>k v n rest. (k, v) \<in> set fs \<Longrightarrow> length (benc v) \<le> n \<Longrightarrow> bdec n (benc v @ rest) = Some (v, rest)"
    and "length (concat (map (\<lambda>(k, v). show_nat (length k) @ 58 # k @ benc v) fs)) < n"
  shows "bdec_dict n (concat (map (\<lambda>(k, v). show_nat (length k) @ 58 # k @ benc v) fs) @ 101 # rest) = Some (fs, rest)"
  using assms
proof (induction fs arbitrary: n)
  case Nil
  then show ?case by (cases n) simp_all
next
  case (Cons f fs)
  let ?e = "concat (map (\<lambda>(k, v). show_nat (length k) @ 58 # k @ benc v) fs) @ 101 # rest"
  obtain k v where f: "f = (k, v)" by (cases f)
  obtain c cs where c: "show_nat (length k) = c # cs" "unat c < 58" using show_nat_cons by blast
  then have "c \<noteq> 101" by auto
  obtain m where m: "n = Suc m" using Cons.prems(2) by (cases n) auto
  have "bdec m (benc v @ ?e) = Some (v, ?e)"
    using Cons.prems(2) m f by (intro Cons.prems(1) [of k]) auto
  moreover have "bdec_dict m ?e = Some (fs, rest)"
    using Cons.prems m f by (intro Cons.IH) auto
  moreover have "read_bytes (c # cs @ 58 # k @ benc v @ ?e) = Some (k, benc v @ ?e)"
    using read_written_bytes [of k "benc v @ ?e"] c(1) by simp
  ultimately show ?case using c(1) \<open>c \<noteq> 101\<close> m f by simp
qed

lemma bdec_benc: "length (benc v) \<le> n \<Longrightarrow> bdec n (benc v @ rest) = Some (v, rest)"
proof (induction v arbitrary: n rest)
  case (BInt i)
  then show ?case using take_drop_until [OF not_in_show_int, of i rest] by (cases n) simp_all
next
  case (BBytes b)
  then show ?case using bdec_bytes [of n b rest] by simp
next
  case (BList vs)
  obtain m where m: "n = Suc m" using BList.prems by (cases n) auto
  have "bdec_list m (concat (map benc vs) @ 101 # rest) = Some (vs, rest)"
    using BList m by (intro bdec_list_written) auto
  then show ?case using m by simp
next
  case (BDict fs)
  obtain m where m: "n = Suc m" using BDict.prems by (cases n) auto
  have "bdec_dict m (concat (map (\<lambda>(k, v). show_nat (length k) @ 58 # k @ benc v) fs) @ 101 # rest) = Some (fs, rest)"
  proof (rule bdec_dict_written)
    show "bdec n (benc v @ rest) = Some (v, rest)" if "(k, v) \<in> set fs" "length (benc v) \<le> n" for k v n rest
      using BDict.IH [OF that(1)] that(2) by simp
  qed (use BDict.prems m in simp)
  then show ?case using m by simp
qed

lemma bdecode_benc [simp]: "bdecode (benc v) = Some v"
  using bdec_benc [of v "length (benc v)" "[]"] by (simp add: bdecode_def)

section \<open>No encoding is a prefix of another\<close>

text \<open>What the parser reads, it reads the same way when more follows.\<close>

lemma take_until_more:
  "dropWhile P xs = c # rest \<Longrightarrow> dropWhile P (xs @ ys) = c # rest @ ys \<and> takeWhile P (xs @ ys) = takeWhile P xs"
  by (induction xs) (auto split: if_splits)

lemma read_bytes_more:
  assumes "read_bytes xs = Some (b, rest)"
  shows "read_bytes (xs @ ys) = Some (b, rest @ ys)"
proof (cases "dropWhile (\<lambda>c. c \<noteq> 58) xs")
  case (Cons c body)
  with take_until_more [OF Cons, of ys] assms show ?thesis by (auto simp: read_bytes_def Let_def split: if_splits)
next
  case Nil
  with assms show ?thesis by (simp add: read_bytes_def del: dropWhile_eq_Nil_conv)
qed

lemma bdec_more:
  "bdec n xs = Some (v, rest) \<Longrightarrow> n \<le> m \<Longrightarrow> bdec m (xs @ ys) = Some (v, rest @ ys)"
  "bdec_list n xs = Some (vs, rest) \<Longrightarrow> n \<le> m \<Longrightarrow> bdec_list m (xs @ ys) = Some (vs, rest @ ys)"
  "bdec_dict n xs = Some (fs, rest) \<Longrightarrow> n \<le> m \<Longrightarrow> bdec_dict m (xs @ ys) = Some (fs, rest @ ys)"
proof (induction n xs and n xs and n xs arbitrary: v rest m and vs rest m and fs rest m
    rule: bdec_bdec_list_bdec_dict.induct)
  case (1 n c bs)
  obtain k where k: "m = Suc k" "n \<le> k" using 1(4) by (cases m) auto
  consider "c = 105" | "c = 108" | "c = 100" | "c \<noteq> 105" "c \<noteq> 108" "c \<noteq> 100" by blast
  then show ?case
  proof cases
    case c: 1
    show ?thesis
    proof (cases "dropWhile (\<lambda>c. c \<noteq> 101) bs")
      case (Cons d ds)
      with take_until_more [OF Cons, of ys] 1(3) c k(1) show ?thesis by simp
    next
      case Nil
      with 1(3) c show ?thesis by (simp del: dropWhile_eq_Nil_conv)
    qed
  next
    case c: 2
    with 1(3) obtain vs where vs: "bdec_list n bs = Some (vs, rest)" "v = BList vs" by auto
    with 1(1) [OF _ c vs(1) k(2)] c k(1) show ?thesis by simp
  next
    case c: 3
    with 1(3) obtain fs where fs: "bdec_dict n bs = Some (fs, rest)" "v = BDict fs" by auto
    with 1(2) [OF _ _ c fs(1) k(2)] c k(1) show ?thesis by simp
  next
    case c: 4
    with 1(3) obtain b where "read_bytes (c # bs) = Some (b, rest)" "v = BBytes b" by auto
    with read_bytes_more [OF this(1), of ys] c k(1) show ?thesis by simp
  qed
next
  case (3 n c bs)
  obtain k where k: "m = Suc k" "n \<le> k" using 3(4) by (cases m) auto
  show ?case
  proof (cases "c = 101")
    case False
    with 3(3) obtain v r1 ws where v: "bdec n (c # bs) = Some (v, r1)" "bdec_list n r1 = Some (ws, rest)" "vs = v # ws"
      by (auto simp: bind_eq_Some_conv)
    with 3(1) [OF False v(1) k(2)] 3(2) [OF False v(1) refl v(2) k(2)] False k(1) show ?thesis by simp
  qed (use 3(3) k in simp)
next
  case (5 n c bs)
  obtain k where k: "m = Suc k" "n \<le> k" using 5(4) by (cases m) auto
  show ?case
  proof (cases "c = 101")
    case False
    with 5(3) obtain key r0 v r1 gs where v: "read_bytes (c # bs) = Some (key, r0)" "bdec n r0 = Some (v, r1)"
      "bdec_dict n r1 = Some (gs, rest)" "fs = (key, v) # gs"
      by (auto simp: bind_eq_Some_conv)
    with 5(1) [OF False v(1) refl v(2) k(2)] 5(2) [OF False v(1) refl v(2) refl v(3) k(2)]
      read_bytes_more [OF v(1), of ys] False k(1) show ?thesis by simp
  qed (use 5(3) k in simp)
qed auto

lemma truncated_not_decoded:
  assumes "n < length (benc v)"
  shows "bdecode (take n (benc v)) = None"
proof (rule ccontr)
  assume "bdecode (take n (benc v)) \<noteq> None"
  then obtain v' where "bdec (length (take n (benc v))) (take n (benc v)) = Some (v', [])"
    by (auto simp: bdecode_def split: option.splits prod.splits list.splits)
  from bdec_more(1) [OF this, of "length (benc v)" "drop n (benc v)"]
  have "bdec (length (benc v)) (benc v) = Some (v', drop n (benc v))" by simp
  with bdec_benc [of v "length (benc v)" "[]"] assms show False by simp
qed

end
