(* ===== verification/Wire_Props.thy ===== *)
theory Wire_Props
  imports Bencode
begin

text \<open>
  Round trips of the wire format: every message that the node sends is read back as it was, and
  what a message must look like to be accepted.
\<close>

section \<open>Structs\<close>

lemma filter_struct_fields:
  "distinct (map fst fs) \<Longrightarrow> filter (\<lambda>e. fst e = ascii k) (struct_fields fs)
     = (case map_of fs k of Some (Some v) \<Rightarrow> [(ascii k, v)] | _ \<Rightarrow> [])"
proof (induction fs)
  case (Cons f fs)
  obtain k' v where f: "f = (k', v)" by (cases f)
  have "map_of fs k = None" if "k = k'" using Cons.prems f that by (auto simp: map_of_eq_None_iff)
  with Cons f show ?case by (cases v) (auto simp: struct_fields_def)
qed (simp add: struct_fields_def)

lemma get_field_struct:
  "distinct (map fst fs) \<Longrightarrow> get_field k (struct_fields fs) = Some (Option.bind (map_of fs k) id)"
  by (auto simp: get_field_def filter_struct_fields split: option.splits)

lemma required_struct:
  "distinct (map fst fs) \<Longrightarrow> map_of fs k = Some (Some v) \<Longrightarrow> required k p (struct_fields fs) = p v"
  by (simp add: required_def get_field_struct)

lemma optional_struct:
  "distinct (map fst fs) \<Longrightarrow> map_of fs k = Some v \<Longrightarrow> (\<And>x. v = Some x \<Longrightarrow> p x = Some (f x)) \<Longrightarrow>
     optional k p (struct_fields fs) = Some (map_option f v)"
  by (cases v) (simp_all add: optional_def get_field_struct)

lemma optional_struct_map:
  "distinct (map fst fs) \<Longrightarrow> map_of fs k = Some (map_option g v) \<Longrightarrow> (\<And>x. v = Some x \<Longrightarrow> p (g x) = Some x) \<Longrightarrow>
     optional k p (struct_fields fs) = Some v"
  by (cases v) (simp_all add: optional_def get_field_struct)

section \<open>Values that the library writes and reads\<close>

definition key_less :: "bytes \<Rightarrow> bytes \<Rightarrow> bool" where
  "key_less = ord_class.lexordp"

fun canonical :: "bvalue \<Rightarrow> bool" where
  "canonical (BInt i) \<longleftrightarrow> - (2 ^ 63) \<le> i \<and> i < 2 ^ 63"
| "canonical (BBytes _) \<longleftrightarrow> True"
| "canonical (BList vs) \<longleftrightarrow> (\<forall>v\<in>set vs. canonical v)"
| "canonical (BDict fs) \<longleftrightarrow> sorted_wrt key_less (map fst fs) \<and> (\<forall>e\<in>set fs. canonical (snd e))"

lemma canonical_struct:
  assumes "sorted_wrt (\<lambda>s t. key_less (ascii s) (ascii t)) (map fst fs)"
    and "\<forall>(k, v)\<in>set fs. \<forall>x. v = Some x \<longrightarrow> canonical x"
  shows "canonical (struct_value fs)"
proof -
  have "set (map fst (struct_fields fs)) \<subseteq> ascii ` set (map fst fs)" for fs
    by (force simp: struct_fields_def split: option.splits)
  then have sub: "k \<in> set (map fst (struct_fields fs)) \<Longrightarrow> \<exists>s\<in>set (map fst fs). k = ascii s" for fs k
    by blast
  have "sorted_wrt key_less (map fst (struct_fields fs))" using assms(1)
  proof (induction fs)
    case (Cons f fs)
    obtain k v where f: "f = (k, v)" by (cases f)
    have "\<forall>t\<in>set (map fst (struct_fields fs)). key_less (ascii k) t"
      using Cons.prems f sub [of _ fs] by fastforce
    with Cons f show ?case by (cases v) (simp_all add: struct_fields_def)
  qed (simp add: struct_fields_def)
  moreover have "\<forall>e\<in>set (struct_fields fs). canonical (snd e)"
    using assms(2) by (auto simp: struct_fields_def split: option.splits)
  ultimately show ?thesis by (simp add: struct_value_def)
qed

section \<open>Round trips of the parts\<close>

definition plain :: "socket_addr \<Rightarrow> bool" where
  "plain a = (case a of V4 _ \<Rightarrow> True | V6 a \<Rightarrow> plain_v6 a)"

text \<open>
  What the libraries promise: values in canonical form are read back as written, and so are
  identifiers, addresses and compact lists.
\<close>

definition wire_ok :: "'id wire \<Rightarrow> bool" where
  "wire_ok w \<longleftrightarrow> (\<forall>v. canonical v \<longrightarrow> w_bdecode w (w_bencode w v) = Some v)
     \<and> (\<forall>i. w_id_of w (w_id w i) = Some i)
     \<and> (\<forall>a. plain a \<longrightarrow> w_addr_of w (w_addr w a) = Some a)
     \<and> (\<forall>ns. w_nodes4_of w (w_nodes4 w ns) = Some ns)
     \<and> (\<forall>ns. (\<forall>n\<in>set ns. plain_v6 (naddr n)) \<longrightarrow> w_nodes6_of w (w_nodes6 w ns) = Some ns)"

definition fits_i64 :: "int option \<Rightarrow> bool" where
  "fits_i64 i = (case i of None \<Rightarrow> True | Some i \<Rightarrow> - (2 ^ 63) \<le> i \<and> i < 2 ^ 63)"

text \<open>Integers within their types and addresses that compact formats can carry.\<close>

fun kind_ok :: "'id message_kind \<Rightarrow> bool" where
  "kind_ok (MK_Error e) \<longleftrightarrow> - (2 ^ 31) \<le> code e \<and> code e < 2 ^ 31"
| "kind_ok (MK_Response r) \<longleftrightarrow> fits_i64 (resp_seq r)
     \<and> (\<forall>as. resp_values r = Some as \<longrightarrow> (\<forall>a\<in>set as. plain a))
     \<and> (\<forall>ns. resp_nodes6 r = Some ns \<longrightarrow> (\<forall>n\<in>set ns. plain_v6 (naddr n)))"
| "kind_ok (MK_Bep44GetRequest q) \<longleftrightarrow> fits_i64 (bg_seq q)"
| "kind_ok (MK_Bep44PutRequest q) \<longleftrightarrow> fits_i64 (Some (bp_seq q)) \<and> fits_i64 (bp_cas q)"
| "kind_ok _ \<longleftrightarrow> True"

lemmas reads = id_of_def id_value_def i64_of_def i32_of_def fits_i64_def addr_of_def addr_value_def

lemmas structs = struct_value_def required_struct optional_struct_map

named_theorems round_trip

lemma wire_id_round [round_trip]: "wire_ok w \<Longrightarrow> id_of w (id_value w i) = Some i"
  by (simp add: reads wire_ok_def)

lemma addr_round [round_trip]: "wire_ok w \<Longrightarrow> plain a \<Longrightarrow> addr_of w (addr_value w a) = Some a"
  by (simp add: reads wire_ok_def)

lemma i64_round [round_trip]: "fits_i64 (Some i) \<Longrightarrow> i64_of (BInt i) = Some i"
  by (simp add: reads)

lemma optional_i64 [round_trip]:
  "distinct (map fst fs) \<Longrightarrow> map_of fs k = Some (map_option BInt v) \<Longrightarrow> fits_i64 v \<Longrightarrow>
     optional k i64_of (struct_fields fs) = Some v"
  by (rule optional_struct_map) (auto simp: i64_round)

lemma word_round [round_trip]: "word_of (word_value x) = Some x"
  using uint_lt2p [of x] by (simp add: word_of_def word_value_def)

lemma want_round [round_trip]: "want_of (want_value x) = Some x"
  by (cases x) (simp_all add: want_of_def)

lemma message_type_round [round_trip]: "message_type_of (message_type_value y) = Some y"
  by (cases y) (simp_all add: message_type_of_def)

lemma error_description_round [round_trip]:
  "- (2 ^ 31) \<le> code e \<Longrightarrow> code e < 2 ^ 31 \<Longrightarrow> error_description_of (error_description_value e) = Some e"
  by (simp add: error_description_value_def reads)

lemma find_node_round [round_trip]: "wire_ok w \<Longrightarrow> find_node_of w (find_node_value w q) = Some q"
  by (simp add: find_node_of_def find_node_value_def structs round_trip)

lemma get_peers_round [round_trip]: "wire_ok w \<Longrightarrow> get_peers_of w (get_peers_value w q) = Some q"
  by (simp add: get_peers_of_def get_peers_value_def structs round_trip)

lemma ping_round [round_trip]: "wire_ok w \<Longrightarrow> ping_of w (ping_value w q) = Some q"
  by (simp add: ping_of_def ping_value_def structs round_trip)

lemma announce_round [round_trip]: "wire_ok w \<Longrightarrow> announce_of w (announce_value w q) = Some q"
  by (simp add: announce_of_def announce_value_def structs round_trip)

lemma bep44_get_round [round_trip]:
  "wire_ok w \<Longrightarrow> fits_i64 (bg_seq q) \<Longrightarrow> bep44_get_of w (bep44_get_value w q) = Some q"
  by (simp add: bep44_get_of_def bep44_get_value_def structs round_trip)

lemma bep44_put_round [round_trip]:
  "wire_ok w \<Longrightarrow> fits_i64 (Some (bp_seq q)) \<Longrightarrow> fits_i64 (bp_cas q) \<Longrightarrow>
     bep44_put_of w (bep44_put_value w q) = Some q"
  by (simp add: bep44_put_of_def bep44_put_value_def structs round_trip)

lemma nodes4_round [round_trip]: "wire_ok w \<Longrightarrow> w_nodes4_of w (w_nodes4 w ns) = Some ns"
  by (simp add: wire_ok_def)

lemma optional_nodes6 [round_trip]:
  "distinct (map fst fs) \<Longrightarrow> map_of fs k = Some (map_option (\<lambda>ns. BBytes (w_nodes6 w ns)) v) \<Longrightarrow> wire_ok w \<Longrightarrow>
     \<forall>ns. v = Some ns \<longrightarrow> (\<forall>n\<in>set ns. plain_v6 (naddr n)) \<Longrightarrow>
     optional k (\<lambda>v. Option.bind (bytes_of v) (w_nodes6_of w)) (struct_fields fs) = Some v"
  by (rule optional_struct_map) (auto simp: wire_ok_def)

lemma addr_list_round:
  "wire_ok w \<Longrightarrow> \<forall>a\<in>set as. plain a \<Longrightarrow> list_of (addr_of w) (BList (map (addr_value w) as)) = Some as"
  by (induction as) (simp_all add: addr_round)

lemma optional_values [round_trip]:
  "distinct (map fst fs) \<Longrightarrow> map_of fs k = Some (map_option (\<lambda>as. BList (map (addr_value w) as)) v) \<Longrightarrow>
     wire_ok w \<Longrightarrow> \<forall>as. v = Some as \<longrightarrow> (\<forall>a\<in>set as. plain a) \<Longrightarrow>
     optional k (list_of (addr_of w)) (struct_fields fs) = Some v"
  by (rule optional_struct_map) (auto simp: addr_list_round simp del: list_of.simps)

lemma response_round [round_trip]:
  "wire_ok w \<Longrightarrow> kind_ok (MK_Response r) \<Longrightarrow> response_of w (response_value w r) = Some r"
  by (simp add: response_of_def response_value_def structs round_trip)

section \<open>Canonical form\<close>

named_theorems canonicity

lemmas key_order = ascii_def key_less_def

lemma canonical_leaves [canonicity]:
  "canonical (id_value w i)" "canonical (addr_value w a)" "canonical (message_type_value y)" "canonical (want_value x)"
  by (simp add: id_value_def, simp add: addr_value_def, cases y, simp_all, cases x, simp_all)

lemma canonical_word8 [canonicity]: "canonical (word_value (x :: u8))"
  using uint_lt2p [of x] order_trans [OF _ unsigned_greater_eq, of "- (2 ^ 63) :: int" x] by (simp add: word_value_def)

lemma canonical_word16 [canonicity]: "canonical (word_value (x :: u16))"
  using uint_lt2p [of x] order_trans [OF _ unsigned_greater_eq, of "- (2 ^ 63) :: int" x] by (simp add: word_value_def)

lemma find_node_canonical [canonicity]: "canonical (find_node_value w q)"
  unfolding find_node_value_def by (rule canonical_struct) (auto simp: key_order canonicity)

lemma get_peers_canonical [canonicity]: "canonical (get_peers_value w q)"
  unfolding get_peers_value_def by (rule canonical_struct) (auto simp: key_order canonicity)

lemma ping_canonical [canonicity]: "canonical (ping_value w q)"
  unfolding ping_value_def by (rule canonical_struct) (auto simp: key_order canonicity)

lemma announce_canonical [canonicity]: "canonical (announce_value w q)"
  unfolding announce_value_def by (rule canonical_struct) (auto simp: key_order canonicity)

lemma bep44_get_canonical [canonicity]: "fits_i64 (bg_seq q) \<Longrightarrow> canonical (bep44_get_value w q)"
  unfolding bep44_get_value_def by (rule canonical_struct) (auto simp: key_order canonicity fits_i64_def)

lemma bep44_put_canonical [canonicity]:
  "fits_i64 (Some (bp_seq q)) \<Longrightarrow> fits_i64 (bp_cas q) \<Longrightarrow> canonical (bep44_put_value w q)"
  unfolding bep44_put_value_def by (rule canonical_struct) (auto simp: key_order canonicity fits_i64_def)

lemma response_canonical [canonicity]: "fits_i64 (resp_seq r) \<Longrightarrow> canonical (response_value w r)"
  unfolding response_value_def by (rule canonical_struct) (auto simp: key_order canonicity fits_i64_def)

lemma error_canonical [canonicity]:
  "- (2 ^ 31) \<le> code e \<Longrightarrow> code e < 2 ^ 31 \<Longrightarrow> canonical (error_description_value e)"
  by (simp add: error_description_value_def)

text \<open>The integers that the error of a message holds are in range.\<close>

definition error_ok :: "error_description option \<Rightarrow> bool" where
  "error_ok e = (case e of None \<Rightarrow> True | Some e \<Rightarrow> - (2 ^ 31) \<le> code e \<and> code e < 2 ^ 31)"

lemma raw_message_canonical:
  assumes "error_ok (raw_error m)" and "\<And>x. raw_arguments m = Some x \<Longrightarrow> canonical (args x)"
    and "\<And>x. raw_response m = Some x \<Longrightarrow> canonical (resp x)"
  shows "canonical (raw_message_value w args resp m)"
  unfolding raw_message_value_def
  by (rule canonical_struct) (use assms in \<open>auto simp: key_order canonicity error_ok_def\<close>)

section \<open>The two passes\<close>

lemma raw_message_round:
  assumes "wire_ok w" and "error_ok (raw_error m)" and "\<And>a. raw_ip m = Some a \<Longrightarrow> plain a"
    and "\<And>x. raw_arguments m = Some x \<Longrightarrow> f (args x) = Some (f' x)"
    and "\<And>x. raw_response m = Some x \<Longrightarrow> g (resp x) = Some (g' x)"
  shows "raw_message_of w f g (raw_message_value w args resp m) = Some
    \<lparr>raw_message_type = raw_message_type m, raw_transaction_id = raw_transaction_id m, raw_error = raw_error m,
     raw_response = map_option g' (raw_response m), raw_method_name = raw_method_name m,
     raw_arguments = map_option f' (raw_arguments m), raw_version = raw_version m, raw_ip = raw_ip m\<rparr>"
proof -
  define fs where "fs = [(''a'', map_option args (raw_arguments m)),
     (''e'', map_option error_description_value (raw_error m)), (''ip'', map_option (addr_value w) (raw_ip m)),
     (''q'', map_option BBytes (raw_method_name m)), (''r'', map_option resp (raw_response m)),
     (''t'', Some (BBytes (raw_transaction_id m))), (''v'', map_option BBytes (raw_version m)),
     (''y'', Some (message_type_value (raw_message_type m)))]"
  have d: "distinct (map fst fs)" by (simp add: fs_def)
  have "optional ''a'' f (struct_fields fs) = Some (map_option f' (raw_arguments m))"
    using assms(4) by (cases "raw_arguments m") (simp_all add: optional_def get_field_struct [OF d], simp_all add: fs_def)
  moreover have "optional ''r'' g (struct_fields fs) = Some (map_option g' (raw_response m))"
    using assms(5) by (cases "raw_response m") (simp_all add: optional_def get_field_struct [OF d], simp_all add: fs_def)
  moreover have "optional ''e'' error_description_of (struct_fields fs) = Some (raw_error m)"
    by (rule optional_struct_map [OF d, where g = error_description_value])
      (use assms(2) in \<open>auto simp: fs_def error_ok_def error_description_round\<close>)
  moreover have "optional ''ip'' (addr_of w) (struct_fields fs) = Some (raw_ip m)"
    by (rule optional_struct_map [OF d, where g = "addr_value w"])
      (use assms(1,3) in \<open>auto simp: fs_def addr_round\<close>)
  moreover have "optional k bytes_of (struct_fields fs) = Some v" if "map_of fs k = Some (map_option BBytes v)" for k v
    using that by (rule optional_struct_map [OF d]) simp
  then have "optional ''q'' bytes_of (struct_fields fs) = Some (raw_method_name m)"
    "optional ''v'' bytes_of (struct_fields fs) = Some (raw_version m)" by (simp_all add: fs_def)
  moreover have "required ''y'' message_type_of (struct_fields fs) = Some (raw_message_type m)"
    "required ''t'' bytes_of (struct_fields fs) = Some (raw_transaction_id m)"
    by (simp_all add: required_def get_field_struct [OF d], simp_all add: fs_def message_type_round)
  ultimately show ?thesis by (simp add: raw_message_of_def raw_message_value_def struct_value_def fs_def)
qed

lemma first_pass:
  assumes "wire_ok w" and "error_ok (raw_error m)" and "\<And>a. raw_ip m = Some a \<Longrightarrow> plain a"
  shows "raw_message_of w ignored_any ignored_any (raw_message_value w args resp m) = Some
    \<lparr>raw_message_type = raw_message_type m, raw_transaction_id = raw_transaction_id m, raw_error = raw_error m,
     raw_response = map_option (\<lambda>_. ()) (raw_response m), raw_method_name = raw_method_name m,
     raw_arguments = map_option (\<lambda>_. ()) (raw_arguments m), raw_version = raw_version m, raw_ip = raw_ip m\<rparr>"
  by (rule raw_message_round [OF assms]) (simp_all add: ignored_any_def)

lemma decode_canonical: "wire_ok w \<Longrightarrow> canonical v \<Longrightarrow> w_bdecode w (w_bencode w v) = Some v"
  by (simp add: wire_ok_def)

text \<open>A request goes through both passes when its arguments do.\<close>

lemma request_passes:
  assumes w: "wire_ok w" and ip: "\<And>a. ip = Some a \<Longrightarrow> plain a" and v: "canonical v" and parse: "f v = Some q"
  shows "Option.bind (w_bdecode w (w_bencode w (request_value w tid ver ip name v))) (raw_message_of w ignored_any ignored_any)
      = Some \<lparr>raw_message_type = Request_Type, raw_transaction_id = tid, raw_error = None, raw_response = None,
         raw_method_name = Some (ascii name), raw_arguments = Some (), raw_version = ver, raw_ip = ip\<rparr>"
    and "second_pass w f ignored_any (\<lambda>de. map_option K (raw_arguments de)) (w_bencode w (request_value w tid ver ip name v))
      = Inr \<lparr>msg_kind = K q, transaction_id = tid, version = ver, msg_ip = ip\<rparr>"
proof -
  let ?m = "\<lparr>raw_message_type = Request_Type, raw_transaction_id = tid, raw_error = None, raw_response = None :: unit option,
      raw_method_name = Some (ascii name), raw_arguments = Some v, raw_version = ver, raw_ip = ip\<rparr>"
  have c: "canonical (request_value w tid ver ip name v)"
    unfolding request_value_def by (rule raw_message_canonical) (simp_all add: error_ok_def v)
  show "Option.bind (w_bdecode w (w_bencode w (request_value w tid ver ip name v))) (raw_message_of w ignored_any ignored_any)
      = Some \<lparr>raw_message_type = Request_Type, raw_transaction_id = tid, raw_error = None, raw_response = None,
         raw_method_name = Some (ascii name), raw_arguments = Some (), raw_version = ver, raw_ip = ip\<rparr>"
    unfolding decode_canonical [OF w c] using first_pass [OF w, of ?m] ip
    by (simp add: request_value_def error_ok_def)
  have "raw_message_of w f ignored_any (request_value w tid ver ip name v) = Some
      \<lparr>raw_message_type = Request_Type, raw_transaction_id = tid, raw_error = None, raw_response = None,
       raw_method_name = Some (ascii name), raw_arguments = Some q, raw_version = ver, raw_ip = ip\<rparr>"
    using raw_message_round [OF w, of ?m f "\<lambda>v. v" "\<lambda>_. q" ignored_any "\<lambda>_. BList []" "\<lambda>_. ()"] ip parse
    by (simp add: request_value_def error_ok_def)
  then show "second_pass w f ignored_any (\<lambda>de. map_option K (raw_arguments de)) (w_bencode w (request_value w tid ver ip name v))
      = Inr \<lparr>msg_kind = K q, transaction_id = tid, version = ver, msg_ip = ip\<rparr>"
    by (simp add: second_pass_def decode_canonical [OF w c])
qed

lemma message_reads_back:
  assumes w: "wire_ok w" and kind: "kind_ok kind" and ip: "\<And>a. ip = Some a \<Longrightarrow> plain a"
  shows "deserialize_message w (serialize_message w tid ver ip kind)
    = Inr \<lparr>msg_kind = kind, transaction_id = tid, version = ver, msg_ip = ip\<rparr>"
proof (cases kind)
  case (MK_Error e)
  let ?m = "\<lparr>raw_message_type = Error_Type, raw_transaction_id = tid, raw_error = Some e, raw_response = None :: unit option,
      raw_method_name = None, raw_arguments = None :: unit option, raw_version = ver, raw_ip = ip\<rparr>"
  have e: "error_ok (raw_error ?m)" using kind MK_Error by (simp add: error_ok_def)
  have c: "canonical (raw_message_value w (\<lambda>_. BList []) (\<lambda>_. BList []) ?m)"
    by (rule raw_message_canonical) (use e in simp_all)
  show ?thesis
    using first_pass [OF w e] raw_message_round [OF w e, of ignored_any "\<lambda>_. BList []" "\<lambda>_. ()" "response_of w" "\<lambda>_. BList []" undefined] ip
    by (simp add: MK_Error deserialize_message_def serialize_message_def decode_canonical [OF w c] second_pass_def)
next
  case (MK_Response r)
  let ?m = "\<lparr>raw_message_type = Response_Type, raw_transaction_id = tid, raw_error = None, raw_response = Some r,
      raw_method_name = None, raw_arguments = None :: unit option, raw_version = ver, raw_ip = ip\<rparr>"
  have e: "error_ok (raw_error ?m)" by (simp add: error_ok_def)
  have c: "canonical (raw_message_value w (\<lambda>_. BList []) (response_value w) ?m)"
    by (rule raw_message_canonical) (use e kind MK_Response in \<open>simp_all add: response_canonical\<close>)
  show ?thesis
    using first_pass [OF w e] raw_message_round [OF w e, of ignored_any "\<lambda>_. BList []" "\<lambda>_. ()" "response_of w" "response_value w" "\<lambda>r. r"]
      ip kind response_round [OF w] MK_Response
    by (simp add: MK_Response deserialize_message_def serialize_message_def decode_canonical [OF w c] second_pass_def)
qed (use w kind ip in \<open>simp_all add: deserialize_message_def serialize_message_def request_passes canonicity round_trip\<close>)

text \<open>
  C8. Every message that the node serializes is read back as it was: its kind with all of its
  fields, its transaction identifier, version and address. The libraries are assumed lossless on
  their own values, integers are in the range of their types, and IPv6 addresses have neither a
  flow label nor a scope, which the compact formats cannot carry.
\<close>

theorem message_roundtrip:
  assumes "wire_ok w" and "kind_ok kind" and "\<And>a. ip = Some a \<Longrightarrow> plain a"
  shows "deserialize_message w (serialize_message w tid ver ip kind)
    = Inr \<lparr>msg_kind = kind, transaction_id = tid, version = ver, msg_ip = ip\<rparr>"
  using assms by (rule message_reads_back)

section \<open>Libraries that keep their promises\<close>

text \<open>
  Bencoding as BEP 3, compact addresses and lists as BEP 5 and BEP 32 have them.
\<close>

definition compact_wire :: "160 word wire" where
  "compact_wire = \<lparr>w_bencode = benc, w_bdecode = bdecode,
     w_id = id_bytes id20_word, w_id_of = (\<lambda>b. if length b = 20 then Some (id_new id20_word b) else None),
     w_addr = (\<lambda>a. case a of V4 a \<Rightarrow> addr_as_slice compact_v4 a | V6 a \<Rightarrow> addr_as_slice compact_v6 a),
     w_addr_of = (\<lambda>b. if length b = 6 then Some (V4 (addr_from_slice_unchecked_len compact_v4 b))
       else if length b = 18 then Some (V6 (addr_from_slice_unchecked_len compact_v6 b)) else None),
     w_nodes4 = (\<lambda>ns. concat (map (node_as_slice id20_word compact_v4) ns)),
     w_nodes4_of = list_from_slice 26 (node_from_slice id20_word compact_v4),
     w_nodes6 = (\<lambda>ns. concat (map (node_as_slice id20_word compact_v6) ns)),
     w_nodes6_of = list_from_slice 38 (node_from_slice id20_word compact_v6)\<rparr>"

lemma compact_wire_ok: "wire_ok compact_wire"
proof -
  have addr: "w_addr_of compact_wire (w_addr compact_wire a) = Some a" if "plain a" for a
    using that compact_v4_ok compact_v6_ok
    by (cases a) (simp_all add: compact_wire_def plain_def addr_codec_ok_def, simp_all add: compact_v4_def compact_v6_def)
  have "w_id_of compact_wire (w_id compact_wire i) = Some i" for i
    using w20.length_bytes [of i] w20.new_bytes [of i] by (simp add: compact_wire_def)
  then show ?thesis
    unfolding wire_ok_def using addr
    by (simp add: compact_wire_def node4.list_roundtrip node6.list_roundtrip)
qed

definition sample_wire_response :: "160 word response" where
  "sample_wire_response = \<lparr>resp_values = Some [V4 \<lparr>ip4 = 0x7F000001, port4 = 6881\<rparr>], resp_id = 7,
     resp_nodes = Some [\<lparr>nid = 3, naddr = \<lparr>ip4 = 1, port4 = 2\<rparr>\<rparr>],
     resp_nodes6 = Some [\<lparr>nid = 4, naddr = \<lparr>ip6 = 1, port6 = 2, flowinfo = 0, scope_id = 0\<rparr>\<rparr>],
     resp_token = Some [1, 2, 3, 4], resp_v = None, resp_k = None, resp_sig = None, resp_seq = Some 5\<rparr>"

theorem message_roundtrip_witness:
  "deserialize_message compact_wire (serialize_message compact_wire [1, 2] None None (MK_Response sample_wire_response))
    = Inr \<lparr>msg_kind = MK_Response sample_wire_response, transaction_id = [1, 2], version = None, msg_ip = None\<rparr>"
  by (rule message_roundtrip [OF compact_wire_ok])
    (simp_all add: sample_wire_response_def fits_i64_def plain_def plain_v6_def)

section \<open>Compact lists of nodes\<close>

text \<open>
  The compact form of a node is 20 bytes of identifier and its address, so a list of nodes is
  read back from the bytes laid end to end, and a single entry of another length is refused.
\<close>

theorem compact_nodes_roundtrip:
  fixes ops :: "'id::linorder id20_ops" and ns :: "('id, 'a) node list"
  assumes ids: "id20_api ops" and addrs: "addr_codec_ok ac ok" and good: "\<And>n. n \<in> set ns \<Longrightarrow> ok (naddr n)"
  defines "buf \<equiv> concat (map (node_as_slice ops ac) ns)"
  shows "length buf = (20 + addr_len ac) * length ns
    \<and> list_from_slice (20 + addr_len ac) (node_from_slice ops ac) buf = Some ns
    \<and> (\<forall>bs. length bs \<noteq> 20 + addr_len ac \<longrightarrow> node_from_slice ops ac bs = None)"
  using fixed_codec.length_concat_slices [OF node_codec [OF ids addrs], of ns]
    fixed_codec.list_roundtrip [OF node_codec [OF ids addrs], of ns] fixed_codec.from_other_length [OF node_codec [OF ids addrs]]
    good by (simp_all add: buf_def node_fixed_len_def)

theorem compact_nodes_roundtrip_witness:
  "list_from_slice (20 + addr_len compact_v4) (node_from_slice id20_word compact_v4)
     (concat (map (node_as_slice id20_word compact_v4) [\<lparr>nid = 3, naddr = \<lparr>ip4 = 1, port4 = 2\<rparr>\<rparr>]))
    = Some [\<lparr>nid = 3, naddr = \<lparr>ip4 = 1, port4 = 2\<rparr>\<rparr>]"
  by (rule compact_nodes_roundtrip [OF id20_word_api compact_v4_ok, THEN conjunct2, THEN conjunct1]) simp

section \<open>What is accepted\<close>

lemma raw_message_fields:
  assumes "raw_message_of w f g v = Some m"
  shows "\<exists>fs. v = BDict fs \<and> required ''y'' message_type_of fs = Some (raw_message_type m)
    \<and> required ''t'' bytes_of fs = Some (raw_transaction_id m) \<and> optional ''e'' error_description_of fs = Some (raw_error m)
    \<and> optional ''r'' g fs = Some (raw_response m) \<and> optional ''q'' bytes_of fs = Some (raw_method_name m)
    \<and> optional ''a'' f fs = Some (raw_arguments m) \<and> optional ''v'' bytes_of fs = Some (raw_version m)
    \<and> optional ''ip'' (addr_of w) fs = Some (raw_ip m)"
  using assms by (cases v) (auto simp: raw_message_of_def bind_eq_Some_conv)

text \<open>A dictionary that is a request of the given method: no response and no error in it.\<close>

definition is_request :: "string \<Rightarrow> (bvalue \<Rightarrow> 'q option) \<Rightarrow> 'q \<Rightarrow> (bytes \<times> bvalue) list \<Rightarrow> bool" where
  "is_request name f q fs \<longleftrightarrow> required ''y'' message_type_of fs = Some Request_Type
     \<and> optional ''q'' bytes_of fs = Some (Some (ascii name)) \<and> optional ''a'' f fs = Some (Some q)
     \<and> get_field ''r'' fs = Some None \<and> get_field ''e'' fs = Some None"

fun kind_shape :: "'id wire \<Rightarrow> 'id message_kind \<Rightarrow> (bytes \<times> bvalue) list \<Rightarrow> bool" where
  "kind_shape w (MK_FindNodeRequest q) fs = is_request ''find_node'' (find_node_of w) q fs"
| "kind_shape w (MK_GetPeersRequest q) fs = is_request ''get_peers'' (get_peers_of w) q fs"
| "kind_shape w (MK_PingRequest q) fs = is_request ''ping'' (ping_of w) q fs"
| "kind_shape w (MK_AnnouncePeer q) fs = is_request ''announce_peer'' (announce_of w) q fs"
| "kind_shape w (MK_Bep44GetRequest q) fs = is_request ''get'' (bep44_get_of w) q fs"
| "kind_shape w (MK_Bep44PutRequest q) fs = is_request ''put'' (bep44_put_of w) q fs"
| "kind_shape w (MK_Response r) fs \<longleftrightarrow> required ''y'' message_type_of fs = Some Response_Type
     \<and> optional ''r'' (response_of w) fs = Some (Some r) \<and> get_field ''a'' fs = Some None \<and> get_field ''e'' fs = Some None"
| "kind_shape w (MK_Error e) fs \<longleftrightarrow> required ''y'' message_type_of fs = Some Error_Type
     \<and> optional ''e'' error_description_of fs = Some (Some e) \<and> get_field ''a'' fs = Some None \<and> get_field ''r'' fs = Some None"

lemma optional_NoneD: "optional k p fs = Some None \<Longrightarrow> get_field k fs = Some None"
  by (auto simp: optional_def bind_eq_Some_conv split: option.splits)

lemma second_passD:
  assumes "second_pass w f g K buf = Inr m"
  obtains de where "Option.bind (w_bdecode w buf) (raw_message_of w f g) = Some de" "K de = Some (msg_kind m)"
    "transaction_id m = raw_transaction_id de" "version m = raw_version de" "msg_ip m = raw_ip de"
  using assms by (auto simp: second_pass_def split: option.splits)

lemma request_shape:
  assumes d: "w_bdecode w buf = Some (BDict fs)" and first: "raw_message_of w ignored_any ignored_any (BDict fs) = Some de"
    and req: "raw_message_type de = Request_Type" "raw_method_name de = Some (ascii name)" "raw_response de = None"
      "raw_error de = None"
    and second: "second_pass w f ignored_any (\<lambda>de. map_option K (raw_arguments de)) buf = Inr m"
  shows "\<exists>q. msg_kind m = K q \<and> is_request name f q fs \<and> required ''t'' bytes_of fs = Some (transaction_id m)
    \<and> optional ''ip'' (addr_of w) fs = Some (msg_ip m)"
proof -
  from second obtain de2 where de2: "raw_message_of w f ignored_any (BDict fs) = Some de2"
    "map_option K (raw_arguments de2) = Some (msg_kind m)" "transaction_id m = raw_transaction_id de2" "msg_ip m = raw_ip de2"
    by (rule second_passD) (simp add: d)
  with raw_message_fields [OF first] raw_message_fields [OF de2(1)] req show ?thesis
    by (auto simp: is_request_def dest!: optional_NoneD)
qed

text \<open>
  C36. A buffer that is accepted holds one dictionary of exactly the shape its kind asks for: a
  request has its method and its arguments and neither a response nor an error, a response has a
  response and neither arguments nor an error, an error has an error and neither arguments nor a
  response. The transaction identifier is the one in the buffer.
\<close>

theorem accepted_message_shape:
  assumes "deserialize_message w buf = Inr m"
  shows "\<exists>fs. w_bdecode w buf = Some (BDict fs) \<and> kind_shape w (msg_kind m) fs
    \<and> required ''t'' bytes_of fs = Some (transaction_id m) \<and> optional ''ip'' (addr_of w) fs = Some (msg_ip m)"
proof -
  obtain v de where v: "w_bdecode w buf = Some v" and first: "raw_message_of w ignored_any ignored_any v = Some de"
    using assms by (auto simp: deserialize_message_def split: option.splits Option.bind_splits)
  obtain fs where fs: "v = BDict fs" using raw_message_fields [OF first] by blast
  note f = raw_message_fields [OF first]
  show ?thesis
  proof (cases "raw_message_type de")
    case Request_Type
    with assms v first show ?thesis
      unfolding fs
      by (auto simp: deserialize_message_def split: option.splits if_splits
          dest!: request_shape [OF v [unfolded fs] first [unfolded fs] Request_Type])
  next
    case Response_Type
    with assms v first have none: "raw_arguments de = None" "raw_error de = None"
      and second: "second_pass w ignored_any (response_of w) (\<lambda>de. map_option MK_Response (raw_response de)) buf = Inr m"
      by (auto simp: deserialize_message_def split: option.splits)
    from second obtain de2 z where "raw_message_of w ignored_any (response_of w) v = Some de2"
      "raw_response de2 = Some z" "msg_kind m = MK_Response z" "transaction_id m = raw_transaction_id de2"
      "msg_ip m = raw_ip de2"
      by (rule second_passD) (auto simp: v)
    with raw_message_fields [OF this(1)] f none v fs Response_Type show ?thesis
      by (auto dest!: optional_NoneD)
  next
    case Error_Type
    with assms v first have none: "raw_arguments de = None" "raw_response de = None"
      and second: "second_pass w ignored_any (response_of w) (\<lambda>de. map_option MK_Error (raw_error de)) buf = Inr m"
      by (auto simp: deserialize_message_def split: option.splits)
    from second obtain de2 z where "raw_message_of w ignored_any (response_of w) v = Some de2"
      "raw_error de2 = Some z" "msg_kind m = MK_Error z" "transaction_id m = raw_transaction_id de2"
      "msg_ip m = raw_ip de2"
      by (rule second_passD) (auto simp: v)
    with raw_message_fields [OF this(1)] f none v fs Error_Type show ?thesis
      by (auto dest!: optional_NoneD)
  qed
qed

definition ping_wire :: "160 word wire" where
  "ping_wire = compact_wire\<lparr>w_bdecode := (\<lambda>_. Some (BDict [(ascii ''a'', BDict [(ascii ''id'', BBytes (replicate 20 0))]),
     (ascii ''q'', BBytes (ascii ''ping'')), (ascii ''t'', BBytes [1, 2]), (ascii ''y'', BBytes (ascii ''q''))]))\<rparr>"

theorem accepted_message_shape_witness:
  "\<exists>fs. w_bdecode ping_wire [] = Some (BDict fs) \<and> kind_shape ping_wire (MK_PingRequest \<lparr>ping_id = id_new id20_word (replicate 20 0)\<rparr>) fs
    \<and> required ''t'' bytes_of fs = Some [1, 2]"
proof -
  have "deserialize_message ping_wire [] = Inr \<lparr>msg_kind = MK_PingRequest \<lparr>ping_id = id_new id20_word (replicate 20 0)\<rparr>,
      transaction_id = [1, 2], version = None, msg_ip = None\<rparr>"
    by (simp add: deserialize_message_def second_pass_def raw_message_of_def required_def optional_def get_field_def
        ping_wire_def ignored_any_def ping_of_def id_of_def message_type_of_def compact_wire_def)
  from accepted_message_shape [OF this] show ?thesis by auto
qed

end
