(* ===== verification/Worker.thy ===== *)
theory Worker
  imports Recursive_Request Wire
begin

text \<open>
  The worker of a DHT node, \<^verbatim>\<open>DhtWorker\<close> of \<^verbatim>\<open>src/dht.rs\<close>,
  and its configuration: what the pinger asks, which buckets are refreshed, the bootstrap, the
  framer between the socket and the state, and how the worker ends. Sockets, timers and name
  lookup are parameters: the definitions take what they returned.
\<close>

section \<open>The pinger\<close>

definition family_table :: "bool \<Rightarrow> 'id dht_state \<Rightarrow> 'id routing_table" where
  "family_table is_v4 s = (if is_v4 then routing_table_v4 s else routing_table_v6 s)"

definition set_family_table :: "bool \<Rightarrow> 'id routing_table \<Rightarrow> 'id dht_state \<Rightarrow> 'id dht_state" where
  "set_family_table is_v4 t s = (if is_v4 then s\<lparr>routing_table_v4 := t\<rparr> else s\<lparr>routing_table_v6 := t\<rparr>)"

text \<open>One tick: the nodes that it sends to the pinging loop, in the order of the table.\<close>

definition ping_candidates :: "bool \<Rightarrow> instant \<Rightarrow> 'id dht_state \<Rightarrow> abort + ('id \<times> socket_addr) list" where
  "ping_candidates is_v4 now s = (case rt_iter (family_table is_v4 s) of
     None \<Rightarrow> Inl Diverged
   | Some nodes \<Rightarrow> Inr (map (\<lambda>n. (node_id n, node_addr n))
       (filter (\<lambda>n. case status n now of Questionable \<Rightarrow> True | Unknown \<Rightarrow> True | _ \<Rightarrow> False) nodes)))"

text \<open>One ping: the mark and the start of the request, and what happens when it is over.\<close>

definition ping_begin ::
    "bool \<Rightarrow> instant \<Rightarrow> ('id::linorder) \<Rightarrow> socket_addr \<Rightarrow> 'id dht_state
      \<Rightarrow> abort + 'id dht_state \<times> (dht_error + (u16 \<times> socket_addr) \<times> nat)" where
  "ping_begin is_v4 now i addr s =
     and_then (rt_mark_outgoing_request (family_table is_v4 s) i now) (\<lambda>(t, found).
       Inr (request_start Ping addr (set_family_table is_v4 t s)))"

definition ping_end ::
    "bool \<Rightarrow> instant \<Rightarrow> ('id::linorder) \<Rightarrow> dht_error + 'id response_or_error \<Rightarrow> 'id dht_state
      \<Rightarrow> abort + 'id dht_state" where
  "ping_end is_v4 now i result s =
     and_then (case result of
         Inr _ \<Rightarrow> rt_mark_response (family_table is_v4 s) i now
       | Inl _ \<Rightarrow> rt_mark_error (family_table is_v4 s) i) (\<lambda>(t, found).
       Inr (set_family_table is_v4 t s))"

section \<open>The bucket refresher\<close>

text \<open>
  One tick: a random identifier of every bucket that was not refreshed for the inactivity
  timeout. \<open>rnd k\<close> are the random bytes of the \<open>k\<close>-th one.
\<close>

fun refresh_targets ::
    "'id id20_ops \<Rightarrow> (nat \<Rightarrow> bytes) \<Rightarrow> instant \<Rightarrow> nat \<Rightarrow> 'id bucket_tree_iterator_item list \<Rightarrow> abort + 'id list" where
  "refresh_targets ops rnd now found [] = Inr []"
| "refresh_targets ops rnd now found (bucket # rest) =
    (if now - last_refreshed (item_leaf bucket) < INACTIVITY_TIMEOUT
     then refresh_targets ops rnd now found rest
     else and_then (random_within ops (rnd found) bucket) (\<lambda>random_id.
       and_then (refresh_targets ops rnd now (found + 1) rest) (\<lambda>ids. Inr (random_id # ids))))"

definition refresh_tick ::
    "'id id20_ops \<Rightarrow> (nat \<Rightarrow> bytes) \<Rightarrow> bool \<Rightarrow> instant \<Rightarrow> 'id dht_state \<Rightarrow> abort + 'id list" where
  "refresh_tick ops rnd is_v4 now s = (case rt_iter_buckets (family_table is_v4 s) of
     None \<Rightarrow> Inl Diverged
   | Some buckets \<Rightarrow> refresh_targets ops rnd now 0 buckets)"

text \<open>The addresses that the lookup of such an identifier starts with.\<close>

definition refresh_addrs ::
    "('id::linorder) id20_ops \<Rightarrow> bool \<Rightarrow> instant \<Rightarrow> 'id \<Rightarrow> 'id dht_state \<Rightarrow> abort + socket_addr list" where
  "refresh_addrs ops is_v4 now random_id s =
    (case sorted_by_distance_from ops (family_table is_v4 s) random_id now of
       None \<Rightarrow> Inl Diverged
     | Some nodes \<Rightarrow> Inr (take 8 (map node_addr nodes)))"

section \<open>Bootstrap\<close>

fun result_or :: "'e + 'a \<Rightarrow> 'e + 'a \<Rightarrow> 'e + 'a" where
  "result_or (Inr x) r = Inr x"
| "result_or (Inl _) r = r"

text \<open>
  One host: its addresses, or the error of the name lookup, and the lookups of the own identifier
  in both families.
\<close>

definition bootstrap_hostname ::
    "string \<Rightarrow> library_error + socket_addr list \<Rightarrow> (socket_addr list \<Rightarrow> dht_error + unit)
      \<Rightarrow> (socket_addr list \<Rightarrow> dht_error + unit) \<Rightarrow> dht_error + unit" where
  "bootstrap_hostname host looked_up find_v4 find_v6 = (case looked_up of
     Inl err \<Rightarrow> Inl (lookup_failed host err)
   | Inr addrs \<Rightarrow> result_or (find_v4 (filter is_ipv4 addrs)) (find_v6 (filter is_ipv6 addrs)))"

definition bootstrap :: "(dht_error + unit) list \<Rightarrow> dht_error + unit" where
  "bootstrap results =
    (let successes = length (filter (\<lambda>r. case r of Inr _ \<Rightarrow> True | Inl _ \<Rightarrow> False) results)
     in if successes = 0 then Inl BootstrapFailed else Inr ())"

section \<open>The framer\<close>

text \<open>
  The writer takes the first message of the queue and waits for the socket, and \<open>sent\<close> is what that
  returned: an error is reported to the request the message belongs to. Other tasks may run in between
  (\<open>Worker_Loops\<close> has two events); \<open>writer_step\<close> is the turn of the loop in which none does.
\<close>

definition datagram_of :: "'id wire \<Rightarrow> 'id message \<Rightarrow> bytes" where
  "datagram_of w message =
     serialize_message w (transaction_id message) (version message) (msg_ip message) (msg_kind message)"

definition writer_take :: "'id dht_state \<Rightarrow> ('id worker_send_request \<times> 'id dht_state) option" where
  "writer_take s = (case worker_queue s of
     [] \<Rightarrow> None
   | m # rest \<Rightarrow> Some (m, s\<lparr>worker_queue := rest\<rparr>))"

definition writer_sent :: "library_error + unit \<Rightarrow> 'id worker_send_request \<Rightarrow> 'id dht_state \<Rightarrow> 'id dht_state" where
  "writer_sent sent m s = (case sent of
     Inr _ \<Rightarrow> s
   | Inl e \<Rightarrow> (case our_tid m of
       Some tid \<Rightarrow> on_send_error tid (wsr_addr m) (SendError e) s
     | None \<Rightarrow> s))"

definition writer_step ::
    "'id wire \<Rightarrow> library_error + unit \<Rightarrow> 'id dht_state \<Rightarrow> ((bytes \<times> socket_addr) \<times> 'id dht_state) option" where
  "writer_step w sent s = (case writer_take s of
     None \<Rightarrow> None
   | Some (m, s1) \<Rightarrow> Some ((datagram_of w (wsr_message m), wsr_addr m), writer_sent sent m s1))"

text \<open>
  The reader receives into 16384 bytes; what cannot be parsed is dropped. An error of the handler
  is only logged.
\<close>

definition RECV_BUFFER :: nat where
  "RECV_BUFFER = 16384"

definition reader_step :: "'id wire \<Rightarrow> bytes \<Rightarrow> 'id message option" where
  "reader_step w datagram = (case deserialize_message w (take RECV_BUFFER datagram) of
     Inr msg \<Rightarrow> Some msg
   | Inl e \<Rightarrow> None)"

definition on_datagram ::
    "('id::linorder) id20_ops \<Rightarrow> 'id wire \<Rightarrow> dht_env \<Rightarrow> bytes \<Rightarrow> socket_addr \<Rightarrow> 'id dht_state
      \<Rightarrow> abort + 'id dht_state" where
  "on_datagram ops w env datagram addr s = (case reader_step w datagram of
     None \<Rightarrow> Inr s
   | Some msg \<Rightarrow> and_then (on_received_message ops env msg addr s) (\<lambda>(s1, result). Inr s1))"

section \<open>The worker\<close>

datatype worker_task =
    Framer | Bootstrap | PingerV4 | RefresherV4 | PingerV6 | RefresherV6 | ResponseReader | PeerStoreGC

fun task_name :: "worker_task \<Rightarrow> string" where
  "task_name Framer = ''framer''"
| "task_name Bootstrap = ''bootstrap''"
| "task_name PingerV4 = ''pinger_v4''"
| "task_name RefresherV4 = ''bucket_refresher_v4''"
| "task_name PingerV6 = ''pinger_v6''"
| "task_name RefresherV6 = ''bucket_refresher_v6''"
| "task_name ResponseReader = ''response_reader''"
| "task_name PeerStoreGC = ''peer_store_gc''"

text \<open>
  A task has finished with a result. The state is \<^verbatim>\<open>bootstrap_done\<close>; the worker
  returns in the second component, or goes on.
\<close>

fun start_step :: "worker_task \<Rightarrow> dht_error + unit \<Rightarrow> bool \<Rightarrow> bool \<times> (dht_error + unit) option" where
  "start_step Bootstrap result bootstrap_done =
    (if bootstrap_done then (bootstrap_done, None)
     else (True, case result of Inl e \<Rightarrow> Some (Inl e) | Inr _ \<Rightarrow> None))"
| "start_step PeerStoreGC result bootstrap_done = (bootstrap_done, None)"
| "start_step task result bootstrap_done = (bootstrap_done, Some (task_finished (task_name task) result))"

fun start_loop :: "(worker_task \<times> (dht_error + unit)) list \<Rightarrow> bool \<Rightarrow> (dht_error + unit) option" where
  "start_loop [] bootstrap_done = None"
| "start_loop ((task, result) # rest) bootstrap_done = (case start_step task result bootstrap_done of
     (d, Some r) \<Rightarrow> Some r
   | (d, None) \<Rightarrow> start_loop rest d)"

section \<open>Configuration\<close>

record 'id dht_config =
  peer_id :: "'id option"
  bootstrap_addrs :: "string list option"
  cfg_routing_table :: "'id routing_table option"
  cfg_routing_table_v6 :: "'id routing_table option"
  cfg_listen_addr :: "socket_addr option"
  cfg_peer_store :: "'id peer_store option"

definition DHT_BOOTSTRAP :: "string list" where
  "DHT_BOOTSTRAP = [''dht.transmissionbt.com:6881'', ''dht.libtorrent.org:25401'']"

definition default_config :: "'id dht_config" where
  "default_config = \<lparr>peer_id = None, bootstrap_addrs = None, cfg_routing_table = None,
     cfg_routing_table_v6 = None, cfg_listen_addr = None, cfg_peer_store = None\<rparr>"

text \<open>
  \<open>bind_udp\<close> is the socket library, which returns the address it bound, and \<open>generated\<close>
  the identifier that it would generate. The result is the state and the hosts to bootstrap from.
\<close>

definition with_config ::
    "'id id20_ops \<Rightarrow> (socket_addr \<Rightarrow> library_error + socket_addr) \<Rightarrow> 'id \<Rightarrow> instant \<Rightarrow> 'id dht_config
      \<Rightarrow> dht_error + 'id dht_state \<times> string list" where
  "with_config ops bind_udp generated now config =
    (let addr = (case cfg_listen_addr config of Some a \<Rightarrow> a
           | None \<Rightarrow> V6 \<lparr>ip6 = 0, port6 = 0, flowinfo = 0, scope_id = 0\<rparr>)
     in case bind_udp addr of
          Inl e \<Rightarrow> Inl (Bind e)
        | Inr bound \<Rightarrow>
           (let i = (case peer_id config of Some i \<Rightarrow> i | None \<Rightarrow> generated);
                hosts = (case bootstrap_addrs config of Some hs \<Rightarrow> hs | None \<Rightarrow> DHT_BOOTSTRAP);
                store = (case cfg_peer_store config of Some ps \<Rightarrow> ps | None \<Rightarrow> peer_store_new ops i)
            in Inr (dht_new_internal ops now i (cfg_routing_table config) (cfg_routing_table_v6 config) bound store,
                    hosts)))"

end
