(* ===== verification/Worker_Props.thy ===== *)
theory Worker_Props
  imports Worker Wire_Props Dht_Props Recursive_Props
begin

text \<open>
  Properties of the worker: what the pinger asks and what its answers do to the routing table,
  which buckets are refreshed, and a query that goes over the wire to another node and back.
\<close>

section \<open>Tables by family\<close>

lemma family_table_ok: "stores_ok ops s \<Longrightarrow> rt_inv ops (family_table is_v4 s)"
  by (simp add: stores_ok_def family_table_def)

lemma set_family_table_ok: "stores_ok ops s \<Longrightarrow> rt_inv ops t \<Longrightarrow> stores_ok ops (set_family_table is_v4 t s)"
  by (simp add: stores_ok_def set_family_table_def)

lemma family_table_set [simp]: "family_table is_v4 (set_family_table is_v4 t s) = t"
  by (simp add: family_table_def set_family_table_def)

lemma request_start_table: "family_table is_v4 (fst (request_start req addr s)) = family_table is_v4 s"
  by (simp add: request_start_eq family_table_def Let_def)

lemma request_start_stores: "stores_ok ops (fst (request_start req addr s)) = stores_ok ops s"
  by (simp add: request_start_eq stores_ok_def Let_def)

lemma mark_known:
  assumes "id20_api ops" and "rt_inv ops t" and "rt_lookup t i = Some n"
  shows "\<exists>t'. rt_mark e i t = Inr (t', True) \<and> rt_inv ops t' \<and> rt_lookup t' = (rt_lookup t)(i \<mapsto> node_step n e)"
  using id20_api.rt_inv_mark [OF assms(1,2), of e i] assms(3) by simp

section \<open>The pinger\<close>

text \<open>
  A tick of the pinger asks exactly the nodes of its table whose status is questionable or
  unknown, each once, at the address that is stored: good nodes are left alone, and so are bad
  ones.
\<close>

theorem pinger_asks_the_doubtful:
  assumes "id20_api ops" and "stores_ok ops s"
  shows "\<exists>nodes xs. rt_iter (family_table is_v4 s) = Some nodes \<and> ping_candidates is_v4 now s = Inr xs
    \<and> distinct (map fst xs)
    \<and> set xs = {(node_id n, node_addr n) | n. n \<in> set nodes \<and> status n now \<noteq> Good \<and> status n now \<noteq> Bad}"
proof -
  note it = id20_api.rt_inv_iter [OF assms(1) family_table_ok [OF assms(2)], of is_v4]
  let ?doubt = "\<lambda>n. case status n now of Questionable \<Rightarrow> True | Unknown \<Rightarrow> True | _ \<Rightarrow> False"
  have d: "?doubt n \<longleftrightarrow> status n now \<noteq> Good \<and> status n now \<noteq> Bad" for n
    by (cases "status n now") simp_all
  have "distinct (map node_id (rt_nodes (family_table is_v4 s)))" using it(2) by (simp add: strict_sorted_iff)
  then have "distinct (map node_id (filter ?doubt (rt_nodes (family_table is_v4 s))))"
    by (rule distinct_map_filter)
  then show ?thesis using it(1) d by (auto simp: ping_candidates_def comp_def)
qed

text \<open>
  A ping settles the standing of the node in doubt: its entry takes the request and then the
  answer or the error, and nothing else changes. A node that answered is good for the inactivity
  timeout.
\<close>

theorem ping_settles_node:
  assumes "id20_api ops" and "stores_ok ops s" and "rt_lookup (family_table is_v4 s) i = Some n"
  shows "\<exists>s1 r s2 n'. ping_begin is_v4 t1 i addr s = Inr (s1, r) \<and> ping_end is_v4 t2 i result s1 = Inr s2
    \<and> stores_ok ops s2 \<and> rt_lookup (family_table is_v4 s2) = (rt_lookup (family_table is_v4 s))(i \<mapsto> n')
    \<and> n' = node_run n [Requested t1, if \<exists>x. result = Inr x then Responded t2 else Errored]
    \<and> ((\<exists>x. result = Inr x) \<longrightarrow> t2 \<le> now \<longrightarrow> now < t2 + INACTIVITY_TIMEOUT \<longrightarrow> status n' now = Good)"
proof -
  let ?e = "if \<exists>x. result = Inr x then Responded t2 else Errored"
  let ?t = "family_table is_v4 s"
  obtain t' where t': "rt_mark (Requested t1) i ?t = Inr (t', True)" "rt_inv ops t'"
    "rt_lookup t' = (rt_lookup ?t)(i \<mapsto> node_step n (Requested t1))"
    using mark_known [OF assms(1) family_table_ok [OF assms(2)] assms(3)] by blast
  define s1 where "s1 = fst (request_start Ping addr (set_family_table is_v4 t' s))"
  have started: "ping_begin is_v4 t1 i addr s = Inr (s1, snd (request_start Ping addr (set_family_table is_v4 t' s)))"
    using t'(1) by (simp add: ping_begin_def s1_def)
  have s1: "family_table is_v4 s1 = t'" "stores_ok ops s1"
    using set_family_table_ok [OF assms(2) t'(2)] by (simp_all add: s1_def request_start_table request_start_stores)
  obtain t'' where t'': "rt_mark ?e i t' = Inr (t'', True)" "rt_inv ops t''"
    "rt_lookup t'' = (rt_lookup t')(i \<mapsto> node_step (node_step n (Requested t1)) ?e)"
    using mark_known [OF assms(1) t'(2)] t'(3) by (metis fun_upd_same)
  have "ping_end is_v4 t2 i result s1 = Inr (set_family_table is_v4 t'' s1)"
    using t''(1) by (cases result) (simp_all add: ping_end_def s1(1))
  moreover have "stores_ok ops (set_family_table is_v4 t'' s1)" using set_family_table_ok [OF s1(2) t''(2)] .
  ultimately show ?thesis
    using started t'(3) t''(3) by (auto simp: status_eval)
qed

text \<open>A node that knows one other node, which never answered.\<close>

definition probe_state :: "160 word dht_state" where
  "probe_state = (node_state (dht_start id20_word 0 9 sample_addr))\<lparr>routing_table_v4 := one_node_table\<rparr>"

lemma probe_state_ok: "stores_ok id20_word probe_state"
proof -
  have "stores_ok id20_word (node_state (dht_start id20_word 0 9 sample_addr))"
    using w20.dht_start_ok by (simp add: dht_inv_def)
  moreover have "rt_inv id20_word one_node_table" using rt_reach_inv [OF id20_word_api reach_one] by simp
  ultimately show ?thesis by (simp add: stores_ok_def probe_state_def)
qed

lemma probe_state_node: "\<exists>n. rt_lookup (family_table True probe_state) 5 = Some n"
proof -
  have inv: "rt_inv id20_word one_node_table" using rt_reach_inv [OF id20_word_api reach_one] by simp
  have "\<exists>t. rt_mark Errored 5 one_node_table = Inr (t, True)" by (simp add: rt_eval)
  with w20.rt_inv_mark [OF inv, of Errored 5] have "rt_lookup one_node_table 5 \<noteq> None" by auto
  then show ?thesis by (simp add: family_table_def probe_state_def)
qed

theorem pinger_asks_the_doubtful_witness:
  "\<exists>nodes xs. rt_iter (family_table True probe_state) = Some nodes \<and> ping_candidates True 100 probe_state = Inr xs
    \<and> distinct (map fst xs)
    \<and> set xs = {(node_id n, node_addr n) | n. n \<in> set nodes \<and> status n 100 \<noteq> Good \<and> status n 100 \<noteq> Bad}"
  by (rule pinger_asks_the_doubtful [OF id20_word_api probe_state_ok])

theorem ping_settles_node_witness:
  "\<exists>n s1 r s2 n'. rt_lookup (family_table True probe_state) 5 = Some n
    \<and> ping_begin True 40 5 sample_addr probe_state = Inr (s1, r)
    \<and> ping_end True 50 5 (Inr (ROE_Error \<lparr>code = 203, description = []\<rparr>)) s1 = Inr s2
    \<and> rt_lookup (family_table True s2) 5 = Some n' \<and> status n' 60 = Good"
proof -
  obtain n where n: "rt_lookup (family_table True probe_state) 5 = Some n" using probe_state_node by blast
  obtain s1 r s2 n' where s: "ping_begin True 40 5 sample_addr probe_state = Inr (s1, r)"
    "ping_end True 50 5 (Inr (ROE_Error \<lparr>code = 203, description = []\<rparr>)) s1 = Inr s2"
    "rt_lookup (family_table True s2) = (rt_lookup (family_table True probe_state))(5 \<mapsto> n')"
    "(50 :: nat) \<le> 60 \<longrightarrow> 60 < 50 + INACTIVITY_TIMEOUT \<longrightarrow> status n' 60 = Good"
    using ping_settles_node [OF id20_word_api probe_state_ok n, of 40 sample_addr 50
      "Inr (ROE_Error \<lparr>code = 203, description = []\<rparr>)" 60] by blast
  with n show ?thesis by (auto simp: INACTIVITY_TIMEOUT_def from_secs_def)
qed

section \<open>The bucket refresher\<close>

lemma refresh_targets_within:
  assumes "\<forall>it \<in> set items. \<forall>rnd. \<exists>x. random_within ops rnd it = Inr x \<and> item_start it \<le> x \<and> x \<le> item_end_inclusive it"
  shows "\<exists>xs. refresh_targets ops rnd now k items = Inr xs
    \<and> list_all2 (\<lambda>it x. item_start it \<le> x \<and> x \<le> item_end_inclusive it)
        (filter (\<lambda>it. INACTIVITY_TIMEOUT \<le> now - last_refreshed (item_leaf it)) items) xs"
  using assms
proof (induction items arbitrary: k)
  case (Cons it items)
  from Cons.prems obtain x where x: "random_within ops (rnd k) it = Inr x" "item_start it \<le> x" "x \<le> item_end_inclusive it"
    by force
  from Cons.prems have rest: "\<forall>it \<in> set items. \<forall>rnd. \<exists>x. random_within ops rnd it = Inr x
    \<and> item_start it \<le> x \<and> x \<le> item_end_inclusive it" by simp
  from Cons.IH [OF rest, of k] Cons.IH [OF rest, of "k + 1"] x show ?case
    by (cases "now - last_refreshed (item_leaf it) < INACTIVITY_TIMEOUT") (auto simp: not_less)
qed simp

text \<open>
  A tick of the refresher looks up one identifier for every bucket that was not refreshed within
  the inactivity timeout, in the order of the buckets and each between the bounds of its bucket, and
  none for the others.
\<close>

theorem stale_buckets_are_refreshed:
  assumes "id20_api ops" and "stores_ok ops s"
  shows "\<exists>items xs. rt_iter_buckets (family_table is_v4 s) = Some items \<and> refresh_tick ops rnd is_v4 now s = Inr xs
    \<and> list_all2 (\<lambda>it x. item_start it \<le> x \<and> x \<le> item_end_inclusive it)
        (filter (\<lambda>it. INACTIVITY_TIMEOUT \<le> now - last_refreshed (item_leaf it)) items) xs"
proof -
  have t: "tree_inv ops (rt_id (family_table is_v4 s)) (rt_buckets (family_table is_v4 s))"
    using family_table_ok [OF assms(2)] by (simp add: rt_inv_def)
  obtain items where items: "rt_iter_buckets (family_table is_v4 s) = Some items"
    using id20_api.tree_inv_random [OF assms(1) t] by (auto simp: rt_iter_buckets_def)
  have "\<forall>it \<in> set items. \<forall>rnd. \<exists>x. random_within ops rnd it = Inr x \<and> item_start it \<le> x \<and> x \<le> item_end_inclusive it"
    using id20_api.tree_inv_random [OF assms(1) t] items by (fastforce simp: rt_iter_buckets_def)
  from refresh_targets_within [OF this, of rnd now 0] show ?thesis
    by (simp add: refresh_tick_def items)
qed

theorem stale_buckets_are_refreshed_witness:
  "\<exists>items xs. rt_iter_buckets (family_table True probe_state) = Some items
    \<and> refresh_tick id20_word (\<lambda>_. replicate 20 7) True (3 + INACTIVITY_TIMEOUT) probe_state = Inr xs
    \<and> list_all2 (\<lambda>it x. item_start it \<le> x \<and> x \<le> item_end_inclusive it)
        (filter (\<lambda>it. INACTIVITY_TIMEOUT \<le> 3 + INACTIVITY_TIMEOUT - last_refreshed (item_leaf it)) items) xs"
  by (rule stale_buckets_are_refreshed [OF id20_word_api probe_state_ok])

section \<open>Two nodes\<close>

lemma reader_reads:
  assumes "wire_ok w" and "kind_ok (msg_kind msg)" and "\<And>a. msg_ip msg = Some a \<Longrightarrow> plain a"
    and "length (datagram_of w msg) \<le> RECV_BUFFER"
  shows "reader_step w (datagram_of w msg) = Some msg"
  using message_reads_back [OF assms(1,2), of "msg_ip msg" "transaction_id msg" "version msg"] assms(3,4)
  by (simp add: reader_step_def datagram_of_def)

lemma create_request_kind:
  "kind_ok (msg_kind (snd (snd (create_request req addr s))))"
  "msg_ip (snd (snd (create_request req addr s))) = None"
  "transaction_id (snd (snd (create_request req addr s))) = tid_bytes (next_transaction_id s)"
  "\<forall>e. msg_kind (snd (snd (create_request req addr s))) \<noteq> MK_Error e"
  "\<forall>r. msg_kind (snd (snd (create_request req addr s))) \<noteq> MK_Response r"
  by (cases req; simp add: create_request_def Let_def)+

text \<open>
  C2. A query crosses the wire and its answer finds the way back. What a node sends for a request is
  parsed by any other node as it was built; that node's handler queues one answer, to the address
  the query came from; and the datagram of this answer, when it arrives from the address that was
  asked, completes exactly the channel of the request with a response that has the identifier of the
  answering node, and the request is no longer in flight. The datagrams must fit the receive buffer,
  and the answer's addresses the compact formats.
\<close>

theorem query_crosses_the_wire:
  assumes "id20_api ops" and w: "wire_ok w" and "stores_ok ops b" and "worker_alive b"
    and start: "request_start req addr_b a = (a1, Inr (key, ch))" and "plain addr_a"
    and fits: "length (datagram_of w (wsr_message (last (worker_queue a1)))) \<le> RECV_BUFFER"
  shows "\<exists>b1 reply resp. on_datagram ops w env (datagram_of w (wsr_message (last (worker_queue a1)))) addr_a b = Inr b1
    \<and> stores_ok ops b1 \<and> worker_queue b1 = worker_queue b @ [reply] \<and> wsr_addr reply = addr_a
    \<and> msg_kind (wsr_message reply) = MK_Response resp \<and> resp_id resp = dht_id b
    \<and> (kind_ok (MK_Response resp) \<longrightarrow> length (datagram_of w (wsr_message reply)) \<le> RECV_BUFFER \<longrightarrow>
        on_datagram ops w env' (datagram_of w (wsr_message reply)) addr_b a1
          = Inr (a1\<lparr>inflight := (inflight a1)(key := None), completed := (completed a1)(ch \<mapsto> Inr (ROE_Response resp))\<rparr>))"
proof -
  let ?q = "snd (snd (create_request req addr_b a))"
  have a1: "wsr_message (last (worker_queue a1)) = ?q" "key = (next_transaction_id a, addr_b)" "inflight a1 key = Some ch"
    using start by (auto simp: request_start_eq Let_def split: if_splits)
  have read: "reader_step w (datagram_of w ?q) = Some ?q"
    by (rule reader_reads [OF w]) (use fits a1(1) create_request_kind [of req addr_b a] in simp_all)
  have "answers ops b ?q addr_a (on_received_message ops env ?q addr_a b)"
    by (rule id20_api.query_answered [OF assms(1,3)]) (simp_all add: create_request_kind)
  then obtain b0 resp where b0: "on_received_message ops env ?q addr_a b = Inr (respond ?q addr_a resp b0)" "resp_id resp = dht_id b"
    "stores_ok ops b0" "worker_alive b0" "worker_queue b0 = worker_queue b"
    using assms(4) by (auto simp: answers_def)
  let ?reply = "\<lparr>our_tid = None, wsr_message = \<lparr>msg_kind = MK_Response resp, transaction_id = transaction_id ?q,
    version = None, msg_ip = Some addr_a\<rparr>, wsr_addr = addr_a\<rparr>"
  let ?b1 = "b0\<lparr>worker_queue := worker_queue b0 @ [?reply]\<rparr>"
  have b1: "on_datagram ops w env (datagram_of w ?q) addr_a b = Inr ?b1"
    using b0(1,4) by (simp add: on_datagram_def read respond_eq)
  have "on_datagram ops w env' (datagram_of w (wsr_message ?reply)) addr_b a1
      = Inr (a1\<lparr>inflight := (inflight a1)(key := None), completed := (completed a1)(ch \<mapsto> Inr (ROE_Response resp))\<rparr>)"
    if "kind_ok (MK_Response resp)" "length (datagram_of w (wsr_message ?reply)) \<le> RECV_BUFFER"
  proof -
    have "reader_step w (datagram_of w (wsr_message ?reply)) = Some (wsr_message ?reply)"
      by (rule reader_reads [OF w]) (use that \<open>plain addr_a\<close> in simp_all)
    moreover have "get_our_transaction_id (wsr_message ?reply) = Some (next_transaction_id a)"
      by (rule our_transaction_id) (simp add: create_request_kind(3))
    ultimately show ?thesis
      using a1(2,3) by (simp add: on_datagram_def on_received_message_def query_handlers on_answer_def)
  qed
  moreover have "stores_ok ops ?b1" using b0(3) by (simp add: stores_ok_def)
  ultimately show ?thesis
    using a1(1) b1 b0(2,5) by (intro exI [of _ ?b1] exI [of _ ?reply] exI [of _ resp]) simp
qed

text \<open>Two fresh nodes, of which one pings the other.\<close>

definition asking_node :: "160 word dht_state" where
  "asking_node = node_state (dht_start id20_word 0 7 sample_addr)"

definition asked_node :: "160 word dht_state" where
  "asked_node = node_state (dht_start id20_word 0 9 sample_addr)"

lemma asked_node_ok: "stores_ok id20_word asked_node" "worker_alive asked_node"
  using w20.dht_start_ok [of 0 9 sample_addr] by (simp_all add: asked_node_def dht_inv_def dht_start_def dht_new_internal_def)

definition sample_ping :: "160 word message" where
  "sample_ping = \<lparr>msg_kind = MK_PingRequest \<lparr>ping_id = 7\<rparr>, transaction_id = [0, 0], version = None, msg_ip = None\<rparr>"

lemma sample_start: "request_start Ping sample_addr asking_node
  = (asking_node\<lparr>next_transaction_id := 1, inflight := [(0, sample_addr) \<mapsto> 0], next_channel := 1,
       worker_queue := [\<lparr>our_tid = Some 0, wsr_message = sample_ping, wsr_addr = sample_addr\<rparr>]\<rparr>, Inr ((0, sample_addr), 0))"
  by (simp add: request_start_eq asking_node_def dht_start_def dht_new_internal_def create_request_def tid_bytes_def
      sample_ping_def Let_def)

lemmas wire_eval = datagram_of_def serialize_message_def request_value_def raw_message_value_def struct_value_def
  struct_fields_def id_value_def addr_value_def ping_value_def response_value_def compact_wire_def ascii_def
  length_bytes_of_word

lemma length_show_small: "n < 10 \<Longrightarrow> length (show_nat n) = 1" "10 \<le> n \<Longrightarrow> n < 100 \<Longrightarrow> length (show_nat n) = 2"
proof -
  show small: "length (show_nat n) = 1" if "n < 10" for n
    using that by (simp add: show_nat.simps [of n])
  show "length (show_nat n) = 2" if "10 \<le> n" "n < 100"
    using that small [of "n div 10"] by (simp add: show_nat.simps [of n])
qed

lemma sample_ping_fits: "length (datagram_of compact_wire sample_ping) \<le> RECV_BUFFER"
  by (simp add: wire_eval length_show_small sample_ping_def RECV_BUFFER_def)

lemma sample_pong:
  "\<exists>b0. on_received_message id20_word env sample_ping sample_addr asked_node
     = Inr (respond sample_ping sample_addr (own_response id20_word asked_node) b0) \<and> worker_alive b0"
proof -
  obtain t where "mark_query_from env 7 sample_addr asked_node = Inr (set_table_for_addr sample_addr t asked_node)"
    using w20.mark_query_ok [OF asked_node_ok(1)] by blast
  then show ?thesis
    using asked_node_ok(2) by (intro exI [of _ "set_table_for_addr sample_addr t asked_node"])
      (simp add: on_received_message_def query_handlers sample_ping_def own_response_def)
qed

theorem query_crosses_the_wire_witness:
  "\<exists>b1 reply. on_datagram id20_word compact_wire sample_env (datagram_of compact_wire sample_ping) sample_addr asked_node = Inr b1
    \<and> worker_queue b1 = [reply]
    \<and> on_datagram id20_word compact_wire sample_env (datagram_of compact_wire (wsr_message reply)) sample_addr
        (fst (request_start Ping sample_addr asking_node))
      = Inr ((fst (request_start Ping sample_addr asking_node))\<lparr>inflight := Map.empty,
          completed := [0 \<mapsto> Inr (ROE_Response (own_response id20_word asked_node))]\<rparr>)"
proof -
  let ?a1 = "fst (request_start Ping sample_addr asking_node)"
  have plain: "plain sample_addr" by (simp add: plain_def sample_addr_def)
  have q: "wsr_message (last (worker_queue ?a1)) = sample_ping" "inflight ?a1 = [(0, sample_addr) \<mapsto> 0]"
    "completed ?a1 = Map.empty" by (simp_all add: sample_start, simp add: asking_node_def dht_start_def dht_new_internal_def)
  have start: "request_start Ping sample_addr asking_node = (?a1, Inr ((0, sample_addr), 0))" by (simp add: sample_start)
  have fits: "length (datagram_of compact_wire (wsr_message (last (worker_queue ?a1)))) \<le> RECV_BUFFER"
    using sample_ping_fits q by simp
  obtain b1 reply resp where r: "on_datagram id20_word compact_wire sample_env (datagram_of compact_wire sample_ping)
      sample_addr asked_node = Inr b1" "worker_queue b1 = worker_queue asked_node @ [reply]"
    "msg_kind (wsr_message reply) = MK_Response resp"
    "kind_ok (MK_Response resp) \<longrightarrow> length (datagram_of compact_wire (wsr_message reply)) \<le> RECV_BUFFER \<longrightarrow>
      on_datagram id20_word compact_wire sample_env (datagram_of compact_wire (wsr_message reply)) sample_addr ?a1
        = Inr (?a1\<lparr>inflight := (inflight ?a1)((0, sample_addr) := None),
            completed := (completed ?a1)(0 \<mapsto> Inr (ROE_Response resp))\<rparr>)"
    using query_crosses_the_wire [OF id20_word_api compact_wire_ok asked_node_ok start plain fits,
        where env = sample_env and env' = sample_env] unfolding q(1) by blast
  obtain b0 where "on_received_message id20_word sample_env sample_ping sample_addr asked_node
      = Inr (respond sample_ping sample_addr (own_response id20_word asked_node) b0)" "worker_alive b0"
    using sample_pong by blast
  moreover have "reader_step compact_wire (datagram_of compact_wire sample_ping) = Some sample_ping"
    by (rule reader_reads [OF compact_wire_ok]) (use sample_ping_fits in \<open>simp_all add: sample_ping_def\<close>)
  ultimately have "wsr_message reply = \<lparr>msg_kind = MK_Response (own_response id20_word asked_node),
      transaction_id = [0, 0], version = None, msg_ip = Some sample_addr\<rparr>"
    using r(1,2) by (auto simp: on_datagram_def respond_eq sample_ping_def)
  moreover from this have "resp = own_response id20_word asked_node" using r(3) by simp
  moreover have "kind_ok (MK_Response (own_response id20_word asked_node))"
    by (simp add: own_response_def default_response_def fits_i64_def)
  moreover have "length (datagram_of compact_wire \<lparr>msg_kind = MK_Response (own_response id20_word asked_node),
      transaction_id = [0, 0], version = None, msg_ip = Some sample_addr\<rparr>) \<le> RECV_BUFFER"
    by (simp add: wire_eval length_show_small own_response_def default_response_def compact_v4_def sample_addr_def RECV_BUFFER_def)
  moreover have "worker_queue asked_node = []" by (simp add: asked_node_def dht_start_def dht_new_internal_def)
  ultimately show ?thesis using r(1,2,4) q(2,3) by (intro exI [of _ b1] exI [of _ reply]) simp
qed

end
