(* ===== verification/Dump.thy ===== *)
theory Dump
  imports Dht_State
begin

text \<open>
  The serialized form of the routing tables and of the peer store: the implementations of
  \<^verbatim>\<open>Serialize\<close> and \<^verbatim>\<open>Deserialize\<close> in
  \<^verbatim>\<open>src/routing_table.rs\<close>, \<^verbatim>\<open>src/peer_store.rs\<close> and
  \<^verbatim>\<open>src/utils.rs\<close>, hand-written and derived, as conversions between the data of the
  model and JSON values.
\<close>

section \<open>JSON values and the libraries\<close>

text \<open>The values of the serializer. A number that is not an integer is kept as its text.\<close>

datatype json =
    JNull
  | JBool bool
  | JInt int
  | JFloat string
  | JStr string
  | JArr "json list"
  | JObj "(string \<times> json) list"

text \<open>
  What other crates write and read: the text of a value (\<^verbatim>\<open>serde_json\<close>), identifiers
  (\<^verbatim>\<open>as_string\<close> and the \<^verbatim>\<open>Deserialize\<close> of
  \<^verbatim>\<open>librtbit_core\<close>), socket addresses, durations and times.
\<close>

record 'id serde =
  se_write :: "json \<Rightarrow> bytes"
  se_read :: "bytes \<Rightarrow> library_error + json"
  se_id :: "'id \<Rightarrow> string"
  se_id_of :: "json \<Rightarrow> library_error + 'id"
  se_addr :: "socket_addr \<Rightarrow> json"
  se_addr_of :: "json \<Rightarrow> library_error + socket_addr"
  se_time :: "datetime \<Rightarrow> json"
  se_time_of :: "json \<Rightarrow> library_error + datetime"
  se_duration :: "duration \<Rightarrow> json"
  se_debug :: "duration \<Rightarrow> string"

text \<open>\<^verbatim>\<open>serialize_id20\<close>.\<close>

definition serialize_id20 :: "'id serde \<Rightarrow> 'id \<Rightarrow> json" where
  "serialize_id20 se i = JStr (se_id se i)"

section \<open>What the derived deserializers share\<close>

text \<open>
  A derived struct is read from an object, where unknown fields are ignored and a repeated one is
  an error, or from an array with its fields in order; \<open>defaults\<close> are the fields that
  have a default.
\<close>

definition derived_fields ::
    "string list \<Rightarrow> string list \<Rightarrow> json \<Rightarrow> library_error + (string \<rightharpoonup> json)" where
  "derived_fields names defaults v = (case v of
     JObj fs \<Rightarrow> (if distinct (filter (\<lambda>k. k \<in> set names) (map fst fs)) then Inr (map_of fs)
       else Inl ''duplicate field'')
   | JArr xs \<Rightarrow> (if length xs \<le> length names \<and> (\<forall>k \<in> set (drop (length xs) names). k \<in> set defaults)
       then Inr (map_of (zip names xs)) else Inl ''invalid length'')
   | _ \<Rightarrow> Inl ''invalid type'')"

definition field_of ::
    "string \<Rightarrow> (json \<Rightarrow> library_error + 'a) \<Rightarrow> (string \<rightharpoonup> json) \<Rightarrow> library_error + 'a" where
  "field_of k p fs = (case fs k of Some v \<Rightarrow> p v | None \<Rightarrow> Inl (''missing field '' @ k))"

definition default_field_of ::
    "'a \<Rightarrow> string \<Rightarrow> (json \<Rightarrow> library_error + 'a) \<Rightarrow> (string \<rightharpoonup> json) \<Rightarrow> library_error + 'a" where
  "default_field_of d k p fs = (case fs k of Some v \<Rightarrow> p v | None \<Rightarrow> Inr d)"

definition option_of :: "(json \<Rightarrow> library_error + 'a) \<Rightarrow> json \<Rightarrow> library_error + 'a option" where
  "option_of p v = (if v = JNull then Inr None else and_then (p v) (\<lambda>x. Inr (Some x)))"

fun each :: "('a \<Rightarrow> 'e + 'b) \<Rightarrow> 'a list \<Rightarrow> 'e + 'b list" where
  "each p [] = Inr []"
| "each p (x # xs) = and_then (p x) (\<lambda>y. and_then (each p xs) (\<lambda>ys. Inr (y # ys)))"

fun vec_of :: "(json \<Rightarrow> library_error + 'a) \<Rightarrow> json \<Rightarrow> library_error + 'a list" where
  "vec_of p (JArr xs) = each p xs"
| "vec_of p _ = Inl ''invalid type''"

fun uint_of :: "nat \<Rightarrow> json \<Rightarrow> library_error + nat" where
  "uint_of w (JInt n) = (if 0 \<le> n \<and> n < 2 ^ w then Inr (nat n) else Inl ''invalid value'')"
| "uint_of w _ = Inl ''invalid type''"

definition usize_json :: "nat \<Rightarrow> json" where
  "usize_json n = JInt (int n)"

definition json_word_of :: "json \<Rightarrow> library_error + ('w::len) word" where
  "json_word_of v = and_then (uint_of LENGTH('w) v) (\<lambda>n. Inr (of_nat n))"

definition word_json :: "('w::len) word \<Rightarrow> json" where
  "word_json x = JInt (uint x)"

lemma each_map: "(\<And>x. x \<in> set xs \<Longrightarrow> p (f x) = Inr (g x)) \<Longrightarrow> each p (map f xs) = Inr (map g xs)"
  by (induction xs) simp_all

lemma uint_of_usize [simp]: "n < 2 ^ w \<Longrightarrow> uint_of w (usize_json n) = Inr n"
  by (simp add: usize_json_def)

lemma json_word_of_word [simp]: "json_word_of (word_json x) = Inr (x :: ('w::len) word)"
proof -
  have "uint_of LENGTH('w) (word_json x) = Inr (unat x)"
    using uint_bounded [of x] by (simp add: word_json_def)
  then show ?thesis by (simp add: json_word_of_def)
qed

lemma field_of_simps:
  "fs k = Some v \<Longrightarrow> field_of k p fs = p v"
  "fs k = None \<Longrightarrow> field_of k p fs = Inl (''missing field '' @ k)"
  by (simp_all add: field_of_def)

section \<open>The routing table\<close>

text \<open>
  Serialization reads the monotonic clock again and again: \<open>clk\<close> gives its readings, for a
  node its four, for a leaf those of its nodes and its own, for a tree those of its leaves.
\<close>

fun node_status_json :: "node_status \<Rightarrow> json" where
  "node_status_json Good = JStr ''Good''"
| "node_status_json Questionable = JStr ''Questionable''"
| "node_status_json Bad = JStr ''Bad''"
| "node_status_json Unknown = JStr ''Unknown''"

definition ago_field :: "'id serde \<Rightarrow> string \<Rightarrow> instant \<Rightarrow> instant option \<Rightarrow> (string \<times> json) list" where
  "ago_field se k now t = (case t of Some l \<Rightarrow> [(k, se_duration se (now - l))] | None \<Rightarrow> [])"

definition node_json :: "'id serde \<Rightarrow> (nat \<Rightarrow> instant) \<Rightarrow> 'id routing_table_node \<Rightarrow> json" where
  "node_json se clk n = JObj (
     [(''id'', JStr (se_id se (node_id n))), (''addr'', se_addr se (node_addr n)),
      (''status'', node_status_json (status n (clk 0)))]
     @ ago_field se ''last_request_ago'' (clk 1) (last_request n)
     @ ago_field se ''last_response_ago'' (clk 2) (last_response n)
     @ ago_field se ''last_query_ago'' (clk 3) (last_query n)
     @ [(''errors_in_a_row'', usize_json (errors_in_a_row n))])"

text \<open>The derived reader skips the marks: they take their defaults.\<close>

definition node_of_json :: "'id serde \<Rightarrow> json \<Rightarrow> library_error + 'id routing_table_node" where
  "node_of_json se v = and_then (derived_fields [''id'', ''addr''] [] v) (\<lambda>fs.
     and_then (field_of ''id'' (se_id_of se) fs) (\<lambda>i.
     and_then (field_of ''addr'' (se_addr_of se) fs) (\<lambda>a.
     Inr \<lparr>node_id = i, node_addr = a, last_request = None, last_response = None, last_query = None,
       errors_in_a_row = 0\<rparr>)))"

definition leaf_json :: "'id serde \<Rightarrow> (nat \<Rightarrow> nat \<Rightarrow> instant) \<Rightarrow> 'id leaf_bucket \<Rightarrow> json" where
  "leaf_json se clk leaf = JObj
     [(''nodes'', JArr (map (\<lambda>(j, n). node_json se (clk j) n) (enumerate 0 (bucket_nodes leaf)))),
      (''last_refreshed'', JStr (se_debug se (clk (length (bucket_nodes leaf)) 0 - last_refreshed leaf)))]"

definition leaf_of_json :: "'id serde \<Rightarrow> instant \<Rightarrow> json \<Rightarrow> library_error + 'id leaf_bucket" where
  "leaf_of_json se now v = and_then (derived_fields [''nodes''] [] v) (\<lambda>fs.
     and_then (field_of ''nodes'' (vec_of (node_of_json se)) fs) (\<lambda>nodes.
     Inr \<lparr>bucket_nodes = nodes, last_refreshed = now\<rparr>))"

fun node_data_json :: "'id serde \<Rightarrow> (nat \<Rightarrow> nat \<Rightarrow> instant) \<Rightarrow> 'id bucket_tree_node_data \<Rightarrow> json" where
  "node_data_json se clk (Leaf leaf) = JObj [(''Leaf'', leaf_json se clk leaf)]"
| "node_data_json se clk (LeftRight l r) = JObj [(''LeftRight'', JArr [usize_json l, usize_json r])]"

text \<open>An enum is tagged by its variant's name, the only key of the object.\<close>

definition node_data_of_json :: "'id serde \<Rightarrow> instant \<Rightarrow> json \<Rightarrow> library_error + 'id bucket_tree_node_data" where
  "node_data_of_json se now v = (case v of
     JObj [(k, w)] \<Rightarrow>
       (if k = ''Leaf'' then and_then (leaf_of_json se now w) (\<lambda>leaf. Inr (Leaf leaf))
        else if k = ''LeftRight'' then
          (case w of
             JArr [l, r] \<Rightarrow> and_then (uint_of 64 l) (\<lambda>l. and_then (uint_of 64 r) (\<lambda>r. Inr (LeftRight l r)))
           | _ \<Rightarrow> Inl ''invalid length'')
        else Inl ''unknown variant'')
   | _ \<Rightarrow> Inl ''invalid type'')"

definition tree_node_json :: "'id serde \<Rightarrow> (nat \<Rightarrow> nat \<Rightarrow> instant) \<Rightarrow> 'id bucket_tree_node \<Rightarrow> json" where
  "tree_node_json se clk n = JObj [(''bits'', word_json (bits n)), (''start'', serialize_id20 se (start n)),
     (''end_inclusive'', serialize_id20 se (end_inclusive n)), (''data'', node_data_json se clk (node_data n))]"

definition tree_node_of_json :: "'id serde \<Rightarrow> instant \<Rightarrow> json \<Rightarrow> library_error + 'id bucket_tree_node" where
  "tree_node_of_json se now v =
     and_then (derived_fields [''bits'', ''start'', ''end_inclusive'', ''data''] [] v) (\<lambda>fs.
     and_then (field_of ''bits'' json_word_of fs) (\<lambda>b.
     and_then (field_of ''start'' (se_id_of se) fs) (\<lambda>s.
     and_then (field_of ''end_inclusive'' (se_id_of se) fs) (\<lambda>e.
     and_then (field_of ''data'' (node_data_of_json se now) fs) (\<lambda>d.
     Inr \<lparr>bits = b, start = s, end_inclusive = e, node_data = d\<rparr>)))))"

definition tree_json :: "'id serde \<Rightarrow> (nat \<Rightarrow> nat \<Rightarrow> nat \<Rightarrow> instant) \<Rightarrow> 'id bucket_tree \<Rightarrow> json" where
  "tree_json se clk t = JObj
     [(''data'', JArr (map (\<lambda>(k, n). tree_node_json se (clk k) n) (enumerate 0 (tree_data t)))),
      (''size'', usize_json (tree_size t)), (''max_size'', usize_json (max_size t))]"

text \<open>The leaf at index \<open>k\<close> of the vector takes the reading \<open>clk k\<close> when it is read.\<close>

definition tree_data_of_json ::
    "'id serde \<Rightarrow> (nat \<Rightarrow> instant) \<Rightarrow> json \<Rightarrow> library_error + 'id bucket_tree_node list" where
  "tree_data_of_json se clk v = (case v of
     JArr xs \<Rightarrow> each (\<lambda>(k, w). tree_node_of_json se (clk k) w) (enumerate 0 xs)
   | _ \<Rightarrow> Inl ''invalid type'')"

definition tree_of_json :: "'id serde \<Rightarrow> (nat \<Rightarrow> instant) \<Rightarrow> json \<Rightarrow> library_error + 'id bucket_tree" where
  "tree_of_json se clk v = and_then (derived_fields [''data'', ''size'', ''max_size''] [] v) (\<lambda>fs.
     and_then (field_of ''data'' (tree_data_of_json se clk) fs) (\<lambda>d.
     and_then (field_of ''size'' (uint_of 64) fs) (\<lambda>n.
     and_then (field_of ''max_size'' (uint_of 64) fs) (\<lambda>m.
     Inr \<lparr>tree_data = d, tree_size = n, max_size = m\<rparr>))))"

definition routing_table_json ::
    "'id serde \<Rightarrow> (nat \<Rightarrow> nat \<Rightarrow> nat \<Rightarrow> instant) \<Rightarrow> 'id routing_table \<Rightarrow> json" where
  "routing_table_json se clk rt = JObj [(''id'', serialize_id20 se (rt_id rt)),
     (''size'', usize_json (rt_size rt)), (''buckets'', tree_json se clk (rt_buckets rt))]"

definition routing_table_of_json ::
    "'id serde \<Rightarrow> (nat \<Rightarrow> instant) \<Rightarrow> json \<Rightarrow> library_error + 'id routing_table" where
  "routing_table_of_json se clk v = and_then (derived_fields [''id'', ''size'', ''buckets''] [] v) (\<lambda>fs.
     and_then (field_of ''id'' (se_id_of se) fs) (\<lambda>i.
     and_then (field_of ''size'' (uint_of 64) fs) (\<lambda>n.
     and_then (field_of ''buckets'' (tree_of_json se clk) fs) (\<lambda>t.
     Inr \<lparr>rt_id = i, rt_size = n, rt_buckets = t\<rparr>))))"

section \<open>The peer store\<close>

definition token_json :: "'id serde \<Rightarrow> 'id stored_token \<Rightarrow> json" where
  "token_json se t = JObj [(''token'', JArr (map word_json (st_token t))),
     (''node_id'', serialize_id20 se (st_node_id t)), (''addr'', se_addr se (st_addr t)),
     (''time'', se_time se (st_time t))]"

definition token_bytes_of :: "json \<Rightarrow> library_error + bytes" where
  "token_bytes_of v = and_then (vec_of json_word_of v) (\<lambda>bs.
     if length bs = 4 then Inr bs else Inl ''invalid length'')"

definition token_of_json :: "'id serde \<Rightarrow> datetime \<Rightarrow> json \<Rightarrow> library_error + 'id stored_token" where
  "token_of_json se now v =
     and_then (derived_fields [''token'', ''node_id'', ''addr'', ''time''] [''time''] v) (\<lambda>fs.
     and_then (field_of ''token'' token_bytes_of fs) (\<lambda>bs.
     and_then (field_of ''node_id'' (se_id_of se) fs) (\<lambda>i.
     and_then (field_of ''addr'' (se_addr_of se) fs) (\<lambda>a.
     and_then (default_field_of now ''time'' (se_time_of se) fs) (\<lambda>t.
     Inr \<lparr>st_token = bs, st_node_id = i, st_addr = a, st_time = t\<rparr>)))))"

definition peer_json :: "'id serde \<Rightarrow> stored_peer \<Rightarrow> json" where
  "peer_json se p = JObj [(''addr'', se_addr se (sp_addr p)), (''time'', se_time se (sp_time p))]"

definition peer_of_json :: "'id serde \<Rightarrow> json \<Rightarrow> library_error + stored_peer" where
  "peer_of_json se v = and_then (derived_fields [''addr'', ''time''] [] v) (\<lambda>fs.
     and_then (field_of ''addr'' (se_addr_of se) fs) (\<lambda>a.
     and_then (field_of ''time'' (se_time_of se) fs) (\<lambda>t.
     Inr \<lparr>sp_addr = a, sp_time = t\<rparr>)))"

definition peers_json :: "'id serde \<Rightarrow> ('id \<times> stored_peer list) list \<Rightarrow> json" where
  "peers_json se m = JObj (map (\<lambda>(hash, peers). (se_id se hash, JArr (map (peer_json se) peers))) m)"

text \<open>A map is read by inserting its entries: of equal keys the last wins.\<close>

fun insert_entries ::
    "'id serde \<Rightarrow> (string \<times> json) list \<Rightarrow> ('id \<times> stored_peer list) list
      \<Rightarrow> library_error + ('id \<times> stored_peer list) list" where
  "insert_entries se [] m = Inr m"
| "insert_entries se ((k, v) # fs) m = and_then (se_id_of se (JStr k)) (\<lambda>hash.
     and_then (vec_of (peer_of_json se) v) (\<lambda>peers. insert_entries se fs (AList.update hash peers m)))"

fun peers_of_json :: "'id serde \<Rightarrow> json \<Rightarrow> library_error + ('id \<times> stored_peer list) list" where
  "peers_of_json se (JObj fs) = insert_entries se fs []"
| "peers_of_json se _ = Inl ''invalid type''"

definition peer_store_json :: "'id serde \<Rightarrow> 'id peer_store \<Rightarrow> json" where
  "peer_store_json se ps = JObj [(''self_id'', JStr (se_id se (ps_self_id ps))),
     (''max_remembered_tokens'', word_json (max_remembered_tokens ps)),
     (''max_remembered_peers'', word_json (max_remembered_peers ps)),
     (''max_distance'', JStr (se_id se (max_distance ps))),
     (''tokens'', JArr (map (token_json se) (ps_tokens ps))),
     (''peers'', peers_json se (ps_peers ps)),
     (''peers_len'', word_json (peers_len ps))]"

text \<open>
  The reader counts the peers itself, and the sum can overflow. \<open>clk\<close> are readings of the
  wall clock for tokens without a time.
\<close>

definition peer_store_of_json ::
    "'id serde \<Rightarrow> (nat \<Rightarrow> datetime) \<Rightarrow> json \<Rightarrow> abort + (library_error + 'id peer_store)" where
  "peer_store_of_json se clk v =
    (case and_then (derived_fields [''self_id'', ''max_remembered_tokens'', ''max_remembered_peers'',
         ''max_distance'', ''tokens'', ''peers''] [] v) (\<lambda>fs.
       and_then (field_of ''self_id'' (se_id_of se) fs) (\<lambda>i.
       and_then (field_of ''max_remembered_tokens'' json_word_of fs) (\<lambda>mt.
       and_then (field_of ''max_remembered_peers'' json_word_of fs) (\<lambda>mp.
       and_then (field_of ''max_distance'' (se_id_of se) fs) (\<lambda>d.
       and_then (field_of ''tokens'' (\<lambda>v. case v of
           JArr xs \<Rightarrow> each (\<lambda>(k, w). token_of_json se (clk k) w) (enumerate 0 xs)
         | _ \<Rightarrow> Inl ''invalid type'') fs) (\<lambda>ts.
       and_then (field_of ''peers'' (peers_of_json se) fs) (\<lambda>m.
       Inr \<lparr>ps_self_id = i, max_remembered_tokens = mt, max_remembered_peers = mp, max_distance = d,
         ps_tokens = ts, ps_peers = m, peers_len = 0\<rparr>))))))) of
       Inl e \<Rightarrow> Inr (Inl e)
     | Inr ps \<Rightarrow> and_then (sum_u32 0 (peer_counts (ps_peers ps))) (\<lambda>n.
         Inr (Inr (ps\<lparr>peers_len := n\<rparr>))))"

end
