(* ===== verification/Dump_Props.thy ===== *)
theory Dump_Props
  imports Dump Dht_System
begin

text \<open>
  What the dump keeps: reading back a written table gives the same buckets and nodes, with their
  marks forgotten, and a table that is well formed again; reading back a written peer store gives
  the same store. The promises of the libraries that this rests on are the locale
  \<open>serde_api\<close>.
\<close>

section \<open>The promises of the serializer\<close>

text \<open>
  The values that are read back as they were written: integers of 64 bits, no other numbers, and
  nesting within the limit of the reader.
\<close>

fun json_plain :: "nat \<Rightarrow> json \<Rightarrow> bool" where
  "json_plain d (JInt n) \<longleftrightarrow> - (2 ^ 63) \<le> n \<and> n < 2 ^ 64"
| "json_plain d (JFloat s) \<longleftrightarrow> False"
| "json_plain d (JArr vs) \<longleftrightarrow> 0 < d \<and> (\<forall>v \<in> set vs. json_plain (d - 1) v)"
| "json_plain d (JObj fs) \<longleftrightarrow> 0 < d \<and> (\<forall>f \<in> set fs. json_plain (d - 1) (snd f))"
| "json_plain d _ \<longleftrightarrow> True"

definition JSON_DEPTH :: nat where
  "JSON_DEPTH = 127"

lemma json_plain_mono: "json_plain d v \<Longrightarrow> d \<le> d' \<Longrightarrow> json_plain d' v"
  by (induction d v arbitrary: d' rule: json_plain.induct) auto

text \<open>The text of an address has no flow label; times are within the years that RFC 3339 has.\<close>

fun no_flowinfo :: "socket_addr \<Rightarrow> bool" where
  "no_flowinfo (V4 a) \<longleftrightarrow> True"
| "no_flowinfo (V6 a) \<longleftrightarrow> flowinfo a = 0"

definition time_ok :: "datetime \<Rightarrow> bool" where
  "time_ok t \<longleftrightarrow> 0 \<le> t \<and> t < 253402300800 * 1000000000"

locale serde_api =
  fixes se :: "'id serde"
  assumes id_read: "se_id_of se (JStr (se_id se i)) = Inr i"
    and addr_read: "no_flowinfo a \<Longrightarrow> se_addr_of se (se_addr se a) = Inr a"
    and time_read: "time_ok t \<Longrightarrow> se_time_of se (se_time se t) = Inr t"
    and text_read: "json_plain JSON_DEPTH v \<Longrightarrow> se_read se (se_write se v) = Inr v"
    and addr_plain: "json_plain 1 (se_addr se a)"
    and time_plain: "json_plain 1 (se_time se t)"
    and duration_plain: "json_plain 2 (se_duration se d)"
begin

lemma id_round [simp]: "se_id_of se (serialize_id20 se i) = Inr i" "se_id_of se (JStr (se_id se i)) = Inr i"
  by (simp_all add: serialize_id20_def id_read)

end

section \<open>The routing table is read back\<close>

definition forget_marks :: "'id routing_table_node \<Rightarrow> 'id routing_table_node" where
  "forget_marks n = fresh_node (node_id n) (node_addr n)"

fun reloaded_data :: "instant \<Rightarrow> 'id bucket_tree_node_data \<Rightarrow> 'id bucket_tree_node_data" where
  "reloaded_data now (Leaf b) = Leaf \<lparr>bucket_nodes = map forget_marks (bucket_nodes b), last_refreshed = now\<rparr>"
| "reloaded_data now (LeftRight l r) = LeftRight l r"

definition reloaded_node :: "instant \<Rightarrow> 'id bucket_tree_node \<Rightarrow> 'id bucket_tree_node" where
  "reloaded_node now n = n\<lparr>node_data := reloaded_data now (node_data n)\<rparr>"

definition reloaded_nodes :: "(nat \<Rightarrow> instant) \<Rightarrow> 'id bucket_tree_node list \<Rightarrow> 'id bucket_tree_node list" where
  "reloaded_nodes clk ds = map (\<lambda>(k, n). reloaded_node (clk k) n) (enumerate 0 ds)"

definition reloaded_table :: "(nat \<Rightarrow> instant) \<Rightarrow> 'id routing_table \<Rightarrow> 'id routing_table" where
  "reloaded_table clk rt =
     rt\<lparr>rt_buckets := (rt_buckets rt)\<lparr>tree_data := reloaded_nodes clk (tree_data (rt_buckets rt))\<rparr>\<rparr>"

lemma reloaded_table_fields [simp]:
  "rt_id (reloaded_table clk rt) = rt_id rt"
  "rt_size (reloaded_table clk rt) = rt_size rt"
  "tree_data (rt_buckets (reloaded_table clk rt)) = reloaded_nodes clk (tree_data (rt_buckets rt))"
  "tree_size (rt_buckets (reloaded_table clk rt)) = tree_size (rt_buckets rt)"
  "max_size (rt_buckets (reloaded_table clk rt)) = max_size (rt_buckets rt)"
  by (simp_all add: reloaded_table_def)

lemma length_reloaded [simp]: "length (reloaded_nodes clk ds) = length ds"
  by (simp add: reloaded_nodes_def)

lemma nth_reloaded [simp]: "k < length ds \<Longrightarrow> reloaded_nodes clk ds ! k = reloaded_node (clk k) (ds ! k)"
  by (simp add: reloaded_nodes_def nth_enumerate_eq)

lemma reloaded_node_fields [simp]:
  "bits (reloaded_node now n) = bits n"
  "start (reloaded_node now n) = start n"
  "end_inclusive (reloaded_node now n) = end_inclusive n"
  "node_data (reloaded_node now n) = reloaded_data now (node_data n)"
  by (simp_all add: reloaded_node_def)

lemma leaf_nodes_reloaded [simp]: "leaf_nodes (reloaded_node now n) = map forget_marks (leaf_nodes n)"
  by (cases "node_data n") (simp_all add: leaf_nodes_def)

lemma forget_marks_id [simp]: "node_id (forget_marks n) = node_id n" "node_addr (forget_marks n) = node_addr n"
  by (simp_all add: forget_marks_def)

text \<open>Indexes and bounds are numbers that the reader takes, addresses have no flow label.\<close>

fun data_writable :: "'id bucket_tree_node_data \<Rightarrow> bool" where
  "data_writable (Leaf b) \<longleftrightarrow> (\<forall>n \<in> set (bucket_nodes b). no_flowinfo (node_addr n) \<and> errors_in_a_row n < 2 ^ 64)"
| "data_writable (LeftRight l r) \<longleftrightarrow> l < 2 ^ 64 \<and> r < 2 ^ 64"

definition tree_writable :: "'id bucket_tree \<Rightarrow> bool" where
  "tree_writable t \<longleftrightarrow> tree_size t < 2 ^ 64 \<and> max_size t < 2 ^ 64
     \<and> (\<forall>n \<in> set (tree_data t). data_writable (node_data n))"

lemmas read_field = field_of_def default_field_of_def derived_fields_def

context serde_api
begin

lemma node_round: "no_flowinfo (node_addr n) \<Longrightarrow> node_of_json se (node_json se clk n) = Inr (forget_marks n)"
  by (simp add: node_of_json_def node_json_def read_field ago_field_def addr_read forget_marks_def
      fresh_node_def split: option.splits)

lemma nodes_round:
  assumes "\<forall>n \<in> set ns. no_flowinfo (node_addr n)"
  shows "each (node_of_json se) (map (\<lambda>(j, n). node_json se (clk j) n) (enumerate m ns)) = Inr (map forget_marks ns)"
  using assms by (induction ns arbitrary: m) (simp_all add: node_round)

lemma leaf_round:
  assumes "\<forall>n \<in> set (bucket_nodes b). no_flowinfo (node_addr n)"
  shows "leaf_of_json se now (leaf_json se clk b)
    = Inr \<lparr>bucket_nodes = map forget_marks (bucket_nodes b), last_refreshed = now\<rparr>"
  by (simp add: leaf_of_json_def leaf_json_def read_field nodes_round [OF assms])

lemma data_round:
  "data_writable d \<Longrightarrow> node_data_of_json se now (node_data_json se clk d) = Inr (reloaded_data now d)"
  by (cases d) (simp_all add: node_data_of_json_def leaf_round)

lemma tree_node_round:
  assumes "data_writable (node_data n)"
  shows "tree_node_of_json se now (tree_node_json se clk n) = Inr (reloaded_node now n)"
  by (simp add: tree_node_of_json_def tree_node_json_def read_field data_round [OF assms] reloaded_node_def)

lemma tree_nodes_round:
  assumes "\<forall>n \<in> set ds. data_writable (node_data n)"
  shows "each (\<lambda>(k, w). tree_node_of_json se (clk k) w)
      (enumerate m (map (\<lambda>(k, n). tree_node_json se (clk' k) n) (enumerate m' ds)))
    = Inr (map (\<lambda>(k, n). reloaded_node (clk k) n) (enumerate m ds))"
  using assms by (induction ds arbitrary: m m') (simp_all add: tree_node_round)

lemma tree_round:
  assumes "tree_writable t"
  shows "tree_of_json se clk (tree_json se clk' t) = Inr (t\<lparr>tree_data := reloaded_nodes clk (tree_data t)\<rparr>)"
proof -
  have "tree_data_of_json se clk (JArr (map (\<lambda>(k, n). tree_node_json se (clk' k) n) (enumerate 0 (tree_data t))))
      = Inr (reloaded_nodes clk (tree_data t))"
    using assms tree_nodes_round [of "tree_data t" clk 0 clk' 0]
    by (simp add: tree_data_of_json_def tree_writable_def reloaded_nodes_def)
  then show ?thesis using assms
    by (simp add: tree_of_json_def tree_json_def read_field tree_writable_def)
qed

lemma routing_table_round:
  assumes "tree_writable (rt_buckets rt)" and "rt_size rt < 2 ^ 64"
  shows "routing_table_of_json se clk (routing_table_json se clk' rt) = Inr (reloaded_table clk rt)"
  using assms by (simp add: routing_table_of_json_def routing_table_json_def read_field tree_round reloaded_table_def)

end

section \<open>The table read back is well formed\<close>

lemma same_bounds_reloaded:
  "\<forall>i \<in> I. i < length ds \<Longrightarrow> same_bounds ds (reloaded_nodes clk ds) I"
  by (simp add: same_bounds_def)

lemma represents_reloaded: "represents ds k \<Longrightarrow> represents (reloaded_nodes clk ds) k"
  by (induction k) auto

lemma shape_nodes_reloaded:
  assumes "represents ds k"
  shows "shape_nodes (reloaded_nodes clk ds) k = map forget_marks (shape_nodes ds k)"
  using represents_leaf [OF assms]
  by (simp add: shape_nodes_def map_concat comp_def cong: map_cong)

context id20_api
begin

lemma shape_inv_reloaded:
  assumes "shape_inv ops self ds k"
  shows "shape_inv ops self (reloaded_nodes clk ds) k"
proof -
  have r: "represents ds k" and leaves: "\<forall>i \<in> set (leaves_of k). bucket_ok (ds ! i) (leaf_nodes (ds ! i))"
    using assms by (simp_all add: shape_inv_def)
  have sb: "same_bounds ds (reloaded_nodes clk ds) (set (indexes k))"
    using represents_bound [OF r] by (intro same_bounds_reloaded) blast
  have "0 < length ds" using represents_bound [OF r, of 0] assms root_in_indexes [of k]
    by (auto simp: shape_inv_def)
  moreover have "bucket_ok (reloaded_nodes clk ds ! i) (leaf_nodes (reloaded_nodes clk ds ! i))"
    if "i \<in> set (leaves_of k)" for i
    using leaves that represents_leaf [OF r that] by (auto simp: bucket_ok_def covers_def comp_def)
  ultimately show ?thesis
    using assms by (simp add: shape_inv_def represents_reloaded nested_same_bounds [OF sb]
        split_around_same_bounds [OF sb])
qed

lemma rt_inv_reloaded:
  assumes "rt_inv ops rt"
  shows "rt_inv ops (reloaded_table clk rt)"
    and "rt_nodes (reloaded_table clk rt) = map forget_marks (rt_nodes rt)"
proof -
  let ?ds = "tree_data (rt_buckets rt)"
  obtain k where k: "shape_inv ops (rt_id rt) ?ds k" "tree_size (rt_buckets rt) = length (shape_nodes ?ds k)"
    "tree_size (rt_buckets rt) \<le> max_size (rt_buckets rt)"
    using assms by (auto simp: rt_inv_def tree_inv_def)
  then have r: "represents ?ds k" "root_of k = 0" by (simp_all add: shape_inv_def)
  show "rt_inv ops (reloaded_table clk rt)"
    using k shape_inv_reloaded [OF k(1), of clk] assms
    by (auto simp: rt_inv_def tree_inv_def shape_nodes_reloaded [OF r(1)] intro!: exI [of _ k])
  have "bucket_iter (rt_buckets (reloaded_table clk rt)) = Some (map forget_marks (shape_nodes ?ds k))"
    using bucket_iter_shape [of "rt_buckets (reloaded_table clk rt)" k] r
    by (simp add: represents_reloaded shape_nodes_reloaded)
  then show "rt_nodes (reloaded_table clk rt) = map forget_marks (rt_nodes rt)"
    using bucket_iter_shape [OF r] by (simp add: rt_nodes_def rt_iter_def)
qed

end

text \<open>What is kept of a bucket: its range, and the identifiers and addresses of its nodes.\<close>

definition bucket_view ::
    "'id bucket_tree_iterator_item \<Rightarrow> (u8 \<times> 'id \<times> 'id) \<times> ('id \<times> socket_addr) list" where
  "bucket_view item = ((item_bits item, item_start item, item_end_inclusive item),
     map (\<lambda>n. (node_id n, node_addr n)) (bucket_nodes (item_leaf item)))"

lemma buckets_reloaded:
  assumes "rt_inv ops rt"
  shows "map_option (map bucket_view) (rt_iter_buckets (reloaded_table clk rt))
    = map_option (map bucket_view) (rt_iter_buckets rt)"
proof -
  let ?ds = "tree_data (rt_buckets rt)"
  obtain k where r: "represents ?ds k" "root_of k = 0"
    using assms by (auto simp: rt_inv_def tree_inv_def shape_inv_def)
  have "bucket_view (leaf_item (reloaded_node now (?ds ! i))) = bucket_view (leaf_item (?ds ! i))"
    if "i \<in> set (leaves_of k)" for i now
    using represents_leaf [OF r(1) that] by (auto simp: leaf_item_def bucket_view_def comp_def)
  then show ?thesis
    using r iter_leaves_shape [OF r] iter_leaves_shape [of "rt_buckets (reloaded_table clk rt)" k]
      represents_leaf [OF r(1)]
    by (simp add: rt_iter_buckets_def represents_reloaded comp_def cong: map_cong)
qed

section \<open>The peer store is read back\<close>

definition store_plain :: "'id peer_store \<Rightarrow> bool" where
  "store_plain ps \<longleftrightarrow> (\<forall>t \<in> set (ps_tokens ps). length (st_token t) = 4 \<and> no_flowinfo (st_addr t) \<and> time_ok (st_time t))
     \<and> (\<forall>e \<in> set (ps_peers ps). \<forall>p \<in> set (snd e). no_flowinfo (sp_addr p) \<and> time_ok (sp_time p))"

context serde_api
begin

lemma token_bytes_round: "length bs = 4 \<Longrightarrow> token_bytes_of (JArr (map word_json bs)) = Inr bs"
  using each_map [of bs json_word_of word_json "\<lambda>b. b"] by (simp add: token_bytes_of_def)

lemma token_round:
  "length (st_token t) = 4 \<Longrightarrow> no_flowinfo (st_addr t) \<Longrightarrow> time_ok (st_time t) \<Longrightarrow>
    token_of_json se now (token_json se t) = Inr t"
  by (simp add: token_of_json_def token_json_def read_field token_bytes_round addr_read time_read)

lemma tokens_round:
  assumes "\<forall>t \<in> set ts. length (st_token t) = 4 \<and> no_flowinfo (st_addr t) \<and> time_ok (st_time t)"
  shows "each (\<lambda>(k, w). token_of_json se (clk k) w) (enumerate m (map (token_json se) ts)) = Inr ts"
  using assms by (induction ts arbitrary: m) (simp_all add: token_round)

lemma peers_round:
  assumes "\<forall>p \<in> set ps. no_flowinfo (sp_addr p) \<and> time_ok (sp_time p)"
  shows "each (peer_of_json se) (map (peer_json se) ps) = Inr ps"
  using assms by (induction ps) (simp_all add: peer_of_json_def peer_json_def read_field addr_read time_read)

lemma update_new_key: "k \<notin> set (map fst m) \<Longrightarrow> AList.update k v m = m @ [(k, v)]"
  by (induction m) auto

lemma entries_round:
  assumes "\<forall>e \<in> set es. \<forall>p \<in> set (snd e). no_flowinfo (sp_addr p) \<and> time_ok (sp_time p)"
    and "distinct (map fst (m @ es))"
  shows "insert_entries se (map (\<lambda>(hash, peers). (se_id se hash, JArr (map (peer_json se) peers))) es) m = Inr (m @ es)"
  using assms
proof (induction es arbitrary: m)
  case (Cons e es)
  obtain hash peers where e: "e = (hash, peers)" by (cases e)
  have "AList.update hash peers m = m @ [e]" using Cons.prems(2) e by (intro update_new_key [THEN trans]) auto
  then show ?case using Cons by (simp add: e peers_round)
qed simp

lemma peer_store_round:
  assumes d: "distinct (map fst (ps_peers ps))" and total: "unat (peers_len ps) = total_peers (ps_peers ps)"
    and p: "store_plain ps"
  shows "peer_store_of_json se clk (peer_store_json se ps) = Inr (Inr ps)"
proof -
  obtain n where n: "sum_u32 0 (peer_counts (ps_peers ps)) = Inr n" "unat n = unat (peers_len ps)"
    using sum_u32_ok [of 0 "peer_counts (ps_peers ps)"] unat_u32_less [of "peers_len ps"] total
    by (auto simp: total_peers_def)
  then have "n = peers_len ps" by (simp add: word_unat_eq_iff)
  moreover have "insert_entries se (map (\<lambda>(hash, peers). (se_id se hash, JArr (map (peer_json se) peers))) (ps_peers ps)) []
      = Inr ([] @ ps_peers ps)"
    using d p by (intro entries_round) (auto simp: store_plain_def)
  moreover have "each (\<lambda>(k, w). token_of_json se (clk k) w) (enumerate 0 (map (token_json se) (ps_tokens ps)))
      = Inr (ps_tokens ps)"
    using p by (intro tokens_round) (simp add: store_plain_def)
  ultimately show ?thesis
    using n(1) by (simp add: peer_store_of_json_def peer_store_json_def read_field peers_json_def)
qed

end

section \<open>What is written is plain JSON\<close>

lemma plain_leaves [simp]:
  "json_plain d (serialize_id20 se i)"
  "n < 2 ^ 64 \<Longrightarrow> json_plain d (usize_json n)"
  "json_plain d (node_status_json st)"
  by (simp_all add: serialize_id20_def usize_json_def) (cases st; simp)

lemma plain_word:
  assumes "LENGTH('w::len) \<le> 64"
  shows "json_plain d (word_json (x :: 'w word))"
proof -
  have "uint x < 2 ^ LENGTH('w)" by (rule uint_bounded)
  also have "(2::int) ^ LENGTH('w) \<le> 2 ^ 64" using assms by (intro power_increasing) simp_all
  finally show ?thesis by (simp add: word_json_def order_trans [of _ 0])
qed

lemmas plain_words [simp] = plain_word [where 'w = 8, simplified] plain_word [where 'w = 32, simplified]

context serde_api
begin

lemma addr_plain' [simp]: "0 < d \<Longrightarrow> json_plain d (se_addr se a)"
  using json_plain_mono [OF addr_plain] by simp

lemma time_plain' [simp]: "0 < d \<Longrightarrow> json_plain d (se_time se t)"
  using json_plain_mono [OF time_plain] by simp

lemma duration_plain' [simp]: "1 < d \<Longrightarrow> json_plain d (se_duration se t)"
  using json_plain_mono [OF duration_plain] by simp

lemma ago_plain: "f \<in> set (ago_field se k now t) \<Longrightarrow> json_plain 2 (snd f)"
  by (auto simp: ago_field_def split: option.splits)

lemma node_plain: "errors_in_a_row n < 2 ^ 64 \<Longrightarrow> json_plain 3 (node_json se clk n)"
  by (auto simp: node_json_def dest: ago_plain)

lemma leaf_plain:
  "\<forall>n \<in> set (bucket_nodes b). errors_in_a_row n < 2 ^ 64 \<Longrightarrow> json_plain 5 (leaf_json se clk b)"
  by (auto simp: leaf_json_def in_set_enumerate_eq intro!: node_plain)

lemma data_plain: "data_writable d \<Longrightarrow> json_plain 6 (node_data_json se clk d)"
  by (cases d) (simp_all add: leaf_plain)

lemma tree_plain: "tree_writable t \<Longrightarrow> json_plain 9 (tree_json se clk t)"
  by (auto simp: tree_json_def tree_writable_def tree_node_json_def in_set_enumerate_eq intro!: data_plain)

lemma table_plain:
  "tree_writable (rt_buckets rt) \<Longrightarrow> rt_size rt < 2 ^ 64 \<Longrightarrow> json_plain 10 (routing_table_json se clk rt)"
  by (simp add: routing_table_json_def tree_plain)

lemma store_json_plain: "json_plain 10 (peer_store_json se ps)"
  by (auto simp: peer_store_json_def token_json_def peers_json_def peer_json_def)

end

end
