(* ===== verification/Persistence.thy ===== *)
theory Persistence
  imports Dump Worker
begin

text \<open>
  Persistence, \<^verbatim>\<open>src/persistence.rs\<close>: the dump of a node to a file, the node
  created from that file at the next start, and the loop that dumps at intervals. The file system
  is a map from paths to contents; what its calls returned, the text of the serializer, and the
  readings of the clocks are arguments.
\<close>

section \<open>Files\<close>

text \<open>A path is the list of its components.\<close>

type_synonym path = "string list"
type_synonym files = "path \<rightharpoonup> bytes"

definition path_parent :: "path \<Rightarrow> path option" where
  "path_parent p = (if p = [] then None else Some (butlast p))"

definition set_file_name :: "path \<Rightarrow> string \<Rightarrow> path" where
  "set_file_name p name = butlast p @ [name]"

datatype io_error = NotFound | OtherIoError library_error

datatype opened =
    OpenFailed io_error
  | ReadFailed library_error
  | ReadAll bytes

datatype persist_error =
    NoConfigurationDirectory library_error
  | CreateDirError path library_error
  | ReadError path io_error
  | OpenTempError path library_error
  | SerializeDumpError path library_error
  | RenameError path path library_error
  | DhtFailed dht_error

section \<open>The document\<close>

text \<open>The readings of the monotonic clock while the two tables are written.\<close>

type_synonym write_clocks = "bool \<Rightarrow> nat \<Rightarrow> nat \<Rightarrow> nat \<Rightarrow> instant"

record 'id dht_serialize =
  ds_addr :: socket_addr
  ds_table :: "'id routing_table"
  ds_table_v6 :: "'id routing_table option"
  ds_peer_store :: "'id peer_store option"

definition dump_json :: "'id serde \<Rightarrow> write_clocks \<Rightarrow> 'id dht_state \<Rightarrow> json" where
  "dump_json se clk s = JObj [(''addr'', se_addr se (listen_addr s)),
     (''table'', routing_table_json se (clk True) (routing_table_v4 s)),
     (''table_v6'', routing_table_json se (clk False) (routing_table_v6 s)),
     (''peer_store'', peer_store_json se (dht_peer_store s))]"

text \<open>The readings of the clocks while a dump is read: for the two tables, and for tokens.\<close>

record read_clocks =
  rc_v4 :: "nat \<Rightarrow> instant"
  rc_v6 :: "nat \<Rightarrow> instant"
  rc_utc :: "nat \<Rightarrow> datetime"

definition dht_serialize_of_json ::
    "'id serde \<Rightarrow> read_clocks \<Rightarrow> json \<Rightarrow> abort + (library_error + 'id dht_serialize)" where
  "dht_serialize_of_json se clk v =
    (case and_then (derived_fields [''addr'', ''table'', ''table_v6'', ''peer_store''] [] v) (\<lambda>fs.
       and_then (field_of ''addr'' (se_addr_of se) fs) (\<lambda>a.
       and_then (field_of ''table'' (routing_table_of_json se (rc_v4 clk)) fs) (\<lambda>t.
       and_then (default_field_of None ''table_v6'' (option_of (routing_table_of_json se (rc_v6 clk))) fs) (\<lambda>t6.
       and_then (default_field_of None ''peer_store'' (option_of Inr) fs) (\<lambda>w.
       Inr (\<lparr>ds_addr = a, ds_table = t, ds_table_v6 = t6, ds_peer_store = None\<rparr>, w)))))) of
       Inl e \<Rightarrow> Inr (Inl e)
     | Inr (r, None) \<Rightarrow> Inr (Inr r)
     | Inr (r, Some w) \<Rightarrow> and_then (peer_store_of_json se (rc_utc clk) w) (\<lambda>res. Inr (case res of
           Inl e \<Rightarrow> Inl e
         | Inr ps \<Rightarrow> Inr (r\<lparr>ds_peer_store := Some ps\<rparr>))))"

section \<open>Dumping\<close>

text \<open>
  What the file system did in one dump. The text goes through a \<^verbatim>\<open>BufWriter\<close>:
  \<open>io_flushed\<close> bytes of it reached the file before \<^verbatim>\<open>to_writer\<close> returned,
  and the rest was still in the buffer. The buffer is written out when it is dropped, at the end of
  the function and after the renaming; \<open>io_dropped\<close> bytes of it reach the file then, and an
  error is ignored. (A text shorter than the buffer, 8192 bytes by default, is in it as a whole.)
\<close>

record dump_io =
  io_open :: "library_error + unit"
  io_flushed :: nat
  io_write :: "library_error + unit"
  io_rename :: "library_error + unit"
  io_dropped :: nat

text \<open>
  \<open>dump_text\<close> is \<^verbatim>\<open>dump_dht\<close> for a text that the serializer makes. The result
  holds the file system after the renaming and at the end.
\<close>

definition dump_text ::
    "bytes \<Rightarrow> path \<Rightarrow> path \<Rightarrow> dump_io \<Rightarrow> files \<Rightarrow> (files \<times> files) \<times> (persist_error + unit)" where
  "dump_text doc filename tempfile io fs = (case io_open io of
     Inl e \<Rightarrow> ((fs, fs), Inl (OpenTempError tempfile e))
   | Inr _ \<Rightarrow>
      (let before = take (io_flushed io) doc;
           after = take (io_flushed io + io_dropped io) doc
       in case io_write io of
            Inl e \<Rightarrow> ((fs(tempfile \<mapsto> before), fs(tempfile \<mapsto> after)), Inl (SerializeDumpError tempfile e))
          | Inr _ \<Rightarrow> (case io_rename io of
               Inl e \<Rightarrow> ((fs(tempfile \<mapsto> before), fs(tempfile \<mapsto> after)), Inl (RenameError tempfile filename e))
             | Inr _ \<Rightarrow> ((fs(tempfile := None, filename \<mapsto> before), fs(tempfile := None, filename \<mapsto> after)), Inr ()))))"

definition dump_dht ::
    "'id serde \<Rightarrow> write_clocks \<Rightarrow> 'id dht_state \<Rightarrow> path \<Rightarrow> path \<Rightarrow> dump_io \<Rightarrow> files
      \<Rightarrow> (files \<times> files) \<times> (persist_error + unit)" where
  "dump_dht se clk s filename tempfile io fs =
     dump_text (se_write se (dump_json se clk s)) filename tempfile io fs"

text \<open>The calls all succeeded.\<close>

definition io_ok :: "bytes \<Rightarrow> dump_io \<Rightarrow> bool" where
  "io_ok doc io \<longleftrightarrow> io_open io = Inr () \<and> io_write io = Inr () \<and> io_rename io = Inr ()
     \<and> length doc \<le> io_flushed io + io_dropped io"

section \<open>Starting from a dump\<close>

record persistent_dht_config =
  dump_interval :: "duration option"
  config_filename :: "path option"
  config_port :: "u16 option"
  ipv4_only :: bool

definition default_persistent_config :: persistent_dht_config where
  "default_persistent_config = \<lparr>dump_interval = None, config_filename = None, config_port = None,
     ipv4_only = False\<rparr>"

definition default_persistence_filename :: "library_error + path \<Rightarrow> persist_error + path" where
  "default_persistence_filename cache_dir = (case cache_dir of
     Inl e \<Rightarrow> Inl (NoConfigurationDirectory e)
   | Inr dir \<Rightarrow> Inr (dir @ [''dht.json'']))"

definition unspecified_v6 :: "u16 \<Rightarrow> socket_addr" where
  "unspecified_v6 port = V6 \<lparr>ip6 = 0, port6 = port, flowinfo = 0, scope_id = 0\<rparr>"

fun patch_addr :: "bool \<Rightarrow> socket_addr \<Rightarrow> socket_addr" where
  "patch_addr True a = V4 \<lparr>ip4 = 0, port4 = addr_port a\<rparr>"
| "patch_addr False (V4 a) = (if ip4 a = 0 then unspecified_v6 (port4 a) else V4 a)"
| "patch_addr False (V6 a) = V6 a"

text \<open>The dump at the start: absent or unreadable ones are ignored, other errors are not.\<close>

definition load_dump ::
    "'id serde \<Rightarrow> read_clocks \<Rightarrow> bool \<Rightarrow> path \<Rightarrow> opened
      \<Rightarrow> abort + (persist_error + 'id dht_serialize option)" where
  "load_dump se clk v4_only filename file = (case file of
     ReadAll bs \<Rightarrow>
      (case se_read se bs of
         Inl e \<Rightarrow> Inr (Inr None)
       | Inr v \<Rightarrow> and_then (dht_serialize_of_json se clk v) (\<lambda>res. Inr (case res of
             Inl e \<Rightarrow> Inr None
           | Inr r \<Rightarrow> Inr (Some (r\<lparr>ds_addr := patch_addr v4_only (ds_addr r)\<rparr>)))))
   | ReadFailed e \<Rightarrow> Inr (Inr None)
   | OpenFailed NotFound \<Rightarrow> Inr (Inr None)
   | OpenFailed e \<Rightarrow> Inr (Inl (ReadError filename e)))"

definition start_config ::
    "u16 option \<Rightarrow> 'id dht_serialize option \<Rightarrow> 'id dht_config" where
  "start_config port de =
    (let listen = map_option ds_addr de;
         table = map_option ds_table de;
         store = Option.bind de ds_peer_store;
         listen' = (case port of
             Some p \<Rightarrow> (case listen of Some a \<Rightarrow> Some (set_port a p) | None \<Rightarrow> Some (unspecified_v6 p))
           | None \<Rightarrow> listen)
     in default_config\<lparr>peer_id := map_option rt_id table, cfg_routing_table := table,
          cfg_listen_addr := listen', cfg_peer_store := store\<rparr>)"

record 'id persistent_dht =
  pd_state :: "'id dht_state"
  pd_bootstrap :: "string list"
  pd_interval :: duration
  pd_filename :: path
  pd_tempfile :: path

text \<open>
  The rest of the machine, as the program meets it at its start: the configuration directory, the
  creation of a directory, the content of a file, the process identifier, the socket library and
  the random identifier and clock reading of a new node.
\<close>

record 'id start_env =
  se_cache_dir :: "library_error + path"
  se_create_dir :: "path \<Rightarrow> library_error + unit"
  se_open :: "path \<Rightarrow> opened"
  se_pid :: string
  se_bind :: "socket_addr \<Rightarrow> library_error + socket_addr"
  se_generated :: 'id
  se_now :: instant
  se_clocks :: read_clocks

definition create_at ::
    "'id id20_ops \<Rightarrow> 'id serde \<Rightarrow> 'id start_env \<Rightarrow> persistent_dht_config \<Rightarrow> path
      \<Rightarrow> abort + (persist_error + 'id persistent_dht)" where
  "create_at ops se env config filename =
     and_then (load_dump se (se_clocks env) (ipv4_only config) filename (se_open env filename)) (\<lambda>de.
       Inr (and_then de (\<lambda>de.
         case with_config ops (se_bind env) (se_generated env) (se_now env)
             (start_config (config_port config) de) of
           Inl e \<Rightarrow> Inl (DhtFailed e)
         | Inr (s, hosts) \<Rightarrow> Inr \<lparr>pd_state = s, pd_bootstrap = hosts,
             pd_interval = (case dump_interval config of Some d \<Rightarrow> d | None \<Rightarrow> from_secs 60),
             pd_filename = filename,
             pd_tempfile = set_file_name filename (''dht.json.tmp.'' @ se_pid env)\<rparr>)))"

definition create ::
    "'id id20_ops \<Rightarrow> 'id serde \<Rightarrow> 'id start_env \<Rightarrow> persistent_dht_config option
      \<Rightarrow> abort + (persist_error + 'id persistent_dht)" where
  "create ops se env config =
    (let config = (case config of Some c \<Rightarrow> c | None \<Rightarrow> default_persistent_config);
         filename = (case config_filename config of
             Some f \<Rightarrow> Inr f
           | None \<Rightarrow> default_persistence_filename (se_cache_dir env))
     in case and_then filename (\<lambda>f. case path_parent f of
            Some dir \<Rightarrow> (case se_create_dir env dir of Inl e \<Rightarrow> Inl (CreateDirError dir e) | Inr _ \<Rightarrow> Inr f)
          | None \<Rightarrow> Inr f) of
          Inl e \<Rightarrow> Inr (Inl e)
        | Inr f \<Rightarrow> create_at ops se env config f)"

section \<open>The dump loop\<close>

text \<open>Every tick dumps the state of that moment; its errors are only logged.\<close>

fun dump_loop ::
    "'id serde \<Rightarrow> path \<Rightarrow> path \<Rightarrow> (write_clocks \<times> 'id dht_state \<times> dump_io) list \<Rightarrow> files \<Rightarrow> files" where
  "dump_loop se filename tempfile [] fs = fs"
| "dump_loop se filename tempfile ((clk, s, io) # ticks) fs =
     dump_loop se filename tempfile ticks (snd (fst (dump_dht se clk s filename tempfile io fs)))"

end
