(* ===== verification/Persistence_Props.thy ===== *)
theory Persistence_Props
  imports Dump_Props Persistence Worker_Props Bencode
begin

text \<open>
  What survives a restart, and what does not: the node created from a dump has the table and the
  peers of the node that wrote it and keeps every invariant; failed dumps leave the last one alone;
  and two defects, the table of IPv6 nodes, which is written and never taken back, and the buffer
  that is written out only after the renaming.
\<close>

section \<open>A dump is read back\<close>

definition state_writable :: "'id dht_state \<Rightarrow> bool" where
  "state_writable s \<longleftrightarrow> no_flowinfo (listen_addr s) \<and> store_plain (dht_peer_store s)
     \<and> tree_writable (rt_buckets (routing_table_v4 s)) \<and> rt_size (routing_table_v4 s) < 2 ^ 64
     \<and> tree_writable (rt_buckets (routing_table_v6 s)) \<and> rt_size (routing_table_v6 s) < 2 ^ 64"

definition dumped :: "read_clocks \<Rightarrow> 'id dht_state \<Rightarrow> 'id dht_serialize" where
  "dumped clk s = \<lparr>ds_addr = listen_addr s, ds_table = reloaded_table (rc_v4 clk) (routing_table_v4 s),
     ds_table_v6 = Some (reloaded_table (rc_v6 clk) (routing_table_v6 s)), ds_peer_store = Some (dht_peer_store s)\<rparr>"

context serde_api
begin

lemma document_round:
  assumes w: "state_writable s" and d: "distinct (map fst (ps_peers (dht_peer_store s)))"
    and n: "unat (peers_len (dht_peer_store s)) = total_peers (ps_peers (dht_peer_store s))"
  shows "dht_serialize_of_json se clk (dump_json se wclk s) = Inr (Inr (dumped clk s))"
proof -
  have "peer_store_of_json se (rc_utc clk) (peer_store_json se (dht_peer_store s)) = Inr (Inr (dht_peer_store s))"
    using w by (intro peer_store_round d n) (simp add: state_writable_def)
  moreover have "peer_store_json se ps \<noteq> JNull" "routing_table_json se c t \<noteq> JNull" for ps c t
    by (simp_all add: peer_store_json_def routing_table_json_def)
  ultimately show ?thesis using w
    by (simp add: dht_serialize_of_json_def dump_json_def read_field option_of_def routing_table_round
        addr_read state_writable_def dumped_def)
qed

lemma document_plain: "state_writable s \<Longrightarrow> json_plain JSON_DEPTH (dump_json se wclk s)"
proof -
  assume "state_writable s"
  then have "json_plain 11 (dump_json se wclk s)"
    by (simp add: dump_json_def state_writable_def table_plain store_json_plain)
  then show ?thesis by (rule json_plain_mono) (simp add: JSON_DEPTH_def)
qed

lemma load_written:
  assumes "state_writable s" and "distinct (map fst (ps_peers (dht_peer_store s)))"
    and "unat (peers_len (dht_peer_store s)) = total_peers (ps_peers (dht_peer_store s))"
  shows "load_dump se clk v4_only f (ReadAll (se_write se (dump_json se wclk s)))
    = Inr (Inr (Some ((dumped clk s)\<lparr>ds_addr := patch_addr v4_only (listen_addr s)\<rparr>)))"
  by (simp add: load_dump_def text_read [OF document_plain [OF assms(1)]] document_round [OF assms] dumped_def)

end

section \<open>Restarting\<close>

text \<open>The content that the next start finds under a path.\<close>

definition found :: "files \<Rightarrow> path \<Rightarrow> opened" where
  "found fs p = (case fs p of Some bs \<Rightarrow> ReadAll bs | None \<Rightarrow> OpenFailed NotFound)"

text \<open>The address that the new node asks for.\<close>

definition restart_addr :: "persistent_dht_config \<Rightarrow> socket_addr \<Rightarrow> socket_addr" where
  "restart_addr c a = (case config_port c of
     Some p \<Rightarrow> set_port (patch_addr (ipv4_only c) a) p | None \<Rightarrow> patch_addr (ipv4_only c) a)"

text \<open>
  The machine at a restart: the file system is the one that the last dump left, the directory of
  the file can be created, and the address can be bound.
\<close>

definition restarts :: "'id start_env \<Rightarrow> persistent_dht_config \<Rightarrow> path \<Rightarrow> files \<Rightarrow> bool" where
  "restarts env c f fs \<longleftrightarrow> config_filename c = Some f \<and> se_open env f = found fs f
     \<and> (\<forall>dir. path_parent f = Some dir \<longrightarrow> se_create_dir env dir = Inr ())"

definition node_of :: "'id dht_state \<Rightarrow> 'id dht_system" where
  "node_of s = \<lparr>node_state = s, waiting = Map.empty, dropped = {}\<rparr>"

lemma node_of_simps [simp]: "node_state (node_of s) = s"
  by (simp add: node_of_def)

lemma create_restarts:
  "restarts env c f fs \<Longrightarrow> create ops se env (Some c) = create_at ops se env c f"
  by (cases "path_parent f") (simp_all add: create_def restarts_def)

lemma requests_ok_new: "requests_ok (node_of (dht_new_internal ops now i v4 v6 addr store))"
  by (simp add: requests_ok_def node_of_def dht_new_internal_def)

lemma dump_ok:
  assumes "io_ok doc io"
  shows "\<exists>fs1. dump_text doc f tmp io fs = ((fs1, fs(tmp := None, f \<mapsto> doc)), Inr ())"
  using assms by (simp add: dump_text_def io_ok_def Let_def)

lemma create_from_dump:
  assumes api: "serde_api se" and inv: "peer_store_inv ops (dht_peer_store s)" and w: "state_writable s"
    and r: "restarts env c f (fs(f \<mapsto> se_write se (dump_json se wclk s)))"
    and b: "se_bind env (restart_addr c (listen_addr s)) = Inr bound"
  shows "create ops se env (Some c) = Inr (Inr \<lparr>pd_state = dht_new_internal ops (se_now env) (rt_id (routing_table_v4 s))
       (Some (reloaded_table (rc_v4 (se_clocks env)) (routing_table_v4 s))) None bound (dht_peer_store s),
     pd_bootstrap = DHT_BOOTSTRAP,
     pd_interval = (case dump_interval c of Some d \<Rightarrow> d | None \<Rightarrow> from_secs 60), pd_filename = f,
     pd_tempfile = set_file_name f (''dht.json.tmp.'' @ se_pid env)\<rparr>)"
proof -
  have "load_dump se clk v4_only f (ReadAll (se_write se (dump_json se wclk s)))
      = Inr (Inr (Some ((dumped clk s)\<lparr>ds_addr := patch_addr v4_only (listen_addr s)\<rparr>)))" for clk v4_only
    using inv by (intro serde_api.load_written [OF api w]) (simp_all add: peer_store_inv_def peers_ok_def)
  moreover have "se_open env f = ReadAll (se_write se (dump_json se wclk s))"
    using r by (simp add: restarts_def found_def)
  ultimately show ?thesis using b
    by (simp add: create_restarts [OF r] create_at_def start_config_def dumped_def default_config_def
        with_config_def restart_addr_def split: option.splits)
qed

text \<open>
  C27. A restart keeps what the node knew. When every call of a dump succeeded, the node that the
  next start creates from the file has the identifier of the IPv4 table, a well-formed IPv4 table
  with the same buckets and in them the same nodes, each with its marks forgotten, and exactly the
  tokens and peers of the old node; it listens where the configuration says, dumps again under the
  same name, and no sequence of events makes it panic.
\<close>

theorem restart_restores:
  assumes "id20_api ops" and "serde_api se" and "stores_ok ops s" and "state_writable s"
    and "io_ok (se_write se (dump_json se wclk s)) io"
    and "dump_dht se wclk s f tmp io fs = ((fs1, fs2), r)"
    and "restarts env c f fs2" and "se_bind env (restart_addr c (listen_addr s)) = Inr bound"
  shows "r = Inr () \<and> (\<exists>p. create ops se env (Some c) = Inr (Inr p) \<and> pd_filename p = f
    \<and> dht_id (pd_state p) = rt_id (routing_table_v4 s) \<and> listen_addr (pd_state p) = bound
    \<and> map_option (map bucket_view) (rt_iter_buckets (routing_table_v4 (pd_state p)))
      = map_option (map bucket_view) (rt_iter_buckets (routing_table_v4 s))
    \<and> rt_nodes (routing_table_v4 (pd_state p)) = map forget_marks (rt_nodes (routing_table_v4 s))
    \<and> dht_peer_store (pd_state p) = dht_peer_store s
    \<and> stores_ok ops (pd_state p)
    \<and> (\<exists>y. run_ops (dht_step ops) es (node_of (pd_state p)) = Inr y \<and> dht_inv ops y))"
proof -
  let ?t = "reloaded_table (rc_v4 (se_clocks env)) (routing_table_v4 s)"
  let ?s = "dht_new_internal ops (se_now env) (rt_id (routing_table_v4 s)) (Some ?t) None bound (dht_peer_store s)"
  have ok: "rt_inv ops (routing_table_v4 s)" "peer_store_inv ops (dht_peer_store s)"
    using assms(3) by (simp_all add: stores_ok_def)
  obtain fs1' where "dump_dht se wclk s f tmp io fs
      = ((fs1', fs(tmp := None, f \<mapsto> se_write se (dump_json se wclk s))), Inr ())"
    using dump_ok [OF assms(5)] unfolding dump_dht_def by blast
  with assms(6) have d: "r = Inr ()" "fs2 = fs(tmp := None, f \<mapsto> se_write se (dump_json se wclk s))" by simp_all
  note created = create_from_dump [OF assms(2) ok(2) assms(4) assms(7) [unfolded d(2)] assms(8)]
  have table: "rt_inv ops ?t" "rt_nodes ?t = map forget_marks (rt_nodes (routing_table_v4 s))"
    by (rule id20_api.rt_inv_reloaded [OF assms(1) ok(1)])+
  have stores: "stores_ok ops ?s"
    using table(1) ok(2) id20_api.rt_inv_new(1) [OF assms(1)] by (simp add: stores_ok_def dht_new_internal_def)
  then have "dht_inv ops (node_of ?s)"
    using requests_ok_new [of ops] by (simp add: dht_inv_def)
  then obtain y where "run_ops (dht_step ops) es (node_of ?s) = Inr y" "dht_inv ops y"
    using id20_api.dht_run_ok [OF assms(1)] by blast
  with created d(1) table(2) stores buckets_reloaded [OF ok(1)] show ?thesis
    by (simp add: dht_new_internal_def)
qed

section \<open>A serializer\<close>

text \<open>
  A serializer that keeps the promises, for the evaluation of the properties on a concrete node:
  values as bencode, identifiers and times in decimal, addresses as their numbers.
\<close>

definition text_of :: "bytes \<Rightarrow> string" where
  "text_of bs = map (\<lambda>b. char_of (unat b)) bs"

definition bytes_of :: "string \<Rightarrow> bytes" where
  "bytes_of s = map (\<lambda>c. of_nat (of_char c)) s"

lemma bytes_of_text [simp]: "bytes_of (text_of bs) = bs"
proof -
  have "unat (b :: u8) mod 256 = unat b" for b
    using unsigned_less [of b, where 'a = nat] by simp
  then have "of_nat (of_char (char_of (unat b))) = (b :: u8)" for b by simp
  then show ?thesis by (simp add: bytes_of_def text_of_def comp_def)
qed

lemma text_of_bytes [simp]: "text_of (bytes_of s) = s"
proof -
  have "char_of (unat (of_nat (of_char c) :: u8)) = c" for c
  proof -
    have "(of_char c :: nat) < 256" by (rule nat_of_char_less_256)
    then show ?thesis by (simp add: unat_of_nat take_bit_nat_eq_self)
  qed
  then show ?thesis by (simp add: bytes_of_def text_of_def comp_def)
qed

fun bvalue_of :: "json \<Rightarrow> bvalue" where
  "bvalue_of JNull = BBytes []"
| "bvalue_of (JBool b) = BBytes [if b then 1 else 2]"
| "bvalue_of (JInt n) = BInt n"
| "bvalue_of (JFloat s) = BBytes [3]"
| "bvalue_of (JStr s) = BBytes (0 # bytes_of s)"
| "bvalue_of (JArr vs) = BList (map bvalue_of vs)"
| "bvalue_of (JObj fs) = BDict (map (\<lambda>(k, v). (bytes_of k, bvalue_of v)) fs)"

fun json_of :: "bvalue \<Rightarrow> json" where
  "json_of (BInt n) = JInt n"
| "json_of (BBytes bs) = (case bs of [] \<Rightarrow> JNull | b # rest \<Rightarrow>
     if b = 0 then JStr (text_of rest) else if b = 3 then JFloat [] else JBool (b = 1))"
| "json_of (BList vs) = JArr (map json_of vs)"
| "json_of (BDict fs) = JObj (map (\<lambda>(k, v). (text_of k, json_of v)) fs)"

lemma json_of_bvalue: "json_plain d v \<Longrightarrow> json_of (bvalue_of v) = v"
proof (induction d v rule: json_plain.induct)
  case (4 d fs)
  then have "json_of (bvalue_of (snd f)) = snd f" if "f \<in> set fs" for f using that by auto
  then show ?case by (auto simp: comp_def split_beta intro: map_idI)
qed (auto simp: comp_def intro: map_idI)

fun addr_numbers :: "socket_addr \<Rightarrow> json" where
  "addr_numbers (V4 a) = JArr [word_json (ip4 a), word_json (port4 a)]"
| "addr_numbers (V6 a) = JArr [JInt (uint (ip6 a) div 2 ^ 64), JInt (uint (ip6 a) mod 2 ^ 64),
     word_json (port6 a), word_json (scope_id a)]"

fun number_of :: "json \<Rightarrow> library_error + int" where
  "number_of (JInt n) = Inr n"
| "number_of _ = Inl ''number''"

definition addr_of_numbers :: "json \<Rightarrow> library_error + socket_addr" where
  "addr_of_numbers v = and_then (vec_of number_of v) (\<lambda>ns.
     if length ns = 2 then Inr (V4 \<lparr>ip4 = of_int (ns ! 0), port4 = of_int (ns ! 1)\<rparr>)
     else if length ns = 4 then Inr (V6 \<lparr>ip6 = of_int (ns ! 0 * 2 ^ 64 + ns ! 1), port6 = of_int (ns ! 2),
       flowinfo = 0, scope_id = of_int (ns ! 3)\<rparr>)
     else Inl ''address'')"

fun decimal_of :: "(bytes \<Rightarrow> 'a) \<Rightarrow> json \<Rightarrow> library_error + 'a" where
  "decimal_of f (JStr s) = Inr (f (bytes_of s))"
| "decimal_of f _ = Inl ''number''"

definition text_serde :: "160 word serde" where
  "text_serde = \<lparr>se_write = \<lambda>v. benc (bvalue_of v),
     se_read = \<lambda>bs. case bdecode bs of Some v \<Rightarrow> Inr (json_of v) | None \<Rightarrow> Inl ''json'',
     se_id = \<lambda>i. text_of (show_nat (unat i)),
     se_id_of = decimal_of (\<lambda>bs. of_nat (read_nat bs)),
     se_addr = addr_numbers, se_addr_of = addr_of_numbers,
     se_time = \<lambda>t. JStr (text_of (show_int t)), se_time_of = decimal_of read_int,
     se_duration = \<lambda>d. JStr (text_of (show_nat d)), se_debug = \<lambda>d. text_of (show_nat d)\<rparr>"

lemma addr_numbers_plain: "json_plain (Suc d) (addr_numbers a)"
proof (cases a)
  case (V6 b)
  have n: "json_plain d (JInt n)" if "0 \<le> n" "n < 2 ^ 64" for n
    using that order_trans [of "- (2 ^ 63)" 0 n] by (simp del: power_numeral)
  have "uint (ip6 b) < 2 ^ 128" "0 \<le> uint (ip6 b)" using uint_bounded [of "ip6 b"] by simp_all
  then have "uint (ip6 b) div 2 ^ 64 < 2 ^ 64" by simp
  moreover have "0 \<le> uint (ip6 b) div 2 ^ 64" by (rule pos_imp_zdiv_nonneg_iff [THEN iffD2]) simp_all
  ultimately have "json_plain d (JInt (uint (ip6 b) div 2 ^ 64))" by (intro n)
  moreover have "json_plain d (JInt (uint (ip6 b) mod 2 ^ 64))" by (intro n) simp_all
  ultimately show ?thesis using plain_word [where 'w = 16] unfolding V6 addr_numbers.simps
    by (simp del: json_plain.simps(1) power_numeral)
qed (use plain_word [where 'w = 16] in simp)

lemma addr_numbers_read: "no_flowinfo a \<Longrightarrow> addr_of_numbers (addr_numbers a) = Inr a"
proof (cases a)
  case (V6 b)
  assume "no_flowinfo a"
  moreover have "of_int (uint (ip6 b) div 2 ^ 64 * 2 ^ 64 + uint (ip6 b) mod 2 ^ 64) = ip6 b"
    by (simp only: div_mult_mod_eq word_of_int_uint)
  ultimately show ?thesis using V6 by (simp add: addr_of_numbers_def word_json_def)
qed (simp add: addr_of_numbers_def word_json_def)

interpretation text_serde: serde_api text_serde
proof
  show "se_read text_serde (se_write text_serde v) = Inr v" if "json_plain JSON_DEPTH v" for v
    using json_of_bvalue [OF that] by (simp add: text_serde_def)
qed (simp_all add: text_serde_def addr_numbers_read addr_numbers_plain)

text \<open>The node with one neighbour, its last dump, and the machine at the restart.\<close>

definition probe_clock :: write_clocks where
  "probe_clock v4 k j r = 7"

definition probe_io :: dump_io where
  "probe_io = \<lparr>io_open = Inr (), io_flushed = 0, io_write = Inr (), io_rename = Inr (),
     io_dropped = length (se_write text_serde (dump_json text_serde probe_clock probe_state))\<rparr>"

definition probe_config :: persistent_dht_config where
  "probe_config = default_persistent_config\<lparr>config_filename := Some [''cache'', ''dht.json'']\<rparr>"

definition probe_env :: "files \<Rightarrow> 160 word start_env" where
  "probe_env fs = \<lparr>se_cache_dir = Inl ''no home'', se_create_dir = \<lambda>d. Inr (), se_open = found fs,
     se_pid = ''17'', se_bind = Inr, se_generated = 77, se_now = 5,
     se_clocks = \<lparr>rc_v4 = \<lambda>k. 5, rc_v6 = \<lambda>k. 5, rc_utc = \<lambda>k. 5\<rparr>\<rparr>"

lemma probe_writable: "state_writable probe_state"
proof -
  have "state_writable (node_state (dht_start id20_word 0 9 sample_addr))"
    by (simp add: state_writable_def dht_start_def dht_new_internal_def routing_table_new_def bucket_tree_new_def
        tree_writable_def default_leaf_bucket_def DEFAULT_MAX_SIZE_def store_plain_def peer_store_new_def
        sample_addr_def)
  moreover have "tree_writable (rt_buckets one_node_table)" "rt_size one_node_table < 2 ^ 64"
    by (simp_all add: rt_eval tree_writable_def sample_addr_def fresh_node_def)
  ultimately show ?thesis by (simp add: state_writable_def probe_state_def)
qed

lemma probe_restarts: "restarts (probe_env fs) probe_config [''cache'', ''dht.json''] fs"
  by (simp add: restarts_def probe_env_def probe_config_def default_persistent_config_def)

theorem restart_restores_witness:
  "\<exists>fs p. create id20_word text_serde (probe_env fs) (Some probe_config) = Inr (Inr p)
    \<and> dht_id (pd_state p) = rt_id one_node_table
    \<and> rt_nodes (routing_table_v4 (pd_state p)) = map forget_marks (rt_nodes one_node_table)
    \<and> stores_ok id20_word (pd_state p)"
proof -
  obtain fs1 fs2 r where d: "dump_dht text_serde probe_clock probe_state [''cache'', ''dht.json''] [''tmp''] probe_io
      Map.empty = ((fs1, fs2), r)" by (metis surj_pair)
  have "io_ok (se_write text_serde (dump_json text_serde probe_clock probe_state)) probe_io"
    by (simp add: io_ok_def probe_io_def)
  moreover have "se_bind (probe_env fs2) (restart_addr probe_config (listen_addr probe_state))
      = Inr (restart_addr probe_config (listen_addr probe_state))" by (simp add: probe_env_def)
  ultimately show ?thesis
    using restart_restores [OF id20_word_api text_serde.serde_api_axioms probe_state_ok probe_writable _ d
      probe_restarts] by (fastforce simp: probe_state_def)
qed

section \<open>Starting without a dump\<close>

text \<open>There is no file, or its content is not a dump.\<close>

fun no_dump :: "'id serde \<Rightarrow> read_clocks \<Rightarrow> opened \<Rightarrow> bool" where
  "no_dump se clk (OpenFailed e) \<longleftrightarrow> e = NotFound"
| "no_dump se clk (ReadFailed e) \<longleftrightarrow> True"
| "no_dump se clk (ReadAll bs) \<longleftrightarrow> (case se_read se bs of Inl e \<Rightarrow> True
     | Inr v \<Rightarrow> (case dht_serialize_of_json se clk v of Inr (Inl e) \<Rightarrow> True | _ \<Rightarrow> False))"

lemma load_no_dump: "no_dump se clk x \<Longrightarrow> load_dump se clk v4_only f x = Inr (Inr None)"
  by (cases x) (simp_all add: load_dump_def split: sum.splits)

definition fresh_addr :: "persistent_dht_config \<Rightarrow> socket_addr" where
  "fresh_addr c = unspecified_v6 (case config_port c of Some p \<Rightarrow> p | None \<Rightarrow> 0)"

definition fresh_node_state :: "'id id20_ops \<Rightarrow> 'id start_env \<Rightarrow> socket_addr \<Rightarrow> 'id dht_state" where
  "fresh_node_state ops env bound = dht_new_internal ops (se_now env) (se_generated env) None None bound
     (peer_store_new ops (se_generated env))"

lemma create_fresh:
  assumes "no_dump se (se_clocks env) (se_open env f)" and "se_bind env (fresh_addr c) = Inr bound"
  shows "\<exists>p. create_at ops se env c f = Inr (Inr p) \<and> pd_bootstrap p = DHT_BOOTSTRAP
    \<and> pd_state p = fresh_node_state ops env bound"
  using assms by (cases "config_port c") (simp_all add: create_at_def load_no_dump start_config_def with_config_def
      default_config_def fresh_addr_def unspecified_v6_def fresh_node_state_def Let_def)

text \<open>
  Without a dump the node starts from nothing, and says so only in the log: if the file is not
  there, cannot be read, is not JSON or is not the JSON of a dump, the node has the generated
  identifier, empty tables and an empty peer store, and bootstraps from the default hosts. Any other
  error in opening the file is returned. The address asked for then is the IPv6 wildcard whatever
  \<^verbatim>\<open>ipv4_only\<close> says.
\<close>

theorem create_without_dump:
  assumes "config_filename c = Some f" and "\<forall>dir. se_create_dir env dir = Inr ()"
  shows "(no_dump se (se_clocks env) (se_open env f) \<and> se_bind env (fresh_addr c) = Inr bound
      \<longrightarrow> (\<exists>p. create ops se env (Some c) = Inr (Inr p) \<and> pd_bootstrap p = DHT_BOOTSTRAP
        \<and> pd_state p = fresh_node_state ops env bound))
    \<and> (no_dump se (se_clocks env) (se_open env f) \<and> se_bind env (fresh_addr c) = Inl e
      \<longrightarrow> create ops se env (Some c) = Inr (Inl (DhtFailed (Bind e))))
    \<and> (se_open env f = OpenFailed (OtherIoError e)
      \<longrightarrow> create ops se env (Some c) = Inr (Inl (ReadError f (OtherIoError e))))"
proof -
  have c: "create ops se env (Some c) = create_at ops se env c f"
    using assms by (cases "path_parent f") (simp_all add: create_def)
  have "create_at ops se env c f = Inr (Inl (DhtFailed (Bind e)))"
    if "no_dump se (se_clocks env) (se_open env f)" "se_bind env (fresh_addr c) = Inl e"
    using that by (cases "config_port c") (simp_all add: create_at_def load_no_dump start_config_def with_config_def
      default_config_def fresh_addr_def unspecified_v6_def)
  moreover have "create_at ops se env c f = Inr (Inl (ReadError f (OtherIoError e)))"
    if "se_open env f = OpenFailed (OtherIoError e)"
    using that by (simp add: create_at_def load_dump_def)
  ultimately show ?thesis using create_fresh [of se env f c bound ops] unfolding c by blast
qed

theorem create_without_dump_witness:
  "\<exists>p. create id20_word text_serde (probe_env Map.empty) (Some (probe_config\<lparr>ipv4_only := True\<rparr>)) = Inr (Inr p)
    \<and> dht_id (pd_state p) = 77 \<and> listen_addr (pd_state p) = unspecified_v6 0"
proof -
  have "fresh_addr (probe_config\<lparr>ipv4_only := True\<rparr>) = unspecified_v6 0"
    by (simp add: fresh_addr_def probe_config_def default_persistent_config_def)
  then show ?thesis
    using create_without_dump [of "probe_config\<lparr>ipv4_only := True\<rparr>" "[''cache'', ''dht.json'']"
        "probe_env Map.empty" text_serde "unspecified_v6 0" id20_word]
    by (fastforce simp: probe_config_def default_persistent_config_def probe_env_def found_def fresh_node_state_def
        dht_new_internal_def)
qed

section \<open>Failures of a dump\<close>

text \<open>
  A dump touches two files only. If it returns an error, every file but the temporary one is as
  it was, so the last dump stays; if it returns without one, the temporary file is gone, the dump
  file holds a prefix of the text, and all of it when the buffer could be written out.
\<close>

theorem dump_touches_two_files:
  assumes "dump_dht se clk s f tmp io fs = ((fs1, fs2), r)" and "f \<noteq> tmp"
  shows "(\<forall>p. p \<noteq> f \<and> p \<noteq> tmp \<longrightarrow> fs2 p = fs p) \<and> (r \<noteq> Inr () \<longrightarrow> fs2 f = fs f)
    \<and> (r = Inr () \<longrightarrow> fs2 tmp = None
      \<and> fs2 f = Some (take (io_flushed io + io_dropped io) (se_write se (dump_json se clk s))))
    \<and> (io_ok (se_write se (dump_json se clk s)) io \<longrightarrow> r = Inr () \<and> fs2 f = Some (se_write se (dump_json se clk s)))"
proof (cases "io_open io")
  case (Inr u)
  with assms show ?thesis
    by (cases "io_write io"; cases "io_rename io")
      (auto simp: dump_dht_def dump_text_def io_ok_def Let_def)
qed (use assms in \<open>auto simp: dump_dht_def dump_text_def io_ok_def\<close>)

theorem dump_touches_two_files_witness:
  "\<exists>fs1 fs2. dump_dht text_serde probe_clock probe_state [''a''] [''b''] (probe_io\<lparr>io_rename := Inl ''denied''\<rparr>)
      [[''a''] \<mapsto> [1, 2]] = ((fs1, fs2), Inl (RenameError [''b''] [''a''] ''denied''))
    \<and> fs2 [''a''] = Some [1, 2]"
proof -
  obtain fs1 fs2 r where d: "dump_dht text_serde probe_clock probe_state [''a''] [''b'']
      (probe_io\<lparr>io_rename := Inl ''denied''\<rparr>) [[''a''] \<mapsto> [1, 2]] = ((fs1, fs2), r)" by (metis surj_pair)
  moreover have "r = Inl (RenameError [''b''] [''a''] ''denied'')"
    using d by (simp add: dump_dht_def dump_text_def probe_io_def Let_def)
  ultimately show ?thesis using dump_touches_two_files [OF d] by simp
qed

text \<open>
  C20. The buffer of a dump is written out only when it is dropped, after the renaming and without a
  look at the error. If not all of it reaches the file then, the dump reports success, the renaming
  has replaced the last complete dump by a truncated one, and the next start begins from nothing. A
  text that is shorter than the buffer, 8192 bytes, is in the buffer as a whole when the file is
  renamed.
\<close>

theorem truncated_dump_reports_success:
  assumes "io_open io = Inr ()" and "io_write io = Inr ()" and "io_rename io = Inr ()"
    and "dump_dht se clk s f tmp io fs = ((fs1, fs2), r)"
    and "se_read se (take (io_flushed io + io_dropped io) (se_write se (dump_json se clk s))) = Inl e"
    and "restarts env c f fs2" and "se_bind env (fresh_addr c) = Inr bound"
  shows "r = Inr () \<and> fs1 f = Some (take (io_flushed io) (se_write se (dump_json se clk s)))
    \<and> (\<exists>p. create ops se env (Some c) = Inr (Inr p) \<and> pd_state p = fresh_node_state ops env bound)"
proof -
  have r: "r = Inr ()" "fs1 f = Some (take (io_flushed io) (se_write se (dump_json se clk s)))"
    "fs2 f = Some (take (io_flushed io + io_dropped io) (se_write se (dump_json se clk s)))"
    using assms(1-4) by (auto simp: dump_dht_def dump_text_def Let_def)
  have "no_dump se (se_clocks env) (se_open env f)"
    using assms(5,6) r(3) by (simp add: restarts_def found_def)
  with create_fresh [OF _ assms(7), of se f ops] create_restarts [OF assms(6)] r(1,2) show ?thesis by metis
qed

theorem truncated_dump_reports_success_witness:
  "\<exists>p. create id20_word text_serde (probe_env (snd (fst (dump_dht text_serde probe_clock probe_state
       [''cache'', ''dht.json''] [''tmp''] (probe_io\<lparr>io_dropped := 0\<rparr>) [[''cache'', ''dht.json''] \<mapsto> [1]]))))
      (Some probe_config) = Inr (Inr p) \<and> dht_id (pd_state p) = 77"
proof -
  let ?io = "probe_io\<lparr>io_dropped := 0\<rparr>" and ?f = "[''cache'', ''dht.json'']"
  obtain fs1 fs2 r where d: "dump_dht text_serde probe_clock probe_state ?f [''tmp''] ?io [?f \<mapsto> [1]]
      = ((fs1, fs2), r)" by (metis surj_pair)
  have "io_open ?io = Inr ()" "io_write ?io = Inr ()" "io_rename ?io = Inr ()"
    "se_read text_serde (take (io_flushed ?io + io_dropped ?io) doc) = Inl ''json''" for doc
    by (simp_all add: probe_io_def text_serde_def bdecode_def)
  moreover have "se_bind (probe_env fs2) (fresh_addr probe_config) = Inr (fresh_addr probe_config)"
    by (simp add: probe_env_def)
  ultimately have "\<exists>p. create id20_word text_serde (probe_env fs2) (Some probe_config) = Inr (Inr p)
      \<and> pd_state p = fresh_node_state id20_word (probe_env fs2) (fresh_addr probe_config)"
    using truncated_dump_reports_success [OF _ _ _ d _ probe_restarts] by blast
  with d show ?thesis by (auto simp: fresh_node_state_def dht_new_internal_def probe_env_def)
qed

section \<open>The table of IPv6 nodes\<close>

text \<open>
  C37. The table of IPv6 nodes does not survive a restart. The dump has it, the reader reads it, and the
  new node starts with an empty one.
\<close>

theorem restart_forgets_v6:
  assumes "id20_api ops" and "serde_api se" and "stores_ok ops s" and "state_writable s"
    and "io_ok (se_write se (dump_json se wclk s)) io"
    and "dump_dht se wclk s f tmp io fs = ((fs1, fs2), r)"
    and "restarts env c f fs2" and "se_bind env (restart_addr c (listen_addr s)) = Inr bound"
  shows "\<exists>de p t6. load_dump se (se_clocks env) (ipv4_only c) f (se_open env f) = Inr (Inr (Some de))
    \<and> ds_table_v6 de = Some t6 \<and> rt_nodes t6 = map forget_marks (rt_nodes (routing_table_v6 s))
    \<and> create ops se env (Some c) = Inr (Inr p) \<and> rt_nodes (routing_table_v6 (pd_state p)) = []"
proof -
  have ok: "rt_inv ops (routing_table_v6 s)" "peer_store_inv ops (dht_peer_store s)"
    using assms(3) by (simp_all add: stores_ok_def)
  obtain fs1' where "dump_dht se wclk s f tmp io fs
      = ((fs1', fs(tmp := None, f \<mapsto> se_write se (dump_json se wclk s))), Inr ())"
    using dump_ok [OF assms(5)] unfolding dump_dht_def by blast
  with assms(6) have d: "fs2 = fs(tmp := None, f \<mapsto> se_write se (dump_json se wclk s))" by simp
  have "se_open env f = ReadAll (se_write se (dump_json se wclk s))"
    using assms(7) by (simp add: d restarts_def found_def)
  moreover have "load_dump se (se_clocks env) (ipv4_only c) f (ReadAll (se_write se (dump_json se wclk s)))
      = Inr (Inr (Some ((dumped (se_clocks env) s)\<lparr>ds_addr := patch_addr (ipv4_only c) (listen_addr s)\<rparr>)))"
    using ok(2) by (intro serde_api.load_written [OF assms(2,4)]) (simp_all add: peer_store_inv_def peers_ok_def)
  ultimately show ?thesis
    using create_from_dump [OF assms(2) ok(2) assms(4) assms(7) [unfolded d] assms(8)]
      id20_api.rt_inv_reloaded(2) [OF assms(1) ok(1), of "rc_v6 (se_clocks env)"] id20_api.rt_inv_new(2) [OF assms(1)]
    by (simp add: dumped_def dht_new_internal_def)
qed

text \<open>A node with one neighbour in its table of IPv6 nodes.\<close>

definition probe6_state :: "160 word dht_state" where
  "probe6_state = probe_state\<lparr>routing_table_v6 := one_node_table\<rparr>"

definition probe6_io :: dump_io where
  "probe6_io = probe_io\<lparr>io_dropped := length (se_write text_serde (dump_json text_serde probe_clock probe6_state))\<rparr>"

lemma probe6_ok: "stores_ok id20_word probe6_state" "state_writable probe6_state"
  using probe_state_ok probe_writable
  by (simp_all add: probe6_state_def probe_state_def stores_ok_def state_writable_def)

theorem restart_forgets_v6_witness:
  "\<exists>fs p. create id20_word text_serde (probe_env fs) (Some probe_config) = Inr (Inr p)
    \<and> length (rt_nodes (routing_table_v6 probe6_state)) = 1 \<and> rt_nodes (routing_table_v6 (pd_state p)) = []"
proof -
  obtain fs1 fs2 r where d: "dump_dht text_serde probe_clock probe6_state [''cache'', ''dht.json''] [''tmp''] probe6_io
      Map.empty = ((fs1, fs2), r)" by (metis surj_pair)
  have io: "io_ok (se_write text_serde (dump_json text_serde probe_clock probe6_state)) probe6_io"
    by (simp add: io_ok_def probe6_io_def probe_io_def)
  have bind: "se_bind (probe_env fs2) (restart_addr probe_config (listen_addr probe6_state))
      = Inr (restart_addr probe_config (listen_addr probe6_state))" by (simp add: probe_env_def)
  have "length (rt_nodes (routing_table_v6 probe6_state)) = 1"
    by (simp add: probe6_state_def rt_nodes_def rt_iter_def rt_eval bucket_iter_def iter_leaves_def iter_collect_leaf
        iter_collect_Nil leaf_item_def)
  with restart_forgets_v6 [OF id20_word_api text_serde.serde_api_axioms probe6_ok io d probe_restarts bind] show ?thesis
    by blast
qed

section \<open>Dumps that the reader should refuse\<close>

text \<open>A table of a dump that was damaged, or written by hand: it has no buckets.\<close>

definition table_without_buckets :: "'id serde \<Rightarrow> 'id \<Rightarrow> json" where
  "table_without_buckets se i = JObj [(''id'', serialize_id20 se i), (''size'', usize_json 0),
     (''buckets'', JObj [(''data'', JArr []), (''size'', usize_json 0), (''max_size'', usize_json 512)])]"

text \<open>
  The reader takes the structure of the tree as it is. A dump of a table without buckets is
  accepted, and adding any node to it panics with an index out of bounds.
\<close>

theorem reader_accepts_no_buckets:
  assumes "serde_api se"
  shows "\<exists>rt. routing_table_of_json se clk (table_without_buckets se i) = Inr rt
    \<and> (\<forall>ops clk' now j addr. rt_add_node ops clk' now rt j addr = Inl IndexOutOfBounds)"
  by (simp add: table_without_buckets_def routing_table_of_json_def tree_of_json_def tree_data_of_json_def
      read_field serde_api.id_round [OF assms] rt_add_node_def bucket_add_node_def get_leaf_def)

theorem reader_accepts_no_buckets_witness:
  "\<exists>rt. routing_table_of_json text_serde (\<lambda>k. 5) (table_without_buckets text_serde 9) = Inr rt
    \<and> (\<forall>ops clk' now j addr. rt_add_node ops clk' now rt j addr = Inl IndexOutOfBounds)"
  by (rule reader_accepts_no_buckets [OF text_serde.serde_api_axioms])

end
