(* ===== verification/Get_Peers.thy ===== *)
theory Get_Peers
  imports Lookup Dht_Props
begin

text \<open>
  The search for peers that \<^verbatim>\<open>get_peers\<close> starts,
  \<^verbatim>\<open>RequestPeersStream\<close> and \<^verbatim>\<open>request_peers_forever\<close> of
  \<^verbatim>\<open>src/dht.rs\<close>: one task per address family, each with a looper that asks the best
  nodes of its table again and again, the requests that run for it, and the channel of the peers
  they find. It is composed with the node of \<open>Dht_System\<close>: the requests of the tasks are
  requests of the node and end by the node's events.
\<close>

section \<open>State\<close>

text \<open>
  A request of a task: not polled yet, its first query waiting or over, its second query waiting or
  over. A waiting query has the key and the channel that \<^verbatim>\<open>request\<close> waits for.
\<close>

datatype 'id fut_phase =
    Not_Polled
  | First_Sent "u16 \<times> socket_addr" nat
  | First_Done "dht_error + 'id response_or_error"
  | Second_Sent "u16 \<times> socket_addr" nat
  | Second_Done "dht_error + 'id response_or_error"

text \<open>\<open>pt_wake\<close> is the end of the looper's sleep; a task that has returned or was aborted is not alive.\<close>

record 'id peers_task =
  pt_rr :: "'id recursive_request"
  pt_futs :: "('id target \<times> 'id fut_phase) list"
  pt_wake :: instant
  pt_alive :: bool

text \<open>
  The node, the two tasks, the channel of peers, what the user took from it, and the channels whose
  request was dropped before it ended.
\<close>

record 'id peers_system =
  sy_dht :: "'id dht_system"
  sy_v4 :: "'id peers_task"
  sy_v6 :: "'id peers_task"
  sy_rx :: "socket_addr list"
  sy_delivered :: "socket_addr list"
  sy_dropped :: "nat set"

definition peers_task_new :: "'id \<Rightarrow> 'id peers_task" where
  "peers_task_new hash = \<lparr>pt_rr = get_peers_recursion hash, pt_futs = [], pt_wake = 0, pt_alive = True\<rparr>"

definition get_peers_start :: "'id \<Rightarrow> 'id dht_system \<Rightarrow> 'id peers_system" where
  "get_peers_start hash y = \<lparr>sy_dht = y, sy_v4 = peers_task_new hash, sy_v6 = peers_task_new hash,
     sy_rx = [], sy_delivered = [], sy_dropped = {}\<rparr>"

definition task_of :: "bool \<Rightarrow> 'id peers_system \<Rightarrow> 'id peers_task" where
  "task_of is_v4 z = (if is_v4 then sy_v4 z else sy_v6 z)"

definition set_task :: "bool \<Rightarrow> 'id peers_task \<Rightarrow> 'id peers_system \<Rightarrow> 'id peers_system" where
  "set_task is_v4 t z = (if is_v4 then z\<lparr>sy_v4 := t\<rparr> else z\<lparr>sy_v6 := t\<rparr>)"

fun fut_channels :: "'id fut_phase \<Rightarrow> nat list" where
  "fut_channels (First_Sent key ch) = [ch]"
| "fut_channels (Second_Sent key ch) = [ch]"
| "fut_channels _ = []"

definition task_channels :: "'id peers_task \<Rightarrow> nat list" where
  "task_channels t = concat (map (\<lambda>f. fut_channels (snd f)) (pt_futs t))"

definition owned_channels :: "'id peers_system \<Rightarrow> nat set" where
  "owned_channels z = set (task_channels (sy_v4 z)) \<union> set (task_channels (sy_v6 z)) \<union> sy_dropped z"

section \<open>The looper\<close>

text \<open>
  When its sleep is over, the looper puts the root nodes into the queue and sleeps again. An error
  would end the task.
\<close>

definition looper_step ::
    "('id::linorder) id20_ops \<Rightarrow> bool \<Rightarrow> instant \<Rightarrow> 'id dht_state \<Rightarrow> 'id peers_task \<Rightarrow> abort + 'id peers_task" where
  "looper_step ops is_v4 now s t =
    (if pt_alive t \<and> pt_wake t \<le> now
     then and_then (get_peers_root ops is_v4 now s (pt_rr t)) (\<lambda>(rr, result). case result of
         Inr n \<Rightarrow> Inr (t\<lparr>pt_rr := rr, pt_wake := now + looper_sleep n\<rparr>)
       | Inl e \<Rightarrow> Inr (t\<lparr>pt_rr := rr, pt_futs := [], pt_alive := False\<rparr>))
     else Inr t)"

definition take_node :: "'id peers_task \<Rightarrow> 'id peers_task" where
  "take_node t = (case node_tx (pt_rr t) of
     x # xs \<Rightarrow> if pt_alive t
       then t\<lparr>pt_rr := (pt_rr t)\<lparr>node_tx := xs\<rparr>, pt_futs := pt_futs t @ [(x, Not_Polled)]\<rparr> else t
   | [] \<Rightarrow> t)"

section \<open>One step of a request\<close>

text \<open>\<^verbatim>\<open>dht.request\<close> up to its wait, as a step of the node.\<close>

definition ask ::
    "'id request \<Rightarrow> socket_addr \<Rightarrow> 'id dht_system \<Rightarrow> 'id dht_system \<times> (dht_error + (u16 \<times> socket_addr) \<times> nat)" where
  "ask req addr y = (case request_start req addr (node_state y) of
     (s, Inl e) \<Rightarrow> (y\<lparr>node_state := s\<rparr>, Inl e)
   | (s, Inr (key, ch)) \<Rightarrow> (y\<lparr>node_state := s, waiting := (waiting y)(ch \<mapsto> key)\<rparr>, Inr (key, ch)))"

definition finish_wait :: "(u16 \<times> socket_addr) \<Rightarrow> nat \<Rightarrow> wait_end \<Rightarrow> 'id dht_system \<Rightarrow> 'id dht_system" where
  "finish_wait key ch w y =
     y\<lparr>node_state := fst (request_finish key ch w (node_state y)), waiting := (waiting y)(ch := None)\<rparr>"

definition set_fut :: "nat \<Rightarrow> 'id fut_phase \<Rightarrow> 'id recursive_request \<Rightarrow> 'id peers_task \<Rightarrow> 'id peers_task" where
  "set_fut k p rr t = t\<lparr>pt_rr := rr, pt_futs := (pt_futs t)[k := (fst (pt_futs t ! k), p)]\<rparr>"

definition fut_wait ::
    "(u16 \<times> socket_addr) \<Rightarrow> nat \<Rightarrow> wait_end \<Rightarrow> (dht_error + 'id response_or_error \<Rightarrow> 'id fut_phase) \<Rightarrow> nat
      \<Rightarrow> 'id peers_task \<Rightarrow> 'id dht_system \<Rightarrow> 'id peers_task \<times> 'id dht_system" where
  "fut_wait key ch w done k t y =
    (if waiting y ch = Some key \<and> wait_may_end w ch (node_state y)
     then (set_fut k (done (snd (request_finish key ch w (node_state y)))) (pt_rr t) t, finish_wait key ch w y)
     else (t, y))"

text \<open>
  One step of the \<open>k\<close>-th request. \<open>w\<close> says how a wait ends, if the request waits;
  \<open>env\<close> and \<open>now\<close> are the clock readings of the step.
\<close>

definition fut_step ::
    "('id::linorder) id20_ops \<Rightarrow> 'id callbacks \<Rightarrow> callback_env \<Rightarrow> instant \<Rightarrow> wait_end \<Rightarrow> nat
      \<Rightarrow> 'id peers_task \<Rightarrow> 'id dht_system \<Rightarrow> abort + 'id peers_task \<times> 'id dht_system" where
  "fut_step ops cb env now w k t y =
    (if k < length (pt_futs t) then
      (let ((i, addr, depth), phase) = pt_futs t ! k in
       case phase of
         Not_Polled \<Rightarrow> and_then (request_one_begin cb env i addr (pt_rr t) (node_state y)) (\<lambda>(rr, s).
           let (y1, r) = ask (rr_request rr) addr (y\<lparr>node_state := s\<rparr>)
           in Inr (set_fut k (case r of Inl e \<Rightarrow> First_Done (Inl e) | Inr (key, ch) \<Rightarrow> First_Sent key ch) rr t, y1))
       | First_Sent key ch \<Rightarrow> Inr (fut_wait key ch w First_Done k t y)
       | First_Done resp \<Rightarrow> and_then (request_one_middle cb env now i addr resp (pt_rr t) (node_state y)) (\<lambda>(rr, s).
           let (y1, r) = ask (rr_request rr) addr (y\<lparr>node_state := s\<rparr>)
           in Inr (set_fut k (case r of Inl e \<Rightarrow> Second_Done (Inl e) | Inr (key, ch) \<Rightarrow> Second_Sent key ch) rr t, y1))
       | Second_Sent key ch \<Rightarrow> Inr (fut_wait key ch w Second_Done k t y)
       | Second_Done resp \<Rightarrow>
           (let (rr, result) = request_one_end ops now addr depth resp (pt_rr t)
            in Inr (t\<lparr>pt_rr := rr, pt_futs := take k (pt_futs t) @ drop (Suc k) (pt_futs t)\<rparr>, y)))
     else Inr (t, y))"

section \<open>The stream\<close>

text \<open>The peers that a task has sent are in the channel that both share.\<close>

definition drain :: "bool \<Rightarrow> 'id peers_task \<Rightarrow> 'id peers_system \<Rightarrow> 'id peers_system" where
  "drain is_v4 t z = (set_task is_v4 (t\<lparr>pt_rr := (pt_rr t)\<lparr>peer_tx := []\<rparr>\<rparr>) z)
     \<lparr>sy_rx := sy_rx z @ peer_tx (pt_rr t)\<rparr>"

text \<open>\<^verbatim>\<open>poll_next\<close> with a peer in the channel.\<close>

definition poll_next :: "'id peers_system \<Rightarrow> 'id peers_system \<times> socket_addr option" where
  "poll_next z = (case sy_rx z of
     p # ps \<Rightarrow> (z\<lparr>sy_rx := ps, sy_delivered := sy_delivered z @ [p]\<rparr>, Some p)
   | [] \<Rightarrow> (z, None))"

text \<open>
  Dropping the stream aborts both tasks: the futures of their requests are dropped where they wait. The
  entries of the requests in flight are not removed.
\<close>

definition abort_task :: "'id peers_task \<Rightarrow> 'id peers_task" where
  "abort_task t = t\<lparr>pt_futs := [], pt_alive := False\<rparr>"

definition drop_stream :: "'id peers_system \<Rightarrow> 'id peers_system" where
  "drop_stream z = z\<lparr>sy_v4 := abort_task (sy_v4 z), sy_v6 := abort_task (sy_v6 z), sy_rx := [],
     sy_dropped := owned_channels z, sy_dht := (sy_dht z)\<lparr>dropped := dropped (sy_dht z) \<union> owned_channels z\<rparr>\<rparr>"

datatype 'id peers_event =
    PeNode "'id dht_event"
  | PeLooper bool instant
  | PeTake bool
  | PeFut bool nat callback_env instant wait_end
  | PeNext
  | PeDrop

text \<open>
  The events of the system, in any order. Any other event of the node may happen, but the waits of
  the tasks are ended or dropped by the tasks only, and those of dropped requests by nobody.
\<close>

fun ends_wait :: "'id dht_event \<Rightarrow> nat set" where
  "ends_wait (EvFinish ch w) = {ch}"
| "ends_wait (EvDrop ch) = {ch}"
| "ends_wait _ = {}"

fun peers_step ::
    "('id::linorder) id20_ops \<Rightarrow> u16 option \<Rightarrow> 'id peers_event \<Rightarrow> 'id peers_system \<Rightarrow> abort + 'id peers_system" where
  "peers_step ops port (PeNode e) z =
    (if ends_wait e \<inter> owned_channels z \<noteq> {} then Inr z
     else and_then (dht_step ops e (sy_dht z)) (\<lambda>y. Inr (z\<lparr>sy_dht := y\<rparr>)))"
| "peers_step ops port (PeLooper is_v4 now) z =
     and_then (looper_step ops is_v4 now (node_state (sy_dht z)) (task_of is_v4 z)) (\<lambda>t. Inr (set_task is_v4 t z))"
| "peers_step ops port (PeTake is_v4) z = Inr (set_task is_v4 (take_node (task_of is_v4 z)) z)"
| "peers_step ops port (PeFut is_v4 k env now w) z =
     and_then (fut_step ops (callbacks_get_peers ops (MIN_DISTANCE_TO_ANNOUNCE ops) port) env now w k
         (task_of is_v4 z) (sy_dht z)) (\<lambda>(t, y). Inr (drain is_v4 t (z\<lparr>sy_dht := y\<rparr>)))"
| "peers_step ops port PeNext z = Inr (fst (poll_next z))"
| "peers_step ops port PeDrop z = Inr (drop_stream z)"

end
