(* ===== verification/Get_Peers_Props.thy ===== *)
theory Get_Peers_Props
  imports Get_Peers Worker_Props
begin

text \<open>
  What the search for peers promises, for all interleavings with the rest of the node: it never
  panics, its lookups keep their bounds, and every peer it delivers was in the values of a response
  that the node received; the announcements it makes; and a defect, the requests in flight that
  stay behind when the stream is dropped.
\<close>

section \<open>Where peers come from\<close>

text \<open>
  The response that an event brings to a request the task waits for: it comes from the address that the
  request was sent to, with its transaction identifier, while the request is in flight.
\<close>

definition answer_to :: "'id peers_task \<Rightarrow> 'id dht_system \<Rightarrow> 'id dht_event \<Rightarrow> 'id response set" where
  "answer_to t y e = {r. \<exists>env msg src tid ch. e = EvMessage env msg src \<and> msg_kind msg = MK_Response r
     \<and> get_our_transaction_id msg = Some tid \<and> inflight (node_state y) (tid, src) = Some ch \<and> ch \<in> set (task_channels t)}"

definition solicited :: "'id peers_event \<Rightarrow> 'id peers_system \<Rightarrow> 'id response set" where
  "solicited e z = (case e of PeNode ev \<Rightarrow> answer_to (sy_v4 z) (sy_dht z) ev \<union> answer_to (sy_v6 z) (sy_dht z) ev | _ \<Rightarrow> {})"

definition peers_in :: "'id response set \<Rightarrow> socket_addr set" where
  "peers_in L = {p. \<exists>r \<in> L. \<exists>ps. resp_values r = Some ps \<and> p \<in> set ps}"

text \<open>What has come for the requests a task waits for is among the responses of \<open>L\<close>.\<close>

definition heard_in :: "'id response set \<Rightarrow> 'id peers_task \<Rightarrow> 'id dht_state \<Rightarrow> bool" where
  "heard_in L t s \<longleftrightarrow> (\<forall>ch \<in> set (task_channels t). ch < next_channel s
     \<and> (\<forall>r. completed s ch = Some (Inr (ROE_Response r)) \<longrightarrow> r \<in> L))"

fun phase_ok :: "'id response set \<Rightarrow> 'id fut_phase \<Rightarrow> bool" where
  "phase_ok L (First_Done resp) \<longleftrightarrow> (\<forall>r. resp = Inr (ROE_Response r) \<longrightarrow> r \<in> L)"
| "phase_ok L (Second_Done resp) \<longleftrightarrow> (\<forall>r. resp = Inr (ROE_Response r) \<longrightarrow> r \<in> L)"
| "phase_ok L _ \<longleftrightarrow> True"

definition task_ok :: "'id response set \<Rightarrow> 'id peers_task \<Rightarrow> bool" where
  "task_ok L t \<longleftrightarrow> rr_inv (pt_rr t) \<and> max_depth (pt_rr t) = 4 \<and> useful_nodes_limit (pt_rr t) = 256
     \<and> (\<forall>f \<in> set (pt_futs t). phase_ok L (snd f) \<and> snd (snd (fst f)) \<le> 4)"

definition peers_inv :: "('id::linorder) id20_ops \<Rightarrow> 'id response set \<Rightarrow> 'id peers_system \<Rightarrow> bool" where
  "peers_inv ops L z \<longleftrightarrow> dht_inv ops (sy_dht z)
     \<and> (\<forall>is_v4. task_ok L (task_of is_v4 z) \<and> heard_in L (task_of is_v4 z) (node_state (sy_dht z)) \<and> peer_tx (pt_rr (task_of is_v4 z)) = [])
     \<and> set (sy_rx z) \<union> set (sy_delivered z) \<subseteq> peers_in L"

lemma peers_in_mono: "L \<subseteq> L' \<Longrightarrow> peers_in L \<subseteq> peers_in L'"
  by (auto simp: peers_in_def)

lemma phase_ok_mono: "phase_ok L p \<Longrightarrow> L \<subseteq> L' \<Longrightarrow> phase_ok L' p"
  by (cases p) auto

lemma task_ok_mono: "task_ok L t \<Longrightarrow> L \<subseteq> L' \<Longrightarrow> task_ok L' t"
  using phase_ok_mono by (fastforce simp: task_ok_def)

lemma heard_in_mono: "heard_in L t s \<Longrightarrow> L \<subseteq> L' \<Longrightarrow> set (task_channels t') \<subseteq> set (task_channels t) \<Longrightarrow>
    completed s' = completed s \<Longrightarrow> next_channel s \<le> next_channel s' \<Longrightarrow> heard_in L' t' s'"
  by (fastforce simp: heard_in_def)

lemma task_of_set [simp]: "task_of b (set_task c t z) = (if b = c then t else task_of b z)"
  by (simp add: task_of_def set_task_def)

lemma set_task_fields [simp]:
  "sy_dht (set_task b t z) = sy_dht z" "sy_rx (set_task b t z) = sy_rx z"
  "sy_delivered (set_task b t z) = sy_delivered z" "sy_dropped (set_task b t z) = sy_dropped z"
  by (simp_all add: set_task_def)

lemma task_of_fields [simp]:
  "task_of b (z\<lparr>sy_dht := y\<rparr>) = task_of b z" "task_of b (z\<lparr>sy_rx := rx\<rparr>) = task_of b z"
  "task_of b (z\<lparr>sy_delivered := d\<rparr>) = task_of b z" "task_of b (z\<lparr>sy_dropped := c\<rparr>) = task_of b z"
  by (simp_all add: task_of_def)

lemma set_task_same [simp]: "set_task b (task_of b z) z = z"
  by (simp add: task_of_def set_task_def)

lemma peers_inv_task:
  "peers_inv ops L z \<Longrightarrow> task_ok L t \<Longrightarrow> heard_in L t (node_state (sy_dht z)) \<Longrightarrow> peer_tx (pt_rr t) = [] \<Longrightarrow>
    peers_inv ops L (set_task b t z)"
  by (simp add: peers_inv_def)

section \<open>The node under the search\<close>

text \<open>The asks and waits of a task are events of the node.\<close>

lemma ask_is_event: "dht_step ops (EvRequest req addr) y = Inr (fst (ask req addr y))"
  by (simp add: ask_def split: prod.splits sum.splits)

lemma wait_is_event:
  "waiting y ch = Some key \<Longrightarrow> ch \<notin> dropped y \<Longrightarrow> wait_may_end w ch (node_state y) \<Longrightarrow>
    dht_step ops (EvFinish ch w) y = Inr (finish_wait key ch w y)"
  by (simp add: finish_wait_def)

lemma ask_completed: "completed (node_state (fst (ask req addr y))) = completed (node_state y)"
  by (auto simp: ask_def request_start_def create_request_def worker_send_def Let_def split: prod.splits sum.splits)

lemma ask_channel:
  "next_channel (node_state y) \<le> next_channel (node_state (fst (ask req addr y)))"
  "snd (ask req addr y) = Inr (key, ch) \<Longrightarrow> ch = next_channel (node_state y)
    \<and> next_channel (node_state (fst (ask req addr y))) = Suc ch"
  by (auto simp: ask_def request_start_eq Let_def split: if_splits)

lemma finish_completed: "completed (fst (request_finish key ch w s)) = completed s"
  "next_channel (fst (request_finish key ch w s)) = next_channel s"
  by (cases w; simp)+

lemma get_peers_end_keeps:
  assumes "dht_inv ops y"
  shows "dht_inv ops (y\<lparr>node_state := get_peers_end ops d port rr i addr resp (node_state y)\<rparr>)"
    and "completed (get_peers_end ops d port rr i addr resp s) = completed s
      \<and> next_channel (get_peers_end ops d port rr i addr resp s) = next_channel s"
proof -
  show "dht_inv ops (y\<lparr>node_state := get_peers_end ops d port rr i addr resp (node_state y)\<rparr>)"
    using assms by (auto simp: get_peers_end_def create_request_def worker_send_def Let_def dht_inv_def requests_ok_def
        split: option.splits sum.splits response_or_error.splits)
  show "completed (get_peers_end ops d port rr i addr resp s) = completed s
      \<and> next_channel (get_peers_end ops d port rr i addr resp s) = next_channel s"
    by (auto simp: get_peers_end_def create_request_def worker_send_def Let_def
        split: option.splits sum.splits response_or_error.splits)
qed

lemma message_heard:
  assumes "id20_api ops" and ok: "stores_ok ops s" and r: "on_received_message ops env msg addr s = Inr (s', res)"
  shows "next_channel s' = next_channel s \<and> (completed s' = completed s
    \<or> (\<exists>tid ch roe. get_our_transaction_id msg = Some tid \<and> inflight s (tid, addr) = Some ch
        \<and> completed s' = (completed s)(ch \<mapsto> Inr roe) \<and> (\<forall>x. roe = ROE_Response x \<longrightarrow> msg_kind msg = MK_Response x)))"
proof (cases "\<exists>x. msg_kind msg = MK_Response x \<or> (\<exists>e. msg_kind msg = MK_Error e)")
  case True
  then obtain roe where roe: "on_received_message ops env msg addr s = Inr (on_answer msg addr roe s)"
    "\<forall>x. roe = ROE_Response x \<longrightarrow> msg_kind msg = MK_Response x"
    by (auto simp: on_received_message_def query_handlers)
  have "(s', res) = on_answer msg addr roe s" using roe(1) r by simp
  then show ?thesis
  proof (cases "\<exists>tid ch. get_our_transaction_id msg = Some tid \<and> inflight s (tid, addr) = Some ch")
    case True
    then obtain tid ch where k: "get_our_transaction_id msg = Some tid" "inflight s (tid, addr) = Some ch" by blast
    with \<open>(s', res) = on_answer msg addr roe s\<close> have "completed s' = (completed s)(ch \<mapsto> Inr roe)" "next_channel s' = next_channel s"
      by (simp_all add: on_answer_def)
    with k roe(2) show ?thesis by blast
  next
    case False
    with \<open>(s', res) = on_answer msg addr roe s\<close> have "s' = s" by (auto simp: on_answer_def split: option.splits)
    then show ?thesis by simp
  qed
next
  case False
  then have "answers ops s msg addr (Inr (s', res))"
    using id20_api.query_answered [OF assms(1) ok, of msg addr env] r by simp
  then obtain s0 resp where "(s', res) = respond msg addr resp s0" "same_requests s s0" by (auto simp: answers_def)
  then show ?thesis by (auto simp: respond_eq same_requests_def split: if_splits)
qed

lemma event_heard:
  assumes api: "id20_api ops" and inv: "dht_inv ops y" and st: "dht_step ops e y = Inr y'"
    and l: "heard_in L t (node_state y)"
  shows "heard_in (L \<union> answer_to t y e) t (node_state y')"
proof (cases e)
  case (EvMessage env msg addr)
  with st obtain s' res where r: "on_received_message ops env msg addr (node_state y) = Inr (s', res)"
    "y' = y\<lparr>node_state := s'\<rparr>" by (auto simp: and_then_eq_Inr)
  have "stores_ok ops (node_state y)" using inv by (simp add: dht_inv_def)
  from message_heard [OF api this r(1)] l show ?thesis unfolding r(2) heard_in_def EvMessage
    by (auto simp: answer_to_def split: if_splits)
next
  case (EvRequest req addr)
  with st have "y' = fst (ask req addr y)" by (simp only: ask_is_event sum.inject)
  then show ?thesis using l ask_channel(1) [of y req addr] by (intro heard_in_mono [OF l]) (simp_all add: ask_completed)
next
  case (EvSendError tid addr err)
  then show ?thesis using st l by (auto simp: on_send_error_def heard_in_def split: option.splits if_splits)
next
  case (EvFinish ch w)
  then show ?thesis using st by (intro heard_in_mono [OF l]) (auto simp: finish_completed split: option.splits if_splits)
qed (use st in \<open>auto intro!: heard_in_mono [OF l] simp: and_then_eq_Inr create_request_def worker_send_def Let_def
    set_table_for_addr_def split: if_splits\<close>)

section \<open>Every step keeps the invariant\<close>

lemma rr_inv_peer_tx [simp]: "rr_inv (rr\<lparr>peer_tx := ps\<rparr>) = rr_inv rr"
  by (simp add: rr_inv_def)

lemma send_roots_inv:
  "rr_inv rr \<Longrightarrow> send_roots xs n rr = (rr', result) \<Longrightarrow>
    rr_inv rr' \<and> max_depth rr' = max_depth rr \<and> useful_nodes_limit rr' = useful_nodes_limit rr \<and> peer_tx rr' = peer_tx rr"
proof (induction xs n rr rule: send_roots.induct)
  case (2 i addr rest n rr)
  have "rr_inv (rr\<lparr>node_tx := node_tx rr @ [(Some i, addr, 0)]\<rparr>)" using "2.prems"(1) by (simp add: rr_inv_def)
  with 2 show ?case by (auto split: if_splits)
qed simp

lemma looper_ok:
  assumes "id20_api ops" and "stores_ok ops s" and "task_ok L t" and "peer_tx (pt_rr t) = []"
  shows "\<exists>t'. looper_step ops is_v4 now s t = Inr t' \<and> task_ok L t' \<and> peer_tx (pt_rr t') = []"
proof (cases "pt_alive t \<and> pt_wake t \<le> now")
  case True
  have "rt_inv ops (if is_v4 then routing_table_v4 s else routing_table_v6 s)" using assms(2) by (simp add: stores_ok_def)
  from id20_api.rt_inv_iter(1) [OF assms(1) this] obtain nodes where
    "sorted_by_distance_from ops (if is_v4 then routing_table_v4 s else routing_table_v6 s) (info_hash (pt_rr t)) now = Some nodes"
    by (simp add: sorted_by_distance_from_def rt_iter_def)
  moreover obtain rr res where r: "send_roots (take 8 (map (\<lambda>n. (node_id n, node_addr n)) nodes)) 0 (pt_rr t) = (rr, res)"
    by (metis surj_pair)
  ultimately have "get_peers_root ops is_v4 now s (pt_rr t) = Inr (rr, res)" by (simp add: get_peers_root_def)
  moreover have "rr_inv (pt_rr t)" using assms(3) by (simp add: task_ok_def)
  ultimately show ?thesis using send_roots_inv [OF _ r] True assms(3,4)
    by (cases res) (simp_all add: looper_step_def task_ok_def)
next
  case False
  then have "looper_step ops is_v4 now s t = Inr t" by (auto simp: looper_step_def)
  with assms(3,4) show ?thesis by simp
qed

lemma looper_futs: "looper_step ops is_v4 now s t = Inr t' \<Longrightarrow> pt_futs t' = pt_futs t \<or> pt_futs t' = []"
proof (cases "get_peers_root ops is_v4 now s (pt_rr t)")
  case (Inr p)
  then show "looper_step ops is_v4 now s t = Inr t' \<Longrightarrow> pt_futs t' = pt_futs t \<or> pt_futs t' = []"
    by (cases p; cases "snd p") (auto simp: looper_step_def split: if_splits)
qed (auto simp: looper_step_def split: if_splits)

lemma take_ok: "task_ok L t \<Longrightarrow> task_ok L (take_node t) \<and> peer_tx (pt_rr (take_node t)) = peer_tx (pt_rr t)"
  by (auto simp: take_node_def task_ok_def rr_inv_def split: list.splits)

lemma send_peers_tx:
  "send_peers ps rr = (rr', result) \<Longrightarrow> set (peer_tx rr') \<subseteq> set (peer_tx rr) \<union> set ps"
proof (induction ps arbitrary: rr)
  case (Cons p ps)
  show ?case
  proof (cases "peer_rx_alive rr")
    case True
    with Cons.prems have "send_peers ps (rr\<lparr>peer_tx := peer_tx rr @ [p]\<rparr>) = (rr', result)" by simp
    from Cons.IH [OF this] show ?thesis by auto
  qed (use Cons.prems in auto)
qed simp

lemma should_request_tx: "should_request_node ops i addr depth now rr = (rr', asked) \<Longrightarrow> peer_tx rr' = peer_tx rr"
  by (auto simp: should_request_node_def Let_def split: if_splits option.splits)

lemma send_nodes_tx: "send_nodes ops now depth ns rr = (rr', result) \<Longrightarrow> peer_tx rr' = peer_tx rr"
proof (induction ns arbitrary: rr)
  case (Cons n ns)
  obtain rr1 asked where sr: "should_request_node ops (nid n) (naddr n) depth now rr = (rr1, asked)" by fastforce
  with Cons.prems Cons.IH [of rr1] Cons.IH [of "rr1\<lparr>node_tx := node_tx rr1 @ [(Some (nid n), naddr n, depth + 1)]\<rparr>"]
    should_request_tx [OF sr] show ?case by (auto simp: Let_def split: if_splits)
qed simp

lemma request_one_end_tx:
  assumes "request_one_end ops now addr depth resp rr = (rr', result)"
    and "\<forall>r. resp = Inr (ROE_Response r) \<longrightarrow> r \<in> L"
  shows "set (peer_tx rr') \<subseteq> set (peer_tx rr) \<union> peers_in L"
proof (cases "\<exists>r. resp = Inr (ROE_Response r)")
  case True
  then obtain r where r: "resp = Inr (ROE_Response r)" "r \<in> L" using assms(2) by blast
  let ?ps = "case resp_values r of Some ps \<Rightarrow> ps | None \<Rightarrow> []"
  obtain rr1 res1 where sp: "send_peers ?ps rr = (rr1, res1)" by fastforce
  have "set ?ps \<subseteq> peers_in L" using r(2) by (cases "resp_values r") (auto simp: peers_in_def)
  moreover have eq: "peer_tx rr' = peer_tx rr1"
    using assms(1) r sp send_nodes_tx by (fastforce simp: request_one_end_def on_recursive_response_def split: sum.splits)
  ultimately show ?thesis using send_peers_tx [OF sp] unfolding eq by blast
next
  case False
  then show ?thesis
    using assms(1) by (auto simp: request_one_end_def mark_node_error_def split: sum.splits response_or_error.splits)
qed

lemma ask_ok:
  assumes "id20_api ops" and "dht_inv ops y" and "ask req addr y = (y', r)"
  shows "dht_inv ops y' \<and> completed (node_state y') = completed (node_state y)"
  using id20_api.dht_step_ok [OF assms(1,2), of "EvRequest req addr"] assms(3) ask_completed [of req addr y]
  by (simp only: ask_is_event) simp

text \<open>A step of a request keeps the node, the task, and the origin of what it sends.\<close>

definition fut_keeps ::
    "('id::linorder) id20_ops \<Rightarrow> 'id response set \<Rightarrow> 'id dht_system \<Rightarrow> abort + 'id peers_task \<times> 'id dht_system \<Rightarrow> bool" where
  "fut_keeps ops L y0 res \<longleftrightarrow> (\<exists>t y. res = Inr (t, y) \<and> dht_inv ops y \<and> heard_in L t (node_state y) \<and> task_ok L t
     \<and> completed (node_state y) = completed (node_state y0) \<and> next_channel (node_state y0) \<le> next_channel (node_state y)
     \<and> set (peer_tx (pt_rr t)) \<subseteq> peers_in L)"

lemma task_channels_set_fut:
  assumes "k < length (pt_futs t)"
  shows "set (task_channels (set_fut k p rr t)) \<subseteq> set (task_channels t) \<union> set (fut_channels p)"
proof -
  have "f \<in> set (pt_futs t) \<or> snd f = p" if "f \<in> set ((pt_futs t)[k := (fst (pt_futs t ! k), p)])" for f
    using that set_update_subset_insert [of "pt_futs t" k] by fastforce
  then show ?thesis by (fastforce simp: task_channels_def set_fut_def)
qed

lemma set_fut_ok:
  assumes "task_ok L t" and "k < length (pt_futs t)" and "phase_ok L p" and "rr_inv rr"
    and "max_depth rr = 4" and "useful_nodes_limit rr = 256"
  shows "task_ok L (set_fut k p rr t)"
proof -
  have "phase_ok L (snd f) \<and> snd (snd (fst f)) \<le> 4" if "f \<in> set ((pt_futs t)[k := (fst (pt_futs t ! k), p)])" for f
    using that assms(1-3) set_update_subset_insert [of "pt_futs t" k] nth_mem [OF assms(2)]
    by (fastforce simp: task_ok_def)
  with assms(4-6) show ?thesis by (simp add: set_fut_def task_ok_def)
qed

lemma fut_wait_ok:
  assumes "id20_api ops" and inv: "dht_inv ops y" and l: "heard_in L t (node_state y)" and t: "task_ok L t"
    and k: "k < length (pt_futs t)" and tx: "peer_tx (pt_rr t) = []" and own: "ch \<in> set (task_channels t)"
    and p: "\<And>resp. \<forall>r. resp = Inr (ROE_Response r) \<longrightarrow> r \<in> L \<Longrightarrow> phase_ok L (dn resp)" "\<And>resp. fut_channels (dn resp) = []"
  shows "fut_keeps ops L y (Inr (fut_wait key ch w dn k t y))"
proof (cases "waiting y ch = Some key \<and> wait_may_end w ch (node_state y)")
  case True
  let ?s = "fst (request_finish key ch w (node_state y))" and ?r = "snd (request_finish key ch w (node_state y))"
  have "dht_inv ops (finish_wait key ch w y)"
    using id20_api.finish_inv [OF assms(1) inv, of ch key w] True by (simp add: finish_wait_def)
  moreover have "heard_in L (set_fut k (dn ?r) (pt_rr t) t) ?s"
    using task_channels_set_fut [OF k, of "dn ?r" "pt_rr t"] p(2)
    by (intro heard_in_mono [OF l]) (simp_all add: finish_completed)
  moreover have "\<forall>r. ?r = Inr (ROE_Response r) \<longrightarrow> r \<in> L"
    using l own by (cases w) (auto simp: heard_in_def split: option.splits)
  then have "task_ok L (set_fut k (dn ?r) (pt_rr t) t)"
    using t by (intro set_fut_ok [OF t k p(1)]) (simp_all add: task_ok_def)
  moreover have "peer_tx (pt_rr (set_fut k (dn ?r) (pt_rr t) t)) = []" using tx by (simp add: set_fut_def)
  ultimately show ?thesis using True by (simp add: fut_keeps_def fut_wait_def finish_wait_def finish_completed)
next
  case False
  then have "fut_wait key ch w dn k t y = (t, y)" by (auto simp: fut_wait_def)
  then show ?thesis using inv l t tx by (simp add: fut_keeps_def)
qed

lemma begin_get_peers: "request_one_begin (callbacks_get_peers ops d port) env i addr rr s
    = Inr (rr\<lparr>rr_requests := rr_requests rr @ [(rr_request rr, addr)]\<rparr>, s)"
  by (cases i) (simp_all add: request_one_begin_def callbacks_get_peers_def)

lemma middle_get_peers:
  "\<exists>rr' s'. request_one_middle (callbacks_get_peers ops d port) env now i addr resp rr s = Inr (rr', s')
    \<and> (rr_inv rr \<longrightarrow> rr_inv rr') \<and> max_depth rr' = max_depth rr \<and> useful_nodes_limit rr' = useful_nodes_limit rr
    \<and> peer_tx rr' = peer_tx rr
    \<and> (s' = s \<or> (\<exists>rr1 j. s' = get_peers_end ops d port rr1 j addr resp s))"
proof -
  let ?rr = "case resp of Inr r \<Rightarrow> mark_node_responded now addr r rr | Inl _ \<Rightarrow> rr"
  have "rr_inv rr \<longrightarrow> rr_inv ?rr" using mark_node_inv(2) by (auto split: sum.splits)
  then have "rr_inv rr \<longrightarrow> rr_inv (?rr\<lparr>rr_requests := rr_requests ?rr @ [(rr_request ?rr, addr)]\<rparr>)"
    by (simp add: rr_inv_def)
  moreover have "max_depth ?rr = max_depth rr" "useful_nodes_limit ?rr = useful_nodes_limit rr" "peer_tx ?rr = peer_tx rr"
    by (auto simp: mark_node_responded_def split: sum.splits)
  ultimately show ?thesis
    by (cases i) (auto simp: request_one_middle_def callbacks_get_peers_def Let_def)
qed

lemma asked_fut_ok:
  assumes "id20_api ops" and inv: "dht_inv ops y" and l: "heard_in L t (node_state y)" and t: "task_ok L t"
    and k: "k < length (pt_futs t)" and rr: "rr_inv rr" "max_depth rr = 4" "useful_nodes_limit rr = 256" "peer_tx rr = []"
    and p: "\<And>r. phase_ok L (case r of Inl e \<Rightarrow> dn (Inl e) | Inr (key, ch) \<Rightarrow> st key ch)"
      "\<And>e. fut_channels (dn (Inl e)) = []" "\<And>key ch. fut_channels (st key ch) = [ch]"
    and y0: "completed (node_state y) = completed (node_state y0)" "next_channel (node_state y0) \<le> next_channel (node_state y)"
  shows "fut_keeps ops L y0 (let (y1, r) = ask req addr y
    in Inr (set_fut k (case r of Inl e \<Rightarrow> dn (Inl e) | Inr (key, ch) \<Rightarrow> st key ch) rr t, y1))"
proof -
  obtain y1 r where a: "ask req addr y = (y1, r)" by (metis surj_pair)
  let ?p = "case r of Inl e \<Rightarrow> dn (Inl e) | Inr (key, ch) \<Rightarrow> st key ch"
  note ok = ask_ok [OF assms(1) inv a]
  have n: "next_channel (node_state y) \<le> next_channel (node_state y1)" using ask_channel(1) [of y req addr] a by simp
  have new: "ch = next_channel (node_state y) \<and> next_channel (node_state y1) = Suc ch" if "ch \<in> set (fut_channels ?p)" for ch
    using that p(2,3) ask_channel(2) [of req addr y] a by (auto split: sum.splits prod.splits)
  have none: "completed (node_state y) (next_channel (node_state y)) = None"
    using inv by (metis (no_types, lifting) dht_inv_def less_irrefl requests_ok_def)
  have "ch < next_channel (node_state y1) \<and> (\<forall>x. completed (node_state y1) ch = Some (Inr (ROE_Response x)) \<longrightarrow> x \<in> L)"
    if ch: "ch \<in> set (task_channels (set_fut k ?p rr t))" for ch
  proof (cases "ch \<in> set (task_channels t)")
    case True
    with l ok n show ?thesis by (auto simp: heard_in_def intro: less_le_trans)
  next
    case False
    with task_channels_set_fut [OF k, of ?p rr] ch have "ch \<in> set (fut_channels ?p)" by blast
    from new [OF this] none ok show ?thesis by simp
  qed
  then have "heard_in L (set_fut k ?p rr t) (node_state y1)" by (simp add: heard_in_def)
  moreover have "peer_tx (pt_rr (set_fut k ?p rr t)) = []" using rr(4) by (simp add: set_fut_def)
  moreover have "task_ok L (set_fut k ?p rr t)" by (rule set_fut_ok [OF t k p(1) rr(1-3)])
  ultimately show ?thesis using ok n y0 a by (simp add: fut_keeps_def)
qed

lemma fut_ok:
  assumes api: "id20_api ops" and inv: "dht_inv ops y" and l: "heard_in L t (node_state y)"
    and t: "task_ok L t" and tx: "peer_tx (pt_rr t) = []"
  shows "fut_keeps ops L y (fut_step ops (callbacks_get_peers ops d port) env now w k t y)"
proof (cases "k < length (pt_futs t)")
  case False
  then show ?thesis using inv l t tx by (simp add: fut_step_def fut_keeps_def)
next
  case k: True
  obtain i addr depth phase where f: "pt_futs t ! k = ((i, addr, depth), phase)" by (metis surj_pair)
  have rr: "rr_inv (pt_rr t)" "max_depth (pt_rr t) = 4" "useful_nodes_limit (pt_rr t) = 256"
    using t by (simp_all add: task_ok_def)
  have ph: "phase_ok L phase" using t nth_mem [OF k] f by (auto simp: task_ok_def)
  note step = fut_step_def k f
  have own: "set (fut_channels phase) \<subseteq> set (task_channels t)"
  proof -
    have "((i, addr, depth), phase) \<in> set (pt_futs t)" using nth_mem [OF k] f by simp
    then show ?thesis by (force simp: task_channels_def)
  qed
  show ?thesis
  proof (cases phase)
    case Not_Polled
    have "rr_inv ((pt_rr t)\<lparr>rr_requests := rr_requests (pt_rr t) @ [(rr_request (pt_rr t), addr)]\<rparr>)"
      using rr(1) by (simp add: rr_inv_def)
    from asked_fut_ok [OF api inv l t k this, where dn = First_Done and st = First_Sent and ?y0.0 = y] rr(2,3) tx show ?thesis
      by (simp add: step Not_Polled begin_get_peers split: sum.splits)
  next
    case (First_Sent key ch)
    then show ?thesis using fut_wait_ok [OF api inv l t k tx, of ch First_Done key w] own by (simp add: step)
  next
    case (Second_Sent key ch)
    then show ?thesis using fut_wait_ok [OF api inv l t k tx, of ch Second_Done key w] own by (simp add: step)
  next
    case (First_Done resp)
    obtain rr' s' where m: "request_one_middle (callbacks_get_peers ops d port) env now i addr resp (pt_rr t) (node_state y)
        = Inr (rr', s')" "rr_inv rr'" "max_depth rr' = 4" "useful_nodes_limit rr' = 256" "peer_tx rr' = []"
      "s' = node_state y \<or> (\<exists>rr1 j. s' = get_peers_end ops d port rr1 j addr resp (node_state y))"
      using middle_get_peers [of ops d port env now i addr resp "pt_rr t" "node_state y"] rr tx by auto
    have same: "completed s' = completed (node_state y) \<and> next_channel s' = next_channel (node_state y)"
      using m(6) get_peers_end_keeps(2) [OF inv] by blast
    have "dht_inv ops (y\<lparr>node_state := s'\<rparr>)" using m(6) get_peers_end_keeps(1) [OF inv] inv by auto
    moreover have "heard_in L t (node_state (y\<lparr>node_state := s'\<rparr>))" using same by (intro heard_in_mono [OF l]) simp_all
    ultimately show ?thesis
      using asked_fut_ok [OF api _ _ t k m(2-5), where dn = Second_Done and st = Second_Sent and ?y0.0 = y and y = "y\<lparr>node_state := s'\<rparr>"] same
      by (simp add: step First_Done m(1) split: sum.splits)
  next
    case (Second_Done resp)
    obtain rr' res where e: "request_one_end ops now addr depth resp (pt_rr t) = (rr', res)" by (metis surj_pair)
    have "\<forall>r. resp = Inr (ROE_Response r) \<longrightarrow> r \<in> L" using ph Second_Done by simp
    from request_one_end_tx [OF e this] tx have "set (peer_tx rr') \<subseteq> peers_in L" by simp
    moreover have "task_ok L (t\<lparr>pt_rr := rr', pt_futs := take k (pt_futs t) @ drop (Suc k) (pt_futs t)\<rparr>)"
      using t request_one_end_inv [OF rr(1) e] rr
      by (auto simp: task_ok_def dest: in_set_takeD in_set_dropD)
    moreover have "heard_in L (t\<lparr>pt_rr := rr', pt_futs := take k (pt_futs t) @ drop (Suc k) (pt_futs t)\<rparr>) (node_state y)"
      by (intro heard_in_mono [OF l]) (auto simp: task_channels_def dest: in_set_takeD in_set_dropD)
    ultimately show ?thesis using inv by (simp add: step Second_Done e fut_keeps_def)
  qed
qed

lemma peers_step_ok:
  assumes api: "id20_api ops" and inv: "peers_inv ops L z"
  shows "\<exists>z'. peers_step ops port e z = Inr z' \<and> peers_inv ops (L \<union> solicited e z) z'"
proof (cases e)
  case (PeNode ev)
  let ?L = "L \<union> solicited e z"
  show ?thesis
  proof (cases "ends_wait ev \<inter> owned_channels z = {}")
    case True
    have i: "dht_inv ops (sy_dht z)" using inv by (simp add: peers_inv_def)
    obtain y where y: "dht_step ops ev (sy_dht z) = Inr y" "dht_inv ops y"
      using id20_api.dht_step_ok [OF api i(1)] by blast
    have "heard_in ?L (task_of v z) (node_state y)" for v
    proof -
      have "heard_in L (task_of v z) (node_state (sy_dht z))" using inv by (simp add: peers_inv_def)
      from event_heard [OF api i y(1) this] show ?thesis
        by (rule heard_in_mono) (auto simp: solicited_def PeNode task_of_def)
    qed
    with y inv True task_ok_mono [of L _ ?L] peers_in_mono [of L ?L] show ?thesis
      by (auto simp: PeNode peers_inv_def)
  next
    case False
    have "heard_in ?L (task_of v z) (node_state (sy_dht z))" "task_ok ?L (task_of v z)" for v
      using inv heard_in_mono [of L "task_of v z" "node_state (sy_dht z)" ?L] task_ok_mono [of L "task_of v z" ?L]
      by (simp_all add: peers_inv_def)
    with False inv peers_in_mono [of L ?L] show ?thesis by (auto simp: PeNode peers_inv_def)
  qed
next
  case (PeLooper is_v4 now)
  have t: "stores_ok ops (node_state (sy_dht z))" "task_ok L (task_of is_v4 z)" "peer_tx (pt_rr (task_of is_v4 z)) = []"
    "heard_in L (task_of is_v4 z) (node_state (sy_dht z))"
    using inv by (simp_all add: peers_inv_def dht_inv_def)
  from looper_ok [OF api t(1-3), of is_v4 now] obtain t' where t': "looper_step ops is_v4 now (node_state (sy_dht z)) (task_of is_v4 z) = Inr t'"
    "task_ok L t'" "peer_tx (pt_rr t') = []" by blast
  have "set (task_channels t') \<subseteq> set (task_channels (task_of is_v4 z))"
    using looper_futs [OF t'(1)] by (auto simp: task_channels_def)
  then have "heard_in L t' (node_state (sy_dht z))" by (intro heard_in_mono [OF t(4)]) simp_all
  with t' peers_inv_task [OF inv] show ?thesis by (simp add: PeLooper solicited_def)
next
  case (PeTake is_v4)
  have l: "heard_in L (task_of is_v4 z) (node_state (sy_dht z))" using inv by (simp add: peers_inv_def)
  have "heard_in L (take_node (task_of is_v4 z)) (node_state (sy_dht z))"
    by (intro heard_in_mono [OF l]) (auto simp: take_node_def task_channels_def split: list.splits)
  then show ?thesis
    using take_ok [of L "task_of is_v4 z"] inv peers_inv_task [OF inv] by (simp add: PeTake peers_inv_def solicited_def)
next
  case (PeFut is_v4 k env now w)
  have "fut_keeps ops L (sy_dht z) (fut_step ops (callbacks_get_peers ops (MIN_DISTANCE_TO_ANNOUNCE ops) port) env now w k
      (task_of is_v4 z) (sy_dht z))"
    using inv by (intro fut_ok [OF api]) (simp_all add: peers_inv_def)
  then obtain t y where f: "fut_step ops (callbacks_get_peers ops (MIN_DISTANCE_TO_ANNOUNCE ops) port) env now w k
      (task_of is_v4 z) (sy_dht z) = Inr (t, y)" and y: "dht_inv ops y" "heard_in L t (node_state y)" "task_ok L t"
      "completed (node_state y) = completed (node_state (sy_dht z))" "next_channel (node_state (sy_dht z)) \<le> next_channel (node_state y)"
      "set (peer_tx (pt_rr t)) \<subseteq> peers_in L"
    by (auto simp: fut_keeps_def)
  have "heard_in L (task_of v z) (node_state (sy_dht z))" for v using inv by (simp add: peers_inv_def)
  then have "heard_in L (task_of v z) (node_state y)" for v
    using y(4,5) by (intro heard_in_mono [OF \<open>\<And>v. heard_in L (task_of v z) (node_state (sy_dht z))\<close> [of v]]) simp_all
  moreover have "heard_in L (t\<lparr>pt_rr := (pt_rr t)\<lparr>peer_tx := []\<rparr>\<rparr>) (node_state y)"
    by (intro heard_in_mono [OF y(2)]) (simp_all add: task_channels_def)
  ultimately show ?thesis using inv f y
    by (auto simp: PeFut peers_inv_def drain_def task_ok_def solicited_def)
next
  case PeNext
  with inv show ?thesis by (auto simp: peers_inv_def poll_next_def solicited_def split: list.splits)
next
  case PeDrop
  with inv show ?thesis
    by (auto simp: peers_inv_def drop_stream_def abort_task_def task_of_def task_ok_def solicited_def heard_in_def
        task_channels_def dht_inv_def requests_ok_def split: if_splits)
qed

text \<open>The responses to requests of the search that come in a run.\<close>

fun search_answers ::
    "('id::linorder) id20_ops \<Rightarrow> u16 option \<Rightarrow> 'id peers_event list \<Rightarrow> 'id peers_system \<Rightarrow> 'id response set" where
  "search_answers ops port [] z = {}"
| "search_answers ops port (e # es) z = solicited e z
     \<union> (case peers_step ops port e z of Inr z' \<Rightarrow> search_answers ops port es z' | Inl _ \<Rightarrow> {})"

lemma search_answersD:
  assumes "r \<in> search_answers ops port es z"
  shows "\<exists>es1 env msg src es2 z1 tid ch. es = es1 @ PeNode (EvMessage env msg src) # es2
    \<and> run_ops (peers_step ops port) es1 z = Inr z1 \<and> msg_kind msg = MK_Response r \<and> get_our_transaction_id msg = Some tid
    \<and> inflight (node_state (sy_dht z1)) (tid, src) = Some ch \<and> ch \<in> set (task_channels (sy_v4 z1)) \<union> set (task_channels (sy_v6 z1))"
  using assms
proof (induction es arbitrary: z)
  case (Cons e es)
  show ?case
  proof (cases "r \<in> solicited e z")
    case True
    then obtain env msg src tid ch where "e = PeNode (EvMessage env msg src)" "msg_kind msg = MK_Response r"
      "get_our_transaction_id msg = Some tid" "inflight (node_state (sy_dht z)) (tid, src) = Some ch"
      "ch \<in> set (task_channels (sy_v4 z)) \<union> set (task_channels (sy_v6 z))"
      by (auto simp: solicited_def answer_to_def split: peers_event.splits)
    then show ?thesis by (intro exI [of _ "[]"] exI [of _ env] exI [of _ msg] exI [of _ src] exI [of _ es] exI [of _ z]) auto
  next
    case False
    with Cons.prems obtain z0 where z0: "peers_step ops port e z = Inr z0" "r \<in> search_answers ops port es z0"
      by (auto split: sum.splits)
    from Cons.IH [OF z0(2)] obtain es1 env msg src es2 z1 tid ch where es: "es = es1 @ PeNode (EvMessage env msg src) # es2"
      "run_ops (peers_step ops port) es1 z0 = Inr z1" and rest: "msg_kind msg = MK_Response r" "get_our_transaction_id msg = Some tid"
      "inflight (node_state (sy_dht z1)) (tid, src) = Some ch" "ch \<in> set (task_channels (sy_v4 z1)) \<union> set (task_channels (sy_v6 z1))"
      by (elim exE conjE)
    from es z0(1) have "e # es = (e # es1) @ PeNode (EvMessage env msg src) # es2"
      "run_ops (peers_step ops port) (e # es1) z = Inr z1" by simp_all
    with rest show ?thesis
      by (intro exI [of _ "e # es1"] exI [of _ env] exI [of _ msg] exI [of _ src] exI [of _ es2] exI [of _ z1] exI [of _ tid]
          exI [of _ ch] conjI)
  qed
qed simp

lemma peers_run_ok:
  assumes "id20_api ops"
  shows "peers_inv ops L z \<Longrightarrow> \<exists>z'. run_ops (peers_step ops port) es z = Inr z'
    \<and> peers_inv ops (L \<union> search_answers ops port es z) z'"
proof (induction es arbitrary: L z)
  case (Cons e es)
  obtain z1 where z1: "peers_step ops port e z = Inr z1" "peers_inv ops (L \<union> solicited e z) z1"
    using peers_step_ok [OF assms Cons.prems] by blast
  from Cons.IH [OF z1(2)] z1(1) show ?case by (simp add: Un_assoc)
qed simp

lemma peers_start_inv: "dht_inv ops y \<Longrightarrow> peers_inv ops {} (get_peers_start hash y)"
  by (simp add: peers_inv_def get_peers_start_def heard_in_def task_channels_def task_of_def peers_task_new_def task_ok_def
      get_peers_recursion_def rr_inv_def)

lemma peers_start_ok:
  assumes "id20_api ops"
  shows "peers_inv ops {} (get_peers_start hash (dht_start ops now i addr))"
  by (rule peers_start_inv [OF id20_api.dht_start_ok [OF assms]])

text \<open>
  C30. Peers come from answers to the search. In a node that searches for the peers of a hash, with any
  other events in between, nothing panics, both lookups keep their lists of useful nodes distinct and
  within 256 and every request they queue within the depth of 4, and every peer that the stream has
  delivered or is about to was in the values of a response that the node received while a request of this
  very search, to the address the response came from and under its transaction identifier, was in flight.
\<close>

theorem peers_come_from_responses:
  assumes "id20_api ops" and "dht_inv ops y"
  shows "\<exists>z. run_ops (peers_step ops port) es (get_peers_start hash y) = Inr z
    \<and> dht_inv ops (sy_dht z)
    \<and> rr_inv (pt_rr (sy_v4 z)) \<and> length (useful_nodes (pt_rr (sy_v4 z))) \<le> 256
    \<and> rr_inv (pt_rr (sy_v6 z)) \<and> length (useful_nodes (pt_rr (sy_v6 z))) \<le> 256
    \<and> (\<forall>p \<in> set (sy_delivered z @ sy_rx z). \<exists>es1 env msg src es2 z1 r ps tid ch.
        es = es1 @ PeNode (EvMessage env msg src) # es2
        \<and> run_ops (peers_step ops port) es1 (get_peers_start hash y) = Inr z1
        \<and> msg_kind msg = MK_Response r \<and> resp_values r = Some ps \<and> p \<in> set ps
        \<and> get_our_transaction_id msg = Some tid \<and> inflight (node_state (sy_dht z1)) (tid, src) = Some ch
        \<and> ch \<in> set (task_channels (sy_v4 z1)) \<union> set (task_channels (sy_v6 z1)))"
proof -
  let ?z0 = "get_peers_start hash y" and ?L = "search_answers ops port es (get_peers_start hash y)"
  obtain z where z: "run_ops (peers_step ops port) es ?z0 = Inr z" "peers_inv ops ?L z"
    using peers_run_ok [OF assms(1) peers_start_inv [OF assms(2)]] by fastforce
  have "task_ok ?L (sy_v4 z)" "task_ok ?L (sy_v6 z)"
    using z(2) by (auto simp: peers_inv_def task_of_def dest: spec [of _ True] spec [of _ False])
  then have tasks: "rr_inv (pt_rr (sy_v4 z))" "length (useful_nodes (pt_rr (sy_v4 z))) \<le> 256"
    "rr_inv (pt_rr (sy_v6 z))" "length (useful_nodes (pt_rr (sy_v6 z))) \<le> 256"
    by (auto simp: task_ok_def rr_inv_def)
  have "\<exists>es1 env msg src es2 z1 r ps tid ch. es = es1 @ PeNode (EvMessage env msg src) # es2
      \<and> run_ops (peers_step ops port) es1 ?z0 = Inr z1 \<and> msg_kind msg = MK_Response r \<and> resp_values r = Some ps \<and> p \<in> set ps
      \<and> get_our_transaction_id msg = Some tid \<and> inflight (node_state (sy_dht z1)) (tid, src) = Some ch
      \<and> ch \<in> set (task_channels (sy_v4 z1)) \<union> set (task_channels (sy_v6 z1))"
    if "p \<in> set (sy_delivered z @ sy_rx z)" for p
  proof -
    have "p \<in> peers_in ?L" using that z(2) by (auto simp: peers_inv_def)
    then obtain r ps where r: "r \<in> ?L" "resp_values r = Some ps" "p \<in> set ps" by (auto simp: peers_in_def)
    from search_answersD [OF r(1)] r(2,3) show ?thesis by blast
  qed
  with z tasks show ?thesis by (simp add: peers_inv_def)
qed

lemma send_peers_alive:
  "peer_rx_alive rr \<Longrightarrow> send_peers ps rr = (rr\<lparr>peer_tx := peer_tx rr @ ps\<rparr>, Inr ())"
  by (induction ps arbitrary: rr) simp_all

text \<open>
  C31. The peers of an answer reach the stream. When a request of a search is over with a response, all
  peers in it go into the channel of the stream, in their order and behind those that wait there, and
  polling the stream takes them from there one by one.
\<close>

theorem answered_peers_are_streamed:
  assumes "pt_futs (task_of v z) = pre @ ((i, addr, depth), Second_Done (Inr (ROE_Response r))) # post"
    and "peer_rx_alive (pt_rr (task_of v z))" and "peer_tx (pt_rr (task_of v z)) = []"
    and "peers_step ops port (PeFut v (length pre) env now w) z = Inr z'"
  shows "sy_rx z' = sy_rx z @ (case resp_values r of Some ps \<Rightarrow> ps | None \<Rightarrow> [])
    \<and> pt_futs (task_of v z') = pre @ post
    \<and> (\<forall>n \<le> length (sy_rx z'). sy_delivered (((\<lambda>z. fst (poll_next z)) ^^ n) z') = sy_delivered z @ take n (sy_rx z'))"
proof -
  let ?rr = "pt_rr (task_of v z)" and ?ps = "case resp_values r of Some ps \<Rightarrow> ps | None \<Rightarrow> []"
  obtain rr res where e: "request_one_end ops now addr depth (Inr (ROE_Response r)) ?rr = (rr, res)" by (metis surj_pair)
  then have "peer_tx rr = ?ps"
    using send_nodes_tx [of ops now depth _ "?rr\<lparr>peer_tx := ?ps\<rparr>" rr res] assms(2,3)
    by (simp add: request_one_end_def on_recursive_response_def send_peers_alive)
  moreover have "z' = drain v ((task_of v z)\<lparr>pt_rr := rr, pt_futs := pre @ post\<rparr>) z"
    using assms(1,4) e by (simp add: fut_step_def nth_append)
  ultimately have z': "sy_rx z' = sy_rx z @ ?ps" "pt_futs (task_of v z') = pre @ post" "sy_delivered z' = sy_delivered z"
    by (simp_all add: drain_def)
  have polled: "sy_delivered (((\<lambda>z. fst (poll_next z)) ^^ n) x) = sy_delivered x @ take n (sy_rx x)
      \<and> sy_rx (((\<lambda>z. fst (poll_next z)) ^^ n) x) = drop n (sy_rx x)" if "n \<le> length (sy_rx x)"
    for n and x :: "'a peers_system"
    using that
  proof (induction n)
    case (Suc n)
    then show ?case
      by (simp add: poll_next_def Cons_nth_drop_Suc [symmetric] take_Suc_conv_app_nth)
  qed simp
  show ?thesis using z' polled by simp
qed

theorem answered_peers_are_streamed_witness:
  "\<exists>z'. peers_step id20_word None (PeFut True 0 \<lparr>ce_clk = \<lambda>k. 0, ce_add_now = 0, ce_mark_now = 0\<rparr> 0 TimedOut)
      ((get_peers_start 3 (dht_start id20_word 0 5 sample_addr))\<lparr>sy_v4 := (peers_task_new 3)\<lparr>pt_futs :=
        [((None, sample_addr, 0), Second_Done (Inr (ROE_Response
          ((default_response id20_word)\<lparr>resp_values := Some [sample_addr]\<rparr>))))]\<rparr>\<rparr>) = Inr z'
    \<and> sy_rx z' = [sample_addr]"
proof -
  let ?r = "(default_response id20_word)\<lparr>resp_values := Some [sample_addr]\<rparr>"
  let ?z = "(get_peers_start 3 (dht_start id20_word 0 5 sample_addr))\<lparr>sy_v4 := (peers_task_new 3)\<lparr>pt_futs :=
        [((None, sample_addr, 0), Second_Done (Inr (ROE_Response ?r)))]\<rparr>\<rparr>"
  let ?e = "PeFut True 0 \<lparr>ce_clk = \<lambda>k. 0, ce_add_now = 0, ce_mark_now = 0\<rparr> 0 TimedOut"
  have "\<exists>z'. peers_step id20_word None ?e ?z = Inr z'"
    by (simp add: task_of_def fut_step_def split: prod.split)
  then obtain z' where z': "peers_step id20_word None ?e ?z = Inr z'" by blast
  have "pt_futs (task_of True ?z) = [] @ ((None, sample_addr, 0), Second_Done (Inr (ROE_Response ?r))) # []"
    "peer_rx_alive (pt_rr (task_of True ?z))" "peer_tx (pt_rr (task_of True ?z)) = []"
    by (simp_all add: task_of_def peers_task_new_def get_peers_recursion_def)
  from answered_peers_are_streamed [OF this, of id20_word None] z' show ?thesis
    by (fastforce simp: get_peers_start_def)
qed

section \<open>Requests that a dropped stream leaves behind\<close>

text \<open>Nothing is heard of an address: no message, no send error, and no new request goes to it.\<close>

fun silent :: "socket_addr \<Rightarrow> 'id peers_event \<Rightarrow> bool" where
  "silent a (PeNode (EvRequest req addr)) \<longleftrightarrow> addr \<noteq> a"
| "silent a (PeNode (EvMessage env msg addr)) \<longleftrightarrow> addr \<noteq> a"
| "silent a (PeNode (EvSendError tid addr err)) \<longleftrightarrow> addr \<noteq> a"
| "silent a _ \<longleftrightarrow> True"

definition left_behind :: "(u16 \<times> socket_addr) \<Rightarrow> nat \<Rightarrow> 'id peers_system \<Rightarrow> bool" where
  "left_behind key ch z \<longleftrightarrow> inflight (node_state (sy_dht z)) key = Some ch \<and> ch \<in> sy_dropped z
     \<and> (\<forall>ch'. waiting (sy_dht z) ch' = Some key \<longrightarrow> ch' = ch)
     \<and> (\<forall>is_v4. pt_futs (task_of is_v4 z) = [] \<and> \<not> pt_alive (task_of is_v4 z) \<and> peer_tx (pt_rr (task_of is_v4 z)) = [])"

lemma message_other_key:
  assumes "id20_api ops" and ok: "stores_ok ops s" and r: "on_received_message ops env msg addr s = Inr (s', res)"
    and "snd key \<noteq> addr"
  shows "inflight s' key = inflight s key"
proof (cases "\<exists>x. msg_kind msg = MK_Response x \<or> (\<exists>e. msg_kind msg = MK_Error e)")
  case True
  then show ?thesis using r assms(4)
    by (auto simp: on_received_message_def query_handlers on_answer_def split: option.splits if_splits)
next
  case False
  then have "answers ops s msg addr (Inr (s', res))"
    using id20_api.query_answered [OF assms(1) ok, of msg addr env] r by simp
  then obtain s0 resp where "(s', res) = respond msg addr resp s0" "same_requests s s0" by (auto simp: answers_def)
  then show ?thesis by (auto simp: respond_eq same_requests_def split: if_splits)
qed

lemma event_other_key:
  assumes api: "id20_api ops" and inv: "dht_inv ops y" and st: "dht_step ops e y = Inr y'"
    and q: "silent (snd key) (PeNode e)" and f: "\<And>ch' w. e = EvFinish ch' w \<Longrightarrow> waiting y ch' \<noteq> Some key"
  shows "inflight (node_state y') key = inflight (node_state y) key
    \<and> (waiting y' ch = Some key \<longrightarrow> waiting y ch = Some key)"
proof (cases e)
  case (EvMessage env msg addr)
  with st obtain s' res where r: "on_received_message ops env msg addr (node_state y) = Inr (s', res)"
    "y' = y\<lparr>node_state := s'\<rparr>" by (auto simp: and_then_eq_Inr)
  have "stores_ok ops (node_state y)" using inv by (simp add: dht_inv_def)
  from message_other_key [OF api this r(1), of key] q r(2) show ?thesis by (simp add: EvMessage)
next
  case (EvRequest req addr)
  then show ?thesis using st q
    by (auto simp: request_start_def create_request_def worker_send_def Let_def split: if_splits)
next
  case (EvFinish ch' w)
  show ?thesis
  proof (cases "waiting y ch'")
    case (Some key')
    with f [OF EvFinish] have "key' \<noteq> key" by auto
    then show ?thesis using st EvFinish Some by (cases w) (auto split: if_splits)
  qed (use st EvFinish in auto)
next
  case (EvSendError tid addr err)
  then show ?thesis using st q by (auto simp: on_send_error_def split: option.splits)
qed (use st in \<open>auto simp: and_then_eq_Inr create_request_def worker_send_def Let_def split: if_splits\<close>)

lemma drained_task: "peer_tx (pt_rr t) = [] \<Longrightarrow> t\<lparr>pt_rr := (pt_rr t)\<lparr>peer_tx := []\<rparr>\<rparr> = t"
  by (cases t) (auto intro: recursive_request.equality)

lemma drain_idle:
  assumes "peer_tx (pt_rr (task_of b z)) = []"
  shows "drain b (task_of b z) z = z"
  unfolding drain_def drained_task [OF assms] set_task_same assms by simp

lemma left_behind_step:
  assumes api: "id20_api ops" and inv: "dht_inv ops (sy_dht z)" and b: "left_behind key ch z"
    and st: "peers_step ops port e z = Inr z'" and q: "silent (snd key) e"
  shows "left_behind key ch z' \<and> dht_inv ops (sy_dht z')"
proof -
  have idle: "pt_futs (task_of v z) = [] \<and> \<not> pt_alive (task_of v z) \<and> peer_tx (pt_rr (task_of v z)) = []" for v
    using b by (simp add: left_behind_def)
  show ?thesis
proof (cases e)
  case (PeNode ev)
  show ?thesis
  proof (cases "ends_wait ev \<inter> owned_channels z = {}")
    case True
    then have "and_then (dht_step ops ev (sy_dht z)) (\<lambda>y. Inr (z\<lparr>sy_dht := y\<rparr>)) = Inr z'"
      using st by (simp add: PeNode)
    then obtain y where y: "dht_step ops ev (sy_dht z) = Inr y" "z' = z\<lparr>sy_dht := y\<rparr>"
      by (auto simp: and_then_eq_Inr)
    have "waiting (sy_dht z) c \<noteq> Some key" if "ev = EvFinish c w" for c w
      using b True that by (auto simp: left_behind_def owned_channels_def)
    from event_other_key [OF api inv y(1) _ this] q PeNode
    have "inflight (node_state y) key = inflight (node_state (sy_dht z)) key"
      "\<And>c. waiting y c = Some key \<Longrightarrow> waiting (sy_dht z) c = Some key" by auto
    moreover have "dht_inv ops y" using id20_api.dht_step_ok [OF api inv, of ev] y(1) by auto
    ultimately show ?thesis using b y(2) by (auto simp: left_behind_def)
  qed (use st b inv in \<open>auto simp: PeNode\<close>)
next
  case (PeLooper is_v4 now)
  then have "z' = z" using st idle [of is_v4] by (simp add: looper_step_def)
  with b inv show ?thesis by simp
next
  case (PeTake is_v4)
  then have "z' = z" using st idle [of is_v4] by (simp add: take_node_def split: list.splits)
  with b inv show ?thesis by simp
next
  case (PeFut is_v4 k env now w)
  have "z' = drain is_v4 (task_of is_v4 z) z" using st PeFut idle [of is_v4] by (simp add: fut_step_def)
  then have "z' = z" using idle [of is_v4] by (simp add: drain_idle)
  with b inv show ?thesis by simp
next
  case PeNext
  then show ?thesis using st b inv by (auto simp: poll_next_def left_behind_def split: list.splits)
next
  case PeDrop
  have "abort_task (task_of v z) = task_of v z" for v using idle [of v] by (simp add: abort_task_def)
  from this [of True] this [of False] have "task_of v (drop_stream z) = task_of v z" for v
    by (simp add: task_of_def drop_stream_def)
  moreover have "z' = drop_stream z" using st PeDrop by simp
  moreover have "dht_inv ops (sy_dht (drop_stream z))"
    using inv by (simp add: drop_stream_def dht_inv_def requests_ok_def)
  ultimately show ?thesis using b by (simp add: left_behind_def) (simp add: drop_stream_def owned_channels_def)
qed
qed

lemma left_behind_run:
  assumes "id20_api ops"
  shows "dht_inv ops (sy_dht z) \<Longrightarrow> left_behind key ch z \<Longrightarrow> run_ops (peers_step ops port) es z = Inr z' \<Longrightarrow>
    \<forall>e \<in> set es. silent (snd key) e \<Longrightarrow> left_behind key ch z'"
proof (induction es arbitrary: z)
  case (Cons e es)
  then obtain z1 where z1: "peers_step ops port e z = Inr z1" "run_ops (peers_step ops port) es z1 = Inr z'"
    by (auto simp: and_then_eq_Inr)
  have "left_behind key ch z1" "dht_inv ops (sy_dht z1)"
    using left_behind_step [OF assms Cons.prems(1,2) z1(1)] Cons.prems(4) by simp_all
  from Cons.IH [OF this(2,1) z1(2)] Cons.prems(4) show ?case by simp
qed simp

text \<open>
  C38. Dropping the stream leaves its requests in the table of outstanding requests. The tasks are
  aborted where they wait, so nobody ends the wait of such a request and nobody removes its entry:
  as long as the node it was sent to stays silent, the entry is there after any further events, and
  is counted in the statistics, although no task waits for it.
\<close>

theorem dropped_stream_leaves_requests:
  assumes "id20_api ops" and "peers_inv ops L z"
    and "inflight (node_state (sy_dht z)) key = Some ch" and "ch \<in> set (task_channels (sy_v4 z))"
    and "\<forall>ch'. waiting (sy_dht z) ch' = Some key \<longrightarrow> ch' = ch"
    and "run_ops (peers_step ops port) es (drop_stream z) = Inr z'" and "\<forall>e \<in> set es. silent (snd key) e"
  shows "inflight (node_state (sy_dht z')) key = Some ch
    \<and> task_channels (sy_v4 z') = [] \<and> task_channels (sy_v6 z') = []
    \<and> ch \<in> sy_dropped z'"
proof -
  have "left_behind key ch (drop_stream z)" "dht_inv ops (sy_dht (drop_stream z))"
    using assms(2-5) by (auto simp: left_behind_def drop_stream_def abort_task_def owned_channels_def task_of_def
        peers_inv_def dht_inv_def requests_ok_def split: if_splits)
  then have "left_behind key ch z'" using left_behind_run [OF assms(1)] assms(6,7) by blast
  then show ?thesis
    by (auto simp: left_behind_def task_of_def task_channels_def dest: spec [of _ True] spec [of _ False])
qed

text \<open>A node whose search has sent one query.\<close>

definition searching_node :: "160 word peers_system" where
  "searching_node = (let y = fst (ask (GetPeers 3) sample_addr (dht_start id20_word 0 5 sample_addr))
     in (get_peers_start 3 y)\<lparr>sy_v4 := (peers_task_new 3)\<lparr>pt_futs := [((None, sample_addr, 0), First_Sent (0, sample_addr) 0)]\<rparr>\<rparr>)"

lemma searching_node_ok: "peers_inv id20_word {} searching_node"
proof -
  let ?y = "dht_start id20_word 0 5 sample_addr"
  obtain y r where a: "ask (GetPeers 3) sample_addr ?y = (y, r)" by (metis surj_pair)
  from ask_ok [OF id20_word_api w20.dht_start_ok a] have "dht_inv id20_word y" "completed (node_state y) = Map.empty"
    by (simp_all add: dht_start_def dht_new_internal_def)
  moreover have "next_channel (node_state y) = 1"
    using a by (auto simp: ask_def request_start_eq Let_def dht_start_def dht_new_internal_def)
  ultimately show ?thesis
    by (simp add: searching_node_def a Let_def peers_inv_def get_peers_start_def heard_in_def task_of_def
        peers_task_new_def task_ok_def get_peers_recursion_def rr_inv_def task_channels_def)
qed

theorem dropped_stream_leaves_requests_witness:
  "\<exists>z'. run_ops (peers_step id20_word None) [PeNode (EvFinish 0 TimedOut), PeNode EvWorkerTakes] (drop_stream searching_node) = Inr z'
    \<and> inflight (node_state (sy_dht z')) (0, sample_addr) = Some 0"
proof -
  let ?es = "[PeNode (EvFinish 0 TimedOut), PeNode EvWorkerTakes] :: 160 word peers_event list"
  have inv: "peers_inv id20_word {} (drop_stream searching_node)"
    using peers_step_ok [OF id20_word_api searching_node_ok, of None PeDrop] by (simp add: solicited_def)
  from peers_run_ok [OF id20_word_api inv, of None ?es] obtain z' where
    z': "run_ops (peers_step id20_word None) ?es (drop_stream searching_node) = Inr z'" by blast
  have "inflight (node_state (sy_dht searching_node)) (0, sample_addr) = Some 0"
    "0 \<in> set (task_channels (sy_v4 searching_node))"
    "\<forall>ch'. waiting (sy_dht searching_node) ch' = Some (0, sample_addr) \<longrightarrow> ch' = 0"
    "\<forall>e \<in> set ?es. silent (snd (0, sample_addr)) e"
    by (simp_all add: searching_node_def ask_def request_start_def create_request_def worker_send_def Let_def
        dht_start_def dht_new_internal_def get_peers_start_def task_channels_def)
  from dropped_stream_leaves_requests [OF id20_word_api searching_node_ok this(1-3) z' this(4)] z' show ?thesis by blast
qed

text \<open>
  A search that finds a peer: the looper queues the one node of the table, its request is sent, answered,
  sent once more, answered with a peer, and the stream is polled.
\<close>

definition found_peer :: socket_addr where
  "found_peer = V4 \<lparr>ip4 = 1, port4 = 2\<rparr>"

definition peer_answer :: "8 word \<Rightarrow> 160 word message" where
  "peer_answer t = \<lparr>msg_kind = MK_Response ((default_response id20_word)\<lparr>resp_values := Some [found_peer]\<rparr>),
     transaction_id = [0, t], version = None, msg_ip = None\<rparr>"

definition fut_event :: "160 word peers_event" where
  "fut_event = PeFut True 0 \<lparr>ce_clk = \<lambda>k. 0, ce_add_now = 0, ce_mark_now = 0\<rparr> 0 Received"

definition search_run :: "160 word peers_event list" where
  "search_run = [PeLooper True 0, PeTake True, fut_event, PeNode (EvMessage sample_env (peer_answer 0) sample_addr),
     fut_event, fut_event, PeNode (EvMessage sample_env (peer_answer 1) sample_addr), fut_event, fut_event, PeNext]"

definition search_node :: "160 word dht_system" where
  "search_node = (dht_start id20_word 0 5 sample_addr)\<lparr>node_state := one_node_state\<rparr>"

lemma search_node_ok: "dht_inv id20_word search_node"
proof -
  have "rt_inv id20_word one_node_table" using rt_reach_inv [OF id20_word_api reach_one] by simp
  then show ?thesis using w20.dht_start_ok [of 0 5 sample_addr]
    by (simp add: search_node_def one_node_state_def dht_inv_def stores_ok_def requests_ok_def)
qed

lemma one_node_sorted: "sorted_by_distance_from id20_word one_node_table 3 0 = Some [fresh_node 5 sample_addr]"
  by (simp add: sorted_by_distance_from_def rt_iter_def rt_eval sort_key_def id20_word_def bucket_iter_def
      iter_leaves_def iter_collect_leaf iter_collect_Nil leaf_item_def)

lemma sample_is_v4: "is_ipv4 sample_addr"
  by (simp add: sample_addr_def)

lemma peer_answer_tid: "get_our_transaction_id (peer_answer t) = Some (ucast t)"
  by (simp add: peer_answer_def get_our_transaction_id_def)

lemma peer_answer_handled: "on_received_message id20_word sample_env (peer_answer t) addr s = Inr (on_answer (peer_answer t) addr
    (ROE_Response ((default_response id20_word)\<lparr>resp_values := Some [found_peer]\<rparr>)) s)"
  by (simp add: peer_answer_def on_received_message_def query_handlers)

lemma search_run_delivers: "\<exists>z. run_ops (peers_step id20_word (Some 6881)) search_run (get_peers_start 3 search_node) = Inr z
    \<and> sy_delivered z = [found_peer]"
  by (simp add: search_run_def fut_event_def search_node_def get_peers_start_def looper_step_def task_of_def set_task_def
      peers_task_new_def get_peers_root_def one_node_state_def dht_start_def dht_new_internal_def get_peers_recursion_def
      one_node_sorted looper_sleep_def take_node_def fut_step_def request_one_begin_def callbacks_get_peers_def ask_def
      request_start_def create_request_def worker_send_def Let_def set_fut_def drain_def fut_wait_def finish_wait_def
      sample_is_v4 peer_answer_tid peer_answer_handled on_answer_def owned_channels_def task_channels_def
      request_one_middle_def mark_node_responded_def get_peers_end_def request_one_end_def on_recursive_response_def
      default_response_def response_nodes_def poll_next_def)

theorem peers_come_from_responses_witness:
  "\<exists>z. run_ops (peers_step id20_word (Some 6881)) search_run (get_peers_start 3 search_node) = Inr z
    \<and> sy_delivered z = [found_peer]
    \<and> (\<exists>es1 env msg src es2 z1 r ps tid ch. search_run = es1 @ PeNode (EvMessage env msg src) # es2
        \<and> run_ops (peers_step id20_word (Some 6881)) es1 (get_peers_start 3 search_node) = Inr z1
        \<and> msg_kind msg = MK_Response r \<and> resp_values r = Some ps \<and> found_peer \<in> set ps
        \<and> get_our_transaction_id msg = Some tid \<and> inflight (node_state (sy_dht z1)) (tid, src) = Some ch
        \<and> ch \<in> set (task_channels (sy_v4 z1)) \<union> set (task_channels (sy_v6 z1)))"
proof -
  obtain z where z: "run_ops (peers_step id20_word (Some 6881)) search_run (get_peers_start 3 search_node) = Inr z"
    "sy_delivered z = [found_peer]" using search_run_delivers by blast
  have "found_peer \<in> set (sy_delivered z @ sy_rx z)" using z(2) by simp
  with peers_come_from_responses [OF id20_word_api search_node_ok, of "Some 6881" search_run 3] z show ?thesis
    by (elim exE conjE) (metis sum.inject(2))
qed

section \<open>Announcements\<close>

text \<open>
  A search announces exactly where it should: when a node answers the first query of a step, an
  announcement is put into the queue, to that node, if the search was started with a port, the
  answer has a token and the node's identifier is within the distance \<open>d\<close> of the hash, and
  not otherwise. It carries the hash, the port, the token of the answer and no implied port, and nothing
  waits for its answer.
\<close>

theorem announces_with_token:
  assumes "worker_alive s"
  shows "get_peers_end ops d port rr i addr resp s =
    (if \<exists>p r token. port = Some p \<and> resp = Inr (ROE_Response r) \<and> resp_token r = Some token
        \<and> id_distance ops (info_hash rr) i \<le> d
     then s\<lparr>next_transaction_id := next_transaction_id s + 1, worker_queue := worker_queue s @
       [\<lparr>our_tid = Some (next_transaction_id s), wsr_message = \<lparr>msg_kind = MK_AnnouncePeer
           \<lparr>ap_id = dht_id s, implied_port = 0, ap_info_hash = info_hash rr, ap_port = the port,
             ap_token = (case resp of Inr (ROE_Response r) \<Rightarrow> the (resp_token r))\<rparr>,
          transaction_id = tid_bytes (next_transaction_id s), version = None, msg_ip = None\<rparr>, wsr_addr = addr\<rparr>]\<rparr>
     else s)"
  using assms by (auto simp: get_peers_end_def create_request_def worker_send_def Let_def
      split: option.splits sum.splits response_or_error.splits)

theorem announces_with_token_witness:
  "\<exists>s :: 160 word dht_state. worker_alive s \<and> length (worker_queue (get_peers_end id20_word 7 (Some 6881)
    (get_peers_recursion 3) 4 sample_addr (Inr (ROE_Response ((default_response id20_word)\<lparr>resp_token := Some [1, 2, 3, 4]\<rparr>))) s))
    = Suc (length (worker_queue s))"
proof -
  let ?s = "node_state (dht_start id20_word 0 5 sample_addr)"
  have "worker_alive ?s" by (simp add: dht_start_def dht_new_internal_def)
  moreover have "id_distance id20_word (info_hash (get_peers_recursion 3)) 4 \<le> (7 :: 160 word)"
    by (simp add: id20_word_def get_peers_recursion_def)
  ultimately show ?thesis
    by (intro exI [of _ ?s]) (simp add: announces_with_token default_response_def)
qed

end
