(* ===== verification/Typed_Messages.thy ===== *)
theory Typed_Messages
  imports Worker_Props
begin

text \<open>
  The types that the data of a node keep while it runs: the family of the addresses in each table,
  addresses that the compact formats can carry, and the messages that wait for the worker, each a
  query of the node's own with its transaction identifier, or a response of its own. What is typed
  is read back by every receiver as it was built.
\<close>

section \<open>Typing\<close>

text \<open>The parts of a state.\<close>

definition table_typed :: "(socket_addr \<Rightarrow> bool) \<Rightarrow> 'id routing_table \<Rightarrow> bool" where
  "table_typed family t \<longleftrightarrow> (\<forall>n \<in> set (rt_nodes t). family (node_addr n) \<and> plain (node_addr n))"

definition peers_typed :: "('id \<times> stored_peer list) list \<Rightarrow> bool" where
  "peers_typed m \<longleftrightarrow> (\<forall>e \<in> set m. \<forall>p \<in> set (snd e). plain (sp_addr p))"

text \<open>The queries that \<^verbatim>\<open>create_request\<close> builds, with the identifier they carry.\<close>

fun query_from :: "'id \<Rightarrow> 'id message_kind \<Rightarrow> bool" where
  "query_from i (MK_PingRequest q) \<longleftrightarrow> ping_id q = i"
| "query_from i (MK_FindNodeRequest q) \<longleftrightarrow> fn_id q = i"
| "query_from i (MK_GetPeersRequest q) \<longleftrightarrow> gp_id q = i"
| "query_from i (MK_AnnouncePeer q) \<longleftrightarrow> ap_id q = i"
| "query_from i _ \<longleftrightarrow> False"

fun response_from :: "'id \<Rightarrow> 'id message_kind \<Rightarrow> bool" where
  "response_from i (MK_Response r) \<longleftrightarrow> resp_id r = i
     \<and> (\<forall>ns. resp_nodes r = Some ns \<longrightarrow> length ns \<le> 8) \<and> (\<forall>ns. resp_nodes6 r = Some ns \<longrightarrow> length ns \<le> 8)"
| "response_from i _ \<longleftrightarrow> False"

definition send_typed :: "'id \<Rightarrow> 'id worker_send_request \<Rightarrow> bool" where
  "send_typed i m \<longleftrightarrow> kind_ok (msg_kind (wsr_message m)) \<and> version (wsr_message m) = None
     \<and> (case our_tid m of
          Some tid \<Rightarrow> query_from i (msg_kind (wsr_message m)) \<and> transaction_id (wsr_message m) = tid_bytes tid
            \<and> msg_ip (wsr_message m) = None
        | None \<Rightarrow> response_from i (msg_kind (wsr_message m)) \<and> plain (wsr_addr m)
            \<and> msg_ip (wsr_message m) = Some (wsr_addr m))"

definition state_typed :: "'id dht_state \<Rightarrow> bool" where
  "state_typed s \<longleftrightarrow> table_typed is_ipv4 (routing_table_v4 s) \<and> table_typed is_ipv6 (routing_table_v6 s)
     \<and> peers_typed (ps_peers (dht_peer_store s)) \<and> (\<forall>m \<in> set (worker_queue s). send_typed (dht_id s) m)"

text \<open>The addresses that events bring in can be carried.\<close>

fun event_typed :: "'id dht_event \<Rightarrow> bool" where
  "event_typed (EvMessage env msg addr) \<longleftrightarrow> plain addr"
| "event_typed (EvAddNode clk now i addr) \<longleftrightarrow> plain addr"
| "event_typed _ \<longleftrightarrow> True"

definition addr_family :: "socket_addr \<Rightarrow> socket_addr \<Rightarrow> bool" where
  "addr_family addr = (if is_ipv4 addr then is_ipv4 else is_ipv6)"

lemma addr_family_self: "addr_family addr addr"
  by (simp add: addr_family_def)

lemma get_table_typed: "state_typed s \<Longrightarrow> table_typed (addr_family addr) (get_table_for_addr addr s)"
  by (simp add: state_typed_def get_table_for_addr_def addr_family_def)

lemma set_table_typed:
  "state_typed s \<Longrightarrow> table_typed (addr_family addr) t \<Longrightarrow> state_typed (set_table_for_addr addr t s)"
  by (simp add: state_typed_def set_table_for_addr_def addr_family_def split: if_splits)

lemma state_typed_requests [simp]:
  "state_typed (s\<lparr>inflight := m\<rparr>) = state_typed s"
  "state_typed (s\<lparr>completed := c\<rparr>) = state_typed s"
  "state_typed (s\<lparr>next_channel := n\<rparr>) = state_typed s"
  "state_typed (s\<lparr>next_transaction_id := t\<rparr>) = state_typed s"
  "state_typed (s\<lparr>worker_alive := b\<rparr>) = state_typed s"
  by (simp_all add: state_typed_def)

lemma new_store_typed:
  "state_typed s \<Longrightarrow> peers_typed (ps_peers ps) \<Longrightarrow> state_typed (s\<lparr>dht_peer_store := ps\<rparr>)"
  by (simp add: state_typed_def)

lemma sent_typed:
  assumes "state_typed s" and "send_typed (dht_id s) m"
  shows "state_typed (fst (worker_send m s))"
  using assms by (auto simp: worker_send_def state_typed_def)

lemma table_typed_subset:
  "table_typed family t \<Longrightarrow> node_addr ` set (rt_nodes t') \<subseteq> node_addr ` set (rt_nodes t) \<union> A \<Longrightarrow>
    (\<forall>a \<in> A. family a \<and> plain a) \<Longrightarrow> table_typed family t'"
  by (auto simp: table_typed_def)

section \<open>Tables\<close>

context id20_api
begin

lemma mark_addrs:
  assumes "rt_inv ops rt" and "rt_mark e i rt = Inr (rt', found)"
  shows "node_addr ` set (rt_nodes rt') = node_addr ` set (rt_nodes rt)"
proof -
  obtain refresh where r: "rt_mark e i rt = rt_update rt i refresh (\<lambda>r. node_step r e)"
    using rt_mark_update by blast
  from rt_inv_update [OF assms(1), of "\<lambda>r. node_step r e" i refresh] assms(2)
  have n: "rt_nodes rt' = map (\<lambda>r. if node_id r = i then node_step r e else r) (rt_nodes rt)"
    unfolding r by auto
  have "node_addr (node_step r e) = node_addr r" for r :: "'id routing_table_node" by (cases e) simp_all
  then have "map node_addr (rt_nodes rt') = map node_addr (rt_nodes rt)" by (simp add: n)
  then show ?thesis by (metis list.set_map)
qed

lemma add_addrs:
  assumes "rt_inv ops rt" and "rt_add_node ops clk now rt i addr = Inr (rt', res)"
  shows "node_addr ` set (rt_nodes rt') \<subseteq> node_addr ` set (rt_nodes rt) \<union> {addr}"
proof -
  have "insert_effect now i addr (mset (rt_nodes rt)) res (mset (rt_nodes rt'))"
    using rt_inv_add [OF assms(1), of clk now i addr] assms(2) by auto
  then have "set_mset (mset (rt_nodes rt')) \<subseteq> insert (fresh_node i addr) (set_mset (mset (rt_nodes rt)))"
    by (cases res) (auto dest: in_diffD)
  then show ?thesis by auto
qed

lemma compact_nodes_typed:
  assumes "rt_inv ops t" and "generate_compact_nodes ops from target t now = Inr ns"
  shows "length ns \<le> 8 \<and> (\<forall>n \<in> set ns. \<exists>r \<in> set (rt_nodes t). from (node_addr r) = Some (naddr n))"
proof -
  obtain ys where ys: "sorted_by_distance_from ops t target now = Some ys" "mset ys = mset (rt_nodes t)"
    using sorted_nodes [OF assms(1)] by blast
  then have "set ys = set (rt_nodes t)" by (metis set_mset_mset)
  with assms(2) ys(1) show ?thesis
    by (auto simp: generate_compact_nodes_def map_filter_def dest!: in_set_takeD) fastforce
qed

end

section \<open>Peers\<close>

lemma update_entries: "e \<in> set (AList.update k v m) \<Longrightarrow> e = (k, v) \<or> e \<in> set m"
  by (induction m) (auto split: if_splits)

lemma update_first_set: "set (update_first p f xs) \<subseteq> set xs \<union> f ` set xs"
  by (induction xs) auto

lemma plain_set_port: "plain a \<Longrightarrow> plain (set_port a p)"
  by (cases a) (simp_all add: plain_def plain_v6_def)

lemma peers_typed_update:
  "peers_typed m \<Longrightarrow> (\<forall>p \<in> set ps. plain (sp_addr p)) \<Longrightarrow> peers_typed (AList.update k ps m)"
  by (auto simp: peers_typed_def dest: update_entries)

lemma peers_typed_get: "peers_typed m \<Longrightarrow> map_of m k = Some ps \<Longrightarrow> p \<in> set ps \<Longrightarrow> plain (sp_addr p)"
  by (auto simp: peers_typed_def dest: map_of_SomeD)

lemma store_peer_typed:
  assumes "peers_typed (ps_peers ps)" and "plain addr"
  shows "peers_typed (ps_peers (fst (store_peer ops now ps ann addr)))"
proof -
  let ?a = "if implied_port ann = 0 then set_port addr (ap_port ann) else addr"
  have a: "plain ?a" using assms(2) by (simp add: plain_set_port)
  have touched: "\<forall>p \<in> set (update_first (\<lambda>s. sp_addr s = ?a) (\<lambda>s. s\<lparr>sp_time := now\<rparr>) peers). plain (sp_addr p)"
    if "map_of (ps_peers ps) h = Some peers" for h peers
    using update_first_set [of "\<lambda>s. sp_addr s = ?a" "\<lambda>s. s\<lparr>sp_time := now\<rparr>" peers] peers_typed_get [OF assms(1) that]
    by fastforce
  show ?thesis
    using assms(1) a touched peers_typed_get [OF assms(1)]
    by (auto simp: store_peer_def Let_def intro!: peers_typed_update split: option.splits)
qed

lemma gc_map_typed: "peers_typed m \<Longrightarrow> peers_typed (after_ttl now m)"
  using gc_peers_set by (fastforce simp: peers_typed_def after_ttl_def gc_map_def fresh_peers_def)

lemma collect_typed:
  assumes "peer_store_inv ops ps" and "peers_typed (ps_peers ps)" and "garbage_collect_peers now ps = Inr ps'"
  shows "peers_typed (ps_peers ps')"
proof -
  have "distinct (map fst (ps_peers ps))" "total_peers (ps_peers ps) < 2 ^ 32"
    using assms(1) unat_u32_less [of "peers_len ps"] by (simp_all add: peer_store_inv_def peers_ok_def)
  from gc_ok [OF this, of now] assms(3) obtain m' where
    m': "ps_peers ps' = m'" "sub_entries m' (after_ttl now (ps_peers ps))" by auto
  show ?thesis
    unfolding peers_typed_def
  proof (intro ballI)
    fix e p assume e: "e \<in> set (ps_peers ps')" "p \<in> set (snd e)"
    obtain h ps1 where h: "e = (h, ps1)" by (cases e)
    then obtain ps2 where "(h, ps2) \<in> set (after_ttl now (ps_peers ps))" "mset ps1 \<subseteq># mset ps2"
      using m' e(1) by (auto simp: sub_entries_def)
    moreover from this(2) e(2) h have "p \<in> set ps2" by (metis mset_subset_eqD set_mset_mset snd_conv)
    ultimately show "plain (sp_addr p)" using gc_map_typed [OF assms(2), of now] by (force simp: peers_typed_def)
  qed
qed

lemma values_typed: "peers_typed (ps_peers ps) \<Longrightarrow> a \<in> set (get_for_info_hash ps hash want) \<Longrightarrow> plain a"
  by (cases "map_of (ps_peers ps) hash") (auto simp: get_for_info_hash_def dest: peers_typed_get)

section \<open>Answers\<close>

lemma response_sent_typed:
  assumes "state_typed s" and "plain addr" and "kind_ok (MK_Response resp)" and "response_from (dht_id s) (MK_Response resp)"
  shows "state_typed (fst (respond msg addr resp s))"
  using sent_typed [OF assms(1), of "\<lparr>our_tid = None, wsr_message = \<lparr>msg_kind = MK_Response resp,
    transaction_id = transaction_id msg, version = None, msg_ip = Some addr\<rparr>, wsr_addr = addr\<rparr>"] assms(2-4)
  by (simp add: respond_def Let_def send_typed_def case_prod_beta)

lemma new_token_typed: "state_typed s \<Longrightarrow> state_typed (fst (new_token env i addr s))"
  by (auto simp: new_token_def gen_token_for_def Let_def state_typed_def)

definition nodes_typed :: "'id node4 list option \<times> 'id node6 list option \<Rightarrow> bool" where
  "nodes_typed ns \<longleftrightarrow> (\<forall>n. fst ns = Some n \<longrightarrow> length n \<le> 8)
     \<and> (\<forall>n. snd ns = Some n \<longrightarrow> length n \<le> 8 \<and> (\<forall>x \<in> set n. plain_v6 (naddr x)))"

context id20_api
begin

lemma nodes_both_typed:
  assumes ok: "stores_ok ops s" and t: "state_typed s"
    and g: "generate_compact_nodes_both ops target want now s = Inr ns"
  shows "nodes_typed ns"
proof -
  have inv: "rt_inv ops (routing_table_v4 s)" "rt_inv ops (routing_table_v6 s)" using ok by (simp_all add: stores_ok_def)
  obtain n4 n6 where n: "generate_compact_nodes ops v4_of target (routing_table_v4 s) now = Inr n4"
    "generate_compact_nodes ops v6_of target (routing_table_v6 s) now = Inr n6"
    using compact_nodes_ok [OF inv(1), of v4_of target now] compact_nodes_ok [OF inv(2), of v6_of target now] by blast
  note typed = compact_nodes_typed [OF inv(1) n(1)] compact_nodes_typed [OF inv(2) n(2)]
  have "plain_v6 (naddr x)" if "x \<in> set n6" for x
  proof -
    obtain r where r: "r \<in> set (rt_nodes (routing_table_v6 s))" "v6_of (node_addr r) = Some (naddr x)"
      using typed(2) \<open>x \<in> set n6\<close> by blast
    from t r(1) have "plain (node_addr r)" by (simp add: state_typed_def table_typed_def)
    moreover from r(2) have "node_addr r = V6 (naddr x)" by (rule v6_of.elims) simp_all
    ultimately show ?thesis by (simp add: plain_def)
  qed
  moreover have "length n4 \<le> 8" "length n6 \<le> 8" using typed by blast+
  ultimately show ?thesis
    using g n by (cases want) (auto simp: generate_compact_nodes_both_def nodes_typed_def)
qed

lemma mark_query_typed:
  assumes ok: "stores_ok ops s" and t: "state_typed s" and m: "mark_query_from env i addr s = Inr s1"
  shows "state_typed s1 \<and> stores_ok ops s1 \<and> dht_id s1 = dht_id s \<and> dht_peer_store s1 = dht_peer_store s"
proof -
  obtain t1 where t1: "rt_mark (Queried (env_query_now env)) i (get_table_for_addr addr s)
      = Inr (t1, rt_lookup (get_table_for_addr addr s) i \<noteq> None)" "rt_inv ops t1"
    using rt_inv_mark [OF get_table_ok [OF ok]] by blast
  have "table_typed (addr_family addr) t1"
    by (rule table_typed_subset [OF get_table_typed [OF t], where A = "{}"])
      (use mark_addrs [OF get_table_ok [OF ok] t1(1)] in simp_all)
  then show ?thesis using m t1 set_table_typed [OF t] set_table_ok [OF ok t1(2)]
    by (auto simp: mark_query_from_def)
qed

lemma message_typed:
  assumes ok: "stores_ok ops s" and t: "state_typed s" and a: "plain addr"
    and r: "on_received_message ops env msg addr s = Inr (s', res)"
  shows "state_typed s'"
proof -
  note mark = mark_query_typed [OF ok t]
  have reply: "state_typed (fst (respond msg addr resp s0))"
    if "state_typed s0" "resp_id resp = dht_id s0" "nodes_typed (resp_nodes resp, resp_nodes6 resp)" "resp_seq resp = None"
      "\<forall>ps. resp_values resp = Some ps \<longrightarrow> (\<forall>a \<in> set ps. plain a)" for resp s0
    using that by (intro response_sent_typed [OF _ a]) (auto simp: nodes_typed_def fits_i64_def)
  have own: "nodes_typed (resp_nodes (own_response ops s0), resp_nodes6 (own_response ops s0))"
    "resp_seq (own_response ops s0) = None" "resp_values (own_response ops s0) = None" for s0
    by (simp_all add: own_response_def default_response_def nodes_typed_def)
  have "peers_typed (ps_peers (dht_peer_store s))" using t by (simp add: state_typed_def)
  note vals = values_typed [OF this]
  show ?thesis
  proof (cases "msg_kind msg")
    case (MK_PingRequest q)
    then obtain s1 where s1: "mark_query_from env (ping_id q) addr s = Inr s1"
      "respond msg addr (own_response ops s1) s1 = (s', res)"
      using r by (auto simp: on_received_message_def query_handlers and_then_eq_Inr)
    from reply [of s1 "own_response ops s1"] own mark [OF s1(1)] s1(2) show ?thesis by simp
  next
    case (MK_Bep44PutRequest q)
    then obtain s1 where s1: "mark_query_from env (bp_id q) addr s = Inr s1"
      "respond msg addr (own_response ops s1) s1 = (s', res)"
      using r by (auto simp: on_received_message_def query_handlers and_then_eq_Inr)
    from reply [of s1 "own_response ops s1"] own mark [OF s1(1)] s1(2) show ?thesis by simp
  next
    case (MK_AnnouncePeer q)
    then obtain s1 where s1: "mark_query_from env (ap_id q) addr s = Inr s1"
      using r by (auto simp: on_received_message_def query_handlers and_then_eq_Inr)
    let ?s2 = "s1\<lparr>dht_peer_store := fst (store_peer ops (env_utc env) (dht_peer_store s1) q addr)\<rparr>"
    have "state_typed ?s2"
      using mark [OF s1] store_peer_typed [OF _ a] by (intro new_store_typed) (auto simp: state_typed_def)
    from reply [OF this, of "own_response ops ?s2"] own r s1 MK_AnnouncePeer show ?thesis
      by (simp add: on_received_message_def query_handlers Let_def case_prod_beta)
  next
    case (MK_FindNodeRequest q)
    then obtain ns ns6 s1 where s1: "generate_compact_nodes_both ops (fn_target q) (default_want (fn_want q) addr) (env_now env) s = Inr (ns, ns6)"
      "mark_query_from env (fn_id q) addr s = Inr s1"
      "respond msg addr ((own_response ops s1)\<lparr>resp_nodes := ns, resp_nodes6 := ns6\<rparr>) s1 = (s', res)"
      using r by (auto simp: on_received_message_def query_handlers and_then_eq_Inr)
    from reply [of s1 "(own_response ops s1)\<lparr>resp_nodes := ns, resp_nodes6 := ns6\<rparr>"] own mark [OF s1(2)]
      nodes_both_typed [OF ok t s1(1)] s1(3) show ?thesis by simp
  next
    case (MK_GetPeersRequest q)
    let ?peers = "get_for_info_hash (dht_peer_store s) (gp_info_hash q) (default_want (gp_want q) addr)"
    obtain ns ns6 s1 where s1: "generate_compact_nodes_both ops (gp_info_hash q) (default_want (gp_want q) addr) (env_now env) s = Inr (ns, ns6)"
      "mark_query_from env (gp_id q) addr s = Inr s1"
      "respond msg addr ((own_response ops (fst (new_token env (gp_id q) addr s1)))\<lparr>resp_nodes := ns, resp_nodes6 := ns6,
        resp_values := Some ?peers, resp_token := Some (snd (new_token env (gp_id q) addr s1))\<rparr>)
        (fst (new_token env (gp_id q) addr s1)) = (s', res)"
      using r MK_GetPeersRequest by (auto simp: on_received_message_def query_handlers and_then_eq_Inr Let_def case_prod_beta)
    let ?s2 = "fst (new_token env (gp_id q) addr s1)" and ?tok = "snd (new_token env (gp_id q) addr s1)"
    have "state_typed ?s2" using mark [OF s1(2)] by (simp add: new_token_typed)
    with reply [of ?s2 "(own_response ops ?s2)\<lparr>resp_nodes := ns, resp_nodes6 := ns6, resp_values := Some ?peers,
        resp_token := Some ?tok\<rparr>"] own vals nodes_both_typed [OF ok t s1(1)] s1(3) show ?thesis by auto
  next
    case (MK_Bep44GetRequest q)
    then obtain ns ns6 s1 where s1: "generate_compact_nodes_both ops (bg_target q) Want_Both (env_now env) s = Inr (ns, ns6)"
      "mark_query_from env (bg_id q) addr s = Inr s1"
      "respond msg addr ((own_response ops (fst (new_token env (bg_id q) addr s1)))\<lparr>resp_nodes := ns, resp_nodes6 := ns6,
        resp_token := Some (snd (new_token env (bg_id q) addr s1))\<rparr>) (fst (new_token env (bg_id q) addr s1)) = (s', res)"
      using r by (auto simp: on_received_message_def query_handlers and_then_eq_Inr Let_def case_prod_beta)
    let ?s2 = "fst (new_token env (bg_id q) addr s1)" and ?tok = "snd (new_token env (bg_id q) addr s1)"
    have "state_typed ?s2" using mark [OF s1(2)] by (simp add: new_token_typed)
    from reply [OF this, of "(own_response ops ?s2)\<lparr>resp_nodes := ns, resp_nodes6 := ns6, resp_token := Some ?tok\<rparr>"]
      own nodes_both_typed [OF ok t s1(1)] s1(3) show ?thesis by simp
  qed (use r t in \<open>auto simp: on_received_message_def query_handlers on_answer_def split: option.splits\<close>)
qed

lemma table_event_typed:
  assumes "state_typed s" and "rt_inv ops (get_table_for_addr addr s)"
    and "node_addr ` set (rt_nodes t) \<subseteq> node_addr ` set (rt_nodes (get_table_for_addr addr s)) \<union> A"
    and "\<forall>a \<in> A. a = addr \<and> plain addr"
  shows "state_typed (set_table_for_addr addr t s)"
  using table_typed_subset [OF get_table_typed [OF assms(1)] assms(3)] assms(4) addr_family_self
  by (intro set_table_typed [OF assms(1)]) fastforce

end

lemma request_typed:
  assumes "state_typed s"
  shows "state_typed (fst (request_start req addr s))"
    and "state_typed (fst (worker_send \<lparr>our_tid = Some (next_transaction_id s),
      wsr_message = snd (snd (create_request req addr s)), wsr_addr = addr\<rparr> (fst (create_request req addr s))))"
proof -
  have typed: "send_typed (dht_id s) \<lparr>our_tid = Some (next_transaction_id s),
      wsr_message = snd (snd (create_request req addr s)), wsr_addr = addr\<rparr>"
    by (cases req) (simp_all add: create_request_def Let_def send_typed_def)
  have s1: "fst (create_request req addr s) = s\<lparr>next_transaction_id := next_transaction_id s + 1\<rparr>"
    "fst (snd (create_request req addr s)) = next_transaction_id s"
    by (simp_all add: create_request_def Let_def)
  show "state_typed (fst (worker_send \<lparr>our_tid = Some (next_transaction_id s),
      wsr_message = snd (snd (create_request req addr s)), wsr_addr = addr\<rparr> (fst (create_request req addr s))))"
    using typed assms by (intro sent_typed) (simp_all add: s1)
  have "state_typed (fst (worker_send \<lparr>our_tid = Some (next_transaction_id s),
      wsr_message = snd (snd (create_request req addr s)), wsr_addr = addr\<rparr>
      (s\<lparr>next_transaction_id := next_transaction_id s + 1, inflight := f, next_channel := n\<rparr>)))" for f n
    using typed assms by (intro sent_typed) simp_all
  then show "state_typed (fst (request_start req addr s))"
    by (simp add: request_start_def case_prod_beta Let_def s1 split: prod.splits)
qed

context id20_api
begin

lemma event_keeps_typed:
  assumes inv: "dht_inv ops y" and t: "state_typed (node_state y)" and e: "event_typed e"
    and st: "dht_step ops e y = Inr y'"
  shows "state_typed (node_state y')"
proof -
  have ok: "stores_ok ops (node_state y)" using inv by (simp add: dht_inv_def)
  show ?thesis
  proof (cases e)
    case (EvRequest req addr)
    have "node_state y' = fst (request_start req addr (node_state y))"
      using st by (auto simp: EvRequest split: prod.splits sum.splits)
    then show ?thesis using request_typed(1) [OF t] by simp
  next
    case (EvAnnounce req addr)
    have "fst (snd (create_request req addr (node_state y))) = next_transaction_id (node_state y)"
      by (simp add: create_request_def Let_def)
    then show ?thesis using st request_typed(2) [OF t, of req addr] by (auto simp: EvAnnounce case_prod_beta Let_def)
  next
    case (EvMessage env msg addr)
    with st obtain s' res where r: "on_received_message ops env msg addr (node_state y) = Inr (s', res)"
      "y' = y\<lparr>node_state := s'\<rparr>" by (auto simp: and_then_eq_Inr)
    from message_typed [OF ok t _ r(1)] e r(2) show ?thesis by (simp add: EvMessage)
  next
    case (EvSendError tid addr err)
    then show ?thesis using st t by (auto simp: on_send_error_def split: option.splits)
  next
    case (EvFinish ch w)
    have "state_typed (fst (request_finish key ch w (node_state y)))" for key using t by (cases w) simp_all
    then show ?thesis using st t by (auto simp: EvFinish split: option.splits if_splits)
  next
    case (EvCollect now)
    with st obtain ps where ps: "garbage_collect_peers now (dht_peer_store (node_state y)) = Inr ps"
      "node_state y' = (node_state y)\<lparr>dht_peer_store := ps\<rparr>" by (auto simp: and_then_eq_Inr)
    have "peer_store_inv ops (dht_peer_store (node_state y))" using ok by (simp add: stores_ok_def)
    from collect_typed [OF this _ ps(1)] t show ?thesis unfolding ps(2) by (intro new_store_typed) (auto simp: state_typed_def)
  next
    case (EvAddNode clk now i addr)
    let ?t = "get_table_for_addr addr (node_state y)"
    from st obtain t' r where t': "rt_add_node ops clk now ?t i addr = Inr (t', r)"
      "node_state y' = set_table_for_addr addr t' (node_state y)" by (auto simp: EvAddNode and_then_eq_Inr)
    have inv': "rt_inv ops ?t" by (rule get_table_ok [OF ok])
    show ?thesis
      unfolding t'(2) by (rule table_event_typed [OF t inv' add_addrs [OF inv' t'(1)]]) (use e EvAddNode in simp)
  next
    case (EvMark ev i addr)
    let ?t = "get_table_for_addr addr (node_state y)"
    from st obtain t' r where t': "rt_mark ev i ?t = Inr (t', r)"
      "node_state y' = set_table_for_addr addr t' (node_state y)" by (auto simp: EvMark and_then_eq_Inr)
    have inv': "rt_inv ops ?t" by (rule get_table_ok [OF ok])
    show ?thesis
      unfolding t'(2) by (rule table_event_typed [OF t inv', of _ "{}"]) (use mark_addrs [OF inv' t'(1)] in simp_all)
  next
    case EvWorkerTakes
    have "set (tl (worker_queue (node_state y))) \<subseteq> set (worker_queue (node_state y))"
      by (cases "worker_queue (node_state y)") auto
    moreover have "node_state y' = (node_state y)\<lparr>worker_queue := tl (worker_queue (node_state y))\<rparr>"
      using EvWorkerTakes st by auto
    ultimately show ?thesis using t by (simp add: state_typed_def subset_iff)
  next
    case EvWorkerDies
    with st t show ?thesis by auto
  next
    case (EvDrop ch)
    with st t show ?thesis by auto
  qed
qed

lemma run_keeps_typed:
  "dht_inv ops y \<Longrightarrow> state_typed (node_state y) \<Longrightarrow> \<forall>e \<in> set es. event_typed e \<Longrightarrow>
    run_ops (dht_step ops) es y = Inr y' \<Longrightarrow> state_typed (node_state y')"
proof (induction es arbitrary: y)
  case (Cons e es)
  obtain y1 where y1: "dht_step ops e y = Inr y1" "dht_inv ops y1" using dht_step_ok [OF Cons.prems(1)] by blast
  have "state_typed (node_state y1)" using event_keeps_typed [OF Cons.prems(1,2) _ y1(1)] Cons.prems(3) by simp
  with Cons y1 show ?case by simp
qed simp

lemma start_typed: "state_typed (node_state (dht_start ops now i addr))"
  by (simp add: dht_start_def dht_new_internal_def state_typed_def table_typed_def rt_inv_new peers_typed_def
      peer_store_new_def)

end

text \<open>
  C28. Types are preserved, and typed messages are understood. In a node that has only met addresses
  which the compact formats can carry, the IPv4 table has IPv4 addresses only and the IPv6 table IPv6
  addresses only, and every message that waits for the worker is typed: a query with the node's
  identifier, under the transaction identifier it is remembered by, or a response with the node's
  identifier, at most eight nodes of each family, and the address it goes to. Any receiver that gets
  the datagram of such a message as a whole reads exactly this message.
\<close>

theorem queued_messages_are_typed:
  assumes "id20_api ops" and "wire_ok w" and "\<forall>e \<in> set es. event_typed e"
    and "run_ops (dht_step ops) es (dht_start ops now i addr) = Inr y" and "m \<in> set (worker_queue (node_state y))"
  shows "table_typed is_ipv4 (routing_table_v4 (node_state y)) \<and> table_typed is_ipv6 (routing_table_v6 (node_state y))
    \<and> send_typed (dht_id (node_state y)) m
    \<and> deserialize_message w (datagram_of w (wsr_message m)) = Inr (wsr_message m)"
proof -
  have t: "state_typed (node_state y)"
    by (rule id20_api.run_keeps_typed [OF assms(1) id20_api.dht_start_ok [OF assms(1)]
          id20_api.start_typed [OF assms(1)] assms(3,4)])
  then have m: "send_typed (dht_id (node_state y)) m" using assms(5) by (simp add: state_typed_def)
  then have "kind_ok (msg_kind (wsr_message m))" "\<And>a. msg_ip (wsr_message m) = Some a \<Longrightarrow> plain a"
    by (auto simp: send_typed_def split: option.splits)
  from message_reads_back [OF assms(2) this(1), of "msg_ip (wsr_message m)"] this(2)
  have "deserialize_message w (datagram_of w (wsr_message m)) = Inr (wsr_message m)"
    by (simp add: datagram_of_def)
  with t m show ?thesis by (simp add: state_typed_def)
qed

theorem queued_messages_are_typed_witness:
  "\<exists>y m. run_ops (dht_step id20_word) [EvRequest (FindNode 3) sample_addr] (dht_start id20_word 0 5 sample_addr) = Inr y
    \<and> m \<in> set (worker_queue (node_state y)) \<and> send_typed (dht_id (node_state y)) m
    \<and> deserialize_message compact_wire (datagram_of compact_wire (wsr_message m)) = Inr (wsr_message m)"
proof -
  let ?es = "[EvRequest (FindNode 3) sample_addr] :: 160 word dht_event list"
  obtain y where y: "run_ops (dht_step id20_word) ?es (dht_start id20_word 0 5 sample_addr) = Inr y"
    using word_run_exists by blast
  moreover from y obtain m where "m \<in> set (worker_queue (node_state y))"
    by (auto simp: request_start_def create_request_def worker_send_def Let_def dht_start_def dht_new_internal_def
        split: prod.splits)
  moreover have "\<forall>e \<in> set ?es. event_typed e" by simp
  ultimately show ?thesis using queued_messages_are_typed [OF id20_word_api compact_wire_ok, of ?es] by blast
qed

end
