(* ===== verification/Network.thy ===== *)
theory Network
  imports Typed_Messages Recursive_Props
begin

text \<open>
  Several nodes and the datagrams between them. Each node is a system of \<open>Dht_System\<close>; its worker
  puts the datagrams of its queue into the network, which loses, repeats and reorders them; strangers
  with other addresses send whatever they like. What the loops of the lookups do with an answer,
  asking the nodes it lists and thereby adding them to a table, is one event.
\<close>

section \<open>The network\<close>

text \<open>
  The datagrams that were ever sent, with sender and receiver, stay deliverable. \<open>results\<close> are the
  responses that requests returned: the node that asked, the address it asked, and the response.
\<close>

record 'id network =
  net_nodes :: "socket_addr \<rightharpoonup> 'id dht_system"
  packets :: "(socket_addr \<times> socket_addr \<times> bytes) list"
  results :: "(socket_addr \<times> socket_addr \<times> 'id response) list"

datatype 'id net_event =
    NetLocal socket_addr "'id dht_event"
  | NetFinish socket_addr nat wait_end
  | NetAsk nat nat callback_env
  | NetWrite socket_addr "library_error + unit"
  | NetDeliver nat dht_env
  | NetStranger socket_addr socket_addr bytes

text \<open>
  Events of a node that neither receive, send nor end a request, and do not add nodes: those have
  events of their own. A send error that comes later than the turn of the writer is one of these.
\<close>

fun own_event :: "'id dht_event \<Rightarrow> bool" where
  "own_event (EvMessage env msg addr) \<longleftrightarrow> False"
| "own_event (EvFinish ch w) \<longleftrightarrow> False"
| "own_event (EvAddNode clk now i addr) \<longleftrightarrow> False"
| "own_event EvWorkerTakes \<longleftrightarrow> False"
| "own_event _ \<longleftrightarrow> True"

definition at_node ::
    "socket_addr \<Rightarrow> ('id dht_system \<Rightarrow> abort + 'id dht_system) \<Rightarrow> 'id network \<Rightarrow> abort + 'id network" where
  "at_node a f net = (case net_nodes net a of
     None \<Rightarrow> Inr net
   | Some y \<Rightarrow> and_then (f y) (\<lambda>y'. Inr (net\<lparr>net_nodes := (net_nodes net)(a \<mapsto> y')\<rparr>)))"

definition at_state ::
    "('id dht_state \<Rightarrow> abort + 'id dht_state) \<Rightarrow> 'id dht_system \<Rightarrow> abort + 'id dht_system" where
  "at_state f y = and_then (f (node_state y)) (\<lambda>s. Inr (y\<lparr>node_state := s\<rparr>))"

text \<open>The address and the response that a wait ends with, if it ends with one and was not dropped before.\<close>

definition ended :: "nat \<Rightarrow> wait_end \<Rightarrow> 'id dht_system \<Rightarrow> (socket_addr \<times> 'id response) list" where
  "ended ch e y = (if ch \<in> dropped y then [] else case (e, waiting y ch, completed (node_state y) ch) of
     (Received, Some (tid, addr), Some (Inr (ROE_Response r))) \<Rightarrow> [(addr, r)]
   | _ \<Rightarrow> [])"

text \<open>
  The nodes that an answer of \<open>addr\<close> makes a lookup ask (\<^verbatim>\<open>node_it\<close> of
  \<^verbatim>\<open>request_one\<close>); which of them it asks, and when, is left open.
\<close>

definition askable :: "socket_addr \<Rightarrow> 'id response \<Rightarrow> ('id, socket_addr) node list" where
  "askable addr r = filter (\<lambda>n. is_ipv4 addr = is_ipv4 (naddr n)) (response_nodes r)"

fun net_step :: "('id::linorder) id20_ops \<Rightarrow> 'id wire \<Rightarrow> 'id net_event \<Rightarrow> 'id network \<Rightarrow> abort + 'id network" where
  "net_step ops w (NetLocal a e) net = (if own_event e then at_node a (dht_step ops e) net else Inr net)"
| "net_step ops w (NetFinish a ch e) net =
    and_then (at_node a (dht_step ops (EvFinish ch e)) net) (\<lambda>net'.
      Inr (net'\<lparr>results := results net @ (case net_nodes net a of
         Some y \<Rightarrow> map (\<lambda>(b, r). (a, b, r)) (ended ch e y) | None \<Rightarrow> [])\<rparr>))"
| "net_step ops w (NetAsk k j env) net =
    (if k < length (results net)
     then (case results net ! k of (a, b, r) \<Rightarrow>
       if j < length (askable b r)
       then at_node a (at_state (find_nodes_start ops env (nid (askable b r ! j)) (naddr (askable b r ! j)))) net
       else Inr net)
     else Inr net)"
| "net_step ops w (NetWrite a sent) net =
    (case net_nodes net a of
       None \<Rightarrow> Inr net
     | Some y \<Rightarrow> (case writer_step w sent (node_state y) of
         None \<Rightarrow> Inr net
       | Some ((bs, dst), s) \<Rightarrow> Inr (net\<lparr>net_nodes := (net_nodes net)(a \<mapsto> y\<lparr>node_state := s\<rparr>),
           packets := packets net @ (case sent of Inr _ \<Rightarrow> [(a, dst, bs)] | Inl _ \<Rightarrow> [])\<rparr>)))"
| "net_step ops w (NetDeliver k env) net =
    (if k < length (packets net)
     then (case packets net ! k of (src, dst, bs) \<Rightarrow> at_node dst (at_state (on_datagram ops w env bs src)) net)
     else Inr net)"
| "net_step ops w (NetStranger src dst bs) net =
    (if net_nodes net src = None then Inr (net\<lparr>packets := packets net @ [(src, dst, bs)]\<rparr>) else Inr net)"

section \<open>What nodes know and claim\<close>

definition pair_of :: "('id, socket_addr) node \<Rightarrow> 'id \<times> socket_addr" where
  "pair_of n = (nid n, naddr n)"

text \<open>The identifiers and addresses in a table, in both tables of a node, and in a response.\<close>

definition table_pairs :: "'id routing_table \<Rightarrow> ('id \<times> socket_addr) set" where
  "table_pairs t = (\<lambda>n. (node_id n, node_addr n)) ` set (rt_nodes t)"

definition known :: "'id dht_state \<Rightarrow> ('id \<times> socket_addr) set" where
  "known s = table_pairs (routing_table_v4 s) \<union> table_pairs (routing_table_v6 s)"

definition claims :: "'id response \<Rightarrow> ('id \<times> socket_addr) set" where
  "claims r = pair_of ` set (response_nodes r)"

fun kind_claims :: "'id message_kind \<Rightarrow> ('id \<times> socket_addr) set" where
  "kind_claims (MK_Response r) = claims r"
| "kind_claims _ = {}"

lemma known_fields [simp]:
  "known (s\<lparr>dht_peer_store := ps\<rparr>) = known s" "known (s\<lparr>worker_queue := q\<rparr>) = known s"
  "known (s\<lparr>inflight := f\<rparr>) = known s" "known (s\<lparr>completed := c\<rparr>) = known s"
  "known (s\<lparr>next_channel := n\<rparr>) = known s" "known (s\<lparr>next_transaction_id := t\<rparr>) = known s"
  "known (s\<lparr>worker_alive := b\<rparr>) = known s"
  by (simp_all add: known_def)

lemma claims_fields:
  "claims (r\<lparr>resp_values := v\<rparr>) = claims r" "claims (r\<lparr>resp_token := t\<rparr>) = claims r"
  by (simp_all add: claims_def response_nodes_def)

lemma own_claims [simp]: "claims (own_response ops s) = {}"
  by (simp add: claims_def response_nodes_def own_response_def default_response_def)

lemma table_known: "table_pairs (get_table_for_addr addr s) \<subseteq> known s"
  by (simp add: known_def get_table_for_addr_def)

lemma known_set_table:
  "table_pairs t \<subseteq> K \<Longrightarrow> known s \<subseteq> K \<Longrightarrow> known (set_table_for_addr addr t s) \<subseteq> K"
  by (auto simp: known_def set_table_for_addr_def)

context id20_api
begin

lemma mark_pairs:
  assumes "rt_inv ops rt" and "rt_mark e i rt = Inr (rt', found)"
  shows "table_pairs rt' = table_pairs rt"
proof -
  obtain refresh where r: "rt_mark e i rt = rt_update rt i refresh (\<lambda>r. node_step r e)"
    using rt_mark_update by blast
  from rt_inv_update [OF assms(1), of "\<lambda>r. node_step r e" i refresh] assms(2)
  have n: "rt_nodes rt' = map (\<lambda>r. if node_id r = i then node_step r e else r) (rt_nodes rt)"
    unfolding r by auto
  have "node_id (node_step r e) = node_id r" "node_addr (node_step r e) = node_addr r"
    for r :: "'id routing_table_node" by (cases e; simp)+
  then have "map (\<lambda>n. (node_id n, node_addr n)) (rt_nodes rt') = map (\<lambda>n. (node_id n, node_addr n)) (rt_nodes rt)"
    by (simp add: n)
  then show ?thesis unfolding table_pairs_def by (metis list.set_map)
qed

lemma add_pairs:
  assumes "rt_inv ops rt" and "rt_add_node ops clk now rt i addr = Inr (rt', res)"
  shows "table_pairs rt' \<subseteq> insert (i, addr) (table_pairs rt)"
proof -
  have "insert_effect now i addr (mset (rt_nodes rt)) res (mset (rt_nodes rt'))"
    using rt_inv_add [OF assms(1), of clk now i addr] assms(2) by auto
  then have "set_mset (mset (rt_nodes rt')) \<subseteq> insert (fresh_node i addr) (set_mset (mset (rt_nodes rt)))"
    by (cases res) (auto dest: in_diffD)
  then show ?thesis by (auto simp: table_pairs_def)
qed

end

section \<open>What a node does with messages\<close>

context id20_api
begin

lemma compact_nodes_known:
  assumes "rt_inv ops t" and "generate_compact_nodes ops from target t now = Inr ns" and "n \<in> set ns"
  shows "\<exists>a. from a = Some (naddr n) \<and> (nid n, a) \<in> table_pairs t"
proof -
  obtain ys where ys: "sorted_by_distance_from ops t target now = Some ys" "mset ys = mset (rt_nodes t)"
    using sorted_nodes [OF assms(1)] by blast
  then have "set ys = set (rt_nodes t)" by (metis set_mset_mset)
  with assms(2,3) ys(1) show ?thesis
    by (auto simp: generate_compact_nodes_def map_filter_def table_pairs_def dest!: in_set_takeD) fastforce
qed

lemma nodes_both_claims:
  assumes ok: "stores_ok ops s" and g: "generate_compact_nodes_both ops target want now s = Inr (n4, n6)"
  shows "claims (r\<lparr>resp_nodes := n4, resp_nodes6 := n6\<rparr>) \<subseteq> known s"
proof -
  have inv: "rt_inv ops (routing_table_v4 s)" "rt_inv ops (routing_table_v6 s)" using ok by (simp_all add: stores_ok_def)
  obtain m4 m6 where m: "generate_compact_nodes ops v4_of target (routing_table_v4 s) now = Inr m4"
    "generate_compact_nodes ops v6_of target (routing_table_v6 s) now = Inr m6"
    using compact_nodes_ok [OF inv(1), of v4_of target now] compact_nodes_ok [OF inv(2), of v6_of target now] by blast
  have v4: "(nid n, V4 (naddr n)) \<in> known s" if n: "n \<in> set m4" for n
  proof -
    obtain a where "v4_of a = Some (naddr n)" "(nid n, a) \<in> table_pairs (routing_table_v4 s)"
      using compact_nodes_known [OF inv(1) m(1) n] by blast
    then show ?thesis by (cases a) (auto simp: known_def)
  qed
  have v6: "(nid n, V6 (naddr n)) \<in> known s" if n: "n \<in> set m6" for n
  proof -
    obtain a where "v6_of a = Some (naddr n)" "(nid n, a) \<in> table_pairs (routing_table_v6 s)"
      using compact_nodes_known [OF inv(2) m(2) n] by blast
    then show ?thesis by (cases a) (auto simp: known_def)
  qed
  show ?thesis using g m v4 v6
    by (cases want) (auto simp: generate_compact_nodes_both_def claims_def response_nodes_def pair_of_def as_socketaddr_def)
qed

lemma mark_query_known:
  assumes "stores_ok ops s" and "mark_query_from env i addr s = Inr s1"
  shows "known s1 \<subseteq> known s \<and> stores_ok ops s1 \<and> worker_queue s1 = worker_queue s \<and> dht_id s1 = dht_id s"
proof -
  let ?t = "get_table_for_addr addr s"
  obtain t1 where t1: "rt_mark (Queried (env_query_now env)) i ?t = Inr (t1, rt_lookup ?t i \<noteq> None)" "rt_inv ops t1"
    using rt_inv_mark [OF get_table_ok [OF assms(1)]] by blast
  then have "s1 = set_table_for_addr addr t1 s" using assms(2) by (simp add: mark_query_from_def)
  with known_set_table [of t1 "known s" s addr] mark_pairs [OF get_table_ok [OF assms(1)] t1(1)] table_known [of addr s]
    set_table_ok [OF assms(1) t1(2)] show ?thesis by simp
qed

end

lemma respond_claims:
  "m \<in> set (worker_queue (fst (respond msg addr r s))) \<Longrightarrow>
    m \<in> set (worker_queue s) \<or> kind_claims (msg_kind (wsr_message m)) = claims r"
  by (auto simp: respond_eq split: if_splits)

lemma respond_known [simp]: "known (fst (respond msg addr r s)) = known s"
  by (simp add: respond_eq)

lemma new_token_known: "new_token env i addr s = (s', token) \<Longrightarrow> known s' = known s"
  by (auto simp: new_token_def split: prod.splits)

text \<open>
  A handler neither learns nor makes up nodes: the tables know no more than before, and what it
  queues claims only what they knew.
\<close>

definition keeps :: "'id dht_state \<Rightarrow> 'id dht_state \<Rightarrow> bool" where
  "keeps s s' \<longleftrightarrow> known s' \<subseteq> known s \<and> dht_id s' = dht_id s
     \<and> (\<forall>m \<in> set (worker_queue s'). m \<in> set (worker_queue s) \<or> kind_claims (msg_kind (wsr_message m)) \<subseteq> known s)"

lemma reply_keeps:
  assumes "known s0 \<subseteq> known s" and "worker_queue s0 = worker_queue s" and "dht_id s0 = dht_id s" and "claims r \<subseteq> known s"
  shows "keeps s (fst (respond msg addr r s0))"
  using assms respond_claims [of _ msg addr r s0] by (auto simp: keeps_def respond_eq split: if_splits)

lemma on_answer_keeps: "keeps s (fst (on_answer msg addr roe s))"
  by (auto simp: keeps_def on_answer_def split: option.splits)

context id20_api
begin

lemma message_keeps:
  assumes ok: "stores_ok ops s" and r: "on_received_message ops env msg addr s = Inr (s', res)"
  shows "keeps s s'"
proof -
  note mark = mark_query_known [OF ok]
  show ?thesis
  proof (cases "msg_kind msg")
    case (MK_PingRequest q)
    then obtain s1 where s1: "mark_query_from env (ping_id q) addr s = Inr s1"
      "respond msg addr (own_response ops s1) s1 = (s', res)"
      using r by (auto simp: on_received_message_def query_handlers and_then_eq_Inr)
    with reply_keeps [of s1 s "own_response ops s1" msg addr] mark [OF s1(1)] show ?thesis by simp
  next
    case (MK_Bep44PutRequest q)
    then obtain s1 where s1: "mark_query_from env (bp_id q) addr s = Inr s1"
      "respond msg addr (own_response ops s1) s1 = (s', res)"
      using r by (auto simp: on_received_message_def query_handlers and_then_eq_Inr)
    with reply_keeps [of s1 s "own_response ops s1" msg addr] mark [OF s1(1)] show ?thesis by simp
  next
    case (MK_AnnouncePeer q)
    then obtain s1 where s1: "mark_query_from env (ap_id q) addr s = Inr s1"
      using r by (auto simp: on_received_message_def query_handlers and_then_eq_Inr)
    let ?s2 = "s1\<lparr>dht_peer_store := fst (store_peer ops (env_utc env) (dht_peer_store s1) q addr)\<rparr>"
    from reply_keeps [of ?s2 s "own_response ops ?s2" msg addr] mark [OF s1] r s1 MK_AnnouncePeer show ?thesis
      by (simp add: on_received_message_def query_handlers Let_def case_prod_beta)
  next
    case (MK_FindNodeRequest q)
    then obtain ns ns6 s1 where s1: "generate_compact_nodes_both ops (fn_target q) (default_want (fn_want q) addr) (env_now env) s = Inr (ns, ns6)"
      "mark_query_from env (fn_id q) addr s = Inr s1"
      "respond msg addr ((own_response ops s1)\<lparr>resp_nodes := ns, resp_nodes6 := ns6\<rparr>) s1 = (s', res)"
      using r by (auto simp: on_received_message_def query_handlers and_then_eq_Inr)
    from reply_keeps [of s1 s "(own_response ops s1)\<lparr>resp_nodes := ns, resp_nodes6 := ns6\<rparr>" msg addr]
      mark [OF s1(2)] nodes_both_claims [OF ok s1(1)] s1(3) show ?thesis by simp
  next
    case (MK_GetPeersRequest q)
    let ?peers = "get_for_info_hash (dht_peer_store s) (gp_info_hash q) (default_want (gp_want q) addr)"
    obtain ns ns6 s1 s2 tok where s1: "generate_compact_nodes_both ops (gp_info_hash q) (default_want (gp_want q) addr) (env_now env) s = Inr (ns, ns6)"
      "mark_query_from env (gp_id q) addr s = Inr s1" and t: "new_token env (gp_id q) addr s1 = (s2, tok)"
      and "respond msg addr ((own_response ops s2)\<lparr>resp_nodes := ns, resp_nodes6 := ns6,
        resp_values := Some ?peers, resp_token := Some tok\<rparr>) s2 = (s', res)"
      using r MK_GetPeersRequest
      by (auto simp: on_received_message_def query_handlers and_then_eq_Inr Let_def case_prod_beta prod_eq_iff)
    with reply_keeps [of s2 s "(own_response ops s2)\<lparr>resp_nodes := ns, resp_nodes6 := ns6, resp_values := Some ?peers,
        resp_token := Some tok\<rparr>" msg addr] mark [OF s1(2)] new_token_known [OF t] new_token_worker [OF t]
      nodes_both_claims [OF ok s1(1)] show ?thesis by (simp add: claims_fields)
  next
    case (MK_Bep44GetRequest q)
    then obtain ns ns6 s1 s2 tok where s1: "generate_compact_nodes_both ops (bg_target q) Want_Both (env_now env) s = Inr (ns, ns6)"
      "mark_query_from env (bg_id q) addr s = Inr s1" and t: "new_token env (bg_id q) addr s1 = (s2, tok)"
      and "respond msg addr ((own_response ops s2)\<lparr>resp_nodes := ns, resp_nodes6 := ns6, resp_token := Some tok\<rparr>) s2 = (s', res)"
      using r by (auto simp: on_received_message_def query_handlers and_then_eq_Inr Let_def case_prod_beta prod_eq_iff)
    with reply_keeps [of s2 s "(own_response ops s2)\<lparr>resp_nodes := ns, resp_nodes6 := ns6, resp_token := Some tok\<rparr>" msg addr]
      mark [OF s1(2)] new_token_known [OF t] new_token_worker [OF t] nodes_both_claims [OF ok s1(1)] show ?thesis
      by (simp add: claims_fields)
  next
    case (MK_Response q)
    with r have "s' = fst (on_answer msg addr (ROE_Response q) s)" by (auto simp: on_received_message_def)
    then show ?thesis by (simp add: on_answer_keeps)
  next
    case (MK_Error q)
    with r have "s' = fst (on_answer msg addr (ROE_Error q) s)" by (auto simp: on_received_message_def)
    then show ?thesis by (simp add: on_answer_keeps)
  qed
qed

text \<open>What a message can put into a channel: the answer it is, to a request to its sender.\<close>

lemma message_completes:
  assumes ok: "stores_ok ops s" and r: "on_received_message ops env msg addr s = Inr (s', res)"
    and c: "completed s' ch = Some v" and new: "completed s ch \<noteq> Some v"
  shows "\<exists>tid roe. inflight s (tid, addr) = Some ch \<and> v = Inr roe
    \<and> (\<forall>r. roe = ROE_Response r \<longrightarrow> msg_kind msg = MK_Response r)"
proof (cases "\<exists>roe. on_received_message ops env msg addr s = Inr (on_answer msg addr roe s)
    \<and> (\<forall>r. roe = ROE_Response r \<longrightarrow> msg_kind msg = MK_Response r)")
  case True
  then obtain roe where "on_answer msg addr roe s = (s', res)" "\<forall>r. roe = ROE_Response r \<longrightarrow> msg_kind msg = MK_Response r"
    using r by auto
  with c new show ?thesis by (auto simp: on_answer_def split: option.splits if_splits)
next
  case False
  then have "\<forall>e. msg_kind msg \<noteq> MK_Error e" "\<forall>r. msg_kind msg \<noteq> MK_Response r"
    by (auto simp: on_received_message_def)
  from query_answered [OF ok this, of addr env] r obtain s0 resp where
    "(s', res) = respond msg addr resp s0" "same_requests s s0" by (auto simp: answers_def)
  then have "completed s' = completed s" by (auto simp: respond_eq same_requests_def split: if_splits)
  with c new show ?thesis by simp
qed

end

end
