(* ===== verification/Network_Props.thy ===== *)
theory Network_Props
  imports Network
begin

text \<open>
  The invariant of a network, and what follows for its runs: answers of a node have its identifier,
  and what nodes know of each other comes from their tables at the start or from strangers.
\<close>

section \<open>The invariant\<close>

text \<open>
  \<open>ids\<close> are the identifiers of the nodes by address, \<open>K\<close> the pairs that may be known. A response
  from an address is good if it has the identifier of the node there and claims only pairs of \<open>K\<close>.
\<close>

definition answer_ok :: "(socket_addr \<rightharpoonup> 'id) \<Rightarrow> ('id \<times> socket_addr) set \<Rightarrow> socket_addr \<Rightarrow> 'id response \<Rightarrow> bool" where
  "answer_ok ids K b r \<longleftrightarrow> (\<forall>i. ids b = Some i \<longrightarrow> resp_id r = i) \<and> claims r \<subseteq> K"

definition channels_ok :: "(socket_addr \<rightharpoonup> 'id) \<Rightarrow> ('id \<times> socket_addr) set \<Rightarrow> 'id dht_system \<Rightarrow> bool" where
  "channels_ok ids K y \<longleftrightarrow> (\<forall>ch t b r. waiting y ch = Some (t, b)
     \<and> completed (node_state y) ch = Some (Inr (ROE_Response r)) \<longrightarrow> answer_ok ids K b r)"

definition queue_ok :: "('id \<times> socket_addr) set \<Rightarrow> 'id dht_state \<Rightarrow> bool" where
  "queue_ok K s \<longleftrightarrow> (\<forall>m \<in> set (worker_queue s). kind_claims (msg_kind (wsr_message m)) \<subseteq> K)"

definition node_ok ::
    "('id::linorder) id20_ops \<Rightarrow> (socket_addr \<rightharpoonup> 'id) \<Rightarrow> ('id \<times> socket_addr) set \<Rightarrow> 'id dht_system \<Rightarrow> bool" where
  "node_ok ops ids K y \<longleftrightarrow> dht_inv ops y \<and> state_typed (node_state y) \<and> known (node_state y) \<subseteq> K
     \<and> queue_ok K (node_state y) \<and> channels_ok ids K y"

definition packet_ok ::
    "'id wire \<Rightarrow> (socket_addr \<rightharpoonup> 'id) \<Rightarrow> ('id \<times> socket_addr) set \<Rightarrow> socket_addr \<Rightarrow> bytes \<Rightarrow> bool" where
  "packet_ok w ids K src bs \<longleftrightarrow> plain src
     \<and> (\<forall>msg r. reader_step w bs = Some msg \<and> msg_kind msg = MK_Response r \<longrightarrow> answer_ok ids K src r)"

definition net_inv ::
    "('id::linorder) id20_ops \<Rightarrow> 'id wire \<Rightarrow> (socket_addr \<rightharpoonup> 'id) \<Rightarrow> ('id \<times> socket_addr) set \<Rightarrow> 'id network \<Rightarrow> bool" where
  "net_inv ops w ids K net \<longleftrightarrow> (\<forall>a. map_option (\<lambda>y. dht_id (node_state y)) (net_nodes net a) = ids a)
     \<and> (\<forall>a y. net_nodes net a = Some y \<longrightarrow> plain a \<and> node_ok ops ids K y)
     \<and> (\<forall>(src, dst, bs) \<in> set (packets net). packet_ok w ids K src bs)
     \<and> (\<forall>(a, b, r) \<in> set (results net). answer_ok ids K b r)"

text \<open>A bencoding is no proper prefix of another: a truncated datagram cannot be decoded.\<close>

definition prefix_free :: "'id wire \<Rightarrow> bool" where
  "prefix_free w \<longleftrightarrow> (\<forall>v n. n < length (w_bencode w v) \<longrightarrow> w_bdecode w (take n (w_bencode w v)) = None)"

text \<open>A stranger's datagram, if a node reads a response from it, claims only pairs of \<open>K\<close>.\<close>

fun stranger_ok :: "'id wire \<Rightarrow> ('id \<times> socket_addr) set \<Rightarrow> 'id net_event \<Rightarrow> bool" where
  "stranger_ok w K (NetStranger src dst bs) \<longleftrightarrow> plain src
     \<and> (case reader_step w bs of Some msg \<Rightarrow> kind_claims (msg_kind msg) \<subseteq> K | None \<Rightarrow> True)"
| "stranger_ok w K _ \<longleftrightarrow> True"

section \<open>One node\<close>

lemma keeps_ok:
  assumes "node_ok ops ids K y" and "keeps (node_state y) (node_state y')"
    and "dht_inv ops y'" and "state_typed (node_state y')" and "channels_ok ids K y'"
  shows "node_ok ops ids K y'"
  using assms by (fastforce simp: node_ok_def keeps_def queue_ok_def)

lemma request_claims: "kind_claims (msg_kind (snd (snd (create_request req addr s)))) = {}"
  by (cases req) (simp_all add: create_request_def Let_def)

context id20_api
begin

lemma own_event_keeps:
  assumes inv: "dht_inv ops y" and e: "own_event e" and st: "dht_step ops e y = Inr y'"
  shows "keeps (node_state y) (node_state y')"
proof (cases e)
  case (EvRequest req addr)
  have "node_state y' = fst (request_start req addr (node_state y))"
    using st by (auto simp: EvRequest split: prod.splits sum.splits)
  then show ?thesis using request_claims [of req addr "node_state y"]
    by (auto simp: keeps_def request_start_eq Let_def)
next
  case (EvAnnounce req addr)
  then show ?thesis using st request_claims [of req addr "node_state y"]
    by (auto simp: keeps_def case_prod_beta Let_def worker_send_def created split: if_splits)
next
  case (EvSendError tid addr err)
  then show ?thesis using st by (auto simp: keeps_def on_send_error_def split: option.splits)
next
  case (EvCollect now)
  then show ?thesis using st by (auto simp: keeps_def and_then_eq_Inr)
next
  case (EvMark ev i addr)
  let ?t = "get_table_for_addr addr (node_state y)"
  from st obtain t' r where t': "rt_mark ev i ?t = Inr (t', r)"
    "node_state y' = set_table_for_addr addr t' (node_state y)" by (auto simp: EvMark and_then_eq_Inr)
  have "rt_inv ops ?t" using inv get_table_ok by (auto simp: dht_inv_def)
  from mark_pairs [OF this t'(1)] have "known (node_state y') \<subseteq> known (node_state y)"
    unfolding t'(2) by (intro known_set_table) (simp_all add: table_known)
  then show ?thesis by (simp add: keeps_def t'(2))
qed (use e st in \<open>auto simp: keeps_def split: if_splits\<close>)

lemma own_event_channels:
  assumes inv: "dht_inv ops y" and e: "own_event e" and st: "dht_step ops e y = Inr y'"
    and c: "waiting y' ch = Some k" "completed (node_state y') ch = Some (Inr v)"
  shows "waiting y ch = Some k \<and> completed (node_state y) ch = Some (Inr v)"
proof (cases e)
  case (EvRequest req addr)
  have "completed (node_state y) (next_channel (node_state y)) = None"
    using inv by (metis (no_types, lifting) dht_inv_def less_irrefl requests_ok_def)
  with c st show ?thesis by (auto simp: EvRequest request_start_eq Let_def split: if_splits)
next
  case (EvAnnounce req addr)
  then show ?thesis using st c by (auto simp: case_prod_beta Let_def worker_send_def created split: if_splits)
next
  case (EvSendError tid addr err)
  then show ?thesis using st c by (auto simp: on_send_error_def split: option.splits if_splits)
next
  case (EvCollect now)
  then show ?thesis using st c by (auto simp: and_then_eq_Inr)
next
  case (EvMark ev i addr)
  then show ?thesis using st c by (auto simp: and_then_eq_Inr)
qed (use e st c in \<open>auto split: if_splits\<close>)

lemma own_event_ok:
  assumes ok: "node_ok ops ids K y" and e: "own_event e"
  shows "\<exists>y'. dht_step ops e y = Inr y' \<and> node_ok ops ids K y' \<and> dht_id (node_state y') = dht_id (node_state y)"
proof -
  have inv: "dht_inv ops y" using ok by (simp add: node_ok_def)
  obtain y' where y': "dht_step ops e y = Inr y'" "dht_inv ops y'" using dht_step_ok [OF inv] by blast
  have k: "keeps (node_state y) (node_state y')" by (rule own_event_keeps [OF inv e y'(1)])
  have "event_typed e" using e by (cases e) simp_all
  then have "state_typed (node_state y')" using event_keeps_typed [OF inv _ _ y'(1)] ok by (simp add: node_ok_def)
  moreover have "channels_ok ids K y'"
    using ok own_event_channels [OF inv e y'(1)] by (fastforce simp: node_ok_def channels_ok_def)
  ultimately have "node_ok ops ids K y'" by (rule keeps_ok [OF ok k y'(2)])
  with y'(1) k show ?thesis by (auto simp: keeps_def)
qed

end

text \<open>The end of a wait, and the response it ends with.\<close>

context id20_api
begin

lemma finish_keeps_ok:
  assumes ok: "node_ok ops ids K y"
  shows "\<exists>y'. dht_step ops (EvFinish ch e) y = Inr y' \<and> node_ok ops ids K y' \<and> dht_id (node_state y') = dht_id (node_state y)"
proof -
  have inv: "dht_inv ops y" using ok by (simp add: node_ok_def)
  obtain y' where y': "dht_step ops (EvFinish ch e) y = Inr y'" "dht_inv ops y'" using dht_step_ok [OF inv] by blast
  have "state_typed (node_state y')" using event_keeps_typed [OF inv _ _ y'(1)] ok by (simp add: node_ok_def)
  moreover have same: "completed (node_state y') = completed (node_state y)" "known (node_state y') = known (node_state y)"
    "worker_queue (node_state y') = worker_queue (node_state y)" "dht_id (node_state y') = dht_id (node_state y)"
    using y'(1) by (cases e; auto split: option.splits if_splits)+
  moreover have "waiting y c = Some k" if "waiting y' c = Some k" for c k
    using y'(1) that by (auto split: option.splits if_splits)
  then have "channels_ok ids K y'" using ok by (fastforce simp: node_ok_def channels_ok_def same(1))
  ultimately have "node_ok ops ids K y'" using ok y'(2) by (simp add: node_ok_def queue_ok_def)
  with y'(1) same(4) show ?thesis by blast
qed

end

lemma endedD:
  "(b, r) \<in> set (ended ch e y) \<Longrightarrow>
    \<exists>t. waiting y ch = Some (t, b) \<and> completed (node_state y) ch = Some (Inr (ROE_Response r))"
  by (auto simp: ended_def dest!: sym [of "Some _"] split: if_splits wait_end.splits option.splits sum.splits response_or_error.splits)

lemma ended_ok: "channels_ok ids K y \<Longrightarrow> (b, r) \<in> set (ended ch e y) \<Longrightarrow> answer_ok ids K b r"
  using endedD [of b r ch e y] unfolding channels_ok_def by blast

text \<open>Asking a node that an answer listed.\<close>

lemma askable_claims: "j < length (askable b r) \<Longrightarrow> pair_of (askable b r ! j) \<in> claims r"
  using nth_mem [of j "askable b r"] by (auto simp: askable_def claims_def)

context id20_api
begin

lemma find_nodes_start_effect:
  assumes "stores_ok ops s"
  shows "\<exists>t. find_nodes_start ops env i addr s = Inr (set_table_for_addr addr t s) \<and> rt_inv ops t
    \<and> table_pairs t \<subseteq> insert (i, addr) (table_pairs (get_table_for_addr addr s))"
proof -
  note inv = get_table_ok [OF assms, of addr]
  obtain t r where t: "rt_add_node ops (ce_clk env) (ce_add_now env) (get_table_for_addr addr s) i addr = Inr (t, r)"
    "rt_inv ops t" using rt_inv_add [OF inv] by blast
  obtain t' where t': "rt_mark (Requested (ce_mark_now env)) i t = Inr (t', rt_lookup t i \<noteq> None)" "rt_inv ops t'"
    using rt_inv_mark [OF t(2)] by blast
  then have m: "rt_mark_outgoing_request t i (ce_mark_now env) = Inr (t', rt_lookup t i \<noteq> None)" by simp
  from add_pairs [OF inv t(1)] mark_pairs [OF t(2) t'(1)] t t'(2) m show ?thesis
    by (cases r) (auto simp: find_nodes_start_def)
qed

lemma ask_keeps_ok:
  assumes ok: "node_ok ops ids K y" and k: "(i, addr) \<in> K" "plain addr"
  shows "\<exists>y'. at_state (find_nodes_start ops env i addr) y = Inr y' \<and> node_ok ops ids K y'
    \<and> dht_id (node_state y') = dht_id (node_state y)"
proof -
  let ?s = "node_state y"
  have inv: "dht_inv ops y" "stores_ok ops ?s" using ok by (simp_all add: node_ok_def dht_inv_def)
  obtain t where t: "find_nodes_start ops env i addr ?s = Inr (set_table_for_addr addr t ?s)" "rt_inv ops t"
    "table_pairs t \<subseteq> insert (i, addr) (table_pairs (get_table_for_addr addr ?s))"
    using find_nodes_start_effect [OF inv(2)] by blast
  let ?y = "y\<lparr>node_state := set_table_for_addr addr t ?s\<rparr>"
  have addrs: "node_addr ` set (rt_nodes x) = snd ` table_pairs x" for x :: "'id routing_table"
    by (simp add: table_pairs_def image_image)
  have "state_typed (set_table_for_addr addr t ?s)"
    by (rule table_event_typed [OF _ get_table_ok [OF inv(2), of addr], where A = "{addr}"])
      (use ok k(2) t(3) in \<open>auto simp: node_ok_def addrs\<close>)
  moreover have "known (set_table_for_addr addr t ?s) \<subseteq> K"
    by (rule known_set_table) (use ok k(1) t(3) table_known [of addr ?s] in \<open>auto simp: node_ok_def\<close>)
  ultimately have "node_ok ops ids K ?y"
    using ok table_step_ok [OF inv(1) t(2)] by (simp add: node_ok_def queue_ok_def channels_ok_def)
  with t(1) show ?thesis by (simp add: at_state_def)
qed

text \<open>Receiving a datagram.\<close>

lemma deliver_keeps_ok:
  assumes ok: "node_ok ops ids K y" and p: "packet_ok w ids K src bs"
  shows "\<exists>y'. at_state (on_datagram ops w env bs src) y = Inr y' \<and> node_ok ops ids K y'
    \<and> dht_id (node_state y') = dht_id (node_state y)"
proof (cases "reader_step w bs")
  case None
  then show ?thesis using ok by (simp add: at_state_def on_datagram_def)
next
  case (Some msg)
  have inv: "dht_inv ops y" "stores_ok ops (node_state y)" "requests_ok y" and t: "state_typed (node_state y)"
    using ok by (simp_all add: node_ok_def dht_inv_def)
  obtain s res where r: "on_received_message ops env msg src (node_state y) = Inr (s, res)"
    "dht_inv ops (y\<lparr>node_state := s\<rparr>)" using message_ok [OF inv(1)] by blast
  have k: "keeps (node_state y) s" by (rule message_keeps [OF inv(2) r(1)])
  have "state_typed s" using message_typed [OF inv(2) t _ r(1)] p by (simp add: packet_ok_def)
  moreover have "channels_ok ids K (y\<lparr>node_state := s\<rparr>)"
    unfolding channels_ok_def
  proof (intro allI impI, elim conjE)
    fix ch tid b v
    assume c: "waiting (y\<lparr>node_state := s\<rparr>) ch = Some (tid, b)"
      "completed (node_state (y\<lparr>node_state := s\<rparr>)) ch = Some (Inr (ROE_Response v))"
    show "answer_ok ids K b v"
    proof (cases "completed (node_state y) ch = Some (Inr (ROE_Response v))")
      case True
      with c(1) ok show ?thesis by (auto simp: node_ok_def channels_ok_def)
    next
      case False
      with message_completes [OF inv(2) r(1), of ch "Inr (ROE_Response v)"] c(2) obtain tid' where
        "inflight (node_state y) (tid', src) = Some ch" "msg_kind msg = MK_Response v" by auto
      moreover from this(1) inv(3) c(1) have "b = src" unfolding requests_ok_def by fastforce
      ultimately show ?thesis using p Some by (auto simp: packet_ok_def)
    qed
  qed
  ultimately have "node_ok ops ids K (y\<lparr>node_state := s\<rparr>)"
    by (intro keeps_ok [OF ok]) (use k r(2) in simp_all)
  with r(1) k show ?thesis by (auto simp: at_state_def on_datagram_def Some keeps_def)
qed

end

text \<open>Sending a datagram.\<close>

lemma truncated_unread:
  assumes "prefix_free w" and "RECV_BUFFER < length (datagram_of w m)"
  shows "reader_step w (datagram_of w m) = None"
proof -
  obtain v where "datagram_of w m = w_bencode w v" by (auto simp: datagram_of_def serialize_message_def)
  then have "w_bdecode w (take RECV_BUFFER (datagram_of w m)) = None" using assms by (simp add: prefix_free_def)
  then show ?thesis by (simp add: reader_step_def deserialize_message_def)
qed

lemma message_read:
  assumes "wire_ok w" and "prefix_free w" and "kind_ok (msg_kind m)" and "\<And>a. msg_ip m = Some a \<Longrightarrow> plain a"
    and "reader_step w (datagram_of w m) = Some msg"
  shows "msg = m"
proof (cases "length (datagram_of w m) \<le> RECV_BUFFER")
  case True
  from reader_reads [OF assms(1,3) _ True] assms(4,5) show ?thesis by simp
next
  case False
  with truncated_unread [OF assms(2), of m] assms(5) show ?thesis by simp
qed

lemma typed_message_read:
  assumes "wire_ok w" and "prefix_free w" and "send_typed i m" and "reader_step w (datagram_of w (wsr_message m)) = Some msg"
  shows "msg = wsr_message m"
  by (rule message_read [OF assms(1,2) _ _ assms(4)]) (use assms(3) in \<open>auto simp: send_typed_def split: option.splits\<close>)

lemma queued_packet_ok:
  assumes w: "wire_ok w" "prefix_free w" and a: "plain a" "ids a = Some i" and m: "send_typed i m"
    and c: "kind_claims (msg_kind (wsr_message m)) \<subseteq> K"
  shows "packet_ok w ids K a (datagram_of w (wsr_message m))"
  unfolding packet_ok_def answer_ok_def
proof (intro conjI allI impI; (elim conjE)?)
  fix msg r j assume r: "reader_step w (datagram_of w (wsr_message m)) = Some msg" "msg_kind msg = MK_Response r"
  then have k: "msg_kind (wsr_message m) = MK_Response r" using typed_message_read [OF w m] by simp
  then show "claims r \<subseteq> K" using c by simp
  assume "ids a = Some j"
  then show "resp_id r = j" using a(2) m k by (auto simp: send_typed_def split: option.splits)
qed (use a in simp_all)

context id20_api
begin

lemma write_keeps_ok:
  assumes ok: "node_ok ops ids K y" and wr: "writer_step w sent (node_state y) = Some ((bs, dst), s)"
  shows "node_ok ops ids K (y\<lparr>node_state := s\<rparr>) \<and> dht_id s = dht_id (node_state y)
    \<and> (\<exists>m \<in> set (worker_queue (node_state y)). bs = datagram_of w (wsr_message m))"
proof -
  obtain m rest where q: "worker_queue (node_state y) = m # rest" "bs = datagram_of w (wsr_message m)"
    using wr by (auto simp: writer_step_def writer_take_def split: list.splits)
  let ?s1 = "(node_state y)\<lparr>worker_queue := rest\<rparr>"
  have ok1: "node_ok ops ids K (y\<lparr>node_state := ?s1\<rparr>)"
    using ok q(1) by (auto simp: node_ok_def dht_inv_def requests_ok_def state_typed_def queue_ok_def channels_ok_def)
  have "node_ok ops ids K (y\<lparr>node_state := on_send_error tid addr err ?s1\<rparr>)" for tid addr err
    using own_event_ok [OF ok1, of "EvSendError tid addr err"] by simp
  moreover have "s = ?s1 \<or> (\<exists>tid addr err. s = on_send_error tid addr err ?s1)"
    using wr q(1) by (auto simp: writer_step_def writer_take_def writer_sent_def split: sum.splits option.splits)
  moreover have "dht_id (on_send_error tid addr err ?s1) = dht_id (node_state y)" for tid addr err
    by (simp add: on_send_error_def split: option.split)
  ultimately show ?thesis using ok1 q by auto
qed

end

section \<open>The whole network\<close>

lemma net_inv_node:
  assumes "net_inv ops w ids K net" and "net_nodes net a = Some y"
  shows "node_ok ops ids K y" and "plain a" and "ids a = Some (dht_id (node_state y))"
  using assms by (auto simp: net_inv_def) (metis option.simps(9))

lemma net_inv_set:
  assumes "net_inv ops w ids K net" and "net_nodes net a = Some y" and "node_ok ops ids K y'"
    and "dht_id (node_state y') = dht_id (node_state y)"
  shows "net_inv ops w ids K (net\<lparr>net_nodes := (net_nodes net)(a \<mapsto> y')\<rparr>)"
  using assms net_inv_node [OF assms(1,2)] by (auto simp: net_inv_def)

lemma at_node_ok:
  assumes inv: "net_inv ops w ids K net"
    and f: "\<And>y. net_nodes net a = Some y \<Longrightarrow> \<exists>y'. f y = Inr y' \<and> node_ok ops ids K y' \<and> dht_id (node_state y') = dht_id (node_state y)"
  shows "\<exists>net'. at_node a f net = Inr net' \<and> net_inv ops w ids K net' \<and> packets net' = packets net \<and> results net' = results net"
proof (cases "net_nodes net a")
  case (Some y)
  then obtain y' where "f y = Inr y'" "node_ok ops ids K y'" "dht_id (node_state y') = dht_id (node_state y)"
    using f by blast
  with Some net_inv_set [OF inv Some] show ?thesis by (simp add: at_node_def)
qed (use inv in \<open>simp add: at_node_def\<close>)

lemma net_inv_results:
  "net_inv ops w ids K net \<Longrightarrow> \<forall>(a, b, r) \<in> set rs. answer_ok ids K b r \<Longrightarrow> net_inv ops w ids K (net\<lparr>results := results net @ rs\<rparr>)"
  by (auto simp: net_inv_def)

lemma net_inv_packets:
  "net_inv ops w ids K net \<Longrightarrow> \<forall>(src, dst, bs) \<in> set ps. packet_ok w ids K src bs \<Longrightarrow>
    net_inv ops w ids K (net\<lparr>packets := packets net @ ps\<rparr>)"
  by (auto simp: net_inv_def)

context id20_api
begin

lemma net_step_ok:
  assumes w: "wire_ok w" "prefix_free w" and K: "\<forall>(i, a) \<in> K. plain a" and inv: "net_inv ops w ids K net"
    and s: "stranger_ok w K ev"
  shows "\<exists>net'. net_step ops w ev net = Inr net' \<and> net_inv ops w ids K net'"
proof (cases ev)
  case (NetLocal a e)
  then show ?thesis
    using at_node_ok [OF inv, of a "dht_step ops e"] own_event_ok [OF net_inv_node(1) [OF inv]] inv by auto
next
  case (NetFinish a ch e)
  obtain net' where net': "at_node a (dht_step ops (EvFinish ch e)) net = Inr net'" "net_inv ops w ids K net'"
    "results net' = results net"
    using at_node_ok [OF inv, of a "dht_step ops (EvFinish ch e)"] finish_keeps_ok [OF net_inv_node(1) [OF inv]] by metis
  have "answer_ok ids K b r" if "net_nodes net a = Some y" "(b, r) \<in> set (ended ch e y)" for y b r
    using net_inv_node(1) [OF inv that(1)] ended_ok [OF _ that(2)] by (simp add: node_ok_def)
  then have "\<forall>(a', b, r) \<in> set (case net_nodes net a of Some y \<Rightarrow> map (\<lambda>(b, r). (a, b, r)) (ended ch e y) | None \<Rightarrow> []).
      answer_ok ids K b r"
    by (cases "net_nodes net a") auto
  from net_inv_results [OF net'(2) this] net'(1,3) NetFinish show ?thesis by simp
next
  case (NetAsk k j env)
  show ?thesis
  proof (cases "k < length (results net)")
    case True
    obtain a b r where r: "results net ! k = (a, b, r)" using prod_cases3 by blast
    with inv True have c: "claims r \<subseteq> K" unfolding net_inv_def answer_ok_def by (metis (no_types, lifting) case_prodD nth_mem)
    show ?thesis
    proof (cases "j < length (askable b r)")
      case True
      let ?n = "askable b r ! j"
      have n: "(nid ?n, naddr ?n) \<in> K" "plain (naddr ?n)" using askable_claims [OF True] c K by (auto simp: pair_of_def)
      from at_node_ok [OF inv, of a "at_state (find_nodes_start ops env (nid ?n) (naddr ?n))"]
        ask_keeps_ok [OF net_inv_node(1) [OF inv] n] NetAsk r True \<open>k < length (results net)\<close>
      show ?thesis by auto
    qed (use NetAsk r inv in simp)
  qed (use NetAsk inv in simp)
next
  case (NetWrite a sent)
  show ?thesis
  proof (cases "net_nodes net a")
    case (Some y)
    note ok = net_inv_node [OF inv Some]
    show ?thesis
    proof (cases "writer_step w sent (node_state y)")
      case wr: (Some x)
      obtain bs dst s where x: "x = ((bs, dst), s)" by (metis surj_pair)
      from write_keeps_ok [OF ok(1) wr [unfolded x]] obtain m where
        m: "node_ok ops ids K (y\<lparr>node_state := s\<rparr>)" "dht_id s = dht_id (node_state y)"
          "m \<in> set (worker_queue (node_state y))" "bs = datagram_of w (wsr_message m)" by blast
      have "packet_ok w ids K a bs"
        unfolding m(4) by (rule queued_packet_ok [OF w ok(2), of ids, OF ok(3)])
          (use ok(1) m(3) in \<open>auto simp: node_ok_def state_typed_def queue_ok_def\<close>)
      then have "\<forall>(src, dst, bs) \<in> set (case sent of Inr _ \<Rightarrow> [(a, dst, bs)] | Inl _ \<Rightarrow> []). packet_ok w ids K src bs"
        by (auto split: sum.split)
      from net_inv_packets [OF net_inv_set [OF inv Some m(1)] this] m(2) show ?thesis
        by (simp add: NetWrite Some wr x)
    qed (use NetWrite Some inv in simp)
  qed (use NetWrite inv in simp)
next
  case (NetDeliver k env)
  show ?thesis
  proof (cases "k < length (packets net)")
    case True
    obtain src dst bs where p: "packets net ! k = (src, dst, bs)" using prod_cases3 by blast
    with inv True have "packet_ok w ids K src bs" unfolding net_inv_def by (metis (no_types, lifting) case_prodD nth_mem)
    from at_node_ok [OF inv, of dst "at_state (on_datagram ops w env bs src)"]
      deliver_keeps_ok [OF net_inv_node(1) [OF inv] this] NetDeliver True p show ?thesis by auto
  qed (use NetDeliver inv in simp)
next
  case (NetStranger src dst bs)
  show ?thesis
  proof (cases "net_nodes net src")
    case None
    then have "ids src = None" using inv unfolding net_inv_def by (metis option.simps(8))
    then have "packet_ok w ids K src bs"
      using s NetStranger by (auto simp: packet_ok_def answer_ok_def split: option.splits)
    with net_inv_packets [OF inv, of "[(src, dst, bs)]"] None NetStranger show ?thesis by simp
  qed (use NetStranger inv in simp)
qed

lemma net_run_ok:
  "wire_ok w \<Longrightarrow> prefix_free w \<Longrightarrow> \<forall>(i, a) \<in> K. plain a \<Longrightarrow> net_inv ops w ids K net \<Longrightarrow>
    \<forall>ev \<in> set evs. stranger_ok w K ev \<Longrightarrow>
    \<exists>net'. run_ops (net_step ops w) evs net = Inr net' \<and> net_inv ops w ids K net'"
proof (induction evs arbitrary: net)
  case (Cons ev evs)
  then obtain net1 where "net_step ops w ev net = Inr net1" "net_inv ops w ids K net1"
    using net_step_ok [of w K ids net ev] by auto
  with Cons show ?case by simp
qed simp

end

section \<open>Where knowledge comes from\<close>

text \<open>A network at its start: nodes with tables and stores of any kind, and nothing in flight.\<close>

definition booted :: "('id::linorder) id20_ops \<Rightarrow> (socket_addr \<rightharpoonup> 'id) \<Rightarrow> 'id network \<Rightarrow> bool" where
  "booted ops ids net \<longleftrightarrow> packets net = [] \<and> results net = []
     \<and> (\<forall>a. map_option (\<lambda>y. dht_id (node_state y)) (net_nodes net a) = ids a)
     \<and> (\<forall>a y. net_nodes net a = Some y \<longrightarrow> plain a \<and> stores_ok ops (node_state y) \<and> state_typed (node_state y)
          \<and> waiting y = Map.empty \<and> inflight (node_state y) = Map.empty \<and> completed (node_state y) = Map.empty
          \<and> worker_queue (node_state y) = [])"

definition net_fresh :: "'id id20_ops \<Rightarrow> instant \<Rightarrow> (socket_addr \<rightharpoonup> 'id) \<Rightarrow> 'id network" where
  "net_fresh ops now ids = \<lparr>net_nodes = (\<lambda>a. map_option (\<lambda>i. dht_start ops now i a) (ids a)), packets = [], results = []\<rparr>"

lemma booted_inv:
  assumes "booted ops ids net" and "\<forall>a y. net_nodes net a = Some y \<longrightarrow> known (node_state y) \<subseteq> K"
  shows "net_inv ops w ids K net"
  using assms by (auto simp: booted_def net_inv_def node_ok_def dht_inv_def requests_ok_def queue_ok_def channels_ok_def)

lemma fresh_node_fields:
  "dht_id (node_state (dht_start ops now i a)) = i" "waiting (dht_start ops now i a) = Map.empty"
  "inflight (node_state (dht_start ops now i a)) = Map.empty" "completed (node_state (dht_start ops now i a)) = Map.empty"
  "worker_queue (node_state (dht_start ops now i a)) = []"
  by (simp_all add: dht_start_def dht_new_internal_def)

context id20_api
begin

lemma fresh_booted: "\<forall>a \<in> dom ids. plain a \<Longrightarrow> booted ops ids (net_fresh ops now ids)"
  using dht_start_ok start_typed
  by (auto simp: booted_def net_fresh_def fresh_node_fields dht_inv_def option.map_comp comp_def option.map_ident)

lemma fresh_knows_nothing: "net_nodes (net_fresh ops now ids) a = Some y \<Longrightarrow> known (node_state y) = {}"
  by (auto simp: net_fresh_def known_def table_pairs_def dht_start_def dht_new_internal_def rt_inv_new)

end

text \<open>
  C13. In a network of nodes whose datagrams are lost, repeated and reordered, and of strangers, no
  events make a node panic; every response that a request to a node returns has that node's identifier;
  and whatever the nodes know of each other, in their tables and in the responses they received, was in
  a table at the start or is claimed by a stranger. (\<open>K\<close> is any set of pairs with these two.)
\<close>

theorem network_knowledge_has_a_source:
  assumes "id20_api ops" and "wire_ok w" and "prefix_free w" and "booted ops ids net"
    and "\<forall>a y. net_nodes net a = Some y \<longrightarrow> known (node_state y) \<subseteq> K" and "\<forall>(i, a) \<in> K. plain a"
    and "\<forall>ev \<in> set evs. stranger_ok w K ev"
  shows "\<exists>net'. run_ops (net_step ops w) evs net = Inr net'
    \<and> (\<forall>a y. net_nodes net' a = Some y \<longrightarrow> known (node_state y) \<subseteq> K)
    \<and> (\<forall>(a, b, r) \<in> set (results net'). (\<forall>i. ids b = Some i \<longrightarrow> resp_id r = i) \<and> claims r \<subseteq> K)"
proof -
  obtain net' where net': "run_ops (net_step ops w) evs net = Inr net'" "net_inv ops w ids K net'"
    using id20_api.net_run_ok [OF assms(1-3,6) booted_inv [OF assms(4,5)] assms(7)] by blast
  then have "\<forall>a y. net_nodes net' a = Some y \<longrightarrow> known (node_state y) \<subseteq> K"
    "\<forall>(a, b, r) \<in> set (results net'). (\<forall>i. ids b = Some i \<longrightarrow> resp_id r = i) \<and> claims r \<subseteq> K"
    by (auto simp: net_inv_def node_ok_def answer_ok_def)
  with net'(1) show ?thesis by blast
qed

text \<open>A lone node, and a stranger that answers a ping with a list of nodes that nobody asked for.\<close>

lemma compact_prefix_free: "prefix_free compact_wire"
  by (simp add: prefix_free_def compact_wire_def truncated_not_decoded)

definition lone_ids :: "socket_addr \<rightharpoonup> 160 word" where
  "lone_ids = [sample_addr \<mapsto> 7]"

definition stranger_addr :: socket_addr where
  "stranger_addr = V4 \<lparr>ip4 = 0x08080808, port4 = 53\<rparr>"

definition stranger_message :: "160 word message" where
  "stranger_message = \<lparr>msg_kind = MK_Response ((default_response id20_word)\<lparr>resp_id := 1,
       resp_nodes := Some [\<lparr>nid = 9, naddr = \<lparr>ip4 = 0x0a000001, port4 = 1\<rparr>\<rparr>]\<rparr>),
     transaction_id = tid_bytes 0, version = None, msg_ip = None\<rparr>"

definition stranger_run :: "160 word net_event list" where
  "stranger_run = [NetLocal sample_addr (EvRequest (FindNode 3) stranger_addr), NetWrite sample_addr (Inr ()),
     NetStranger stranger_addr sample_addr (datagram_of compact_wire stranger_message), NetDeliver 1 sample_env,
     NetFinish sample_addr 0 Received,
     NetAsk 0 0 \<lparr>ce_clk = (\<lambda>k. 5), ce_add_now = 5, ce_mark_now = 6\<rparr>]"

lemma stranger_run_ok:
  assumes "ev \<in> set stranger_run"
  shows "stranger_ok compact_wire {(9, V4 \<lparr>ip4 = 0x0a000001, port4 = 1\<rparr>)} ev"
proof -
  have "stranger_ok compact_wire {(9, V4 \<lparr>ip4 = 0x0a000001, port4 = 1\<rparr>)}
      (NetStranger stranger_addr sample_addr (datagram_of compact_wire stranger_message))"
  proof (cases "reader_step compact_wire (datagram_of compact_wire stranger_message)")
    case (Some msg)
    then have "msg = stranger_message"
      by (rule message_read [OF compact_wire_ok compact_prefix_free, rotated 2])
        (simp_all add: stranger_message_def default_response_def fits_i64_def)
    with Some show ?thesis
      by (simp add: stranger_message_def claims_def response_nodes_def pair_of_def as_socketaddr_def
        default_response_def plain_def stranger_addr_def)
  qed (simp add: plain_def stranger_addr_def)
  then show ?thesis using assms by (auto simp: stranger_run_def)
qed

theorem network_knowledge_has_a_source_witness:
  "\<exists>net. run_ops (net_step id20_word compact_wire) stranger_run (net_fresh id20_word 0 lone_ids) = Inr net
    \<and> (\<forall>a y. net_nodes net a = Some y \<longrightarrow> known (node_state y) \<subseteq> {(9, V4 \<lparr>ip4 = 0x0a000001, port4 = 1\<rparr>)})"
proof -
  have "booted id20_word lone_ids (net_fresh id20_word 0 lone_ids)"
    by (rule w20.fresh_booted) (simp add: lone_ids_def plain_def sample_addr_def)
  moreover have "\<forall>a y. net_nodes (net_fresh id20_word 0 lone_ids) a = Some y \<longrightarrow>
      known (node_state y) \<subseteq> {(9, V4 \<lparr>ip4 = 0x0a000001, port4 = 1\<rparr>)}"
    using w20.fresh_knows_nothing [of 0 lone_ids] by simp
  moreover have "\<forall>(i, a) \<in> {(9 :: 160 word, V4 \<lparr>ip4 = 0x0a000001, port4 = 1\<rparr>)}. plain a" by (simp add: plain_def)
  ultimately show ?thesis
    using network_knowledge_has_a_source [OF id20_word_api compact_wire_ok compact_prefix_free, of lone_ids
        "net_fresh id20_word 0 lone_ids" "{(9, V4 \<lparr>ip4 = 0x0a000001, port4 = 1\<rparr>)}" stranger_run] stranger_run_ok
    by blast
qed

text \<open>
  C14. Nodes that start from nothing and meet no strangers never learn of each other: whatever they
  send to each other, in whatever order, all their tables stay empty and every answer lists no nodes.
  Neither a query nor a response adds the node it came from; only the nodes that a response lists are
  added, and no table has any to list.
\<close>

theorem fresh_network_stays_empty:
  assumes "id20_api ops" and "wire_ok w" and "prefix_free w" and "\<forall>a \<in> dom ids. plain a"
    and "\<forall>ev \<in> set evs. \<forall>src dst bs. ev \<noteq> NetStranger src dst bs"
  shows "\<exists>net'. run_ops (net_step ops w) evs (net_fresh ops now ids) = Inr net'
    \<and> (\<forall>a y. net_nodes net' a = Some y \<longrightarrow> rt_nodes (routing_table_v4 (node_state y)) = []
          \<and> rt_nodes (routing_table_v6 (node_state y)) = [])
    \<and> (\<forall>(a, b, r) \<in> set (results net'). response_nodes r = [])"
proof -
  have "stranger_ok w {} ev" if "ev \<in> set evs" for ev using assms(5) that by (cases ev) auto
  then obtain net' where net': "run_ops (net_step ops w) evs (net_fresh ops now ids) = Inr net'" "net_inv ops w ids {} net'"
    using id20_api.net_run_ok [OF assms(1-3) _ booted_inv [OF id20_api.fresh_booted [OF assms(1,4)]], of "{}" now evs]
      id20_api.fresh_knows_nothing [OF assms(1)] by blast
  then have "\<forall>a y. net_nodes net' a = Some y \<longrightarrow> rt_nodes (routing_table_v4 (node_state y)) = []
      \<and> rt_nodes (routing_table_v6 (node_state y)) = []" "\<forall>(a, b, r) \<in> set (results net'). response_nodes r = []"
    by (auto simp: net_inv_def node_ok_def known_def table_pairs_def answer_ok_def claims_def)
  with net'(1) show ?thesis by blast
qed

definition pair_ids :: "socket_addr \<rightharpoonup> 160 word" where
  "pair_ids = [sample_addr \<mapsto> 7, stranger_addr \<mapsto> 9]"

definition pair_run :: "160 word net_event list" where
  "pair_run = [NetLocal sample_addr (EvRequest (FindNode 3) stranger_addr), NetWrite sample_addr (Inr ()),
     NetDeliver 0 sample_env, NetWrite stranger_addr (Inr ()), NetDeliver 1 sample_env,
     NetFinish sample_addr 0 Received, NetAsk 0 0 \<lparr>ce_clk = (\<lambda>k. 5), ce_add_now = 5, ce_mark_now = 6\<rparr>]"

theorem fresh_network_stays_empty_witness:
  "\<exists>net. run_ops (net_step id20_word compact_wire) pair_run (net_fresh id20_word 0 pair_ids) = Inr net
    \<and> (\<forall>a y. net_nodes net a = Some y \<longrightarrow> rt_nodes (routing_table_v4 (node_state y)) = [])"
proof -
  have "\<forall>a \<in> dom pair_ids. plain a"
    by (simp add: pair_ids_def plain_def sample_addr_def stranger_addr_def)
  moreover have "\<forall>ev \<in> set pair_run. \<forall>src dst bs. ev \<noteq> NetStranger src dst bs" by (simp add: pair_run_def)
  ultimately show ?thesis
    using fresh_network_stays_empty [OF id20_word_api compact_wire_ok compact_prefix_free, of pair_ids pair_run 0] by blast
qed

section \<open>Wrong identifiers\<close>

context id20_api
begin

lemma added_is_fresh:
  assumes "rt_inv ops rt" and "rt_add_node ops clk now rt i addr = Inr (t, res)" and "rt_lookup rt i = None" and "res \<noteq> Ignored"
  shows "rt_lookup t i = Some (fresh_node i addr)"
proof -
  have t: "rt_inv ops t" and e: "insert_effect now i addr (mset (rt_nodes rt)) res (mset (rt_nodes t))"
    using rt_inv_add [OF assms(1), of clk now i addr] assms(2) by auto
  have "fresh_node i addr \<in># mset (rt_nodes t)"
    using e assms(3,4) by (cases res) (auto simp: rt_lookup_None)
  moreover have "distinct (map node_id (rt_nodes t))" using rt_inv_iter(2) [OF t] strict_sorted_iff by blast
  ultimately show ?thesis by (simp add: rt_lookup_Some)
qed

lemma asked_and_answered:
  assumes ok: "stores_ok ops s" and new: "rt_lookup (get_table_for_addr addr s) i = None"
    and add: "rt_add_node ops (ce_clk env) (ce_add_now env) (get_table_for_addr addr s) i addr = Inr (t, res)" "res \<noteq> Ignored"
  shows "\<exists>s1 s2. find_nodes_start ops env i addr s = Inr s1 \<and> find_nodes_end env' i addr (Inr answer) s1 = Inr s2
    \<and> rt_lookup (get_table_for_addr addr s2) i
        = Some (mark_response (mark_outgoing_request (fresh_node i addr) (ce_mark_now env)) (ce_mark_now env'))"
proof -
  note inv = get_table_ok [OF ok, of addr]
  have t: "rt_inv ops t" using rt_inv_add [OF inv, of "ce_clk env" "ce_add_now env" i addr] add(1) by auto
  have l: "rt_lookup t i = Some (fresh_node i addr)" by (rule added_is_fresh [OF inv add(1) new add(2)])
  obtain t1 where t1: "rt_mark (Requested (ce_mark_now env)) i t = Inr (t1, True)" "rt_inv ops t1"
    "rt_lookup t1 i = Some (mark_outgoing_request (fresh_node i addr) (ce_mark_now env))"
    using rt_inv_mark [OF t, of "Requested (ce_mark_now env)" i] l by auto
  obtain t2 where t2: "rt_mark (Responded (ce_mark_now env')) i t1 = Inr (t2, True)"
    "rt_lookup t2 i = Some (mark_response (mark_outgoing_request (fresh_node i addr) (ce_mark_now env)) (ce_mark_now env'))"
    using rt_inv_mark [OF t1(2), of "Responded (ce_mark_now env')" i] t1(3) by auto
  have g: "get_table_for_addr addr (set_table_for_addr addr x y) = x" for x and y :: "'id dht_state"
    by (simp add: get_table_for_addr_def set_table_for_addr_def)
  have "find_nodes_start ops env i addr s = Inr (set_table_for_addr addr t1 s)"
    using add t1(1) by (cases res) (simp_all add: find_nodes_start_def)
  moreover have "find_nodes_end env' i addr (Inr answer) (set_table_for_addr addr t1 s)
      = Inr (set_table_for_addr addr t2 (set_table_for_addr addr t1 s))"
    using t2(1) by (simp add: find_nodes_end_def g)
  ultimately show ?thesis using t2(2) by (simp add: g)
qed

end

text \<open>
  C15. The identifier in an answer is not compared with the one that was asked for. A lookup adds a node
  that somebody listed to the table, asks the address, and marks the listed identifier as responding
  whatever answer comes, even an error or a response with another identifier: the entry is good then.
\<close>

theorem wrong_identifier_becomes_good:
  assumes "id20_api ops" and "stores_ok ops s" and "rt_lookup (get_table_for_addr addr s) i = None"
    and "rt_add_node ops (ce_clk env) (ce_add_now env) (get_table_for_addr addr s) i addr = Inr (t, res)" and "res \<noteq> Ignored"
    and "now - ce_mark_now env' < INACTIVITY_TIMEOUT"
  shows "\<exists>s1 s2 n. find_nodes_start ops env i addr s = Inr s1 \<and> find_nodes_end env' i addr (Inr answer) s1 = Inr s2
    \<and> rt_lookup (get_table_for_addr addr s2) i = Some n \<and> node_addr n = addr \<and> status n now = Good"
proof -
  let ?n = "mark_response (mark_outgoing_request (fresh_node i addr) (ce_mark_now env)) (ce_mark_now env')"
  have "node_addr ?n = addr" "status ?n now = Good"
    using assms(6) by (simp_all add: status_Good_iff fresh_node_def mark_response_def mark_outgoing_request_def recent_def)
  with id20_api.asked_and_answered [OF assms(1-5), of env' answer] show ?thesis by blast
qed

theorem wrong_identifier_becomes_good_witness:
  "\<exists>s1 s2 n. find_nodes_start id20_word \<lparr>ce_clk = (\<lambda>k. 5), ce_add_now = 5, ce_mark_now = 6\<rparr> 9 stranger_addr
      (node_state (dht_start id20_word 0 7 sample_addr)) = Inr s1
    \<and> find_nodes_end \<lparr>ce_clk = (\<lambda>k. 5), ce_add_now = 5, ce_mark_now = 8\<rparr> 9 stranger_addr
      (Inr (ROE_Response ((default_response id20_word)\<lparr>resp_id := 4\<rparr>))) s1 = Inr s2
    \<and> rt_lookup (get_table_for_addr stranger_addr s2) 9 = Some n \<and> node_addr n = stranger_addr \<and> status n 10 = Good"
proof -
  let ?s = "node_state (dht_start id20_word 0 7 sample_addr) :: 160 word dht_state"
  have ok: "stores_ok id20_word ?s" using w20.dht_start_ok [of 0 7 sample_addr] by (simp add: dht_inv_def)
  have t: "get_table_for_addr stranger_addr ?s = routing_table_new id20_word 7 None 0"
    by (simp add: get_table_for_addr_def stranger_addr_def dht_start_def dht_new_internal_def)
  have new: "rt_lookup (get_table_for_addr stranger_addr ?s) 9 = None" by (simp add: t rt_lookup_def w20.rt_inv_new)
  obtain x where x: "rt_add_node id20_word (\<lambda>k. 5) 5 (get_table_for_addr stranger_addr ?s) 9 stranger_addr = Inr (x, Added)"
    unfolding t by (simp add: rt_eval DEFAULT_MAX_SIZE_def)
  show ?thesis
    by (rule wrong_identifier_becomes_good [OF id20_word_api ok new, of _ x Added])
      (use x in \<open>simp_all add: INACTIVITY_TIMEOUT_def from_secs_def\<close>)
qed

end
