(* ===== verification/Worker_Loops.thy ===== *)
theory Worker_Loops
  imports Worker_Props
begin

text \<open>
  The loops of the worker's tasks, \<^verbatim>\<open>DhtWorker::start\<close> and the functions it calls in
  \<^verbatim>\<open>src/dht.rs\<close>, composed with the node: each poll of a task is an event, and so is what any
  other task or a user does with the node. The lookups of the refresher are only started here; they run
  as in \<open>Lookup\<close>.
\<close>

section \<open>Retries of the bootstrap\<close>

text \<open>
  The retry library calls the future again after each delay that its policy yields. \<open>results\<close> are the
  outcomes of the attempts so far, \<open>delays\<close> what the policy still yields; the result is None while the
  next attempt has no outcome.
\<close>

fun bootstrap_with_backoff :: "(dht_error + unit) list \<Rightarrow> duration list \<Rightarrow> (dht_error + unit) option" where
  "bootstrap_with_backoff [] delays = None"
| "bootstrap_with_backoff (Inr u # results) delays = Some (Inr u)"
| "bootstrap_with_backoff (Inl e # results) [] = Some (Inl e)"
| "bootstrap_with_backoff (Inl e # results) (d # delays) = bootstrap_with_backoff results delays"

section \<open>One ping\<close>

text \<open>
  The future of one ping: its first poll, which ends it if the request fails at once, and the end of
  its wait. \<open>Some ch\<close> is the channel that it waits for.
\<close>

definition ping_poll ::
    "bool \<Rightarrow> instant \<Rightarrow> ('id::linorder) \<Rightarrow> socket_addr \<Rightarrow> 'id dht_system \<Rightarrow> abort + 'id dht_system \<times> nat option" where
  "ping_poll is_v4 now i addr y = and_then (ping_begin is_v4 now i addr (node_state y)) (\<lambda>(s, started).
     case started of
       Inl e \<Rightarrow> and_then (ping_end is_v4 now i (Inl e) s) (\<lambda>s'. Inr (y\<lparr>node_state := s'\<rparr>, None))
     | Inr (key, ch) \<Rightarrow> Inr (y\<lparr>node_state := s, waiting := (waiting y)(ch \<mapsto> key)\<rparr>, Some ch))"

definition ping_done ::
    "bool \<Rightarrow> instant \<Rightarrow> ('id::linorder) \<Rightarrow> nat \<Rightarrow> wait_end \<Rightarrow> 'id dht_system \<Rightarrow> abort + 'id dht_system \<times> bool" where
  "ping_done is_v4 now i ch e y = (case waiting y ch of
     None \<Rightarrow> Inr (y, False)
   | Some key \<Rightarrow>
      (if wait_may_end e ch (node_state y)
       then (case request_finish key ch e (node_state y) of (s, result) \<Rightarrow>
         and_then (ping_end is_v4 now i result s) (\<lambda>s'.
           Inr (y\<lparr>node_state := s', waiting := (waiting y)(ch := None)\<rparr>, True)))
       else Inr (y, False)))"

section \<open>The worker as a system\<close>

text \<open>
  \<open>wk_refresh\<close> and \<open>wk_ping_rx\<close> are the queues between the ticking part and the loop of the
  refreshers and pingers, by family; \<open>wk_pings\<close> the futures of the pings; \<open>wk_reading\<close> the message
  that the framer's reader wants to pass on, \<open>wk_output\<close> the channel of capacity one between it and
  the response reader, and \<open>wk_writing\<close> the message that the framer's writer waits for the socket to send.
  \<open>wk_end\<close> is what \<^verbatim>\<open>start\<close> returned.
\<close>

record 'id worker_system =
  wk_node :: "'id dht_system"
  wk_refresh :: "bool \<Rightarrow> 'id list"
  wk_lookups :: "(bool \<times> 'id \<times> socket_addr list) list"
  wk_ping_rx :: "bool \<Rightarrow> ('id \<times> socket_addr) list"
  wk_pings :: "(bool \<times> 'id \<times> socket_addr \<times> nat option) list"
  wk_reading :: "('id message \<times> socket_addr) option"
  wk_output :: "('id message \<times> socket_addr) list"
  wk_writing :: "'id worker_send_request option"
  wk_bootstrap_done :: bool
  wk_end :: "(dht_error + unit) option"

datatype 'id worker_event =
    WkNode "'id dht_event"
  | WkPingTick bool instant
  | WkPingTake bool
  | WkPingPoll nat instant
  | WkPingDone nat wait_end instant
  | WkRefreshTick bool instant "nat \<Rightarrow> bytes"
  | WkRefreshTake bool instant
  | WkRead "library_error + bytes \<times> socket_addr"
  | WkPass
  | WkHandle dht_env
  | WkWrite
  | WkSent "library_error + unit"
  | WkCollect datetime
  | WkBootstrap "dht_error + unit"

definition worker_init :: "'id dht_system \<Rightarrow> 'id worker_system" where
  "worker_init y = \<lparr>wk_node = y, wk_refresh = (\<lambda>v. []), wk_lookups = [], wk_ping_rx = (\<lambda>v. []), wk_pings = [],
     wk_reading = None, wk_output = [], wk_writing = None, wk_bootstrap_done = False, wk_end = None\<rparr>"

definition ping_channels :: "'id worker_system \<Rightarrow> nat list" where
  "ping_channels wk = List.map_filter (\<lambda>(v, i, addr, ch). ch) (wk_pings wk)"

text \<open>What others do with the node: anything but the worker's part, and but ending or dropping its waits.\<close>

fun others_event :: "'id worker_system \<Rightarrow> 'id dht_event \<Rightarrow> bool" where
  "others_event wk (EvFinish ch e) \<longleftrightarrow> ch \<notin> set (ping_channels wk)"
| "others_event wk (EvDrop ch) \<longleftrightarrow> ch \<notin> set (ping_channels wk)"
| "others_event wk (EvRequest req addr) \<longleftrightarrow> True"
| "others_event wk (EvAnnounce req addr) \<longleftrightarrow> True"
| "others_event wk (EvAddNode clk now i addr) \<longleftrightarrow> True"
| "others_event wk (EvMark e i addr) \<longleftrightarrow> True"
| "others_event wk _ \<longleftrightarrow> False"

definition with_node ::
    "('id dht_system \<Rightarrow> abort + 'id dht_system) \<Rightarrow> 'id worker_system \<Rightarrow> abort + 'id worker_system" where
  "with_node f wk = and_then (f (wk_node wk)) (\<lambda>y. Inr (wk\<lparr>wk_node := y\<rparr>))"

text \<open>
  A task is over. If \<^verbatim>\<open>start\<close> returns then, all tasks are dropped, the pings where they wait,
  and nothing receives what the node wants to send.
\<close>

definition finish_task :: "worker_task \<Rightarrow> dht_error + unit \<Rightarrow> 'id worker_system \<Rightarrow> 'id worker_system" where
  "finish_task task result wk = (case start_step task result (wk_bootstrap_done wk) of
     (d, None) \<Rightarrow> wk\<lparr>wk_bootstrap_done := d\<rparr>
   | (d, Some r) \<Rightarrow> (worker_init ((wk_node wk)\<lparr>node_state := (node_state (wk_node wk))\<lparr>worker_alive := False\<rparr>,
         dropped := dropped (wk_node wk) \<union> set (ping_channels wk)\<rparr>))
       \<lparr>wk_bootstrap_done := d, wk_end := Some r\<rparr>)"

text \<open>
  The loops of pinger and refresher take an entry from their queue and add a future; the framer's reader
  receives a datagram and passes what it parsed on when the channel has room.
\<close>

definition pinger_take :: "bool \<Rightarrow> 'id worker_system \<Rightarrow> 'id worker_system" where
  "pinger_take v wk = (case wk_ping_rx wk v of
     [] \<Rightarrow> wk
   | (i, addr) # rest \<Rightarrow> wk\<lparr>wk_ping_rx := (wk_ping_rx wk)(v := rest), wk_pings := wk_pings wk @ [(v, i, addr, None)]\<rparr>)"

definition refresher_take ::
    "('id::linorder) id20_ops \<Rightarrow> bool \<Rightarrow> instant \<Rightarrow> 'id worker_system \<Rightarrow> abort + 'id worker_system" where
  "refresher_take ops v now wk = (case wk_refresh wk v of
     [] \<Rightarrow> Inr wk
   | i # rest \<Rightarrow> and_then (refresh_addrs ops v now i (node_state (wk_node wk))) (\<lambda>addrs.
       Inr (wk\<lparr>wk_refresh := (wk_refresh wk)(v := rest), wk_lookups := wk_lookups wk @ [(v, i, addrs)]\<rparr>)))"

definition framer_read :: "'id wire \<Rightarrow> library_error + bytes \<times> socket_addr \<Rightarrow> 'id worker_system \<Rightarrow> 'id worker_system" where
  "framer_read w received wk = (case wk_reading wk of
     Some m \<Rightarrow> wk
   | None \<Rightarrow> (case received of
         Inl e \<Rightarrow> finish_task Framer (Inl (RecvError e)) wk
       | Inr (bs, addr) \<Rightarrow> wk\<lparr>wk_reading := map_option (\<lambda>msg. (msg, addr)) (reader_step w bs)\<rparr>))"

definition framer_pass :: "'id worker_system \<Rightarrow> 'id worker_system" where
  "framer_pass wk = (case wk_reading wk of
     Some m \<Rightarrow> if wk_output wk = [] then wk\<lparr>wk_reading := None, wk_output := [m]\<rparr> else wk
   | None \<Rightarrow> wk)"

text \<open>The framer's writer takes a message when it has sent the one before, and learns what became of it.\<close>

definition framer_write :: "'id worker_system \<Rightarrow> 'id worker_system" where
  "framer_write wk = (case (wk_writing wk, writer_take (node_state (wk_node wk))) of
     (None, Some (m, s)) \<Rightarrow> wk\<lparr>wk_node := (wk_node wk)\<lparr>node_state := s\<rparr>, wk_writing := Some m\<rparr>
   | _ \<Rightarrow> wk)"

definition framer_sent :: "library_error + unit \<Rightarrow> 'id worker_system \<Rightarrow> 'id worker_system" where
  "framer_sent sent wk = (case wk_writing wk of
     Some m \<Rightarrow> wk\<lparr>wk_node := (wk_node wk)\<lparr>node_state := writer_sent sent m (node_state (wk_node wk))\<rparr>, wk_writing := None\<rparr>
   | None \<Rightarrow> wk)"

declare pinger_take_def [simp] refresher_take_def [simp] framer_read_def [simp] framer_pass_def [simp]

fun task_step ::
    "('id::linorder) id20_ops \<Rightarrow> 'id wire \<Rightarrow> 'id worker_event \<Rightarrow> 'id worker_system \<Rightarrow> abort + 'id worker_system" where
  "task_step ops w (WkNode e) wk = (if others_event wk e then with_node (dht_step ops e) wk else Inr wk)"
| "task_step ops w (WkPingTick v now) wk =
    and_then (ping_candidates v now (node_state (wk_node wk))) (\<lambda>ns.
      Inr (wk\<lparr>wk_ping_rx := (wk_ping_rx wk)(v := wk_ping_rx wk v @ ns)\<rparr>))"
| "task_step ops w (WkPingTake v) wk = Inr (pinger_take v wk)"
| "task_step ops w (WkPingPoll k now) wk =
    (if k < length (wk_pings wk)
     then (case wk_pings wk ! k of
         (v, i, addr, None) \<Rightarrow> and_then (ping_poll v now i addr (wk_node wk)) (\<lambda>(y, waits).
           Inr (wk\<lparr>wk_node := y, wk_pings := (case waits of
             Some ch \<Rightarrow> (wk_pings wk)[k := (v, i, addr, Some ch)]
           | None \<Rightarrow> take k (wk_pings wk) @ drop (Suc k) (wk_pings wk))\<rparr>))
       | (v, i, addr, Some ch) \<Rightarrow> Inr wk)
     else Inr wk)"
| "task_step ops w (WkPingDone k e now) wk =
    (if k < length (wk_pings wk)
     then (case wk_pings wk ! k of
         (v, i, addr, Some ch) \<Rightarrow> and_then (ping_done v now i ch e (wk_node wk)) (\<lambda>(y, over).
           Inr (wk\<lparr>wk_node := y, wk_pings := (if over then take k (wk_pings wk) @ drop (Suc k) (wk_pings wk)
             else wk_pings wk)\<rparr>))
       | (v, i, addr, None) \<Rightarrow> Inr wk)
     else Inr wk)"
| "task_step ops w (WkRefreshTick v now rnd) wk =
    and_then (refresh_tick ops rnd v now (node_state (wk_node wk))) (\<lambda>ids.
      Inr (wk\<lparr>wk_refresh := (wk_refresh wk)(v := wk_refresh wk v @ ids)\<rparr>))"
| "task_step ops w (WkRefreshTake v now) wk = refresher_take ops v now wk"
| "task_step ops w (WkRead received) wk = Inr (framer_read w received wk)"
| "task_step ops w WkPass wk = Inr (framer_pass wk)"
| "task_step ops w (WkHandle env) wk = (case wk_output wk of
     [] \<Rightarrow> Inr wk
   | (msg, addr) # rest \<Rightarrow> with_node (dht_step ops (EvMessage env msg addr)) (wk\<lparr>wk_output := rest\<rparr>))"
| "task_step ops w WkWrite wk = Inr (framer_write wk)"
| "task_step ops w (WkSent sent) wk = Inr (framer_sent sent wk)"
| "task_step ops w (WkCollect now) wk = with_node (dht_step ops (EvCollect now)) wk"
| "task_step ops w (WkBootstrap result) wk = Inr (finish_task Bootstrap result wk)"

text \<open>When the worker has returned, only others are left.\<close>

fun of_others :: "'id worker_event \<Rightarrow> bool" where
  "of_others (WkNode e) \<longleftrightarrow> True"
| "of_others _ \<longleftrightarrow> False"

definition worker_step ::
    "('id::linorder) id20_ops \<Rightarrow> 'id wire \<Rightarrow> 'id worker_event \<Rightarrow> 'id worker_system \<Rightarrow> abort + 'id worker_system" where
  "worker_step ops w ev wk = (if wk_end wk = None \<or> of_others ev then task_step ops w ev wk else Inr wk)"

end
