(* ===== verification/Worker_Loops_Props.thy ===== *)
theory Worker_Loops_Props
  imports Worker_Loops
begin

text \<open>
  Properties of the worker's loops: no panic in any interleaving of its tasks, the order of the
  messages it handles, the end of every ping, and the end of the worker itself.
\<close>

section \<open>The invariant\<close>

text \<open>
  Every ping that waits has a wait of its own at its node's address; the channel between reader and
  response reader holds at most one message; a worker that returned has returned an error, and nothing
  can be sent any more.
\<close>

definition pings_ok :: "'id worker_system \<Rightarrow> bool" where
  "pings_ok wk \<longleftrightarrow> distinct (ping_channels wk)
     \<and> (\<forall>(v, i, addr, c) \<in> set (wk_pings wk). \<forall>ch. c = Some ch \<longrightarrow> (\<exists>tid. waiting (wk_node wk) ch = Some (tid, addr)))"

definition worker_inv :: "('id::linorder) id20_ops \<Rightarrow> 'id worker_system \<Rightarrow> bool" where
  "worker_inv ops wk \<longleftrightarrow> dht_inv ops (wk_node wk) \<and> pings_ok wk \<and> length (wk_output wk) \<le> 1
     \<and> (\<forall>r. wk_end wk = Some r \<longrightarrow> (\<exists>e. r = Inl e) \<and> \<not> worker_alive (node_state (wk_node wk)))"

lemma in_ping_channels: "ch \<in> set (ping_channels wk) \<longleftrightarrow> (\<exists>v i addr. (v, i, addr, Some ch) \<in> set (wk_pings wk))"
proof
  assume "\<exists>v i addr. (v, i, addr, Some ch) \<in> set (wk_pings wk)"
  then show "ch \<in> set (ping_channels wk)"
    by (fastforce simp: ping_channels_def map_filter_def intro!: image_eqI [of _ _ "(_, _, _, Some ch)"])
next
  assume "ch \<in> set (ping_channels wk)"
  then obtain p where p: "p \<in> set (wk_pings wk)" "(case p of (v, i, addr, c) \<Rightarrow> c) = Some ch"
    by (auto simp: ping_channels_def map_filter_def)
  obtain v i addr c where "p = (v, i, addr, c)" using prod_cases4 by blast
  with p show "\<exists>v i addr. (v, i, addr, Some ch) \<in> set (wk_pings wk)" by auto
qed

lemma map_filter_append: "List.map_filter f (xs @ ys) = List.map_filter f xs @ List.map_filter f ys"
  by (simp add: map_filter_def)

lemma pings_at:
  assumes "k < length xs" and "xs ! k = p"
  shows "xs = take k xs @ p # drop (Suc k) xs"
  using id_take_nth_drop [OF assms(1)] assms(2) by simp

text \<open>The channels of the pings when one of them is removed, or begins to wait.\<close>

lemma pings_ok_mono:
  assumes "pings_ok wk" and "wk_pings wk' = wk_pings wk"
    and "\<And>ch. ch \<in> set (ping_channels wk) \<Longrightarrow> waiting (wk_node wk') ch = waiting (wk_node wk) ch"
  shows "pings_ok wk'"
proof -
  have "ping_channels wk' = ping_channels wk" using assms(2) by (simp add: ping_channels_def)
  with assms show ?thesis by (fastforce simp: pings_ok_def in_ping_channels)
qed

lemma pings_ok_remove:
  assumes "pings_ok wk" and "k < length (wk_pings wk)" and "wk_pings wk ! k = (v, i, addr, c)"
    and "wk_pings wk' = take k (wk_pings wk) @ drop (Suc k) (wk_pings wk)"
    and "\<And>ch. c \<noteq> Some ch \<Longrightarrow> waiting (wk_node wk) ch \<noteq> None \<Longrightarrow> waiting (wk_node wk') ch = waiting (wk_node wk) ch"
  shows "pings_ok wk'"
proof -
  let ?pre = "take k (wk_pings wk)" and ?post = "drop (Suc k) (wk_pings wk)"
  have p: "wk_pings wk = ?pre @ (v, i, addr, c) # ?post" by (rule pings_at [OF assms(2,3)])
  let ?f = "\<lambda>(v, i, addr, ch). ch :: nat option"
  have ch: "ping_channels wk = List.map_filter ?f ?pre @ List.map_filter ?f ((v, i, addr, c) # ?post)"
    "ping_channels wk' = List.map_filter ?f ?pre @ List.map_filter ?f ?post"
    unfolding ping_channels_def assms(4) by (subst p, rule map_filter_append) (rule map_filter_append)
  have d: "distinct (ping_channels wk)" using assms(1) by (simp add: pings_ok_def)
  have "distinct (ping_channels wk')" using d ch by (cases c) (auto simp: map_filter_simps)
  moreover have "\<exists>tid. waiting (wk_node wk') x = Some (tid, a)" if "(u, j, a, Some x) \<in> set (wk_pings wk')" for u j a x
  proof -
    have m: "(u, j, a, Some x) \<in> set (wk_pings wk)" using that assms(4) by (auto dest: in_set_takeD in_set_dropD)
    then obtain tid where "waiting (wk_node wk) x = Some (tid, a)" using assms(1) by (force simp: pings_ok_def)
    moreover have "c \<noteq> Some x"
    proof
      assume c: "c = Some x"
      have "x \<in> set (ping_channels wk')" using that by (auto simp: in_ping_channels)
      with d ch c show False by (auto simp: map_filter_simps)
    qed
    ultimately show ?thesis using assms(5) by simp
  qed
  ultimately show ?thesis by (fastforce simp: pings_ok_def)
qed

lemma pings_ok_wait:
  assumes "pings_ok wk" and "k < length (wk_pings wk)" and "wk_pings wk ! k = (v, i, addr, None)"
    and "wk_pings wk' = (wk_pings wk)[k := (v, i, addr, Some ch)]"
    and "waiting (wk_node wk) ch = None" and "waiting (wk_node wk') = (waiting (wk_node wk))(ch \<mapsto> (tid, addr))"
  shows "pings_ok wk'"
proof -
  let ?pre = "take k (wk_pings wk)" and ?post = "drop (Suc k) (wk_pings wk)"
  have p: "wk_pings wk = ?pre @ (v, i, addr, None) # ?post" by (rule pings_at [OF assms(2,3)])
  have p': "wk_pings wk' = ?pre @ (v, i, addr, Some ch) # ?post"
    unfolding assms(4) by (rule upd_conv_take_nth_drop [OF assms(2)])
  let ?f = "\<lambda>(v, i, addr, ch). ch :: nat option"
  have c: "ping_channels wk = List.map_filter ?f ?pre @ List.map_filter ?f ?post"
    "ping_channels wk' = List.map_filter ?f ?pre @ ch # List.map_filter ?f ?post"
    unfolding ping_channels_def p' by (subst p) (simp_all add: map_filter_append map_filter_simps)
  have old: "\<exists>tid. waiting (wk_node wk) x = Some (tid, a)" if "(u, j, a, Some x) \<in> set (wk_pings wk)" for u j a x
    using assms(1) that by (force simp: pings_ok_def)
  have "ch \<notin> set (ping_channels wk)" using old assms(5) by (fastforce simp: in_ping_channels)
  with c assms(1) have "distinct (ping_channels wk')" by (simp add: pings_ok_def)
  moreover have "\<exists>tid. waiting (wk_node wk') x = Some (tid, a)" if "(u, j, a, Some x) \<in> set (wk_pings wk')" for u j a x
  proof (cases "(u, j, a, Some x) = (v, i, addr, Some ch)")
    case False
    then have "(u, j, a, Some x) \<in> set (wk_pings wk)" using that p' by (subst p) auto
    with old obtain t where "waiting (wk_node wk) x = Some (t, a)" by blast
    with assms(5,6) show ?thesis by (cases "x = ch") auto
  qed (use assms(6) in auto)
  ultimately show ?thesis by (fastforce simp: pings_ok_def)
qed

section \<open>What the polls do to the node\<close>

lemma family_fields [simp]:
  "inflight (set_family_table v t s) = inflight s" "completed (set_family_table v t s) = completed s"
  "next_channel (set_family_table v t s) = next_channel s" "worker_alive (set_family_table v t s) = worker_alive s"
  "next_transaction_id (set_family_table v t s) = next_transaction_id s" "dht_id (set_family_table v t s) = dht_id s"
  "worker_queue (set_family_table v t s) = worker_queue s"
  by (simp_all add: set_family_table_def)

lemma family_step_ok:
  assumes "dht_inv ops y" and "rt_inv ops t"
  shows "dht_inv ops (y\<lparr>node_state := set_family_table v t (node_state y)\<rparr>)"
  using assms set_family_table_ok [of ops "node_state y" t v] same_requests_ok [of y "set_family_table v t (node_state y)"]
  by (simp add: dht_inv_def same_requests_def)

context id20_api
begin

lemma ping_end_ok:
  assumes "dht_inv ops (y\<lparr>node_state := s\<rparr>)"
  shows "\<exists>s'. ping_end v now i r s = Inr s' \<and> dht_inv ops (y\<lparr>node_state := s'\<rparr>) \<and> worker_alive s' = worker_alive s
    \<and> inflight s' = inflight s
    \<and> rt_lookup (family_table v s') = (rt_lookup (family_table v s))(i := map_option (\<lambda>n. node_step n
        (case r of Inr _ \<Rightarrow> Responded now | Inl _ \<Rightarrow> Errored)) (rt_lookup (family_table v s) i))"
proof -
  let ?e = "case r of Inr _ \<Rightarrow> Responded now | Inl _ \<Rightarrow> Errored"
  have "rt_inv ops (family_table v s)" using assms family_table_ok by (auto simp: dht_inv_def)
  from rt_inv_mark [OF this, of ?e i] obtain t where
    t: "rt_mark ?e i (family_table v s) = Inr (t, rt_lookup (family_table v s) i \<noteq> None)" "rt_inv ops t"
      "rt_lookup t = (rt_lookup (family_table v s))(i := map_option (\<lambda>n. node_step n ?e) (rt_lookup (family_table v s) i))"
    by blast
  have "ping_end v now i r s = Inr (set_family_table v t s)"
    using t(1) by (cases r) (simp_all add: ping_end_def)
  with family_step_ok [OF assms t(2), of v] t(3) show ?thesis by simp
qed

lemma ping_poll_ok:
  assumes inv: "dht_inv ops y"
  shows "\<exists>y' r. ping_poll v now i addr y = Inr (y', r) \<and> dht_inv ops y' \<and> worker_alive (node_state y') = worker_alive (node_state y)
    \<and> (case r of None \<Rightarrow> waiting y' = waiting y
        | Some ch \<Rightarrow> waiting y ch = None \<and> (\<exists>tid. waiting y' = (waiting y)(ch \<mapsto> (tid, addr))))"
proof -
  have "rt_inv ops (family_table v (node_state y))" using inv family_table_ok by (auto simp: dht_inv_def)
  from rt_inv_mark [OF this, of "Requested now" i] obtain t where
    t: "rt_mark (Requested now) i (family_table v (node_state y)) = Inr (t, rt_lookup (family_table v (node_state y)) i \<noteq> None)"
      "rt_inv ops t" by blast
  let ?y1 = "y\<lparr>node_state := set_family_table v t (node_state y)\<rparr>"
  have inv1: "dht_inv ops ?y1" by (rule family_step_ok [OF inv t(2)])
  obtain y2 where y2: "dht_step ops (EvRequest Ping addr) ?y1 = Inr y2" "dht_inv ops y2" using request_ok [OF inv1] by blast
  have start: "ping_begin v now i addr (node_state y) = Inr (request_start Ping addr (node_state ?y1))"
    using t(1) by (simp add: ping_begin_def)
  have free: "waiting y (next_channel (node_state y)) = None"
    using inv by (metis (no_types, lifting) dht_inv_def less_irrefl requests_ok_def)
  show ?thesis
  proof (cases "worker_alive (node_state y)")
    case True
    with y2 start free show ?thesis by (auto simp: ping_poll_def request_start_eq Let_def)
  next
    case False
    then obtain s where r: "request_start Ping addr (node_state ?y1) = (s, Inl DhtDead)" "\<not> worker_alive s"
      by (simp add: request_start_eq Let_def)
    with y2 have "dht_inv ops (y\<lparr>node_state := s\<rparr>)" by simp
    from ping_end_ok [OF this, of v now i "Inl DhtDead"] r start False show ?thesis by (auto simp: ping_poll_def)
  qed
qed

lemma state_then_waiting: "y\<lparr>node_state := s, waiting := f\<rparr> = y\<lparr>waiting := f, node_state := s\<rparr>"
  by (cases y) simp

lemma ping_done_ok:
  assumes inv: "dht_inv ops y" and key: "waiting y ch = Some key"
  shows "\<exists>y' over. ping_done v now i ch e y = Inr (y', over) \<and> dht_inv ops y' \<and> worker_alive (node_state y') = worker_alive (node_state y)
    \<and> over = wait_may_end e ch (node_state y) \<and> (\<not> over \<longrightarrow> y' = y)
    \<and> (over \<longrightarrow> waiting y' = (waiting y)(ch := None) \<and> (e = TimedOut \<longrightarrow> inflight (node_state y') key = None
          \<and> rt_lookup (family_table v (node_state y')) i = map_option mark_error (rt_lookup (family_table v (node_state y)) i)))"
proof (cases "wait_may_end e ch (node_state y)")
  case True
  let ?s = "fst (request_finish key ch e (node_state y))" and ?r = "snd (request_finish key ch e (node_state y))"
  from finish_inv [OF inv key True] have "dht_inv ops ((y\<lparr>waiting := (waiting y)(ch := None)\<rparr>)\<lparr>node_state := ?s\<rparr>)"
    by (simp only: state_then_waiting)
  from ping_end_ok [OF this, of v now i ?r] obtain s' where
    s': "ping_end v now i ?r ?s = Inr s'" "dht_inv ops (y\<lparr>waiting := (waiting y)(ch := None), node_state := s'\<rparr>)"
      "worker_alive s' = worker_alive ?s" "inflight s' = inflight ?s"
      "rt_lookup (family_table v s') i = map_option (\<lambda>n. node_step n (case ?r of Inr _ \<Rightarrow> Responded now | Inl _ \<Rightarrow> Errored))
        (rt_lookup (family_table v ?s) i)" by auto
  let ?y' = "y\<lparr>node_state := s', waiting := (waiting y)(ch := None)\<rparr>"
  have over: "ping_done v now i ch e y = Inr (?y', True)"
    using s'(1) True key by (simp add: ping_done_def case_prod_beta)
  have inv': "dht_inv ops ?y'" using s'(2) by (simp only: state_then_waiting)
  have alive: "worker_alive s' = worker_alive (node_state y)" using s'(3) by (cases e) simp_all
  have "inflight s' key = None
      \<and> rt_lookup (family_table v s') i = map_option mark_error (rt_lookup (family_table v (node_state y)) i)" if "e = TimedOut"
    using s'(4,5) that by (simp add: family_table_def)
  with over inv' alive True show ?thesis by (intro exI [of _ ?y'] exI [of _ True]) simp
next
  case False
  with assms show ?thesis by (intro exI [of _ y] exI [of _ False]) (simp add: ping_done_def)
qed

text \<open>Other events leave the waits of the pings alone.\<close>

lemma others_event_waits:
  assumes inv: "dht_inv ops y" and st: "dht_step ops e y = Inr y'" and ch: "waiting y ch \<noteq> None"
    and e: "\<forall>w. e \<noteq> EvFinish ch w"
  shows "waiting y' ch = waiting y ch"
proof (cases e)
  case (EvRequest req addr)
  have "ch < next_channel (node_state y)" using inv ch by (auto simp: dht_inv_def requests_ok_def)
  with st show ?thesis by (auto simp: EvRequest request_start_eq Let_def split: if_splits)
next
  case (EvFinish c w)
  with e st show ?thesis by (auto split: option.splits if_splits)
qed (use st in \<open>auto simp: and_then_eq_Inr case_prod_beta Let_def\<close>)

lemma message_alive:
  assumes ok: "stores_ok ops s" and r: "on_received_message ops env msg addr s = Inr (s', res)"
  shows "worker_alive s' = worker_alive s"
proof (cases "\<exists>roe. on_received_message ops env msg addr s = Inr (on_answer msg addr roe s)")
  case True
  with r show ?thesis by (auto simp: on_answer_def split: option.splits)
next
  case False
  then have "\<forall>e. msg_kind msg \<noteq> MK_Error e" "\<forall>r. msg_kind msg \<noteq> MK_Response r"
    by (auto simp: on_received_message_def)
  from query_answered [OF ok this, of addr env] r show ?thesis
    by (auto simp: answers_def respond_eq split: if_splits)
qed

lemma dht_step_alive:
  assumes inv: "dht_inv ops y" and st: "dht_step ops e y = Inr y'" and e: "e \<noteq> EvWorkerDies"
  shows "worker_alive (node_state y') = worker_alive (node_state y)"
proof (cases e)
  case (EvMessage env msg addr)
  have "stores_ok ops (node_state y)" using inv by (simp add: dht_inv_def)
  with st message_alive show ?thesis by (auto simp: EvMessage and_then_eq_Inr)
next
  case (EvFinish ch w)
  have "worker_alive (fst (request_finish key ch w (node_state y))) = worker_alive (node_state y)" for key
    by (cases w) simp_all
  with st show ?thesis by (auto simp: EvFinish split: option.splits if_splits)
next
  case (EvSendError tid addr err)
  with st show ?thesis by (auto simp: on_send_error_def split: option.splits)
qed (use st e in \<open>auto simp: and_then_eq_Inr case_prod_beta Let_def worker_send_def created request_start_eq split: if_splits\<close>)

end

section \<open>Every step keeps the invariant\<close>

lemma worker_inv_fields:
  "worker_inv ops wk \<Longrightarrow> worker_inv ops (wk\<lparr>wk_ping_rx := f\<rparr>)"
  "worker_inv ops wk \<Longrightarrow> worker_inv ops (wk\<lparr>wk_refresh := g\<rparr>)"
  "worker_inv ops wk \<Longrightarrow> worker_inv ops (wk\<lparr>wk_refresh := g, wk_lookups := l\<rparr>)"
  "worker_inv ops wk \<Longrightarrow> worker_inv ops (wk\<lparr>wk_reading := r\<rparr>)"
  "worker_inv ops wk \<Longrightarrow> length q \<le> 1 \<Longrightarrow> worker_inv ops (wk\<lparr>wk_output := q\<rparr>)"
  "worker_inv ops wk \<Longrightarrow> length q \<le> 1 \<Longrightarrow> worker_inv ops (wk\<lparr>wk_reading := r, wk_output := q\<rparr>)"
  "worker_inv ops wk \<Longrightarrow> worker_inv ops (wk\<lparr>wk_bootstrap_done := d\<rparr>)"
  by (simp_all add: worker_inv_def pings_ok_def ping_channels_def)

lemma start_step_error: "start_step task result d = (d', Some r) \<Longrightarrow> \<exists>e. r = Inl e"
proof -
  have t: "\<exists>e. task_finished name x = Inl e" for name x by (cases x) auto
  assume "start_step task result d = (d', Some r)"
  with t show ?thesis by (cases task) (auto split: if_splits sum.splits)
qed

lemma new_ping_ok: "pings_ok wk \<Longrightarrow> pings_ok (wk\<lparr>wk_ping_rx := f, wk_pings := wk_pings wk @ [(v, i, addr, None)]\<rparr>)"
  by (auto simp: pings_ok_def ping_channels_def map_filter_def)

context id20_api
begin

lemma finish_task_ok:
  assumes "worker_inv ops wk"
  shows "worker_inv ops (finish_task task result wk)"
proof (cases "start_step task result (wk_bootstrap_done wk)")
  case (Pair d r)
  show ?thesis
  proof (cases r)
    case None
    with Pair worker_inv_fields(7) [OF assms] show ?thesis by (simp add: finish_task_def)
  next
    case (Some res)
    have "dht_inv ops ((wk_node wk)\<lparr>node_state := (node_state (wk_node wk))\<lparr>worker_alive := False\<rparr>,
        dropped := dropped (wk_node wk) \<union> set (ping_channels wk)\<rparr>)"
      using assms by (simp add: worker_inv_def dht_inv_def requests_ok_def)
    with Pair Some start_step_error [of task result "wk_bootstrap_done wk" d res] show ?thesis
      by (simp add: finish_task_def worker_inv_def worker_init_def pings_ok_def ping_channels_def map_filter_def)
  qed
qed

text \<open>An event of the node that does not end the wait of a ping.\<close>

lemma with_node_ok:
  assumes inv: "worker_inv ops wk" and e: "\<And>ch w. e = EvFinish ch w \<Longrightarrow> ch \<notin> set (ping_channels wk)" "e \<noteq> EvWorkerDies"
  shows "\<exists>wk'. with_node (dht_step ops e) wk = Inr wk' \<and> worker_inv ops wk' \<and> wk_end wk' = wk_end wk"
proof -
  have inv': "dht_inv ops (wk_node wk)" "pings_ok wk" using inv by (simp_all add: worker_inv_def)
  obtain y where y: "dht_step ops e (wk_node wk) = Inr y" "dht_inv ops y" using dht_step_ok [OF inv'(1)] by blast
  have "pings_ok (wk\<lparr>wk_node := y\<rparr>)"
  proof (rule pings_ok_mono [OF inv'(2)])
    fix ch assume ch: "ch \<in> set (ping_channels wk)"
    then have "waiting (wk_node wk) ch \<noteq> None" using inv'(2) by (fastforce simp: pings_ok_def in_ping_channels)
    from others_event_waits [OF inv'(1) y(1) this] e(1) ch
    show "waiting (wk_node (wk\<lparr>wk_node := y\<rparr>)) ch = waiting (wk_node wk) ch" by auto
  qed simp
  with y inv dht_step_alive [OF inv'(1) y(1) e(2)] show ?thesis by (simp add: with_node_def worker_inv_def)
qed

lemma writer_sent_ok:
  assumes inv: "dht_inv ops y"
  shows "dht_inv ops (y\<lparr>node_state := writer_sent sent m (node_state y)\<rparr>)
    \<and> worker_alive (writer_sent sent m (node_state y)) = worker_alive (node_state y)"
proof -
  have "dht_inv ops (y\<lparr>node_state := on_send_error tid addr err (node_state y)\<rparr>)" for tid addr err
    using dht_step_ok [OF inv, of "EvSendError tid addr err"] by simp
  then show ?thesis using inv by (auto simp: writer_sent_def on_send_error_def split: sum.splits option.splits)
qed

lemma writer_take_ok:
  "dht_inv ops y \<Longrightarrow> writer_take (node_state y) = Some (m, s) \<Longrightarrow>
    dht_inv ops (y\<lparr>node_state := s\<rparr>) \<and> worker_alive s = worker_alive (node_state y)"
  by (auto simp: writer_take_def dht_inv_def requests_ok_def split: list.splits)

lemma worker_inv_state:
  assumes "worker_inv ops wk" and "dht_inv ops ((wk_node wk)\<lparr>node_state := s\<rparr>)"
    and "worker_alive s = worker_alive (node_state (wk_node wk))"
  shows "worker_inv ops (wk\<lparr>wk_node := (wk_node wk)\<lparr>node_state := s\<rparr>, wk_writing := m\<rparr>)"
  using assms pings_ok_mono [of wk "wk\<lparr>wk_node := (wk_node wk)\<lparr>node_state := s\<rparr>, wk_writing := m\<rparr>"]
  by (simp add: worker_inv_def)

lemma ping_poll_step_ok:
  assumes inv: "worker_inv ops wk" and k: "k < length (wk_pings wk)" and p: "wk_pings wk ! k = (v, i, addr, None)"
  shows "\<exists>wk'. task_step ops w (WkPingPoll k now) wk = Inr wk' \<and> worker_inv ops wk'"
proof -
  have ok: "dht_inv ops (wk_node wk)" "pings_ok wk" using inv by (simp_all add: worker_inv_def)
  obtain y r where y: "ping_poll v now i addr (wk_node wk) = Inr (y, r)" "dht_inv ops y"
    "worker_alive (node_state y) = worker_alive (node_state (wk_node wk))"
    "case r of None \<Rightarrow> waiting y = waiting (wk_node wk)
      | Some ch \<Rightarrow> waiting (wk_node wk) ch = None \<and> (\<exists>tid. waiting y = (waiting (wk_node wk))(ch \<mapsto> (tid, addr)))"
    using ping_poll_ok [OF ok(1), of v now i addr] by auto
  let ?wk = "wk\<lparr>wk_node := y, wk_pings := (case r of Some ch \<Rightarrow> (wk_pings wk)[k := (v, i, addr, Some ch)]
      | None \<Rightarrow> take k (wk_pings wk) @ drop (Suc k) (wk_pings wk))\<rparr>"
  have "pings_ok ?wk"
  proof (cases r)
    case None
    show ?thesis by (rule pings_ok_remove [OF ok(2) k p]) (use None y(4) in simp_all)
  next
    case (Some ch)
    with y(4) obtain tid where "waiting (wk_node wk) ch = None" "waiting y = (waiting (wk_node wk))(ch \<mapsto> (tid, addr))" by auto
    then show ?thesis by (intro pings_ok_wait [OF ok(2) k p, of _ ch tid]) (simp_all add: Some)
  qed
  with y k p inv show ?thesis by (simp add: worker_inv_def)
qed

lemma ping_done_step_ok:
  assumes inv: "worker_inv ops wk" and k: "k < length (wk_pings wk)" and p: "wk_pings wk ! k = (v, i, addr, Some ch)"
  shows "\<exists>wk' key. task_step ops w (WkPingDone k e now) wk = Inr wk' \<and> worker_inv ops wk'
    \<and> waiting (wk_node wk) ch = Some key \<and> snd key = addr
    \<and> (e = TimedOut \<longrightarrow> wk_pings wk' = take k (wk_pings wk) @ drop (Suc k) (wk_pings wk)
        \<and> waiting (wk_node wk') = (waiting (wk_node wk))(ch := None)
        \<and> inflight (node_state (wk_node wk')) key = None
        \<and> rt_lookup (family_table v (node_state (wk_node wk'))) i
            = map_option mark_error (rt_lookup (family_table v (node_state (wk_node wk))) i))"
proof -
  have ok: "dht_inv ops (wk_node wk)" "pings_ok wk" using inv by (simp_all add: worker_inv_def)
  have "(v, i, addr, Some ch) \<in> set (wk_pings wk)" using k p by (metis nth_mem)
  then obtain tid where key: "waiting (wk_node wk) ch = Some (tid, addr)" using ok(2) by (force simp: pings_ok_def)
  obtain y over where y: "ping_done v now i ch e (wk_node wk) = Inr (y, over)" "dht_inv ops y"
    "worker_alive (node_state y) = worker_alive (node_state (wk_node wk))" "\<not> over \<longrightarrow> y = wk_node wk"
    "over = wait_may_end e ch (node_state (wk_node wk))"
    "over \<longrightarrow> waiting y = (waiting (wk_node wk))(ch := None) \<and> (e = TimedOut \<longrightarrow> inflight (node_state y) (tid, addr) = None
        \<and> rt_lookup (family_table v (node_state y)) i = map_option mark_error (rt_lookup (family_table v (node_state (wk_node wk))) i))"
    using ping_done_ok [OF ok(1) key, of v now i e] by auto
  let ?wk = "wk\<lparr>wk_node := y, wk_pings := (if over then take k (wk_pings wk) @ drop (Suc k) (wk_pings wk) else wk_pings wk)\<rparr>"
  have "pings_ok ?wk"
  proof (cases over)
    case True
    show ?thesis by (rule pings_ok_remove [OF ok(2) k p]) (use True y(6) in auto)
  next
    case False
    show ?thesis by (rule pings_ok_mono [OF ok(2)]) (use False y(4) in auto)
  qed
  with y k p inv key show ?thesis by (cases e) (auto simp: worker_inv_def)
qed

end

context id20_api
begin

lemma task_step_ok:
  assumes inv: "worker_inv ops wk"
  shows "\<exists>wk'. task_step ops w ev wk = Inr wk' \<and> worker_inv ops wk'"
proof -
  have ok: "stores_ok ops (node_state (wk_node wk))" "dht_inv ops (wk_node wk)" using inv by (simp_all add: worker_inv_def dht_inv_def)
  show ?thesis
  proof (cases ev)
    case (WkNode e)
    show ?thesis
    proof (cases "others_event wk e")
      case True
      with with_node_ok [OF inv, of e] show ?thesis unfolding WkNode by (cases e) auto
    qed (use inv WkNode in simp)
  next
    case (WkPingTick v now)
    from family_table_ok [OF ok(1), of v] obtain ns where "ping_candidates v now (node_state (wk_node wk)) = Inr ns"
      using rt_inv_iter(1) by (auto simp: ping_candidates_def)
    with worker_inv_fields(1) [OF inv] show ?thesis by (simp add: WkPingTick)
  next
    case (WkPingTake v)
    have "worker_inv ops (wk\<lparr>wk_ping_rx := f, wk_pings := wk_pings wk @ [(v, i, addr, None)]\<rparr>)" for f i addr
      using inv new_ping_ok [of wk] by (simp add: worker_inv_def)
    with inv show ?thesis unfolding WkPingTake by (auto split: list.split)
  next
    case (WkPingPoll k now)
    show ?thesis
    proof (cases "k < length (wk_pings wk)")
      case True
      obtain v i addr c where p: "wk_pings wk ! k = (v, i, addr, c)" using prod_cases4 by blast
      with ping_poll_step_ok [OF inv True] inv True show ?thesis unfolding WkPingPoll by (cases c) auto
    qed (use inv WkPingPoll in simp)
  next
    case (WkPingDone k e now)
    show ?thesis
    proof (cases "k < length (wk_pings wk)")
      case True
      obtain v i addr c where p: "wk_pings wk ! k = (v, i, addr, c)" using prod_cases4 by blast
      show ?thesis
      proof (cases c)
        case (Some ch)
        with ping_done_step_ok [OF inv True, of v i addr ch] p show ?thesis unfolding WkPingDone by blast
      qed (use inv True p WkPingDone in simp)
    qed (use inv WkPingDone in simp)
  next
    case (WkRefreshTick v now rnd)
    from stale_buckets_are_refreshed [OF id20_api_axioms ok(1)] obtain xs where
      "refresh_tick ops rnd v now (node_state (wk_node wk)) = Inr xs" by blast
    with worker_inv_fields(2) [OF inv] show ?thesis by (simp add: WkRefreshTick)
  next
    case (WkRefreshTake v now)
    show ?thesis
    proof (cases "wk_refresh wk v")
      case (Cons i rest)
      obtain addrs where "refresh_addrs ops v now i (node_state (wk_node wk)) = Inr addrs"
        using sorted_nodes [OF family_table_ok [OF ok(1), of v], of i now] by (auto simp: refresh_addrs_def)
      with Cons worker_inv_fields(3) [OF inv] show ?thesis by (simp add: WkRefreshTake)
    qed (use inv WkRefreshTake in simp)
  next
    case (WkRead received)
    with worker_inv_fields(4) [OF inv] finish_task_ok [OF inv] inv show ?thesis 
      by (auto split: option.split sum.split)
  next
    case WkPass
    with worker_inv_fields(6) [OF inv] inv show ?thesis by (auto split: option.split)
  next
    case (WkHandle env)
    show ?thesis
    proof (cases "wk_output wk")
      case (Cons m rest)
      obtain msg addr where m: "m = (msg, addr)" by (cases m)
      have "worker_inv ops (wk\<lparr>wk_output := rest\<rparr>)"
        using inv Cons by (intro worker_inv_fields(5) [OF inv]) (simp add: worker_inv_def)
      from with_node_ok [OF this, of "EvMessage env msg addr"] Cons m show ?thesis unfolding WkHandle by auto
    qed (use inv WkHandle in simp)
  next
    case WkWrite
    from writer_take_ok [OF ok(2)] worker_inv_state [OF inv] inv show ?thesis unfolding WkWrite
      by (auto simp: framer_write_def split: option.split)
  next
    case (WkSent sent)
    from writer_sent_ok [OF ok(2)] worker_inv_state [OF inv] inv show ?thesis unfolding WkSent
      by (auto simp: framer_sent_def split: option.split)
  next
    case (WkCollect now)
    with with_node_ok [OF inv, of "EvCollect now"] show ?thesis by auto
  next
    case (WkBootstrap result)
    with finish_task_ok [OF inv] show ?thesis by simp
  qed
qed

lemma worker_step_ok: "worker_inv ops wk \<Longrightarrow> \<exists>wk'. worker_step ops w ev wk = Inr wk' \<and> worker_inv ops wk'"
  using task_step_ok [of wk w ev] by (simp add: worker_step_def)

lemma worker_run_ok:
  "worker_inv ops wk \<Longrightarrow> \<exists>wk'. run_ops (worker_step ops w) evs wk = Inr wk' \<and> worker_inv ops wk'"
proof (induction evs arbitrary: wk)
  case (Cons ev evs)
  obtain wk1 where "worker_step ops w ev wk = Inr wk1" "worker_inv ops wk1" using worker_step_ok [OF Cons.prems] by blast
  with Cons.IH show ?case by simp
qed simp

lemma worker_init_inv: "dht_inv ops y \<Longrightarrow> worker_inv ops (worker_init y)"
  by (simp add: worker_inv_def worker_init_def pings_ok_def ping_channels_def map_filter_def)

end

text \<open>The worker after any run from the start.\<close>

lemma worker_run_from_start:
  assumes "id20_api ops" and "run_ops (worker_step ops w) evs (worker_init (dht_start ops now i addr)) = Inr wk"
  shows "worker_inv ops wk"
  using id20_api.worker_run_ok [OF assms(1) id20_api.worker_init_inv [OF assms(1) id20_api.dht_start_ok [OF assms(1)]], of w evs now i addr]
    assms(2) by auto

section \<open>The worker is safe\<close>

text \<open>
  C16. The worker never panics: from the start of a node, every interleaving of the polls of its tasks
  (the ticks of pingers and refreshers, the polls of every single ping, the framer's reads and writes
  with any datagram and any error of the socket, the handling of messages, the garbage collection, the
  end of the bootstrap) with the actions of the node's users can be executed. The tables and stores stay
  well-formed, at most one message is between the framer and the response reader, no two pings wait on
  the same channel, and if the worker returns, it returns an error and the node can no longer send.
\<close>

theorem worker_never_panics:
  assumes "id20_api ops"
  shows "\<exists>wk. run_ops (worker_step ops w) evs (worker_init (dht_start ops now i addr)) = Inr wk
    \<and> dht_inv ops (wk_node wk) \<and> length (wk_output wk) \<le> 1 \<and> distinct (ping_channels wk)
    \<and> (\<forall>r. wk_end wk = Some r \<longrightarrow> (\<exists>e. r = Inl e) \<and> \<not> worker_alive (node_state (wk_node wk)))"
proof -
  have "worker_inv ops (worker_init (dht_start ops now i addr))"
    using id20_api.worker_init_inv [OF assms] id20_api.dht_start_ok [OF assms] by blast
  from id20_api.worker_run_ok [OF assms this, of w evs] show ?thesis by (auto simp: worker_inv_def pings_ok_def)
qed

definition worker_sample :: "160 word worker_event list" where
  "worker_sample = [WkNode (EvAddNode (\<lambda>k. 5) 5 9 sample_addr), WkPingTick True 6, WkPingTake True, WkPingPoll 0 7,
     WkRead (Inr ([], sample_addr))]"

theorem worker_never_panics_witness:
  "\<exists>wk. run_ops (worker_step id20_word compact_wire) worker_sample (worker_init (dht_start id20_word 0 5 sample_addr)) = Inr wk
    \<and> dht_inv id20_word (wk_node wk) \<and> length (wk_output wk) \<le> 1 \<and> distinct (ping_channels wk)
    \<and> (\<forall>r. wk_end wk = Some r \<longrightarrow> (\<exists>e. r = Inl e) \<and> \<not> worker_alive (node_state (wk_node wk)))"
  by (rule worker_never_panics [OF id20_word_api])

section \<open>Every ping ends\<close>

text \<open>
  C18. Every ping can end: in any state a worker can reach, a ping that waits has an outstanding request of
  its own, at its node's address, and when its time is up the worker can step: the ping is gone, its request
  no longer in flight, and its node, if still in the table, has one more error.
\<close>

theorem every_ping_can_end:
  assumes "id20_api ops" and "run_ops (worker_step ops w) evs (worker_init (dht_start ops now i addr)) = Inr wk"
    and "wk_end wk = None" and "k < length (wk_pings wk)" and "wk_pings wk ! k = (v, j, a, Some ch)"
  shows "\<exists>wk' tid. worker_step ops w (WkPingDone k TimedOut t) wk = Inr wk'
    \<and> waiting (wk_node wk) ch = Some (tid, a) \<and> waiting (wk_node wk') = (waiting (wk_node wk))(ch := None)
    \<and> wk_pings wk' = take k (wk_pings wk) @ drop (Suc k) (wk_pings wk)
    \<and> inflight (node_state (wk_node wk')) (tid, a) = None
    \<and> rt_lookup (family_table v (node_state (wk_node wk'))) j
        = map_option mark_error (rt_lookup (family_table v (node_state (wk_node wk))) j)"
proof -
  obtain wk' tid b where "task_step ops w (WkPingDone k TimedOut t) wk = Inr wk'"
    "waiting (wk_node wk) ch = Some (tid, b)" "b = a" "wk_pings wk' = take k (wk_pings wk) @ drop (Suc k) (wk_pings wk)"
    "waiting (wk_node wk') = (waiting (wk_node wk))(ch := None)" "inflight (node_state (wk_node wk')) (tid, b) = None"
    "rt_lookup (family_table v (node_state (wk_node wk'))) j
      = map_option mark_error (rt_lookup (family_table v (node_state (wk_node wk))) j)"
    using id20_api.ping_done_step_ok [OF assms(1) worker_run_from_start [OF assms(1,2)] assms(4,5), of w TimedOut t] by auto
  with assms(3) show ?thesis by (intro exI [of _ wk'] exI [of _ tid]) (simp add: worker_step_def)
qed

lemma iter_one_leaf:
  "bucket_iter \<lparr>tree_data = [\<lparr>bits = b, start = lo, end_inclusive = hi, node_data = Leaf l\<rparr>], tree_size = n, max_size = m\<rparr>
    = Some (bucket_nodes l)"
proof -
  let ?t = "\<lparr>tree_data = [\<lparr>bits = b, start = lo, end_inclusive = hi, node_data = Leaf l\<rparr>], tree_size = n, max_size = m\<rparr>"
  have "iter_collect ?t [] = Some []" by (subst iter_collect.simps) (simp add: iter_next.simps)
  then have "iter_collect ?t [0] = Some [\<lparr>item_bits = b, item_start = lo, item_end_inclusive = hi, item_leaf = l\<rparr>]"
    by (subst iter_collect.simps) (simp add: iter_next.simps)
  then show ?thesis by (simp add: bucket_iter_def iter_leaves_def)
qed

definition ping_sample :: "160 word worker_event list" where
  "ping_sample = [WkNode (EvAddNode (\<lambda>k. 0) 0 5 sample_addr), WkPingTick True 6, WkPingTake True, WkPingPoll 0 7]"

lemma ping_sample_run:
  "\<exists>wk. run_ops (worker_step id20_word compact_wire) ping_sample (worker_init (dht_start id20_word 0 9 sample_addr)) = Inr wk
   \<and> wk_end wk = None \<and> wk_pings wk = [(True, 5, sample_addr, Some 0)]"
  by (simp add: ping_sample_def worker_step_def worker_init_def with_node_def rt_eval dht_start_def dht_new_internal_def
      get_table_for_addr_def set_table_for_addr_def sample_addr_def DEFAULT_MAX_SIZE_def iter_one_leaf status_def
      mark_outgoing_request_def ping_candidates_def family_table_def set_family_table_def rt_iter_def fresh_node_def
      ping_poll_def ping_begin_def request_start_eq)

theorem every_ping_can_end_witness:
  "\<exists>wk wk'. run_ops (worker_step id20_word compact_wire) ping_sample (worker_init (dht_start id20_word 0 9 sample_addr)) = Inr wk
    \<and> worker_step id20_word compact_wire (WkPingDone 0 TimedOut 70) wk = Inr wk' \<and> wk_pings wk' = []"
proof -
  obtain wk where wk: "run_ops (worker_step id20_word compact_wire) ping_sample
      (worker_init (dht_start id20_word 0 9 sample_addr)) = Inr wk"
    "wk_end wk = None" "wk_pings wk = [(True, 5, sample_addr, Some 0)]" using ping_sample_run by blast
  from every_ping_can_end [OF id20_word_api wk(1,2), of 0 True 5 sample_addr 0 70] wk(3)
  obtain wk' where "worker_step id20_word compact_wire (WkPingDone 0 TimedOut 70) wk = Inr wk'" "wk_pings wk' = []" by auto
  with wk(1) show ?thesis by blast
qed

section \<open>The order of messages\<close>

text \<open>
  What an event adds to the messages that the socket delivered and the reader could parse, and what it
  takes out of the channel to handle it; \<open>traced\<close> collects either over a run.
\<close>

definition heard :: "'id wire \<Rightarrow> 'id worker_event \<Rightarrow> 'id worker_system \<Rightarrow> ('id message \<times> socket_addr) list" where
  "heard w ev wk = (case (wk_end wk, wk_reading wk, ev) of
     (None, None, WkRead (Inr (bs, addr))) \<Rightarrow> (case reader_step w bs of Some msg \<Rightarrow> [(msg, addr)] | None \<Rightarrow> [])
   | _ \<Rightarrow> [])"

definition handled :: "'id worker_event \<Rightarrow> 'id worker_system \<Rightarrow> ('id message \<times> socket_addr) list" where
  "handled ev wk = (case (wk_end wk, ev) of (None, WkHandle env) \<Rightarrow> take 1 (wk_output wk) | _ \<Rightarrow> [])"

fun traced ::
    "('e \<Rightarrow> 's \<Rightarrow> 'm list) \<Rightarrow> ('e \<Rightarrow> 's \<Rightarrow> abort + 's) \<Rightarrow> 'e list \<Rightarrow> 's \<Rightarrow> 'm list" where
  "traced f step [] s = []"
| "traced f step (e # es) s = f e s @ (case step e s of Inl a \<Rightarrow> [] | Inr s' \<Rightarrow> traced f step es s')"

definition pend :: "'id worker_system \<Rightarrow> ('id message \<times> socket_addr) list" where
  "pend wk = wk_output wk @ (case wk_reading wk of Some m \<Rightarrow> [m] | None \<Rightarrow> [])"

lemma finish_task_pend:
  "(wk_end wk = None \<Longrightarrow> wk_end (finish_task task r wk) = None \<Longrightarrow> pend (finish_task task r wk) = pend wk)"
  by (auto simp: finish_task_def pend_def split: prod.splits option.splits)

lemma framer_finished:
  "finish_task Framer r wk = (worker_init ((wk_node wk)\<lparr>node_state := (node_state (wk_node wk))\<lparr>worker_alive := False\<rparr>,
     dropped := dropped (wk_node wk) \<union> set (ping_channels wk)\<rparr>))
     \<lparr>wk_bootstrap_done := wk_bootstrap_done wk, wk_end := Some (task_finished ''framer'' r)\<rparr>"
  by (simp add: finish_task_def)

lemma writer_fields [simp]:
  "wk_end (framer_write wk) = wk_end wk" "wk_reading (framer_write wk) = wk_reading wk" "wk_output (framer_write wk) = wk_output wk"
  "wk_end (framer_sent sent wk) = wk_end wk" "wk_reading (framer_sent sent wk) = wk_reading wk"
  "wk_output (framer_sent sent wk) = wk_output wk"
  by (simp_all add: framer_write_def framer_sent_def split: option.split)

lemma step_order:
  assumes "worker_step ops w ev wk = Inr wk'" and "wk_end wk' = None"
  shows "wk_end wk = None \<and> pend wk @ heard w ev wk = handled ev wk @ pend wk'"
proof (cases ev)
  case (WkRead received)
  with assms show ?thesis
    by (cases "wk_end wk"; cases received; cases "wk_reading wk")
      (auto simp: framer_finished worker_step_def heard_def handled_def pend_def split: option.splits)
next
  case (WkBootstrap r)
  with assms finish_task_pend [of wk Bootstrap r] show ?thesis
    by (cases "wk_end wk") (auto simp: worker_step_def heard_def handled_def split: option.split)
qed (use assms in \<open>auto simp: worker_step_def heard_def handled_def pend_def with_node_def and_then_eq_Inr
      split: if_splits option.splits list.splits prod.splits\<close>)

lemma ending_step:
  assumes "worker_step ops w ev wk = Inr wk'" and "wk_end wk' \<noteq> None"
  shows "heard w ev wk = [] \<and> handled ev wk = []"
proof (cases "wk_end wk")
  case None
  with assms show ?thesis
    by (cases ev) (auto simp: worker_step_def heard_def handled_def with_node_def and_then_eq_Inr
        split: if_splits option.splits list.splits prod.splits sum.splits)
qed (simp add: heard_def handled_def)

lemma ended_stays:
  assumes "worker_step ops w ev wk = Inr wk'" and "wk_end wk \<noteq> None"
  shows "wk_end wk' = wk_end wk"
  using assms by (cases ev) (auto simp: worker_step_def with_node_def and_then_eq_Inr split: if_splits)

lemma ended_run:
  assumes "run_ops (worker_step ops w) evs wk = Inr wk'" and "wk_end wk \<noteq> None"
  shows "wk_end wk' = wk_end wk \<and> traced (heard w) (worker_step ops w) evs wk = [] \<and> traced handled (worker_step ops w) evs wk = []"
  using assms
proof (induction evs arbitrary: wk)
  case (Cons ev evs)
  from Cons.prems obtain wk1 where wk1: "worker_step ops w ev wk = Inr wk1" "run_ops (worker_step ops w) evs wk1 = Inr wk'"
    by (auto simp: and_then_eq_Inr)
  from ended_stays [OF wk1(1) Cons.prems(2)] have e: "wk_end wk1 = wk_end wk" .
  with Cons.prems(2) have n: "wk_end wk1 \<noteq> None" by simp
  from Cons.IH [OF wk1(2) n] ending_step [OF wk1(1) n] wk1(1) e show ?case by simp
qed simp

text \<open>While the worker runs, what is between the reader and the handler is what was heard and not yet handled.\<close>

lemma append_chain: "a @ b = c @ d \<Longrightarrow> d @ e = f @ r \<Longrightarrow> a @ b @ e = c @ f @ r"
  by (metis append_assoc)

lemma run_order:
  assumes "run_ops (worker_step ops w) evs wk = Inr wk'"
  shows "\<exists>rest. pend wk @ traced (heard w) (worker_step ops w) evs wk = traced handled (worker_step ops w) evs wk @ rest
    \<and> (wk_end wk' = None \<longrightarrow> rest = pend wk')"
  using assms
proof (induction evs arbitrary: wk)
  case (Cons ev evs)
  from Cons.prems obtain wk1 where wk1: "worker_step ops w ev wk = Inr wk1" "run_ops (worker_step ops w) evs wk1 = Inr wk'"
    by (auto simp: and_then_eq_Inr)
  show ?case
  proof (cases "wk_end wk1")
    case None
    from Cons.IH [OF wk1(2)] obtain rest where "pend wk1 @ traced (heard w) (worker_step ops w) evs wk1
        = traced handled (worker_step ops w) evs wk1 @ rest" and "wk_end wk' = None \<longrightarrow> rest = pend wk'"
      by (elim exE conjE)
    with append_chain [OF conjunct2 [OF step_order [OF wk1(1) None]] this(1)] show ?thesis
      unfolding traced.simps wk1(1) sum.case append_assoc by (intro exI [of _ rest] conjI)
  next
    case (Some r)
    with ended_run [OF wk1(2)] ending_step [OF wk1(1)] wk1(1) show ?thesis by simp
  qed
qed simp

text \<open>
  C17. Messages are handled in the order they arrive, none twice and none invented: over any run from the
  start, the messages given to the node are the first of those that the socket delivered and that could
  be parsed, in the same order; while the worker runs, the ones not yet handled are exactly the message
  in the channel and the one that the reader waits to pass on, so at most two are ever behind.
\<close>

theorem messages_handled_in_order:
  assumes "id20_api ops" and "run_ops (worker_step ops w) evs (worker_init (dht_start ops now i addr)) = Inr wk"
  shows "\<exists>rest. traced (heard w) (worker_step ops w) evs (worker_init (dht_start ops now i addr))
      = traced handled (worker_step ops w) evs (worker_init (dht_start ops now i addr)) @ rest
    \<and> (wk_end wk = None \<longrightarrow> rest = wk_output wk @ (case wk_reading wk of Some m \<Rightarrow> [m] | None \<Rightarrow> []) \<and> length rest \<le> 2)"
  using run_order [OF assms(2)] worker_run_from_start [OF assms]
  by (auto simp: pend_def worker_init_def worker_inv_def split: option.split)

definition order_sample :: "160 word worker_event list" where
  "order_sample = [WkRead (Inr (datagram_of compact_wire sample_ping, sample_addr)), WkPass, WkRead (Inr ([], sample_addr)),
     WkHandle sample_env, WkRead (Inl ''reset''), WkHandle sample_env]"

theorem messages_handled_in_order_witness:
  "\<exists>wk rest. run_ops (worker_step id20_word compact_wire) order_sample (worker_init (dht_start id20_word 0 5 sample_addr)) = Inr wk
    \<and> traced (heard compact_wire) (worker_step id20_word compact_wire) order_sample (worker_init (dht_start id20_word 0 5 sample_addr))
      = traced handled (worker_step id20_word compact_wire) order_sample (worker_init (dht_start id20_word 0 5 sample_addr)) @ rest"
proof -
  have "worker_inv id20_word (worker_init (dht_start id20_word 0 5 sample_addr))"
    by (intro w20.worker_init_inv w20.dht_start_ok)
  from w20.worker_run_ok [OF this, of compact_wire order_sample] obtain wk where
    wk: "run_ops (worker_step id20_word compact_wire) order_sample (worker_init (dht_start id20_word 0 5 sample_addr)) = Inr wk" by blast
  from messages_handled_in_order [OF id20_word_api wk] wk show ?thesis by blast
qed

section \<open>A failing socket\<close>

text \<open>
  C19. One failed receive ends the node for good: if the socket returns an error while the reader waits for
  a datagram, the worker returns with that error, whatever its other tasks were doing; from then on,
  whatever the users of the node do, the worker stays returned and every new request fails at once with
  the error of a dead node.
\<close>

theorem receive_error_ends_node:
  assumes "id20_api ops" and "run_ops (worker_step ops w) evs (worker_init (dht_start ops now i addr)) = Inr wk"
    and "wk_end wk = None" and "wk_reading wk = None"
    and "run_ops (worker_step ops w) (WkRead (Inl err) # later) wk = Inr wk'"
  shows "wk_end wk' = Some (Inl (TaskFailed ''framer'' (RecvError err)))
    \<and> snd (request_start req dst (node_state (wk_node wk'))) = Inl DhtDead"
proof -
  have "worker_inv ops wk" by (rule worker_run_from_start [OF assms(1,2)])
  from id20_api.worker_run_ok [OF assms(1) this, of w "WkRead (Inl err) # later"] assms(5) have inv: "worker_inv ops wk'" by auto
  obtain wk1 where wk1: "worker_step ops w (WkRead (Inl err)) wk = Inr wk1" "run_ops (worker_step ops w) later wk1 = Inr wk'"
    using assms(5) by (auto simp: and_then_eq_Inr)
  then have "wk_end wk1 = Some (Inl (TaskFailed ''framer'' (RecvError err)))"
    using assms(3,4) by (auto simp: worker_step_def framer_finished)
  with ended_run [OF wk1(2)] have e: "wk_end wk' = Some (Inl (TaskFailed ''framer'' (RecvError err)))" by simp
  with inv have "\<not> worker_alive (node_state (wk_node wk'))" by (simp add: worker_inv_def)
  with e show ?thesis by (simp add: request_start_eq Let_def)
qed

theorem receive_error_ends_node_witness:
  "\<exists>wk'. run_ops (worker_step id20_word compact_wire) [WkRead (Inl ''reset''), WkCollect 3]
      (worker_init (dht_start id20_word 0 5 sample_addr)) = Inr wk'
    \<and> wk_end wk' = Some (Inl (TaskFailed ''framer'' (RecvError ''reset'')))
    \<and> snd (request_start Ping sample_addr (node_state (wk_node wk'))) = Inl DhtDead"
proof -
  let ?wk = "worker_init (dht_start id20_word 0 5 sample_addr)"
  have "worker_inv id20_word ?wk" by (intro w20.worker_init_inv w20.dht_start_ok)
  from w20.worker_run_ok [OF this, of compact_wire "[WkRead (Inl ''reset''), WkCollect 3]"] obtain wk' where
    wk': "run_ops (worker_step id20_word compact_wire) [WkRead (Inl ''reset''), WkCollect 3] ?wk = Inr wk'" by blast
  have "run_ops (worker_step id20_word compact_wire) [] ?wk = Inr ?wk" by simp
  from receive_error_ends_node [OF id20_word_api this _ _ wk', of Ping sample_addr] wk' show ?thesis
    by (simp add: worker_init_def)
qed

section \<open>Retries\<close>

text \<open>
  Bootstrapping from a host succeeds exactly if one of its attempts succeeds before the policy's delays
  run out; otherwise the last error is its result.
\<close>

lemma backoff_succeeds_iff:
  "bootstrap_with_backoff results delays = Some (Inr ())
    \<longleftrightarrow> (\<exists>k. k < length results \<and> k \<le> length delays \<and> results ! k = Inr () \<and> (\<forall>l<k. \<exists>e. results ! l = Inl e))"
proof (induction results delays rule: bootstrap_with_backoff.induct)
  case (4 e results d delays)
  have "(\<exists>k. P k) \<longleftrightarrow> P 0 \<or> (\<exists>k. P (Suc k))" for P :: "nat \<Rightarrow> bool" by (metis not0_implies_Suc)
  note ex = this [of "\<lambda>k. k < length (Inl e # results) \<and> k \<le> length (d # delays)
    \<and> (Inl e # results) ! k = Inr () \<and> (\<forall>l<k. \<exists>e'. (Inl e # results) ! l = Inl e')"]
  show ?case unfolding ex by (simp add: 4 All_less_Suc2)
qed (auto simp: less_Suc_eq_0_disj)

end
