(* ===== verification/Item_Races.thy ===== *)
theory Item_Races
  imports Item_Store
begin

text \<open>
  The item store shared by threads. \<^verbatim>\<open>MutableItemStore\<close> takes \<open>&self\<close>, is documented as
  thread-safe, and keeps its items in a concurrent map: each call of the map is atomic, a method that
  makes several is not. Here every call of the map is a step of its own, and the steps of
  any number of threads interleave. Iterating over the map takes no snapshot, so what a thread saw while
  it looked for the oldest item is a parameter of its step; a claim that something can happen must fix it
  to what the map holds (\<open>faithful\<close>), a claim for all runs need not.
\<close>

section \<open>Calls step by step\<close>

text \<open>
  Where a call of \<^verbatim>\<open>store\<close> stands: before \<^verbatim>\<open>get\<close>, \<^verbatim>\<open>contains_key\<close>,
  \<^verbatim>\<open>len\<close>, the iteration and the removal of \<^verbatim>\<open>evict_oldest\<close>, before \<^verbatim>\<open>insert\<close>, or at its end; and
  where the loop of \<^verbatim>\<open>garbage_collect\<close> stands.
\<close>

datatype 'id store_phase =
    Checking
  | Looking
  | Measuring
  | Scanning
  | Removing 'id
  | Inserting
  | Returned bool

datatype 'id collect_phase =
    Comparing
  | Searching
  | Deleting 'id
  | Collected

datatype 'id item_call =
    StoreCall 'id stored_mutable_item "'id store_phase"
  | CollectCall "'id collect_phase"

definition oldest_key :: "('id \<times> stored_mutable_item) list \<Rightarrow> 'id option" where
  "oldest_key seen = map_option fst (min_by_key (\<lambda>e. last_updated (snd e)) seen)"

fun store_step ::
    "'id \<Rightarrow> stored_mutable_item \<Rightarrow> ('id \<times> stored_mutable_item) list \<Rightarrow> 'id store_phase \<Rightarrow> 'id mutable_item_store
      \<Rightarrow> 'id mutable_item_store \<times> 'id store_phase" where
  "store_step target item seen Checking s =
    (s, if case map_of (mis_items s) target of Some existing \<Rightarrow> mi_seq existing \<ge> mi_seq item | None \<Rightarrow> False
        then Returned False else Looking)"
| "store_step target item seen Looking s = (s, if map_of (mis_items s) target \<noteq> None then Inserting else Measuring)"
| "store_step target item seen Measuring s = (s, if length (mis_items s) \<ge> max_items s then Scanning else Inserting)"
| "store_step target item seen Scanning s =
    (s, case oldest_key seen of Some key \<Rightarrow> Removing key | None \<Rightarrow> Inserting)"
| "store_step target item seen (Removing key) s = (s\<lparr>mis_items := AList.delete key (mis_items s)\<rparr>, Inserting)"
| "store_step target item seen Inserting s = (s\<lparr>mis_items := AList.update target item (mis_items s)\<rparr>, Returned True)"
| "store_step target item seen (Returned b) s = (s, Returned b)"

fun collect_step ::
    "('id \<times> stored_mutable_item) list \<Rightarrow> 'id collect_phase \<Rightarrow> 'id mutable_item_store
      \<Rightarrow> 'id mutable_item_store \<times> 'id collect_phase" where
  "collect_step seen Comparing s = (s, if length (mis_items s) > max_items s then Searching else Collected)"
| "collect_step seen Searching s = (s, case oldest_key seen of Some key \<Rightarrow> Deleting key | None \<Rightarrow> Comparing)"
| "collect_step seen (Deleting key) s = (s\<lparr>mis_items := AList.delete key (mis_items s)\<rparr>, Comparing)"
| "collect_step seen Collected s = (s, Collected)"

section \<open>Threads\<close>

record 'id item_threads =
  it_store :: "'id mutable_item_store"
  it_calls :: "nat \<Rightarrow> 'id item_call option"

datatype 'id race_event =
    BeginStore nat 'id stored_mutable_item
  | BeginCollect nat
  | Advance nat "('id \<times> stored_mutable_item) list"

fun over :: "'id item_call option \<Rightarrow> bool" where
  "over None \<longleftrightarrow> True"
| "over (Some (StoreCall t i (Returned b))) \<longleftrightarrow> True"
| "over (Some (CollectCall Collected)) \<longleftrightarrow> True"
| "over _ \<longleftrightarrow> False"

fun race_step :: "'id race_event \<Rightarrow> 'id item_threads \<Rightarrow> 'id item_threads" where
  "race_step (BeginStore n target item) c =
    (if over (it_calls c n) then c\<lparr>it_calls := (it_calls c)(n \<mapsto> StoreCall target item Checking)\<rparr> else c)"
| "race_step (BeginCollect n) c =
    (if over (it_calls c n) then c\<lparr>it_calls := (it_calls c)(n \<mapsto> CollectCall Comparing)\<rparr> else c)"
| "race_step (Advance n seen) c = (case it_calls c n of
     None \<Rightarrow> c
   | Some (StoreCall target item ph) \<Rightarrow> (case store_step target item seen ph (it_store c) of
       (s, ph') \<Rightarrow> \<lparr>it_store = s, it_calls = (it_calls c)(n \<mapsto> StoreCall target item ph')\<rparr>)
   | Some (CollectCall ph) \<Rightarrow> (case collect_step seen ph (it_store c) of
       (s, ph') \<Rightarrow> \<lparr>it_store = s, it_calls = (it_calls c)(n \<mapsto> CollectCall ph')\<rparr>))"

definition race :: "'id race_event list \<Rightarrow> 'id item_threads \<Rightarrow> 'id item_threads" where
  "race evs c = fold race_step evs c"

lemma race_simps [simp]: "race [] c = c" "race (ev # evs) c = race evs (race_step ev c)"
  "race (xs @ ys) c = race ys (race xs c)"
  by (simp_all add: race_def)

definition alone :: "'id mutable_item_store \<Rightarrow> 'id item_threads" where
  "alone s = \<lparr>it_store = s, it_calls = (\<lambda>n. None)\<rparr>"

section \<open>A call that no other interrupts\<close>

text \<open>
  A check of the step model: a call of \<^verbatim>\<open>store\<close> that runs to its end without another thread
  between its steps, and whose iteration sees the map as it is, does what the operation of \<open>Item_Store\<close>
  does, within six steps: the same store and the same result.
\<close>

theorem store_alone_is_atomic:
  assumes "over (it_calls c n)"
  shows "\<exists>k \<le> 6. race (BeginStore n target item # replicate k (Advance n (mis_items (it_store c)))) c
    = \<lparr>it_store = fst (item_store (it_store c) target item),
       it_calls = (it_calls c)(n \<mapsto> StoreCall target item (Returned (snd (item_store (it_store c) target item))))\<rparr>"
proof -
  let ?s = "it_store c"
  have e: "evict_oldest ?s = (case oldest_key (mis_items ?s) of Some key \<Rightarrow> ?s\<lparr>mis_items := AList.delete key (mis_items ?s)\<rparr> | None \<Rightarrow> ?s)"
    by (simp add: evict_oldest_def oldest_key_def)
  show ?thesis
  proof (cases "map_of (mis_items ?s) target")
    case (Some old)
    with assms show ?thesis
      by (intro exI [of _ "if mi_seq item \<le> mi_seq old then 1 else 3"]) (simp add: item_store_def numeral_3_eq_3 Let_def)
  next
    case None
    show ?thesis
    proof (cases "max_items ?s \<le> length (mis_items ?s)")
      case True
      with None assms e show ?thesis
        by (intro exI [of _ "if oldest_key (mis_items ?s) = None then 5 else 6"])
          (auto simp: item_store_def eval_nat_numeral Let_def split: option.splits)
    next
      case False
      with None assms show ?thesis by (intro exI [of _ 4]) (simp add: item_store_def eval_nat_numeral Let_def)
    qed
  qed
qed

theorem store_alone_is_atomic_witness:
  "\<exists>k \<le> 6. race (BeginStore 1 3 (sample_item 0 20) # replicate k (Advance 1 [(1 :: nat, sample_item 4 10), (2, sample_item 1 9)]))
      (alone \<lparr>mis_items = [(1, sample_item 4 10), (2, sample_item 1 9)], max_items = 2\<rparr>)
    = \<lparr>it_store = \<lparr>mis_items = [(1, sample_item 4 10), (3, sample_item 0 20)], max_items = 2\<rparr>,
       it_calls = (\<lambda>n. None)(1 \<mapsto> StoreCall 3 (sample_item 0 20) (Returned True))\<rparr>"
  using store_alone_is_atomic [of "alone \<lparr>mis_items = [(1 :: nat, sample_item 4 10), (2, sample_item 1 9)], max_items = 2\<rparr>"
      1 3 "sample_item 0 20"]
  by (simp add: alone_def item_store_def Let_def evict_oldest_def sample_item_def)

section \<open>Sequence numbers\<close>

fun busy :: "'id item_threads \<Rightarrow> 'id \<Rightarrow> nat \<Rightarrow> bool" where
  "busy c t n \<longleftrightarrow> (case it_calls c n of Some (StoreCall t' i ph) \<Rightarrow> t' = t \<and> \<not> over (it_calls c n) | _ \<Rightarrow> False)"

text \<open>The callers exclude each other: a store begins only while no other thread stores under the same target.\<close>

fun excludes :: "nat \<Rightarrow> 'id item_threads \<Rightarrow> 'id race_event \<Rightarrow> bool" where
  "excludes N c (BeginStore n target item) \<longleftrightarrow> n < N \<and> (\<forall>m \<in> set [0..<N]. \<not> busy c target m)"
| "excludes N c _ \<longleftrightarrow> True"

fun exclusive :: "nat \<Rightarrow> 'id race_event list \<Rightarrow> 'id item_threads \<Rightarrow> bool" where
  "exclusive N [] c \<longleftrightarrow> True"
| "exclusive N (ev # evs) c \<longleftrightarrow> excludes N c ev \<and> exclusive N evs (race_step ev c)"

text \<open>A call past its check will only replace a lower sequence number.\<close>

definition sequenced :: "nat \<Rightarrow> 'id item_threads \<Rightarrow> bool" where
  "sequenced N c \<longleftrightarrow> (\<forall>t n. busy c t n \<longrightarrow> n < N) \<and> (\<forall>t n m. busy c t n \<longrightarrow> busy c t m \<longrightarrow> m = n)
     \<and> (\<forall>n t i ph. it_calls c n = Some (StoreCall t i ph) \<longrightarrow> busy c t n \<longrightarrow> ph \<noteq> Checking
          \<longrightarrow> (\<forall>old. item_get (it_store c) t = Some old \<longrightarrow> mi_seq old < mi_seq i))"

definition raises :: "'id mutable_item_store \<Rightarrow> 'id mutable_item_store \<Rightarrow> bool" where
  "raises s s' \<longleftrightarrow> (\<forall>t old new. item_get s t = Some old \<longrightarrow> item_get s' t = Some new \<longrightarrow> new = old \<or> mi_seq old < mi_seq new)"

lemma item_get_delete [simp]:
  "item_get (s\<lparr>mis_items := AList.delete k (mis_items s)\<rparr>) t = (if t = k then None else item_get s t)"
  by (simp add: item_get_def delete_conv)

lemma item_get_update [simp]:
  "item_get (s\<lparr>mis_items := AList.update k i (mis_items s)\<rparr>) t = (if t = k then Some i else item_get s t)"
  by (simp add: item_get_def update_conv)

lemma over_store: "over (Some (StoreCall t i ph)) \<longleftrightarrow> (\<exists>b. ph = Returned b)"
  by (cases ph) simp_all

lemma over_collect: "over (Some (CollectCall ph)) \<longleftrightarrow> ph = Collected"
  by (cases ph) simp_all

lemma busy_iff: "busy c t n \<longleftrightarrow> (\<exists>i ph. it_calls c n = Some (StoreCall t i ph) \<and> (\<forall>b. ph \<noteq> Returned b))"
  by (auto simp: over_store split: option.splits item_call.splits)

declare busy.simps [simp del]

text \<open>One step of a call: what it does to its own target and to others.\<close>

lemma store_step_own:
  assumes "store_step t i seen ph s = (s', ph')"
    and "ph \<noteq> Checking \<Longrightarrow> \<forall>b. ph \<noteq> Returned b \<Longrightarrow> \<forall>old. item_get s t = Some old \<longrightarrow> mi_seq old < mi_seq i"
  shows "raises s s'" and "\<forall>b. ph' \<noteq> Returned b \<Longrightarrow> \<forall>old. item_get s' t = Some old \<longrightarrow> mi_seq old < mi_seq i"
  using assms by (cases ph; auto simp: raises_def item_get_def [symmetric] split: option.splits if_splits)+

lemma store_step_others:
  "store_step t i seen ph s = (s', ph') \<Longrightarrow> u \<noteq> t \<or> ph = Returned b \<Longrightarrow> item_get s' u = Some x \<Longrightarrow> item_get s u = Some x"
  by (cases ph) (auto split: if_splits)

lemma store_step_goes_on: "store_step t i seen ph s = (s', ph') \<Longrightarrow> (\<exists>b. ph' = Returned b) \<or> (\<forall>b. ph \<noteq> Returned b)"
  by (cases ph) auto

lemma collect_step_keeps: "collect_step seen ph s = (s', ph') \<Longrightarrow> item_get s' u = Some x \<Longrightarrow> item_get s u = Some x"
  by (cases ph) (auto split: if_splits)

lemma sequencedI:
  assumes inv: "sequenced N c" and busy: "\<And>u m. busy c' u m \<Longrightarrow> busy c u m"
    and past: "\<And>m u j q old. it_calls c' m = Some (StoreCall u j q) \<Longrightarrow> busy c' u m \<Longrightarrow> q \<noteq> Checking
      \<Longrightarrow> item_get (it_store c') u = Some old \<Longrightarrow> mi_seq old < mi_seq j"
  shows "sequenced N c'"
  unfolding sequenced_def
proof (intro conjI allI impI)
  show "n < N" if "busy c' t n" for t n using inv busy [OF that] by (simp add: sequenced_def)
  show "m = n" if "busy c' t n" "busy c' t m" for t n m
    using inv busy [OF that(1)] busy [OF that(2)] by (simp add: sequenced_def)
qed (rule past)

lemma sequenced_advance:
  assumes inv: "sequenced N c" and n: "it_calls c n = Some (StoreCall t i ph)"
    and st: "store_step t i seen ph (it_store c) = (s', ph')"
  shows "sequenced N \<lparr>it_store = s', it_calls = (it_calls c)(n \<mapsto> StoreCall t i ph')\<rparr> \<and> raises (it_store c) s'"
proof
  let ?c = "\<lparr>it_store = s', it_calls = (it_calls c)(n \<mapsto> StoreCall t i ph')\<rparr>"
  note inv' = inv [unfolded sequenced_def]
  have past: "\<forall>old. item_get (it_store c) t = Some old \<longrightarrow> mi_seq old < mi_seq i" if "ph \<noteq> Checking" "\<forall>b. ph \<noteq> Returned b"
    using inv' n that by (simp add: busy_iff)
  show "raises (it_store c) s'" by (rule store_step_own(1) [OF st past])
  have busy: "busy c u m" if "busy ?c u m" for u m
    using that n store_step_goes_on [OF st] by (auto simp: busy_iff split: if_splits)
  have "\<forall>old. item_get s' u = Some old \<longrightarrow> mi_seq old < mi_seq j"
    if m: "it_calls ?c m = Some (StoreCall u j q)" "busy ?c u m" "q \<noteq> Checking" for m u j q
  proof (cases "m = n")
    case True
    with m have "u = t" "j = i" "\<forall>b. ph' \<noteq> Returned b" by (simp_all add: busy_iff)
    with store_step_own(2) [OF st past] show ?thesis by simp
  next
    case False
    with m busy have c: "it_calls c m = Some (StoreCall u j q)" "busy c u m" by auto
    have "u \<noteq> t \<or> (\<exists>b. ph = Returned b)"
    proof (rule disjCI)
      assume "\<nexists>b. ph = Returned b"
      then have "busy c t n" using n by (simp add: busy_iff)
      then show "u \<noteq> t" using inv' c(2) False by blast
    qed
    with store_step_others [OF st] inv' c m(3) show ?thesis by blast
  qed
  then show "sequenced N ?c" by (intro sequencedI [OF inv busy]) auto
qed

lemma sequenced_other:
  assumes inv: "sequenced N c" and st: "\<And>u x. item_get s' u = Some x \<Longrightarrow> item_get (it_store c) u = Some x"
    and calls: "over (it_calls c n) \<or> (\<exists>ph. it_calls c n = Some (CollectCall ph))" "call = CollectCall ph'"
  shows "sequenced N \<lparr>it_store = s', it_calls = (it_calls c)(n \<mapsto> call)\<rparr> \<and> raises (it_store c) s'"
proof
  show "raises (it_store c) s'" using st by (fastforce simp: raises_def)
  have "busy c u m" if "busy \<lparr>it_store = s', it_calls = (it_calls c)(n \<mapsto> call)\<rparr> u m" for u m
    using that calls by (auto simp: busy_iff split: if_splits)
  then show "sequenced N \<lparr>it_store = s', it_calls = (it_calls c)(n \<mapsto> call)\<rparr>"
  proof (rule sequencedI [OF inv])
    fix m u j q old
    assume m: "it_calls \<lparr>it_store = s', it_calls = (it_calls c)(n \<mapsto> call)\<rparr> m = Some (StoreCall u j q)"
      "busy \<lparr>it_store = s', it_calls = (it_calls c)(n \<mapsto> call)\<rparr> u m" "q \<noteq> Checking"
      "item_get (it_store \<lparr>it_store = s', it_calls = (it_calls c)(n \<mapsto> call)\<rparr>) u = Some old"
    then have "it_calls c m = Some (StoreCall u j q)" "busy c u m" "item_get (it_store c) u = Some old"
      using calls(2) st by (auto simp: busy_iff split: if_splits)
    with inv m(3) show "mi_seq old < mi_seq j" by (simp add: sequenced_def)
  qed
qed

lemma sequenced_begin:
  assumes inv: "sequenced N c" and n: "n < N" "over (it_calls c n)" and free: "\<forall>m. \<not> busy c t m"
  shows "sequenced N (c\<lparr>it_calls := (it_calls c)(n \<mapsto> StoreCall t i Checking)\<rparr>)"
proof -
  have "busy (c\<lparr>it_calls := (it_calls c)(n \<mapsto> StoreCall t i Checking)\<rparr>) u m \<longleftrightarrow> busy c u m \<or> u = t \<and> m = n" for u m
    using n(2) by (auto simp: busy_iff over_store split: if_splits)
  with inv n(1) free show ?thesis unfolding sequenced_def by (auto split: if_splits)
qed

lemma sequenced_step:
  assumes inv: "sequenced N c" and ex: "excludes N c ev"
  shows "sequenced N (race_step ev c) \<and> raises (it_store c) (it_store (race_step ev c))"
proof (cases ev)
  case (BeginStore n target item)
  have "busy c target m \<Longrightarrow> m < N" for m using inv by (simp add: sequenced_def)
  with ex BeginStore have "\<forall>m. \<not> busy c target m" by auto
  with ex sequenced_begin [OF inv] show ?thesis using inv by (simp add: BeginStore raises_def)
next
  case (BeginCollect n)
  with sequenced_other [OF inv, of "it_store c" n] inv show ?thesis by (cases c) (simp add: raises_def)
next
  case (Advance n seen)
  show ?thesis
  proof (cases "it_calls c n")
    case (Some call)
    show ?thesis
    proof (cases call)
      case (CollectCall ph)
      obtain s' ph' where "collect_step seen ph (it_store c) = (s', ph')" by (cases "collect_step seen ph (it_store c)")
      note st = this
      have "sequenced N \<lparr>it_store = s', it_calls = (it_calls c)(n \<mapsto> CollectCall ph')\<rparr> \<and> raises (it_store c) s'"
        using Some CollectCall by (intro sequenced_other [OF inv collect_step_keeps [OF st]]) auto
      with st Some CollectCall show ?thesis by (simp add: Advance)
    next
      case (StoreCall t i ph)
      obtain s' ph' where "store_step t i seen ph (it_store c) = (s', ph')" by (cases "store_step t i seen ph (it_store c)")
      with sequenced_advance [OF inv] Some StoreCall show ?thesis by (simp add: Advance)
    qed
  qed (use inv Advance in \<open>simp add: raises_def\<close>)
qed

lemma sequenced_run:
  "sequenced N c \<Longrightarrow> exclusive N evs c \<Longrightarrow> sequenced N (race evs c)"
  by (induction evs arbitrary: c) (auto simp: sequenced_step)

text \<open>
  C21. If callers exclude each other per target, the store keeps its promise on sequence numbers under
  every interleaving, also with stores under other targets, evictions and collections by other threads and
  whatever their iterations see: no step replaces an item by one with a lower or equal sequence number.
\<close>

theorem sequence_kept_if_exclusive:
  assumes "exclusive N (evs @ [ev]) (alone s)"
    and "item_get (it_store (race evs (alone s))) t = Some old"
    and "item_get (it_store (race (evs @ [ev]) (alone s))) t = Some new"
  shows "new = old \<or> mi_seq old < mi_seq new"
proof -
  have "exclusive N evs c \<and> excludes N (race evs c) ev" if "exclusive N (evs @ [ev]) c" for c
    using that by (induction evs arbitrary: c) simp_all
  with assms(1) have ex: "exclusive N evs (alone s)" "excludes N (race evs (alone s)) ev" by blast+
  have "sequenced N (alone s)" by (simp add: sequenced_def alone_def busy_iff)
  from sequenced_step [OF sequenced_run [OF this ex(1)] ex(2)] assms(2,3) show ?thesis
    by (auto simp: raises_def)
qed

text \<open>Two threads on two targets: the store under target 1 begins among the steps of the other, and raises 4 to 5.\<close>

definition apart_store :: "nat mutable_item_store" where
  "apart_store = \<lparr>mis_items = [(1, sample_item 4 10)], max_items = 2\<rparr>"

definition apart :: "nat race_event list" where
  "apart = [BeginStore 0 1 (sample_item 5 20), BeginStore 1 2 (sample_item 3 20), Advance 0 [], Advance 1 [], Advance 0 []]"

theorem sequence_kept_if_exclusive_witness:
  "exclusive 2 (apart @ [Advance 0 []]) (alone apart_store)
    \<and> (\<exists>old new. item_get (it_store (race apart (alone apart_store))) 1 = Some old
        \<and> item_get (it_store (race (apart @ [Advance 0 []]) (alone apart_store))) 1 = Some new
        \<and> old = sample_item 4 10 \<and> new \<noteq> old \<and> mi_seq old < mi_seq new)"
proof -
  have ex: "exclusive 2 (apart @ [Advance 0 []]) (alone apart_store)"
    by (simp add: apart_def apart_store_def alone_def busy_iff upt_rec sample_item_def)
  have get: "item_get (it_store (race apart (alone apart_store))) 1 = Some (sample_item 4 10)"
    "item_get (it_store (race (apart @ [Advance 0 []]) (alone apart_store))) 1 = Some (sample_item 5 20)"
    by (simp_all add: apart_def apart_store_def alone_def item_get_def sample_item_def)
  have "sample_item 5 20 \<noteq> sample_item 4 10" by (simp add: sample_item_def)
  with sequence_kept_if_exclusive [OF ex get] ex get show ?thesis by blast
qed

section \<open>What racing calls can do\<close>

text \<open>
  Without such exclusion the promise fails: two threads store items with sequence numbers 4 and 5
  under the same new target, both calls return True, and the store is left with number 4.
\<close>

definition overtaking :: "nat race_event list" where
  "overtaking = [BeginStore 0 1 (sample_item 4 10), Advance 0 [], BeginStore 1 1 (sample_item 5 10), Advance 1 [],
     Advance 1 [], Advance 1 [], Advance 1 [], Advance 0 [], Advance 0 [], Advance 0 []]"

theorem racing_stores_lower_the_sequence:
  "let c = race overtaking (alone (item_store_new 9)) in
     it_calls c 0 = Some (StoreCall 1 (sample_item 4 10) (Returned True))
     \<and> it_calls c 1 = Some (StoreCall 1 (sample_item 5 10) (Returned True))
     \<and> map_option mi_seq (item_get (it_store c) 1) = Some 4"
  by (simp add: overtaking_def alone_def item_store_new_def item_get_def sample_item_def Let_def)

text \<open>One round of two threads on a full store: both choose the same item to evict, and both insert.\<close>

definition crowding :: "('id \<times> stored_mutable_item) list \<Rightarrow> 'id \<Rightarrow> 'id \<Rightarrow> stored_mutable_item \<Rightarrow> 'id race_event list" where
  "crowding seen a b item = [BeginStore 0 a item, BeginStore 1 b item] @ concat (replicate 6 [Advance 0 seen, Advance 1 seen])"

text \<open>Every iteration of a run sees the map as it is at that moment.\<close>

fun sees_map :: "'id race_event \<Rightarrow> 'id item_threads \<Rightarrow> bool" where
  "sees_map (Advance n seen) c \<longleftrightarrow> (case it_calls c n of
     Some (StoreCall t i Scanning) \<Rightarrow> seen = mis_items (it_store c)
   | Some (CollectCall Searching) \<Rightarrow> seen = mis_items (it_store c)
   | _ \<Rightarrow> True)"
| "sees_map _ c \<longleftrightarrow> True"

fun faithful :: "'id race_event list \<Rightarrow> 'id item_threads \<Rightarrow> bool" where
  "faithful [] c \<longleftrightarrow> True"
| "faithful (ev # evs) c \<longleftrightarrow> sees_map ev c \<and> faithful evs (race_step ev c)"

lemma faithful_append [simp]: "faithful (xs @ ys) c \<longleftrightarrow> faithful xs c \<and> faithful ys (race xs c)"
  by (induction xs arbitrary: c) simp_all

fun thread_of :: "'id race_event \<Rightarrow> nat" where
  "thread_of (BeginStore n t i) = n"
| "thread_of (BeginCollect n) = n"
| "thread_of (Advance n seen) = n"

definition settled :: "'id item_threads \<Rightarrow> bool" where
  "settled c \<longleftrightarrow> distinct (map fst (mis_items (it_store c))) \<and> over (it_calls c 0) \<and> over (it_calls c 1)"

lemma length_delete_distinct:
  assumes "distinct (map fst m)" and "k \<in> fst ` set m"
  shows "Suc (length (AList.delete k m)) = length m"
proof -
  have "distinct (map fst (AList.delete k m))" using assms(1) by (rule AList.distinct_delete)
  then have "length (AList.delete k m) = card (fst ` set (AList.delete k m))"
    by (metis distinct_card length_map set_map)
  also have "fst ` set (AList.delete k m) = fst ` set m - {k}" by (auto simp: set_delete_eq)
  also have "Suc (card (fst ` set m - {k})) = card (fst ` set m)" by (rule card_Suc_Diff1 [OF _ assms(2)]) simp
  also have "card (fst ` set m) = length m" using assms(1) by (metis distinct_card length_map set_map)
  finally show ?thesis .
qed

lemma crowding_round:
  assumes c: "settled c" and s: "it_store c = s" "max_items s \<le> length (mis_items s)" "mis_items s \<noteq> []"
    and ab: "a \<noteq> b" "a \<notin> fst ` set (mis_items s)" "b \<notin> fst ` set (mis_items s)"
  shows "\<exists>c'. race (crowding (mis_items s) a b item) c = c' \<and> faithful (crowding (mis_items s) a b item) c \<and> settled c' \<and> max_items (it_store c') = max_items s
    \<and> length (mis_items (it_store c')) = Suc (length (mis_items s))
    \<and> fst ` set (mis_items (it_store c')) \<subseteq> insert a (insert b (fst ` set (mis_items s)))"
proof -
  from s(3) obtain e where e: "min_by_key (\<lambda>e. last_updated (snd e)) (mis_items s) = Some e" 
    by (cases "min_by_key (\<lambda>e. last_updated (snd e)) (mis_items s)") simp_all
  have k: "fst e \<in> fst ` set (mis_items s)" using min_by_key_Some [OF e] by blast
  let ?d = "AList.delete (fst e) (mis_items s)"
  let ?m = "AList.update b item (AList.update a item ?d)"
  have none: "map_of (mis_items s) a = None" "map_of (mis_items s) b = None" using ab by (simp_all add: map_of_eq_None_iff)
  have two: "AList.delete (fst e) ?d = ?d" by (simp add: AList.delete_idem)
  have r: "race (crowding (mis_items s) a b item) c = \<lparr>it_store = s\<lparr>mis_items := ?m\<rparr>,
      it_calls = (it_calls c)(0 \<mapsto> StoreCall a item (Returned True), 1 \<mapsto> StoreCall b item (Returned True))\<rparr>"
    using c s ab none e two
    by (simp add: crowding_def settled_def eval_nat_numeral oldest_key_def fun_upd_twist)
  have f: "faithful (crowding (mis_items s) a b item) c"
    using c s ab none e two by (simp add: crowding_def settled_def eval_nat_numeral oldest_key_def)
  have d: "distinct (map fst (mis_items s))" using c s(1) by (simp add: settled_def)
  have "length ?m = Suc (length (mis_items s))"
    using length_delete_distinct [OF d k] ab none by (simp add: length_update update_conv delete_conv)
  with d f show ?thesis unfolding r
    by (auto simp: settled_def AList.distinct_update AList.distinct_delete set_delete_eq dom_update image_iff)
qed

lemma crowding_threads: "\<forall>ev \<in> set (crowding seen a b item). thread_of ev < 2"
  by (auto simp: crowding_def)

lemma crowding_rounds:
  assumes "settled c" and "max_items (it_store c) \<le> length (mis_items (it_store c))" and "mis_items (it_store c) \<noteq> []"
    and "distinct ts" and "set ts \<inter> fst ` set (mis_items (it_store c)) = {}" and "length ts = 2 * k"
  shows "\<exists>evs. (\<forall>ev \<in> set evs. thread_of ev < 2) \<and> faithful evs c \<and> settled (race evs c)
    \<and> length (mis_items (it_store (race evs c))) = length (mis_items (it_store c)) + k
    \<and> max_items (it_store (race evs c)) = max_items (it_store c)"
  using assms
proof (induction k arbitrary: c ts)
  case (Suc k)
  from Suc.prems(6) obtain a b ts' where ts: "ts = a # b # ts'" "length ts' = 2 * k"
    by (metis (no_types, lifting) Suc_length_conv mult_Suc_right numeral_2_eq_2 plus_1_eq_Suc add_Suc_right add_2_eq_Suc)
  with Suc.prems have ab: "a \<noteq> b" "a \<notin> fst ` set (mis_items (it_store c))" "b \<notin> fst ` set (mis_items (it_store c))" by auto
  let ?r = "crowding (mis_items (it_store c)) a b (sample_item 0 0)"
  obtain c' where c': "race ?r c = c'" "faithful ?r c" "settled c'" "max_items (it_store c') = max_items (it_store c)"
    "length (mis_items (it_store c')) = Suc (length (mis_items (it_store c)))"
    "fst ` set (mis_items (it_store c')) \<subseteq> insert a (insert b (fst ` set (mis_items (it_store c))))"
    using crowding_round [OF Suc.prems(1) refl Suc.prems(2,3) ab] by blast
  have "set ts' \<inter> insert a (insert b (fst ` set (mis_items (it_store c)))) = {}" "distinct ts'"
    using Suc.prems(4,5) ts by auto
  then have "set ts' \<inter> fst ` set (mis_items (it_store c')) = {}" "distinct ts'" using c'(6) by blast+
  moreover have "mis_items (it_store c') \<noteq> []" using c'(5) by auto
  moreover have "max_items (it_store c') \<le> length (mis_items (it_store c'))" using c'(4,5) Suc.prems(2) by simp
  ultimately obtain evs where "\<forall>ev \<in> set evs. thread_of ev < 2" "faithful evs c'" "settled (race evs c')"
    "length (mis_items (it_store (race evs c'))) = length (mis_items (it_store c')) + k"
    "max_items (it_store (race evs c')) = max_items (it_store c')"
    using Suc.IH [OF c'(3), of ts'] ts(2) by blast
  moreover have "\<forall>ev \<in> set ?r. thread_of ev < 2" by (rule crowding_threads)
  ultimately show ?case using c' by (intro exI [of _ "?r @ evs"]) (simp add: ball_Un)
qed (intro exI [of _ "[]"], simp)

text \<open>
  With one thread only, and iterations that see the map, this cannot happen: where the call will insert,
  its target is stored or there is room below \<open>M\<close>.
\<close>

definition single_ok :: "nat \<Rightarrow> 'id item_threads \<Rightarrow> bool" where
  "single_ok M c \<longleftrightarrow> distinct (map fst (mis_items (it_store c))) \<and> length (mis_items (it_store c)) \<le> M
     \<and> (\<forall>n. n \<noteq> 0 \<longrightarrow> it_calls c n = None)
     \<and> (\<forall>t i key. it_calls c 0 = Some (StoreCall t i (Removing key)) \<longrightarrow> key \<in> fst ` set (mis_items (it_store c)))
     \<and> (\<forall>t i. it_calls c 0 = Some (StoreCall t i Inserting) \<longrightarrow>
          t \<in> fst ` set (mis_items (it_store c)) \<or> length (mis_items (it_store c)) < M)"

lemma length_delete_le: "length m \<le> M \<Longrightarrow> length (AList.delete k m) \<le> M"
  unfolding AList.delete_eq by (rule order_trans [OF length_filter_le])

lemma length_update_le:
  "t \<in> fst ` set m \<or> length m < M \<Longrightarrow> length m \<le> M \<Longrightarrow> length (AList.update t i m) \<le> M"
  using map_of_eq_None_iff [of m t] by (auto simp: length_update split: if_splits)

lemma oldest_key_in: "oldest_key m = Some key \<Longrightarrow> key \<in> fst ` set m"
proof -
  assume "oldest_key m = Some key"
  then obtain i where "min_by_key (\<lambda>e. last_updated (snd e)) m = Some (key, i)" by (auto simp: oldest_key_def)
  from min_by_key_Some [OF this] show ?thesis by force
qed

lemma oldest_key_None: "oldest_key m = None \<Longrightarrow> m = []"
  by (cases m) (auto simp: oldest_key_def split: option.splits)

lemma single_step:
  assumes ok: "single_ok M c" and max: "max_items (it_store c) \<le> M" and pos: "0 < M"
    and ev: "thread_of ev = 0" and sees: "sees_map ev c"
  shows "single_ok M (race_step ev c) \<and> max_items (it_store (race_step ev c)) = max_items (it_store c)"
proof (cases ev)
  case (Advance n seen)
  with ev have n: "n = 0" by simp
  show ?thesis
  proof (cases "it_calls c 0")
    case (Some call)
    show ?thesis
    proof (cases call)
      case (StoreCall t i ph)
      show ?thesis
      proof (cases ph)
        case (Removing key)
        with ok Some StoreCall have k: "key \<in> fst ` set (mis_items (it_store c))" "distinct (map fst (mis_items (it_store c)))"
          by (simp_all add: single_ok_def)
        with ok length_delete_distinct [OF k(2,1)] show ?thesis
          by (simp add: Advance n Some StoreCall Removing single_ok_def AList.distinct_delete)
      next
        case Inserting
        with ok Some StoreCall show ?thesis
          by (simp add: Advance n single_ok_def AList.distinct_update length_update_le)
      next
        case Scanning
        with sees Advance n Some StoreCall have seen: "seen = mis_items (it_store c)" by simp
        from ok Some StoreCall Scanning pos oldest_key_in [of seen] oldest_key_None [of seen] show ?thesis
          by (auto simp: Advance n seen single_ok_def split: option.split)
      qed (use ok Some StoreCall max in \<open>auto simp: Advance n single_ok_def map_of_eq_None_iff split: option.splits\<close>)
    next
      case (CollectCall ph)
      with ok Some show ?thesis
        by (cases ph) (auto simp: Advance n single_ok_def AList.distinct_delete length_delete_le split: option.split)
    qed
  qed (use ok in \<open>simp add: Advance n\<close>)
qed (use ok ev in \<open>auto simp: single_ok_def\<close>)

lemma single_run:
  "single_ok M c \<Longrightarrow> max_items (it_store c) \<le> M \<Longrightarrow> 0 < M \<Longrightarrow> \<forall>ev \<in> set evs. thread_of ev = 0 \<Longrightarrow> faithful evs c \<Longrightarrow>
    single_ok M (race evs c)"
proof (induction evs arbitrary: c)
  case (Cons ev evs)
  with single_step [of M c ev] show ?case by simp
qed simp

text \<open>
  C39. The capacity fails as well, and not only by the number of threads: on a full store two threads that
  each store new items, one after the other, can leave any number of items more than the capacity, although
  every iteration sees the map as it is. In every round both choose the same item to evict, and both insert.
  It takes two: a single thread, with such iterations, never leaves more items than there were.
\<close>

theorem racing_stores_outgrow_the_capacity:
  assumes "distinct (map fst (mis_items s))" and "mis_items s \<noteq> []" and "max_items s \<le> item_len s"
    and "distinct ts" and "set ts \<inter> fst ` set (mis_items s) = {}" and "length ts = 2 * k"
  shows "(\<exists>evs. (\<forall>ev \<in> set evs. thread_of ev < 2) \<and> faithful evs (alone s)
      \<and> over (it_calls (race evs (alone s)) 0) \<and> over (it_calls (race evs (alone s)) 1)
      \<and> item_len (it_store (race evs (alone s))) = item_len s + k
      \<and> max_items (it_store (race evs (alone s))) = max_items s)
    \<and> (\<forall>evs. (\<forall>ev \<in> set evs. thread_of ev = 0) \<longrightarrow> faithful evs (alone s)
      \<longrightarrow> item_len (it_store (race evs (alone s))) \<le> item_len s)"
proof
  show "\<exists>evs. (\<forall>ev \<in> set evs. thread_of ev < 2) \<and> faithful evs (alone s)
      \<and> over (it_calls (race evs (alone s)) 0) \<and> over (it_calls (race evs (alone s)) 1)
      \<and> item_len (it_store (race evs (alone s))) = item_len s + k
      \<and> max_items (it_store (race evs (alone s))) = max_items s"
    using crowding_rounds [of "alone s" ts k] assms by (auto simp: alone_def settled_def item_len_def)
  have "single_ok (item_len s) (alone s)" using assms(1) by (simp add: single_ok_def alone_def item_len_def)
  then show "\<forall>evs. (\<forall>ev \<in> set evs. thread_of ev = 0) \<longrightarrow> faithful evs (alone s)
      \<longrightarrow> item_len (it_store (race evs (alone s))) \<le> item_len s"
    using single_run [of "item_len s" "alone s"] assms(2,3) by (simp add: single_ok_def alone_def item_len_def)
qed

theorem racing_stores_outgrow_the_capacity_witness:
  "\<exists>evs. faithful evs (alone \<lparr>mis_items = [(0 :: nat, sample_item 1 1)], max_items = 1\<rparr>)
    \<and> item_len (it_store (race evs (alone \<lparr>mis_items = [(0 :: nat, sample_item 1 1)], max_items = 1\<rparr>))) = 3"
  using racing_stores_outgrow_the_capacity [of "\<lparr>mis_items = [(0 :: nat, sample_item 1 1)], max_items = 1\<rparr>" "[1, 2, 3, 4]" 2]
  by (auto simp: item_len_def numeral_3_eq_3)

lemma set_update_subset: "set (AList.update k v m) \<subseteq> insert (k, v) (set m)"
  by (induction m) auto

lemma race_keeps:
  assumes "distinct (map fst (mis_items (it_store c)))"
    and "\<And>n t i ph. it_calls c n = Some (StoreCall t i ph) \<Longrightarrow> (t, i) \<in> offered"
    and "\<And>n t i. ev = BeginStore n t i \<Longrightarrow> (t, i) \<in> offered"
  shows "distinct (map fst (mis_items (it_store (race_step ev c))))
    \<and> set (mis_items (it_store (race_step ev c))) \<subseteq> set (mis_items (it_store c)) \<union> offered
    \<and> (\<forall>n t i ph. it_calls (race_step ev c) n = Some (StoreCall t i ph) \<longrightarrow> (t, i) \<in> offered)"
proof (cases ev)
  case (Advance n seen)
  show ?thesis
  proof (cases "it_calls c n")
    case (Some call)
    show ?thesis
    proof (cases call)
      case (CollectCall ph)
      with assms Some show ?thesis
        by (cases ph) (auto simp: Advance AList.distinct_delete set_delete_eq split: option.splits)
    next
      case (StoreCall t i ph)
      with assms(2) [of n t i ph] Some have "(t, i) \<in> offered" by simp
      with assms Some StoreCall show ?thesis
        by (cases ph) (auto simp: Advance AList.distinct_delete AList.distinct_update set_delete_eq
              dest!: subsetD [OF set_update_subset])
    qed
  qed (use assms Advance in auto)
qed (use assms in auto)

definition offered_by :: "'id race_event list \<Rightarrow> ('id \<times> stored_mutable_item) set" where
  "offered_by evs = {(t, i). \<exists>n. BeginStore n t i \<in> set evs}"

lemma race_run_keeps:
  assumes "distinct (map fst (mis_items (it_store c)))"
    and "\<And>n t i ph. it_calls c n = Some (StoreCall t i ph) \<Longrightarrow> (t, i) \<in> offered" and "offered_by evs \<subseteq> offered"
  shows "distinct (map fst (mis_items (it_store (race evs c))))
    \<and> set (mis_items (it_store (race evs c))) \<subseteq> set (mis_items (it_store c)) \<union> offered"
  using assms
proof (induction evs arbitrary: c)
  case (Cons ev evs)
  have ev: "(t, i) \<in> offered" if "ev = BeginStore n t i" for n t i using that Cons.prems(3) by (auto simp: offered_by_def)
  have step: "distinct (map fst (mis_items (it_store (race_step ev c))))
      \<and> set (mis_items (it_store (race_step ev c))) \<subseteq> set (mis_items (it_store c)) \<union> offered
      \<and> (\<forall>n t i ph. it_calls (race_step ev c) n = Some (StoreCall t i ph) \<longrightarrow> (t, i) \<in> offered)"
    by (rule race_keeps [OF Cons.prems(1)]) (fact Cons.prems(2), fact ev)
  have "offered_by evs \<subseteq> offered" using Cons.prems(3) by (auto simp: offered_by_def)
  from Cons.IH [OF _ _ this, of "race_step ev c"] step show ?case unfolding race_simps by blast
qed simp

text \<open>
  What every interleaving keeps: each target is stored once, and each item was stored under its target
  by a call that began, or was there before; a racing call never mixes items or targets.
\<close>

theorem racing_items_were_offered:
  assumes "distinct (map fst (mis_items s))"
  shows "distinct (map fst (mis_items (it_store (race evs (alone s)))))
    \<and> set (mis_items (it_store (race evs (alone s)))) \<subseteq> set (mis_items s) \<union> offered_by evs"
  using race_run_keeps [of "alone s" "offered_by evs" evs] assms by (simp add: alone_def)

theorem racing_items_were_offered_witness:
  "set (mis_items (it_store (race overtaking (alone (item_store_new 9))))) \<subseteq> {(1, sample_item 4 10), (1, sample_item 5 10)}"
proof -
  have new: "mis_items (item_store_new 9 :: nat mutable_item_store) = []" by (simp add: item_store_new_def)
  have "offered_by overtaking = {(1, sample_item 4 10), (1, sample_item 5 10)}"
    by (auto simp: offered_by_def overtaking_def)
  with racing_items_were_offered [of "item_store_new 9" overtaking] new show ?thesis by simp
qed

end
