(* ===== verification/Request_Threads.thy ===== *)
theory Request_Threads
  imports Worker_Loops_Props
begin

text \<open>
  Requests of several threads at once. In \<open>Dht_System\<close> the start of a request is one event; in
  \<^verbatim>\<open>DhtState::request\<close> it is three: taking a transaction identifier from the atomic counter and building
  the message, entering the request into the concurrent map, and sending the message to the worker. Here
  each is a step, with steps of other requests and all events of the node between them. Undisturbed the three
  steps are the one event; with any interleaving they keep the invariant of the node, and an answer still reaches
  its request.
\<close>

section \<open>Requests step by step\<close>

datatype 'id request_call =
    Allocated u16 "'id message" socket_addr
  | Entered "u16 \<times> socket_addr" nat "'id message"
  | Sent "u16 \<times> socket_addr" nat
  | Refused

record 'id request_threads =
  th_dht :: "'id dht_system"
  th_calls :: "'id request_call list"

datatype 'id thread_event =
    ThBegin "'id request" socket_addr
  | ThEnter nat
  | ThSend nat
  | ThOther "'id dht_event"

definition entered_channels :: "'id request_threads \<Rightarrow> nat list" where
  "entered_channels z = List.map_filter (\<lambda>c. case c of Entered key ch m \<Rightarrow> Some ch | _ \<Rightarrow> None) (th_calls z)"

text \<open>
  A wait cannot end, nor be dropped, before it began: the three steps have no point where the future
  of the request could be dropped, so the channel of an entered request is not waited for yet.
\<close>

definition may_happen :: "'id request_threads \<Rightarrow> 'id dht_event \<Rightarrow> bool" where
  "may_happen z e \<longleftrightarrow> (case e of EvFinish ch w \<Rightarrow> ch \<notin> set (entered_channels z)
     | EvDrop ch \<Rightarrow> ch \<notin> set (entered_channels z) | _ \<Rightarrow> True)"

definition enter_request :: "u16 \<times> socket_addr \<Rightarrow> 'id dht_system \<Rightarrow> 'id dht_system \<times> nat" where
  "enter_request key y =
    (let s = node_state y; ch = next_channel s
     in (y\<lparr>node_state := s\<lparr>inflight := (inflight s)(key \<mapsto> ch), next_channel := Suc ch\<rparr>,
           waiting := (waiting y)(ch \<mapsto> key)\<rparr>, ch))"

definition send_request :: "u16 \<times> socket_addr \<Rightarrow> nat \<Rightarrow> 'id message \<Rightarrow> 'id dht_system \<Rightarrow> 'id dht_system \<times> 'id request_call" where
  "send_request key ch m y =
    (let (s, sent) = worker_send \<lparr>our_tid = Some (fst key), wsr_message = m, wsr_addr = snd key\<rparr> (node_state y)
     in if sent then (y\<lparr>node_state := s\<rparr>, Sent key ch)
        else (y\<lparr>node_state := s\<lparr>inflight := (inflight s)(key := None)\<rparr>, waiting := (waiting y)(ch := None)\<rparr>, Refused))"

fun thread_step ::
    "('id::linorder) id20_ops \<Rightarrow> 'id thread_event \<Rightarrow> 'id request_threads \<Rightarrow> abort + 'id request_threads" where
  "thread_step ops (ThBegin req addr) z =
    (let (s, tid, m) = create_request req addr (node_state (th_dht z))
     in Inr \<lparr>th_dht = (th_dht z)\<lparr>node_state := s\<rparr>, th_calls = th_calls z @ [Allocated tid m addr]\<rparr>)"
| "thread_step ops (ThEnter k) z =
    (if k < length (th_calls z)
     then (case th_calls z ! k of
         Allocated tid m addr \<Rightarrow> (let (y, ch) = enter_request (tid, addr) (th_dht z)
           in Inr \<lparr>th_dht = y, th_calls = (th_calls z)[k := Entered (tid, addr) ch m]\<rparr>)
       | _ \<Rightarrow> Inr z)
     else Inr z)"
| "thread_step ops (ThSend k) z =
    (if k < length (th_calls z)
     then (case th_calls z ! k of
         Entered key ch m \<Rightarrow> (let (y, c) = send_request key ch m (th_dht z)
           in Inr \<lparr>th_dht = y, th_calls = (th_calls z)[k := c]\<rparr>)
       | _ \<Rightarrow> Inr z)
     else Inr z)"
| "thread_step ops (ThOther e) z =
    (if may_happen z e then and_then (dht_step ops e (th_dht z)) (\<lambda>y. Inr (z\<lparr>th_dht := y\<rparr>)) else Inr z)"

definition threads_start :: "'id dht_system \<Rightarrow> 'id request_threads" where
  "threads_start y = \<lparr>th_dht = y, th_calls = []\<rparr>"

section \<open>Without interference\<close>

text \<open>
  A request whose three steps no other step interrupts does what the one event of the node does.
\<close>

theorem undisturbed_request_is_atomic:
  assumes "dht_inv ops (th_dht z)"
  shows "\<exists>z'. run_ops (thread_step ops) [ThBegin req addr, ThEnter (length (th_calls z)), ThSend (length (th_calls z))] z = Inr z'
    \<and> dht_step ops (EvRequest req addr) (th_dht z) = Inr (th_dht z')
    \<and> th_calls z' = th_calls z @ [if worker_alive (node_state (th_dht z))
        then Sent (next_transaction_id (node_state (th_dht z)), addr) (next_channel (node_state (th_dht z))) else Refused]"
proof -
  have "waiting (th_dht z) (next_channel (node_state (th_dht z))) = None"
    using assms unfolding dht_inv_def requests_ok_def by (metis less_irrefl)
  then have "waiting (th_dht z) = (waiting (th_dht z))(next_channel (node_state (th_dht z)) := None)" by auto
  then show ?thesis
    by (cases "th_dht z") (auto simp: create_request_def enter_request_def send_request_def worker_send_def request_start_eq Let_def)
qed

theorem undisturbed_request_is_atomic_witness:
  "\<exists>z'. run_ops (thread_step id20_word) [ThBegin Ping sample_addr, ThEnter 0, ThSend 0]
      (threads_start (dht_start id20_word 0 5 sample_addr)) = Inr z'
    \<and> dht_step id20_word (EvRequest Ping sample_addr) (dht_start id20_word 0 5 sample_addr) = Inr (th_dht z')"
proof -
  have "dht_inv id20_word (th_dht (threads_start (dht_start id20_word 0 5 sample_addr)))"
    by (simp add: threads_start_def w20.dht_start_ok)
  from undisturbed_request_is_atomic [OF this, of Ping sample_addr] show ?thesis by (auto simp: threads_start_def)
qed

section \<open>The invariant\<close>

definition ent :: "'id request_threads \<Rightarrow> nat \<Rightarrow> u16 \<times> socket_addr \<Rightarrow> nat \<Rightarrow> bool" where
  "ent z k key ch \<longleftrightarrow> k < length (th_calls z) \<and> (\<exists>m. th_calls z ! k = Entered key ch m)"

definition threads_inv :: "('id::linorder) id20_ops \<Rightarrow> 'id request_threads \<Rightarrow> bool" where
  "threads_inv ops z \<longleftrightarrow> dht_inv ops (th_dht z) \<and> (\<forall>k key ch. ent z k key ch \<longrightarrow> waiting (th_dht z) ch = Some key)
     \<and> (\<forall>j k key key' ch. ent z j key ch \<longrightarrow> ent z k key' ch \<longrightarrow> j = k)"

lemma in_entered: "ch \<in> set (entered_channels z) \<longleftrightarrow> (\<exists>k key. ent z k key ch)"
proof
  assume "\<exists>k key. ent z k key ch"
  then obtain key m where "Entered key ch m \<in> set (th_calls z)" by (metis ent_def nth_mem)
  then show "ch \<in> set (entered_channels z)"
    by (fastforce simp: entered_channels_def map_filter_def intro!: image_eqI [of _ _ "Entered key ch m"])
next
  assume "ch \<in> set (entered_channels z)"
  then obtain c where c: "c \<in> set (th_calls z)" "(case c of Entered key ch m \<Rightarrow> Some ch | _ \<Rightarrow> None) = Some ch"
    by (auto simp: entered_channels_def map_filter_def)
  from c(2) obtain key m where "c = Entered key ch m" by (auto split: request_call.splits)
  with c(1) show "\<exists>k key. ent z k key ch" by (auto simp: in_set_conv_nth ent_def)
qed

lemma fresh_channel:
  assumes "dht_inv ops y"
  shows "waiting y (next_channel (node_state y)) = None" and "completed (node_state y) (next_channel (node_state y)) = None"
    and "inflight (node_state y) key \<noteq> Some (next_channel (node_state y))"
  using assms unfolding dht_inv_def requests_ok_def by (metis less_irrefl option.distinct(1))+

lemma enter_ok:
  assumes inv: "dht_inv ops y" and e: "enter_request key y = (y', ch)"
  shows "dht_inv ops y' \<and> ch = next_channel (node_state y) \<and> waiting y' = (waiting y)(ch \<mapsto> key)"
proof -
  let ?n = "next_channel (node_state y)"
  have stores: "stores_ok ops (node_state y)" and req: "requests_ok y" using inv by (simp_all add: dht_inv_def)
  have "ch \<noteq> ?n" if "inflight (node_state y) k = Some ch" for k ch using that fresh_channel(3) [OF inv] by blast
  moreover have "waiting y ?n = None" "completed (node_state y) ?n = None" by (rule fresh_channel [OF inv])+
  ultimately show ?thesis
    using e stores req
    by (cases key) (auto simp: enter_request_def Let_def dht_inv_def requests_ok_def less_Suc_eq split: if_splits)
qed

lemma send_ok:
  assumes "dht_inv ops y" and "send_request key ch m y = (y', c)" and "waiting y ch = Some key"
  shows "dht_inv ops y' \<and> (c = Sent key ch \<and> waiting y' = waiting y \<and> inflight (node_state y') = inflight (node_state y)
      \<or> c = Refused \<and> waiting y' = (waiting y)(ch := None) \<and> inflight (node_state y') = (inflight (node_state y))(key := None))
    \<and> next_transaction_id (node_state y') = next_transaction_id (node_state y)"
proof -
  have "k = key" if "inflight (node_state y) k = Some ch" for k
    using assms(1,3) that unfolding dht_inv_def requests_ok_def by (metis option.inject)
  with assms(1,2) show ?thesis
    by (auto simp: send_request_def worker_send_def dht_inv_def requests_ok_def split: if_splits)
qed

context id20_api
begin

lemma thread_step_ok:
  assumes inv: "threads_inv ops z"
  shows "\<exists>z'. thread_step ops ev z = Inr z' \<and> threads_inv ops z'"
proof (cases ev)
  case (ThBegin req addr)
  have "ent z' k key ch = ent z k key ch" if "th_calls z' = th_calls z @ [Allocated t m a]" for z' k key ch t m a
    using that by (auto simp: ent_def nth_append less_Suc_eq)
  with inv show ?thesis
    by (auto simp: ThBegin threads_inv_def case_prod_beta created dht_inv_def requests_ok_def)
next
  case (ThEnter k)
  show ?thesis
  proof (cases "k < length (th_calls z) \<and> (\<exists>tid m addr. th_calls z ! k = Allocated tid m addr)")
    case True
    then obtain tid m addr where k: "k < length (th_calls z)" "th_calls z ! k = Allocated tid m addr" by blast
    obtain y ch where y: "enter_request (tid, addr) (th_dht z) = (y, ch)" by fastforce
    have inv': "dht_inv ops (th_dht z)" using inv by (simp add: threads_inv_def)
    note e = enter_ok [OF inv' y]
    let ?z = "\<lparr>th_dht = y, th_calls = (th_calls z)[k := Entered (tid, addr) ch m]\<rparr>"
    have ent: "ent ?z j key c \<longleftrightarrow> (if j = k then key = (tid, addr) \<and> c = ch else ent z j key c)" for j key c
      using k by (auto simp: ent_def nth_list_update)
    have ne: "c \<noteq> ch" if "ent z j key c" for j key c
    proof -
      have "waiting (th_dht z) c = Some key" using that inv unfolding threads_inv_def by blast
      with fresh_channel(1) [OF inv'] e show ?thesis by auto
    qed
    have "waiting y c = Some key" if "ent ?z j key c" for j key c
    proof (cases "j = k")
      case False
      with that have "ent z j key c" by (simp only: ent if_False)
      with ne inv e show ?thesis unfolding threads_inv_def by (metis fun_upd_other)
    qed (use that ent e in simp)
    moreover have "i = j" if "ent ?z i key c" "ent ?z j key' c" for i j key key' c
      using that inv ne unfolding threads_inv_def ent by (metis (full_types))
    ultimately have "threads_inv ops ?z" using e unfolding threads_inv_def by simp
    with k y show ?thesis by (simp add: ThEnter)
  next
    case False
    with inv show ?thesis by (auto simp: ThEnter split: request_call.split)
  qed
next
  case (ThSend k)
  show ?thesis
  proof (cases "\<exists>key ch. ent z k key ch")
    case True
    then obtain key ch m where k: "k < length (th_calls z)" "th_calls z ! k = Entered key ch m" and e: "ent z k key ch"
      by (auto simp: ent_def)
    obtain y c where y: "send_request key ch m (th_dht z) = (y, c)" by fastforce
    have w: "waiting (th_dht z) ch = Some key" "dht_inv ops (th_dht z)" using inv e unfolding threads_inv_def by blast+
    note s = send_ok [OF w(2) y w(1)]
    let ?z = "\<lparr>th_dht = y, th_calls = (th_calls z)[k := c]\<rparr>"
    have ent: "ent ?z j key c \<longleftrightarrow> j \<noteq> k \<and> ent z j key c" for j key c
      using k s by (auto simp: ent_def nth_list_update)
    have other: "c' \<noteq> ch" if "ent z j key' c'" "j \<noteq> k" for j key' c' using that inv e unfolding threads_inv_def by blast
    have "waiting y c' = Some key'" if "ent ?z j key' c'" for j key' c'
    proof -
      have j: "j \<noteq> k" "ent z j key' c'" using that unfolding ent by blast+
      moreover have "waiting (th_dht z) c' = Some key'" using j(2) inv unfolding threads_inv_def by blast
      ultimately show ?thesis using other [OF j(2,1)] s by auto
    qed
    moreover have "i = j" if "ent ?z i k1 c'" "ent ?z j k2 c'" for i j k1 k2 c'
      using that inv unfolding threads_inv_def ent by blast
    ultimately have "threads_inv ops ?z" using s unfolding threads_inv_def by simp
    with k y show ?thesis by (simp add: ThSend)
  next
    case False
    with inv show ?thesis by (auto simp: ThSend ent_def split: request_call.split)
  qed
next
  case (ThOther e)
  show ?thesis
  proof (cases "may_happen z e")
    case True
    have inv': "dht_inv ops (th_dht z)" using inv by (simp add: threads_inv_def)
    obtain y where y: "dht_step ops e (th_dht z) = Inr y" "dht_inv ops y" using dht_step_ok [OF inv'] by blast
    have "waiting y ch = Some key" if "ent z k key ch" for k key ch
    proof -
      have w: "waiting (th_dht z) ch = Some key" using inv that unfolding threads_inv_def by blast
      have "ch \<in> set (entered_channels z)" using that in_entered by blast
      then have "\<forall>w. e \<noteq> EvFinish ch w" using True by (auto simp: may_happen_def)
      with others_event_waits [OF inv' y(1)] w show ?thesis by simp
    qed
    moreover have "ent (z\<lparr>th_dht := y\<rparr>) = ent z" by (simp add: ent_def fun_eq_iff)
    ultimately have "threads_inv ops (z\<lparr>th_dht := y\<rparr>)" using inv y(2) unfolding threads_inv_def by simp
    with y(1) True show ?thesis by (simp add: ThOther)
  qed (use inv in \<open>simp add: ThOther\<close>)
qed

lemma threads_run_ok: "threads_inv ops z \<Longrightarrow> \<exists>z'. run_ops (thread_step ops) evs z = Inr z' \<and> threads_inv ops z'"
proof (induction evs arbitrary: z)
  case (Cons ev evs)
  obtain z1 where "thread_step ops ev z = Inr z1" "threads_inv ops z1" using thread_step_ok [OF Cons.prems] by blast
  with Cons.IH show ?case by simp
qed simp

lemma threads_start_ok: "threads_inv ops (threads_start (dht_start ops now i addr))"
  by (simp add: threads_inv_def threads_start_def ent_def dht_start_ok)

end

text \<open>
  C23. Requests of any number of threads, each at any of its steps while others make theirs and the node
  handles messages, neither panic nor leak: in every reachable state the invariant of the node holds, there
  are at most as many entries in flight as requests that entered and have not ended, and each request that
  has entered and not yet sent has a channel of its own.
\<close>

theorem threads_never_leak:
  assumes "id20_api ops"
  shows "\<exists>z. run_ops (thread_step ops) evs (threads_start (dht_start ops now i addr)) = Inr z \<and> dht_inv ops (th_dht z)
    \<and> outstanding_requests (get_stats (node_state (th_dht z))) \<le> card (dom (waiting (th_dht z)))
    \<and> (\<forall>k key ch m. k < length (th_calls z) \<longrightarrow> th_calls z ! k = Entered key ch m \<longrightarrow> waiting (th_dht z) ch = Some key)"
proof -
  obtain z where z: "run_ops (thread_step ops) evs (threads_start (dht_start ops now i addr)) = Inr z" "threads_inv ops z"
    using id20_api.threads_run_ok [OF assms id20_api.threads_start_ok [OF assms]] by blast
  then have "requests_ok (th_dht z)" by (simp add: threads_inv_def dht_inv_def)
  from outstanding_bound [OF this] z show ?thesis by (auto simp: threads_inv_def ent_def get_stats_def)
qed

theorem threads_never_leak_witness:
  "\<exists>z. run_ops (thread_step id20_word) [ThBegin Ping sample_addr, ThBegin (FindNode 3) sample_addr, ThEnter 1, ThOther EvWorkerDies,
      ThEnter 0, ThSend 1, ThSend 0] (threads_start (dht_start id20_word 0 5 sample_addr)) = Inr z
    \<and> outstanding_requests (get_stats (node_state (th_dht z))) \<le> card (dom (waiting (th_dht z)))"
  using threads_never_leak [OF id20_word_api] by blast

section \<open>An answer among threads\<close>

fun steps_call :: "nat \<Rightarrow> 'id thread_event \<Rightarrow> bool" where
  "steps_call k (ThEnter j) \<longleftrightarrow> j = k"
| "steps_call k (ThSend j) \<longleftrightarrow> j = k"
| "steps_call k _ \<longleftrightarrow> False"

fun thread_takes_tid :: "'id thread_event \<Rightarrow> bool" where
  "thread_takes_tid (ThBegin _ _) = True"
| "thread_takes_tid (ThOther e) = takes_tid e"
| "thread_takes_tid _ = False"

fun thread_leaves_alone :: "u16 \<Rightarrow> socket_addr \<Rightarrow> nat \<Rightarrow> 'id thread_event \<Rightarrow> bool" where
  "thread_leaves_alone tid addr ch (ThOther e) = leaves_alone tid addr ch e"
| "thread_leaves_alone tid addr ch _ = True"

fun call_key :: "'id request_call \<Rightarrow> (u16 \<times> socket_addr) option" where
  "call_key (Allocated tid m addr) = Some (tid, addr)"
| "call_key (Entered key ch m) = Some key"
| "call_key _ = None"

text \<open>Call \<open>k\<close> alone is under this key, and \<open>n\<close> identifiers were taken after its own.\<close>

definition sole_call :: "nat \<Rightarrow> u16 \<Rightarrow> socket_addr \<Rightarrow> nat \<Rightarrow> 'id request_threads \<Rightarrow> bool" where
  "sole_call k tid addr n z \<longleftrightarrow> k < length (th_calls z)
     \<and> (\<forall>j < length (th_calls z). j \<noteq> k \<longrightarrow> call_key (th_calls z ! j) \<noteq> Some (tid, addr))
     \<and> next_transaction_id (node_state (th_dht z)) = tid + of_nat (Suc n)"

definition not_entered :: "nat \<Rightarrow> u16 \<Rightarrow> socket_addr \<Rightarrow> 'id message \<Rightarrow> 'id request_threads \<Rightarrow> bool" where
  "not_entered k tid addr m z \<longleftrightarrow> th_calls z ! k = Allocated tid m addr \<and> (\<forall>c. waiting (th_dht z) c \<noteq> Some (tid, addr))"

definition is_pending :: "nat \<Rightarrow> u16 \<Rightarrow> socket_addr \<Rightarrow> nat \<Rightarrow> 'id request_call \<Rightarrow> 'id request_threads \<Rightarrow> bool" where
  "is_pending k tid addr ch c z \<longleftrightarrow> th_calls z ! k = c \<and> inflight (node_state (th_dht z)) (tid, addr) = Some ch
     \<and> (\<forall>d. waiting (th_dht z) d = Some (tid, addr) \<longleftrightarrow> d = ch)"

definition same_worker :: "'id request_threads \<Rightarrow> 'id request_threads \<Rightarrow> bool" where
  "same_worker z z' \<longleftrightarrow> worker_alive (node_state (th_dht z')) = worker_alive (node_state (th_dht z))"

lemma send_request_keeps [simp]:
  "call_key (snd (send_request key ch m y)) = None"
  "next_transaction_id (node_state (fst (send_request key ch m y))) = next_transaction_id (node_state y)"
  by (simp_all add: send_request_def worker_send_def Let_def)

lemma sole_pending:
  "sole_call k tid addr n z \<Longrightarrow> is_pending k tid addr ch c z \<Longrightarrow> pending tid addr ch n (th_dht z)"
  by (simp add: sole_call_def is_pending_def pending_def)

lemma own_id_is_not_next: "sole_call k tid addr n z \<Longrightarrow> Suc n < 65536 \<Longrightarrow> next_transaction_id (node_state (th_dht z)) \<noteq> tid"
  unfolding sole_call_def using tid_differs by metis

context id20_api
begin

text \<open>The message events leave the counter and the worker; an answer is taken by \<open>on_answer\<close>.\<close>

lemma message_event_keeps:
  assumes inv: "dht_inv ops y" and st: "dht_step ops (EvMessage env msg a) y = Inr y'"
  shows "next_transaction_id (node_state y') = next_transaction_id (node_state y)
    \<and> worker_alive (node_state y') = worker_alive (node_state y)"
proof (cases "is_answer (msg_kind msg)")
  case True
  then obtain roe where "on_received_message ops env msg a (node_state y) = Inr (on_answer msg a roe (node_state y))"
    by (cases "msg_kind msg") (simp_all add: on_received_message_def query_handlers)
  with st have "y' = y\<lparr>node_state := fst (on_answer msg a roe (node_state y))\<rparr>" by (simp split: prod.splits)
  then show ?thesis by (auto simp: on_answer_def split: option.splits)
next
  case False
  then have "\<forall>e. msg_kind msg \<noteq> MK_Error e" "\<forall>r. msg_kind msg \<noteq> MK_Response r" by auto
  from query_answered [OF _ this, of "node_state y" a env] inv obtain s0 resp where
    r: "on_received_message ops env msg a (node_state y) = Inr (respond msg a resp s0)" "same_requests (node_state y) s0"
      "worker_alive s0 = worker_alive (node_state y)"
    by (auto simp: answers_def dht_inv_def)
  from r(1) st have "y' = y\<lparr>node_state := fst (respond msg a resp s0)\<rparr>" by (simp split: prod.splits)
  with r(2,3) show ?thesis by (simp add: respond_eq same_requests_def)
qed

lemma event_keeps:
  assumes inv: "dht_inv ops y" and st: "dht_step ops e y = Inr y'"
  shows "next_transaction_id (node_state y') = next_transaction_id (node_state y) + (if takes_tid e then 1 else 0)
    \<and> (e \<noteq> EvWorkerDies \<longrightarrow> worker_alive (node_state y') = worker_alive (node_state y))"
proof (cases e)
  case (EvRequest req addr)
  with st show ?thesis by (auto simp: request_start_eq Let_def split: if_splits)
next
  case (EvAnnounce req addr)
  with st show ?thesis by (auto simp: create_request_def worker_send_def Let_def split: if_splits)
next
  case (EvMessage env msg a)
  with message_event_keeps [OF inv] st show ?thesis by fastforce
next
  case (EvFinish c w)
  with st show ?thesis by (cases w; auto split: option.splits if_splits)
qed (use st in \<open>auto simp: and_then_eq_Inr on_send_error_def split: option.splits if_splits\<close>)

lemma event_waits_for_own_id:
  assumes "dht_step ops e y = Inr y'" and "waiting y' c = Some (tid, addr)" and "next_transaction_id (node_state y) \<noteq> tid"
  shows "waiting y c = Some (tid, addr)"
proof (cases e)
  case (EvRequest req a)
  with assms show ?thesis by (auto simp: request_start_eq Let_def split: if_splits)
next
  case (EvFinish d w)
  with assms show ?thesis by (auto split: option.splits if_splits)
qed (use assms in \<open>auto simp: and_then_eq_Inr case_prod_beta Let_def split: if_splits\<close>)

lemma sole_call_step:
  assumes inv: "threads_inv ops z" and p: "sole_call k tid addr n z" and room: "Suc n < 65536"
    and st: "thread_step ops ev z = Inr z'"
  shows "sole_call k tid addr (if thread_takes_tid ev then Suc n else n) z'"
proof (cases ev)
  case (ThBegin req a)
  have "(next_transaction_id (node_state (th_dht z)), a) \<noteq> (tid, addr)" using own_id_is_not_next [OF p room] by simp
  with p st show ?thesis
    by (auto simp: ThBegin sole_call_def create_request_def Let_def nth_append less_Suc_eq)
next
  case (ThEnter j)
  with p st show ?thesis
    by (auto simp: sole_call_def enter_request_def Let_def nth_list_update split: if_splits request_call.splits)
next
  case (ThSend j)
  with p st show ?thesis
    by (auto simp: sole_call_def nth_list_update case_prod_beta Let_def split: if_splits request_call.splits)
next
  case (ThOther e)
  have "may_happen z e" if "takes_tid e" using that by (cases e) (simp_all add: may_happen_def)
  moreover have "dht_inv ops (th_dht z)" using inv by (simp add: threads_inv_def)
  ultimately show ?thesis using p st event_keeps [of "th_dht z" e]
    by (auto simp: ThOther sole_call_def and_then_eq_Inr split: if_splits)
qed

lemma not_entered_step:
  assumes inv: "threads_inv ops z" and p: "sole_call k tid addr n z" and room: "Suc n < 65536"
    and q: "not_entered k tid addr m z" and ev: "\<not> steps_call k ev" and st: "thread_step ops ev z = Inr z'"
  shows "not_entered k tid addr m z'"
proof (cases ev)
  case (ThBegin req a)
  with p q st show ?thesis
    by (auto simp: not_entered_def sole_call_def create_request_def Let_def nth_append)
next
  case (ThEnter j)
  with p q st ev show ?thesis
    by (auto simp: not_entered_def sole_call_def enter_request_def Let_def split: if_splits request_call.splits)
next
  case (ThSend j)
  with q st ev show ?thesis
    by (auto simp: not_entered_def send_request_def worker_send_def Let_def split: if_splits request_call.splits)
next
  case (ThOther e)
  have own: "next_transaction_id (node_state (th_dht z)) \<noteq> tid" by (rule own_id_is_not_next [OF p room])
  have "waiting y c \<noteq> Some (tid, addr)" if "dht_step ops e (th_dht z) = Inr y" for y c
    using event_waits_for_own_id [OF that _ own] q unfolding not_entered_def by blast
  with ThOther q st show ?thesis by (auto simp: not_entered_def and_then_eq_Inr split: if_splits)
qed

lemma other_entered:
  assumes inv: "threads_inv ops z" and p: "sole_call k tid addr n z" and q: "is_pending k tid addr ch c z"
    and j: "j < length (th_calls z)" "j \<noteq> k" "th_calls z ! j = Entered key d m"
  shows "key \<noteq> (tid, addr)" and "d \<noteq> ch"
proof -
  have "call_key (th_calls z ! j) \<noteq> Some (tid, addr)" using p j(1,2) unfolding sole_call_def by blast
  then show key: "key \<noteq> (tid, addr)" using j(3) by simp
  have "ent z j key d" using j by (simp add: ent_def)
  then have "waiting (th_dht z) d = Some key" using inv unfolding threads_inv_def by blast
  with key q show "d \<noteq> ch" unfolding is_pending_def by (metis option.inject)
qed

lemma is_pending_step:
  assumes inv: "threads_inv ops z" and p: "sole_call k tid addr n z" and room: "Suc n < 65536"
    and q: "is_pending k tid addr ch c z" and ev: "\<not> steps_call k ev" "thread_leaves_alone tid addr ch ev"
    and st: "thread_step ops ev z = Inr z'"
  shows "is_pending k tid addr ch c z'"
proof (cases ev)
  case (ThBegin req a)
  with p q st show ?thesis
    by (auto simp: is_pending_def sole_call_def create_request_def Let_def nth_append)
next
  case (ThEnter j)
  have "dht_inv ops (th_dht z)" using inv by (simp add: threads_inv_def)
  from fresh_channel(1) [OF this] q have "ch \<noteq> next_channel (node_state (th_dht z))"
    unfolding is_pending_def by (metis option.distinct(1))
  with ThEnter p q st ev show ?thesis
    by (auto simp: is_pending_def sole_call_def enter_request_def Let_def split: if_splits request_call.splits)
next
  case (ThSend j)
  show ?thesis
  proof (cases "\<exists>key d m'. j < length (th_calls z) \<and> th_calls z ! j = Entered key d m'")
    case True
    then obtain key d m' where j: "j < length (th_calls z)" "th_calls z ! j = Entered key d m'" by blast
    have "j \<noteq> k" using ev(1) ThSend by simp
    note other = other_entered [OF inv p q j(1) this j(2)]
    from j st ThSend have "z' = \<lparr>th_dht = fst (send_request key d m' (th_dht z)),
        th_calls = (th_calls z)[j := snd (send_request key d m' (th_dht z))]\<rparr>" by (simp add: case_prod_beta Let_def)
    with other \<open>j \<noteq> k\<close> q show ?thesis
      by (cases key) (auto simp: is_pending_def send_request_def worker_send_def Let_def)
  next
    case False
    with q st ThSend show ?thesis by (auto split: if_splits request_call.splits)
  qed
next
  case (ThOther e)
  have dinv: "dht_inv ops (th_dht z)" using inv by (simp add: threads_inv_def)
  have alone: "leaves_alone tid addr ch e" using ev(2) by (simp add: ThOther)
  show ?thesis
  proof (cases "may_happen z e")
    case True
    with st ThOther obtain y where y: "dht_step ops e (th_dht z) = Inr y" "z' = z\<lparr>th_dht := y\<rparr>" by (auto simp: and_then_eq_Inr)
    from pending_step [OF dinv sole_pending [OF p q] alone room y(1)] y(2) q show ?thesis
      by (auto simp: is_pending_def pending_def split: if_splits)
  qed (use st q ThOther in simp)
qed

lemma worker_stays_alive:
  assumes inv: "threads_inv ops z" and st: "thread_step ops ev z = Inr z'" and ev: "ev \<noteq> ThOther EvWorkerDies"
  shows "worker_alive (node_state (th_dht z')) = worker_alive (node_state (th_dht z))"
proof (cases ev)
  case (ThOther e)
  moreover have "dht_inv ops (th_dht z)" using inv by (simp add: threads_inv_def)
  ultimately show ?thesis using st ev event_keeps [of "th_dht z" e]
    by (auto simp: and_then_eq_Inr split: if_splits)
next
  case (ThSend k)
  with st show ?thesis
    by (auto simp: send_request_def worker_send_def Let_def split: if_splits request_call.splits)
qed (use st in \<open>auto simp: create_request_def enter_request_def Let_def split: if_splits request_call.splits\<close>)

text \<open>What every step between two steps of call \<open>k\<close> keeps, over a sequence of steps.\<close>

lemma interleaved_run:
  assumes keep: "\<And>z n ev z'. threads_inv ops z \<Longrightarrow> sole_call k tid addr n z \<Longrightarrow> Suc n < 65536 \<Longrightarrow> Q z \<Longrightarrow> ok ev \<Longrightarrow>
      thread_step ops ev z = Inr z' \<Longrightarrow> Q z'"
  shows "threads_inv ops z \<Longrightarrow> sole_call k tid addr n z \<Longrightarrow> Q z \<Longrightarrow> \<forall>ev \<in> set evs. ok ev \<and> ev \<noteq> ThOther EvWorkerDies \<Longrightarrow>
      n + length (filter thread_takes_tid evs) < 65535 \<Longrightarrow>
    \<exists>z'. run_ops (thread_step ops) evs z = Inr z' \<and> threads_inv ops z' \<and> Q z'
      \<and> sole_call k tid addr (n + length (filter thread_takes_tid evs)) z'
      \<and> worker_alive (node_state (th_dht z')) = worker_alive (node_state (th_dht z))"
proof (induction evs arbitrary: z n)
  case (Cons ev evs)
  obtain z1 where z1: "thread_step ops ev z = Inr z1" "threads_inv ops z1" using thread_step_ok [OF Cons.prems(1)] by blast
  have room: "Suc n < 65536" using Cons.prems(5) by simp
  have s: "sole_call k tid addr (if thread_takes_tid ev then Suc n else n) z1"
    by (rule sole_call_step [OF Cons.prems(1,2) room z1(1)])
  have q: "Q z1" using keep [OF Cons.prems(1,2) room Cons.prems(3) _ z1(1)] Cons.prems(4) by simp
  have a: "worker_alive (node_state (th_dht z1)) = worker_alive (node_state (th_dht z))"
    using worker_stays_alive [OF Cons.prems(1) z1(1)] Cons.prems(4) by simp
  from Cons.IH [OF z1(2) s q] Cons.prems(4,5) a z1(1) show ?case by (auto split: if_splits)
qed simp

lemma not_entered_run:
  assumes "threads_inv ops z" and "sole_call k tid addr n z" and "not_entered k tid addr m z"
    and "\<forall>ev \<in> set evs. \<not> steps_call k ev \<and> ev \<noteq> ThOther EvWorkerDies" and "n + length (filter thread_takes_tid evs) < 65535"
  shows "\<exists>z'. run_ops (thread_step ops) evs z = Inr z' \<and> threads_inv ops z' \<and> not_entered k tid addr m z'
    \<and> sole_call k tid addr (n + length (filter thread_takes_tid evs)) z' \<and> same_worker z z'"
  unfolding same_worker_def
  by (rule interleaved_run [where ok = "\<lambda>ev. \<not> steps_call k ev" and Q = "not_entered k tid addr m", OF not_entered_step assms(1,2,3,4,5)])

lemma is_pending_run:
  assumes "threads_inv ops z" and "sole_call k tid addr n z" and "is_pending k tid addr ch c z"
    and "\<forall>ev \<in> set evs. (\<not> steps_call k ev \<and> thread_leaves_alone tid addr ch ev) \<and> ev \<noteq> ThOther EvWorkerDies"
    and "n + length (filter thread_takes_tid evs) < 65535"
  shows "\<exists>z'. run_ops (thread_step ops) evs z = Inr z' \<and> threads_inv ops z' \<and> is_pending k tid addr ch c z'
    \<and> sole_call k tid addr (n + length (filter thread_takes_tid evs)) z' \<and> same_worker z z'"
  unfolding same_worker_def
proof (rule interleaved_run [where ok = "\<lambda>ev. \<not> steps_call k ev \<and> thread_leaves_alone tid addr ch ev"
    and Q = "is_pending k tid addr ch c", OF _ assms(1,2,3,4,5)])
  show "is_pending k tid addr ch c z'" if "threads_inv ops z" "sole_call k tid addr n z" "Suc n < 65536" "is_pending k tid addr ch c z"
    "\<not> steps_call k ev \<and> thread_leaves_alone tid addr ch ev" "thread_step ops ev z = Inr z'" for z n ev z'
    using is_pending_step [OF that(1,2,3,4) _ _ that(6)] that(5) by blast
qed

lemma begin_call:
  assumes inv: "threads_inv ops z" and tid: "next_transaction_id (node_state (th_dht z)) = tid"
    and free: "\<forall>c. waiting (th_dht z) c \<noteq> Some (tid, addr)" "\<forall>c \<in> set (th_calls z). call_key c \<noteq> Some (tid, addr)"
  shows "\<exists>z' m. thread_step ops (ThBegin req addr) z = Inr z' \<and> threads_inv ops z' \<and> sole_call (length (th_calls z)) tid addr 0 z'
    \<and> not_entered (length (th_calls z)) tid addr m z' \<and> same_worker z z'"
proof -
  let ?z = "\<lparr>th_dht = (th_dht z)\<lparr>node_state := (node_state (th_dht z))\<lparr>next_transaction_id := tid + 1\<rparr>\<rparr>,
      th_calls = th_calls z @ [Allocated tid (snd (snd (create_request req addr (node_state (th_dht z))))) addr]\<rparr>"
  have st: "thread_step ops (ThBegin req addr) z = Inr ?z" using tid by (simp add: create_request_def Let_def)
  with thread_step_ok [OF inv, of "ThBegin req addr"] have "threads_inv ops ?z" by simp
  moreover have "sole_call (length (th_calls z)) tid addr 0 ?z"
    using free(2) by (auto simp: sole_call_def nth_append less_Suc_eq)
  moreover have "not_entered (length (th_calls z)) tid addr (snd (snd (create_request req addr (node_state (th_dht z))))) ?z"
    using free(1) by (simp add: not_entered_def)
  ultimately show ?thesis using st by (auto simp: same_worker_def)
qed

lemma enter_call:
  assumes inv: "threads_inv ops z" and p: "sole_call k tid addr n z" and q: "not_entered k tid addr m z" and room: "Suc n < 65536"
  shows "\<exists>z'. thread_step ops (ThEnter k) z = Inr z' \<and> threads_inv ops z' \<and> sole_call k tid addr n z'
    \<and> is_pending k tid addr (next_channel (node_state (th_dht z))) (Entered (tid, addr) (next_channel (node_state (th_dht z))) m) z'
    \<and> same_worker z z'"
proof -
  obtain z' where z': "thread_step ops (ThEnter k) z = Inr z'" "threads_inv ops z'" using thread_step_ok [OF inv] by blast
  have k: "k < length (th_calls z)" "th_calls z ! k = Allocated tid m addr" using p q by (simp_all add: sole_call_def not_entered_def)
  have "is_pending k tid addr (next_channel (node_state (th_dht z))) (Entered (tid, addr) (next_channel (node_state (th_dht z))) m) z'"
    "same_worker z z'"
    using z'(1) k q by (auto simp: is_pending_def not_entered_def same_worker_def enter_request_def Let_def split: if_splits)
  with z' sole_call_step [OF inv p room z'(1)] show ?thesis by simp
qed

lemma send_call:
  assumes inv: "threads_inv ops z" and p: "sole_call k tid addr n z" and q: "is_pending k tid addr ch (Entered (tid, addr) ch m) z"
    and room: "Suc n < 65536" and alive: "worker_alive (node_state (th_dht z))"
  shows "\<exists>z'. thread_step ops (ThSend k) z = Inr z' \<and> threads_inv ops z' \<and> sole_call k tid addr n z'
    \<and> is_pending k tid addr ch (Sent (tid, addr) ch) z'"
proof -
  obtain z' where z': "thread_step ops (ThSend k) z = Inr z'" "threads_inv ops z'" using thread_step_ok [OF inv] by blast
  have k: "k < length (th_calls z)" "th_calls z ! k = Entered (tid, addr) ch m" using p q by (simp_all add: sole_call_def is_pending_def)
  let ?y = "fst (send_request (tid, addr) ch m (th_dht z))"
  have sent: "snd (send_request (tid, addr) ch m (th_dht z)) = Sent (tid, addr) ch"
    "inflight (node_state ?y) = inflight (node_state (th_dht z))" "waiting ?y = waiting (th_dht z)"
    using alive by (simp_all add: send_request_def worker_send_def Let_def)
  have "z' = \<lparr>th_dht = ?y, th_calls = (th_calls z)[k := Sent (tid, addr) ch]\<rparr>"
    using z'(1) k sent(1) by (simp add: case_prod_beta Let_def)
  then have "is_pending k tid addr ch (Sent (tid, addr) ch) z'"
    using q k(1) sent(2,3) unfolding is_pending_def by simp
  with z' sole_call_step [OF inv p room z'(1)] show ?thesis by simp
qed

end

text \<open>
  C22. An answer reaches its thread. A thread takes an identifier, enters its request and sends it, while other
  threads make their own steps and the node handles its events between any two of these; no other request is
  under the same transaction and address, fewer than 65535 identifiers are taken meanwhile, and the worker
  lives. A response from that address with that identifier that then comes in is what the request returns,
  and its entry in the table is gone.
\<close>

theorem answer_reaches_its_thread:
  assumes "id20_api ops" and "threads_inv ops z" and "worker_alive (node_state (th_dht z))"
    and "next_transaction_id (node_state (th_dht z)) = tid" and "\<forall>c. waiting (th_dht z) c \<noteq> Some (tid, addr)"
    and "\<forall>c \<in> set (th_calls z). call_key c \<noteq> Some (tid, addr)" and "k = length (th_calls z)"
    and "\<forall>ev \<in> set es1. \<not> steps_call k ev \<and> ev \<noteq> ThOther EvWorkerDies"
    and "run_ops (thread_step ops) (ThBegin req addr # es1) z = Inr z1" and "ch = next_channel (node_state (th_dht z1))"
    and "\<forall>ev \<in> set (es2 @ es3). (\<not> steps_call k ev \<and> thread_leaves_alone tid addr ch ev) \<and> ev \<noteq> ThOther EvWorkerDies"
    and "length (filter thread_takes_tid (es1 @ es2 @ es3)) < 65535"
    and "transaction_id msg = tid_bytes tid" and "msg_kind msg = MK_Response r"
  shows "\<exists>z'. run_ops (thread_step ops) (ThBegin req addr # es1 @ ThEnter k # es2 @ ThSend k # es3
      @ [ThOther (EvMessage env msg addr)]) z = Inr z'
    \<and> th_calls z' ! k = Sent (tid, addr) ch \<and> wait_may_end Received ch (node_state (th_dht z'))
    \<and> snd (request_finish (tid, addr) ch Received (node_state (th_dht z'))) = Inr (ROE_Response r)
    \<and> inflight (node_state (th_dht z')) (tid, addr) = None"
proof -
  let ?run = "run_ops (thread_step ops)"
  obtain y0 m where y0: "thread_step ops (ThBegin req addr) z = Inr y0" "threads_inv ops y0" "sole_call k tid addr 0 y0"
      "not_entered k tid addr m y0" "same_worker z y0"
    using id20_api.begin_call [OF assms(1,2,4,5,6)] assms(7) by blast
  from id20_api.not_entered_run [OF assms(1) y0(2-4) assms(8)] assms(12) y0(1) assms(9)
  have z1: "?run es1 y0 = Inr z1" "threads_inv ops z1" "not_entered k tid addr m z1" "same_worker y0 z1"
      "sole_call k tid addr (length (filter thread_takes_tid es1)) z1"
    by auto
  obtain y1 where y1: "thread_step ops (ThEnter k) z1 = Inr y1" "threads_inv ops y1" "same_worker z1 y1"
      "sole_call k tid addr (length (filter thread_takes_tid es1)) y1" "is_pending k tid addr ch (Entered (tid, addr) ch m) y1"
    using id20_api.enter_call [OF assms(1) z1(2,5,3)] assms(10,12) by auto
  obtain z2 where z2: "?run es2 y1 = Inr z2" "threads_inv ops z2" "is_pending k tid addr ch (Entered (tid, addr) ch m) z2"
      "sole_call k tid addr (length (filter thread_takes_tid es1) + length (filter thread_takes_tid es2)) z2" "same_worker y1 z2"
    using id20_api.is_pending_run [OF assms(1) y1(2,4,5), of es2] assms(11,12) by auto
  have "worker_alive (node_state (th_dht z2))"
    using assms(3) y0(5) z1(4) y1(3) z2(5) by (simp add: same_worker_def)
  then obtain y2 where y2: "thread_step ops (ThSend k) z2 = Inr y2" "threads_inv ops y2" "is_pending k tid addr ch (Sent (tid, addr) ch) y2"
      "sole_call k tid addr (length (filter thread_takes_tid es1) + length (filter thread_takes_tid es2)) y2"
    using id20_api.send_call [OF assms(1) z2(2,4,3)] assms(12) by auto
  obtain z3 where z3: "?run es3 y2 = Inr z3" "is_pending k tid addr ch (Sent (tid, addr) ch) z3"
    using id20_api.is_pending_run [OF assms(1) y2(2,4,3), of es3] assms(11,12) by auto
  have got: "get_our_transaction_id msg = Some tid" by (rule our_transaction_id [OF assms(13)])
  define z4 where "z4 = z3\<lparr>th_dht := (th_dht z3)\<lparr>node_state := fst (on_answer msg addr (ROE_Response r) (node_state (th_dht z3)))\<rparr>\<rparr>"
  have "thread_step ops (ThOther (EvMessage env msg addr)) z3 = Inr z4"
    by (simp add: may_happen_def on_received_message_def query_handlers assms(14) z4_def split: prod.splits)
  then have "?run (ThBegin req addr # es1 @ ThEnter k # es2 @ ThSend k # es3 @ [ThOther (EvMessage env msg addr)]) z = Inr z4"
    using y0(1) z1(1) y1(1) z2(1) y2(1) z3(1) by (simp add: run_ops_append)
  moreover have "completed (node_state (th_dht z4)) ch = Some (Inr (ROE_Response r))" "th_calls z4 ! k = Sent (tid, addr) ch"
    "inflight (node_state (th_dht z4)) (tid, addr) = None"
    using z3(2) by (simp_all add: z4_def on_answer_def got is_pending_def)
  ultimately show ?thesis by (intro exI [of _ z4]) simp
qed

theorem answer_reaches_its_thread_witness:
  "\<exists>z'. run_ops (thread_step id20_word) (ThBegin Ping sample_addr # [ThBegin (FindNode 3) sample_addr] @ ThEnter 0
      # [ThEnter 1, ThOther (EvAnnounce Ping sample_addr)] @ ThSend 0 # [ThSend 1, ThOther (EvFinish 1 TimedOut)]
      @ [ThOther (EvMessage sample_env \<lparr>msg_kind = MK_Response sample_response, transaction_id = tid_bytes 0, version = None,
          msg_ip = None\<rparr> sample_addr)]) (threads_start (dht_start id20_word 0 5 sample_addr)) = Inr z'
    \<and> th_calls z' ! 0 = Sent (0, sample_addr) 0
    \<and> snd (request_finish (0, sample_addr) 0 Received (node_state (th_dht z'))) = Inr (ROE_Response sample_response)"
proof -
  let ?z = "threads_start (dht_start id20_word 0 5 sample_addr)"
  have start: "next_channel (node_state (th_dht ?z)) = 0" "next_transaction_id (node_state (th_dht ?z)) = 0"
    "worker_alive (node_state (th_dht ?z))" "waiting (th_dht ?z) = Map.empty" "th_calls ?z = []"
    by (simp_all add: threads_start_def dht_start_def dht_new_internal_def)
  obtain z1 where z1: "run_ops (thread_step id20_word) (ThBegin Ping sample_addr # [ThBegin (FindNode 3) sample_addr]) ?z = Inr z1"
      "next_channel (node_state (th_dht z1)) = 0"
    using start(1) by (simp add: create_request_def Let_def)
  show ?thesis
    using answer_reaches_its_thread [OF id20_word_api w20.threads_start_ok start(3), of 0 sample_addr 0
      "[ThBegin (FindNode 3) sample_addr]" Ping z1 0 "[ThEnter 1, ThOther (EvAnnounce Ping sample_addr)]"
      "[ThSend 1, ThOther (EvFinish 1 TimedOut)]"
      "\<lparr>msg_kind = MK_Response sample_response, transaction_id = tid_bytes 0, version = None, msg_ip = None\<rparr>"
      sample_response sample_env, OF start(2)] start(4,5) z1
    by (auto simp del: thread_step.simps)
qed

end
