(* ===== verification/Dht_Api.thy ===== *)
theory Dht_Api
  imports Get_Peers_Props
begin

text \<open>
  What a user of the library calls: \<^verbatim>\<open>ping\<close> and the accessors of \<^verbatim>\<open>DhtState\<close>, the rate
  limiter that every request waits for (\<^verbatim>\<open>make_rate_limiter\<close>), and the life of the stream that
  \<^verbatim>\<open>get_peers\<close> returns, all in \<^verbatim>\<open>src/dht.rs\<close>.
\<close>

section \<open>Accessors\<close>

text \<open>\<^verbatim>\<open>ping\<close> is a request whose result is dropped: an error message is an answer too.\<close>

definition dht_ping :: "socket_addr \<Rightarrow> 'id dht_state \<Rightarrow> 'id dht_state \<times> (dht_error + (u16 \<times> socket_addr) \<times> nat)" where
  "dht_ping addr s = request_start Ping addr s"

definition dht_ping_result :: "dht_error + 'id response_or_error \<Rightarrow> dht_error + unit" where
  "dht_ping_result r = map_sum id (\<lambda>_. ()) r"

definition with_routing_tables :: "('id routing_table \<Rightarrow> 'id routing_table \<Rightarrow> 'r) \<Rightarrow> 'id dht_state \<Rightarrow> 'r" where
  "with_routing_tables f s = f (routing_table_v4 s) (routing_table_v6 s)"

definition stats :: "'id dht_state \<Rightarrow> 'id dht_stats" where
  "stats s = get_stats s"

definition dht_listen_addr :: "'id dht_state \<Rightarrow> socket_addr" where
  "dht_listen_addr s = listen_addr s"

section \<open>The rate limiter\<close>

text \<open>
  The environment variable, if it is set, must be a number as \<^verbatim>\<open>str::parse::<usize>\<close> takes it:
  digits, at least one, after an optional plus sign, that fit into 64 bits. Otherwise the program panics.
  The limiter itself belongs to another crate; the record is what it is built with.
\<close>

datatype panic = Panic string

record rate_limiter =
  rl_initial :: nat
  rl_max :: nat
  rl_interval :: duration
  rl_fair :: bool
  rl_refill :: nat

fun digits_value :: "nat \<Rightarrow> string \<Rightarrow> nat option" where
  "digits_value acc [] = Some acc"
| "digits_value acc (c # cs) =
    (let d = of_char c :: nat; v = acc * 10 + (d - 48) in
     if 48 \<le> d \<and> d \<le> 57 \<and> v < 2 ^ 64 then digits_value v cs else None)"

definition parse_usize :: "string \<Rightarrow> nat option" where
  "parse_usize s = (let ds = (case s of c # cs \<Rightarrow> if c = CHR ''+'' then cs else s | [] \<Rightarrow> s) in
     if ds = [] then None else digits_value 0 ds)"

definition make_rate_limiter :: "string option \<Rightarrow> panic + rate_limiter" where
  "make_rate_limiter var =
     and_then (case var of
         Some v \<Rightarrow> (case parse_usize v of Some n \<Rightarrow> Inr n
           | None \<Rightarrow> Inl (Panic ''couldn't parse DHT_QUERIES_PER_SECOND''))
       | None \<Rightarrow> Inr 250) (\<lambda>dht_queries_per_second.
     let per_100_ms = dht_queries_per_second div 10 in
       Inr \<lparr>rl_initial = per_100_ms, rl_max = dht_queries_per_second, rl_interval = from_secs 1 div 10,
         rl_fair = False, rl_refill = per_100_ms\<rparr>)"

text \<open>What a limiter adds in one second, and the most that it lets through in a time \<open>d\<close>: what it can hold and what it adds.\<close>

definition per_second :: "rate_limiter \<Rightarrow> nat" where
  "per_second l = rl_refill l * (from_secs 1 div rl_interval l)"

definition most_permits :: "rate_limiter \<Rightarrow> duration \<Rightarrow> nat" where
  "most_permits l d = rl_max l + rl_refill l * (d div rl_interval l + 1)"

text \<open>
  The rate is the configured one only for multiples of ten: otherwise it is rounded down, and
  a configured rate below ten gives a limiter that starts empty and adds nothing, so that no request is
  ever sent. By default and up to 5900 queries a second, fewer than 65536 requests can start while one
  waits for its response, so no transaction identifier is reused within the wait by the requests that
  the limiter counts.
\<close>

theorem rate_is_rounded_down:
  assumes "make_rate_limiter var = Inr l"
  shows "\<exists>q. (case var of None \<Rightarrow> q = 250 | Some v \<Rightarrow> parse_usize v = Some q)
    \<and> rl_max l = q \<and> per_second l = 10 * (q div 10) \<and> per_second l \<le> q \<and> (per_second l = q \<longleftrightarrow> 10 dvd q)
    \<and> (q < 10 \<longleftrightarrow> rl_initial l = 0 \<and> rl_refill l = 0)
    \<and> (q \<le> 5900 \<longrightarrow> most_permits l RESPONSE_TIMEOUT < 2 ^ 16)"
proof -
  obtain q where q: "case var of None \<Rightarrow> q = 250 | Some v \<Rightarrow> parse_usize v = Some q"
    and l: "l = \<lparr>rl_initial = q div 10, rl_max = q, rl_interval = from_secs 1 div 10, rl_fair = False, rl_refill = q div 10\<rparr>"
    using assms by (auto simp: make_rate_limiter_def Let_def split: option.splits)
  have p: "per_second l = 10 * (q div 10)" by (simp add: l per_second_def from_secs_def)
  have m: "most_permits l RESPONSE_TIMEOUT = q + q div 10 * 101"
    by (simp add: l most_permits_def RESPONSE_TIMEOUT_def from_secs_def)
  show ?thesis
  proof (intro exI [of _ q] conjI)
    show "q \<le> 5900 \<longrightarrow> most_permits l RESPONSE_TIMEOUT < 2 ^ 16" unfolding m by auto
    show "per_second l \<le> q" "per_second l = q \<longleftrightarrow> 10 dvd q" unfolding p by presburger+
    show "q < 10 \<longleftrightarrow> rl_initial l = 0 \<and> rl_refill l = 0" by (simp add: l) presburger
  qed (use q p l in simp_all)
qed

theorem rate_is_rounded_down_witness:
  "\<exists>l. make_rate_limiter (Some ''19'') = Inr l \<and> per_second l = 10"
proof -
  have "make_rate_limiter (Some ''19'')
      = Inr \<lparr>rl_initial = 1, rl_max = 19, rl_interval = from_secs 1 div 10, rl_fair = False, rl_refill = 1\<rparr>"
    by (simp add: make_rate_limiter_def parse_usize_def Let_def)
  moreover from rate_is_rounded_down [OF this] have "per_second
      \<lparr>rl_initial = 1, rl_max = 19, rl_interval = from_secs 1 div 10, rl_fair = False, rl_refill = 1\<rparr> = 10" by simp
  ultimately show ?thesis by blast
qed

section \<open>The life of a search\<close>

text \<open>
  The stream ends when its channel is empty and every sender of it is gone; the senders belong to the two
  tasks, the channel's receiver is not one of them.
\<close>

definition stream_ended :: "'id peers_system \<Rightarrow> bool" where
  "stream_ended z \<longleftrightarrow> sy_rx z = [] \<and> \<not> pt_alive (sy_v4 z) \<and> \<not> pt_alive (sy_v6 z)"

definition task_lives :: "'id peers_task \<Rightarrow> bool" where
  "task_lives t \<longleftrightarrow> pt_alive t \<and> node_rx_alive (pt_rr t)"

lemma send_peers_rx: "send_peers ps rr = (rr', r) \<Longrightarrow> node_rx_alive rr' = node_rx_alive rr"
  by (induction ps arbitrary: rr) (auto split: if_splits)

lemma should_request_rx: "should_request_node ops i addr depth now rr = (rr', asked) \<Longrightarrow> node_rx_alive rr' = node_rx_alive rr"
  by (auto simp: should_request_node_def Let_def split: if_splits option.splits)

lemma send_nodes_rx: "send_nodes ops now depth ns rr = (rr', r) \<Longrightarrow> node_rx_alive rr' = node_rx_alive rr"
proof (induction ns arbitrary: rr)
  case (Cons n ns)
  obtain rr1 asked where sr: "should_request_node ops (nid n) (naddr n) depth now rr = (rr1, asked)" by fastforce
  with Cons.prems Cons.IH [of rr1] Cons.IH [of "rr1\<lparr>node_tx := node_tx rr1 @ [(Some (nid n), naddr n, depth + 1)]\<rparr>"]
    should_request_rx [OF sr] show ?case by (auto simp: Let_def split: if_splits)
qed simp

lemma request_one_end_rx: "request_one_end ops now addr depth resp rr = (rr', r) \<Longrightarrow> node_rx_alive rr' = node_rx_alive rr"
  by (auto simp: request_one_end_def on_recursive_response_def mark_node_error_def
      split: sum.splits response_or_error.splits prod.splits dest: send_peers_rx send_nodes_rx)

lemma send_roots_rx: "node_rx_alive rr \<Longrightarrow> \<exists>rr' m. send_roots xs n rr = (rr', Inr m) \<and> node_rx_alive rr'"
  by (induction xs n rr rule: send_roots.induct) auto

lemma looper_lives:
  fixes ops :: "('a::linorder) id20_ops"
  assumes "looper_step ops v now s t = Inr t'" and "task_lives t"
  shows "task_lives t'"
proof (cases "pt_alive t \<and> pt_wake t \<le> now")
  case True
  then obtain rr res where r: "get_peers_root ops v now s (pt_rr t) = Inr (rr, res)"
    using assms(1) by (auto simp: looper_step_def and_then_eq_Inr)
  obtain nodes :: "'a routing_table_node list" where "send_roots (take 8 (map (\<lambda>n. (node_id n, node_addr n)) nodes)) 0 (pt_rr t) = (rr, res)"
    using r by (auto simp: get_peers_root_def split: option.splits)
  moreover have rx: "node_rx_alive (pt_rr t)" using assms(2) by (simp add: task_lives_def)
  ultimately obtain m where "res = Inr m" "node_rx_alive rr" using send_roots_rx [OF rx] by (metis Pair_inject)
  with True assms r show ?thesis by (auto simp: looper_step_def task_lives_def)
next
  case False
  with assms show ?thesis by (auto simp: looper_step_def)
qed

lemma take_lives: "task_lives t \<Longrightarrow> task_lives (take_node t)"
  by (auto simp: take_node_def task_lives_def split: list.splits)

lemma fut_lives:
  assumes "fut_step ops (callbacks_get_peers ops d port) env now w k t y = Inr (t', y')" and "task_lives t"
  shows "task_lives t'"
proof (cases "k < length (pt_futs t)")
  case k: True
  obtain i addr depth phase where f: "pt_futs t ! k = ((i, addr, depth), phase)" by (metis surj_pair)
  note step = assms(1) [unfolded fut_step_def f Let_def, simplified k if_True prod.case]
  show ?thesis
  proof (cases phase)
    case Not_Polled
    with step assms(2) show ?thesis
      by (auto simp: begin_get_peers task_lives_def set_fut_def case_prod_beta)
  next
    case (First_Sent key ch)
    with step assms(2) show ?thesis by (auto simp: task_lives_def set_fut_def fut_wait_def split: if_splits)
  next
    case (Second_Sent key ch)
    with step assms(2) show ?thesis by (auto simp: task_lives_def set_fut_def fut_wait_def split: if_splits)
  next
    case (First_Done resp)
    have "node_rx_alive rr' = node_rx_alive (pt_rr t)"
      if "request_one_middle (callbacks_get_peers ops d port) env now i addr resp (pt_rr t) (node_state y) = Inr (rr', s')" for rr' s'
      using that by (cases i) (auto simp: request_one_middle_def callbacks_get_peers_def mark_node_responded_def Let_def
          split: sum.splits)
    with First_Done step assms(2) show ?thesis
      by (auto simp: and_then_eq_Inr task_lives_def set_fut_def case_prod_beta)
  next
    case (Second_Done resp)
    obtain rr r where e: "request_one_end ops now addr depth resp (pt_rr t) = (rr, r)" by (metis surj_pair)
    with Second_Done step assms(2) request_one_end_rx [OF e] show ?thesis by (auto simp: task_lives_def)
  qed
qed (use assms in \<open>simp add: fut_step_def\<close>)

lemma peers_step_lives:
  assumes "peers_step ops port e z = Inr z'" and "\<forall>v. task_lives (task_of v z)" and "e \<noteq> PeDrop"
  shows "\<forall>v. task_lives (task_of v z')"
proof (cases e)
  case (PeLooper v now)
  with assms(1) obtain t where t: "looper_step ops v now (node_state (sy_dht z)) (task_of v z) = Inr t" "z' = set_task v t z"
    by (auto simp: and_then_eq_Inr)
  with assms(2) looper_lives [OF t(1)] show ?thesis by simp
next
  case (PeTake v)
  with assms(1) have "z' = set_task v (take_node (task_of v z)) z" by simp
  with assms(2) take_lives [of "task_of v z"] show ?thesis by simp
next
  case (PeFut v k env now w)
  with assms obtain t y where t: "fut_step ops (callbacks_get_peers ops (MIN_DISTANCE_TO_ANNOUNCE ops) port) env now w k
      (task_of v z) (sy_dht z) = Inr (t, y)" "z' = drain v t (z\<lparr>sy_dht := y\<rparr>)" by (auto simp: and_then_eq_Inr)
  then have "task_lives t" using fut_lives assms(2) by blast
  with assms(2) show ?thesis by (auto simp: t(2) drain_def task_lives_def)
next
  case PeNext
  with assms show ?thesis by (auto simp: poll_next_def split: list.splits)
qed (use assms in \<open>auto simp: and_then_eq_Inr split: if_splits\<close>)

lemma peers_run_lives:
  assumes "run_ops (peers_step ops port) es z = Inr z'" and "\<forall>v. task_lives (task_of v z)" and "PeDrop \<notin> set es"
  shows "\<forall>v. task_lives (task_of v z')"
  using assms
proof (induction es arbitrary: z)
  case (Cons e es)
  then obtain z1 where z1: "peers_step ops port e z = Inr z1" "run_ops (peers_step ops port) es z1 = Inr z'"
    by (auto simp: and_then_eq_Inr)
  with Cons.IH [OF z1(2) peers_step_lives [OF z1(1)]] Cons.prems(2,3) show ?case by auto
qed simp

text \<open>
  C40. A search never ends by itself: whatever happens to its node, also when the worker has returned and
  no request can be sent any more, and however long the stream is polled, both tasks of the search go on,
  so the stream stays open and a user that waits for its end waits forever.
\<close>

theorem search_never_ends:
  assumes "run_ops (peers_step ops port) es (get_peers_start hash y) = Inr z" and "PeDrop \<notin> set es"
  shows "pt_alive (sy_v4 z) \<and> pt_alive (sy_v6 z) \<and> \<not> stream_ended z"
proof -
  have "\<forall>v. task_lives (task_of v (get_peers_start hash y))"
    by (simp add: task_lives_def task_of_def get_peers_start_def peers_task_new_def get_peers_recursion_def)
  from peers_run_lives [OF assms(1) this assms(2)] have "task_lives (task_of True z)" "task_lives (task_of False z)" by blast+
  then show ?thesis by (simp add: task_lives_def task_of_def stream_ended_def)
qed

theorem search_never_ends_witness:
  "\<exists>z. run_ops (peers_step id20_word None) [PeNode EvWorkerDies, PeLooper True 0, PeNext]
      (get_peers_start 3 (dht_start id20_word 0 5 sample_addr)) = Inr z \<and> \<not> stream_ended z"
proof -
  obtain z where z: "run_ops (peers_step id20_word None) [PeNode EvWorkerDies, PeLooper True 0, PeNext]
      (get_peers_start 3 (dht_start id20_word 0 5 sample_addr)) = Inr z"
    using peers_run_ok [OF id20_word_api peers_start_ok [OF id20_word_api]] by blast
  from search_never_ends [OF z] z show ?thesis by auto
qed

end
