(* ===== verification/Example_Program.thy ===== *)
theory Example_Program
  imports Dht_Api Persistence_Props
begin

text \<open>
  The example program, \<^verbatim>\<open>src/examples/dht.rs\<close>: it searches the peers of a magnet link and prints
  them, prints the statistics of its node every five seconds and dumps both routing tables every fifteen.
  Parsing the magnet link, the files, the timers and the pretty printer are parameters.
\<close>

section \<open>Starting\<close>

text \<open>How the program ends: a failed check, a failed \<^verbatim>\<open>unwrap\<close> or \<^verbatim>\<open>expect\<close>, or the result of \<^verbatim>\<open>main\<close>.\<close>

datatype exit =
    Aborted abort
  | Unwrapped string
  | Returned "string + unit"

datatype 'id info =
    StatsLine "'id dht_stats"
  | DumpLine
  | PeerLine socket_addr

record 'id example =
  ex_search :: "'id peers_system"
  ex_log :: "'id info list"
  ex_file :: "bytes option"

text \<open>\<^verbatim>\<open>DhtBuilder::new\<close> and \<^verbatim>\<open>DhtState::new\<close>.\<close>

definition dht_new ::
    "'id id20_ops \<Rightarrow> (socket_addr \<Rightarrow> library_error + socket_addr) \<Rightarrow> 'id \<Rightarrow> instant
      \<Rightarrow> dht_error + 'id dht_state \<times> string list" where
  "dht_new ops bind_udp generated now = with_config ops bind_udp generated now default_config"

definition main_start ::
    "(string \<Rightarrow> library_error + 'm) \<Rightarrow> ('m \<Rightarrow> 'id option) \<Rightarrow> dht_error + 'id dht_state \<times> string list
      \<Rightarrow> string list \<Rightarrow> exit + 'id example" where
  "main_start parse as_id20 dht args =
    (if length args \<le> 1 then Inl (Unwrapped ''first argument should be a magnet link'')
     else case parse (args ! 1) of
       Inl e \<Rightarrow> Inl (Unwrapped e)
     | Inr magnet \<Rightarrow> (case as_id20 magnet of
         None \<Rightarrow> Inl (Returned (Inl ''Supplied magnet link didn't contain a BTv1 infohash''))
       | Some hash \<Rightarrow> (case dht of
           Inl e \<Rightarrow> Inl (Returned (Inl ''error initializing DHT''))
         | Inr (s, hosts) \<Rightarrow> Inr \<lparr>ex_search = get_peers_start hash \<lparr>node_state = s, waiting = Map.empty, dropped = {}\<rparr>,
             ex_log = [], ex_file = None\<rparr>)))"

section \<open>Running\<close>

text \<open>
  A tick of the statistics, a tick of the dumper with the results of opening and writing the file and the
  clock readings of the two tables, a poll of the stream, and whatever else happens in the library. The
  program returns when the stream ends.
\<close>

datatype 'id example_event =
    ExStats
  | ExDump "nat \<Rightarrow> nat \<Rightarrow> nat \<Rightarrow> instant" "nat \<Rightarrow> nat \<Rightarrow> nat \<Rightarrow> instant" "library_error + unit" "library_error + unit"
  | ExPeer
  | ExLibrary "'id peers_event"

definition tables_json ::
    "'id serde \<Rightarrow> (nat \<Rightarrow> nat \<Rightarrow> nat \<Rightarrow> instant) \<Rightarrow> (nat \<Rightarrow> nat \<Rightarrow> nat \<Rightarrow> instant)
      \<Rightarrow> 'id routing_table \<Rightarrow> 'id routing_table \<Rightarrow> json" where
  "tables_json se clk4 clk6 v4 v6 = JArr [routing_table_json se clk4 v4, routing_table_json se clk6 v6]"

fun example_step ::
    "('id::linorder) id20_ops \<Rightarrow> 'id serde \<Rightarrow> (json \<Rightarrow> bytes) \<Rightarrow> 'id example_event \<Rightarrow> 'id example
      \<Rightarrow> exit + 'id example" where
  "example_step ops se pretty ExStats p =
    Inr (p\<lparr>ex_log := ex_log p @ [StatsLine (stats (node_state (sy_dht (ex_search p))))]\<rparr>)"
| "example_step ops se pretty (ExDump clk4 clk6 opened written) p = (case opened of
     Inl e \<Rightarrow> Inl (Unwrapped e)
   | Inr _ \<Rightarrow> (case written of
       Inl e \<Rightarrow> Inl (Unwrapped e)
     | Inr _ \<Rightarrow> Inr (p\<lparr>ex_file := Some (pretty (with_routing_tables (tables_json se clk4 clk6) (node_state (sy_dht (ex_search p))))),
         ex_log := ex_log p @ [DumpLine]\<rparr>)))"
| "example_step ops se pretty ExPeer p = (case sy_rx (ex_search p) of
     peer # rest \<Rightarrow> Inr (p\<lparr>ex_search := fst (poll_next (ex_search p)), ex_log := ex_log p @ [PeerLine peer]\<rparr>)
   | [] \<Rightarrow> if stream_ended (ex_search p) then Inl (Returned (Inr ())) else Inr p)"
| "example_step ops se pretty (ExLibrary e) p =
    (if e = PeNext \<or> e = PeDrop then Inr p
     else case peers_step ops None e (ex_search p) of
       Inl a \<Rightarrow> Inl (Aborted a)
     | Inr z \<Rightarrow> Inr (p\<lparr>ex_search := z\<rparr>))"

fun example_run ::
    "('id::linorder) id20_ops \<Rightarrow> 'id serde \<Rightarrow> (json \<Rightarrow> bytes) \<Rightarrow> 'id example_event list \<Rightarrow> 'id example
      \<Rightarrow> exit + 'id example" where
  "example_run ops se pretty [] p = Inr p"
| "example_run ops se pretty (ev # evs) p = and_then (example_step ops se pretty ev p) (example_run ops se pretty evs)"

definition printed_peers :: "'id info list \<Rightarrow> socket_addr list" where
  "printed_peers log = List.map_filter (\<lambda>l. case l of PeerLine a \<Rightarrow> Some a | _ \<Rightarrow> None) log"

lemma printed_peers_simps [simp]:
  "printed_peers [] = []" "printed_peers (xs @ ys) = printed_peers xs @ printed_peers ys"
  "printed_peers [PeerLine a] = [a]" "printed_peers [StatsLine s] = []" "printed_peers [DumpLine] = []"
  by (simp_all add: printed_peers_def List.map_filter_def)

section \<open>What it prints\<close>

text \<open>No tick of the dumper fails to write its file.\<close>

fun file_writable :: "'id example_event \<Rightarrow> bool" where
  "file_writable (ExDump c4 c6 opened written) \<longleftrightarrow> opened = Inr () \<and> written = Inr ()"
| "file_writable _ \<longleftrightarrow> True"

definition example_inv :: "('id::linorder) id20_ops \<Rightarrow> 'id example \<Rightarrow> bool" where
  "example_inv ops p \<longleftrightarrow> (\<exists>L. peers_inv ops L (ex_search p)) \<and> (\<forall>v. task_lives (task_of v (ex_search p)))
     \<and> printed_peers (ex_log p) = sy_delivered (ex_search p)"

lemma peers_step_delivered:
  "peers_step ops port e z = Inr z' \<Longrightarrow> e \<noteq> PeNext \<Longrightarrow> sy_delivered z' = sy_delivered z"
  by (cases e) (auto simp: and_then_eq_Inr drain_def drop_stream_def split: if_splits)

lemma example_step_ok:
  assumes api: "id20_api ops" and inv: "example_inv ops p" and w: "file_writable ev"
  shows "\<exists>p'. example_step ops se pretty ev p = Inr p' \<and> example_inv ops p'"
proof (cases ev)
  case (ExDump c4 c6 opened written)
  with inv w show ?thesis by (simp add: example_inv_def)
next
  case ExPeer
  have "\<not> stream_ended (ex_search p)"
    using inv by (auto simp: example_inv_def task_lives_def stream_ended_def task_of_def dest: spec [of _ True])
  moreover obtain L where "peers_inv ops L (ex_search p)" using inv by (auto simp: example_inv_def)
  then obtain z where z: "peers_step ops None PeNext (ex_search p) = Inr z" "peers_inv ops (L \<union> solicited PeNext (ex_search p)) z"
    using peers_step_ok [OF api] by blast
  moreover have "\<forall>v. task_lives (task_of v z)"
    using peers_step_lives [OF z(1)] inv by (simp add: example_inv_def)
  ultimately show ?thesis using inv
    by (auto simp: ExPeer example_inv_def poll_next_def split: list.splits)
next
  case (ExLibrary e)
  show ?thesis
  proof (cases "e = PeNext \<or> e = PeDrop")
    case False
    obtain L where "peers_inv ops L (ex_search p)" using inv by (auto simp: example_inv_def)
    then obtain z where z: "peers_step ops None e (ex_search p) = Inr z" "peers_inv ops (L \<union> solicited e (ex_search p)) z"
      using peers_step_ok [OF api] by blast
    with False inv peers_step_lives [OF z(1)] peers_step_delivered [OF z(1)] show ?thesis
      by (auto simp: ExLibrary example_inv_def)
  qed (use inv ExLibrary in auto)
qed (use inv in \<open>simp add: example_inv_def\<close>)

lemma example_run_ok:
  "id20_api ops \<Longrightarrow> example_inv ops p \<Longrightarrow> \<forall>ev \<in> set evs. file_writable ev \<Longrightarrow>
    \<exists>p'. example_run ops se pretty evs p = Inr p' \<and> example_inv ops p'"
proof (induction evs arbitrary: p)
  case (Cons ev evs)
  have "file_writable ev" using Cons.prems(3) by simp
  from example_step_ok [OF Cons.prems(1,2) this] obtain p1 where
    "example_step ops se pretty ev p = Inr p1" "example_inv ops p1" by blast
  with Cons show ?case by simp
qed simp

lemma main_start_ok:
  assumes "id20_api ops" and "main_start parse as_id20 (dht_new ops bind_udp generated now) args = Inr p"
  shows "example_inv ops p"
proof -
  obtain hash addr where p: "p = \<lparr>ex_search = get_peers_start hash (dht_start ops now generated addr), ex_log = [], ex_file = None\<rparr>"
    using assms(2) by (auto simp: main_start_def dht_new_def with_config_def default_config_def Let_def dht_start_def
        split: if_splits sum.splits option.splits prod.splits)
  have "\<forall>v. task_lives (task_of v (ex_search p))"
    by (simp add: p task_lives_def task_of_def get_peers_start_def peers_task_new_def get_peers_recursion_def)
  moreover have "peers_inv ops {} (ex_search p)" using peers_start_ok [OF assms(1)] by (simp add: p)
  ultimately show ?thesis by (auto simp: example_inv_def p get_peers_start_def)
qed

text \<open>
  Once the example program has started, it prints exactly the peers that the stream delivers, each
  once per delivery and in order, among its other lines; and it never returns, because the stream never
  ends, not even when its node is dead: only a dump that cannot be written ends it, by a panic.
\<close>

theorem example_prints_the_peers:
  assumes "id20_api ops" and "main_start parse as_id20 (dht_new ops bind_udp generated now) args = Inr p"
    and "\<forall>ev \<in> set evs. file_writable ev"
  shows "\<exists>p'. example_run ops se pretty evs p = Inr p' \<and> printed_peers (ex_log p') = sy_delivered (ex_search p')
    \<and> \<not> stream_ended (ex_search p')"
proof -
  obtain p' where "example_run ops se pretty evs p = Inr p'" and inv: "example_inv ops p'"
    using example_run_ok [OF assms(1) main_start_ok [OF assms(1,2)] assms(3)] by blast
  moreover from inv have "\<not> stream_ended (ex_search p')"
    by (auto simp: example_inv_def task_lives_def stream_ended_def task_of_def dest: spec [of _ True])
  ultimately show ?thesis by (auto simp: example_inv_def)
qed

theorem example_prints_the_peers_witness:
  "\<exists>p p'. main_start (\<lambda>s. Inr s) (\<lambda>s. Some 3) (dht_new id20_word Inr 7 0) [''dht'', ''magnet:''] = Inr p
    \<and> example_run id20_word text_serde (se_write text_serde) [ExStats, ExLibrary (PeNode EvWorkerDies), ExPeer] p = Inr p'
    \<and> printed_peers (ex_log p') = sy_delivered (ex_search p')"
proof -
  obtain p where p: "main_start (\<lambda>s. Inr s) (\<lambda>s. Some 3) (dht_new id20_word Inr 7 0) [''dht'', ''magnet:''] = Inr p"
    by (simp add: main_start_def dht_new_def with_config_def default_config_def Let_def)
  from example_prints_the_peers [OF id20_word_api p, of "[ExStats, ExLibrary (PeNode EvWorkerDies), ExPeer]"] p
  show ?thesis by fastforce
qed

section \<open>What it dumps\<close>

text \<open>
  The file that the example leaves can be read back: its content is an array of two documents, and
  reading them as routing tables gives both tables of the node, the IPv6 one included, without the marks
  of their nodes.
\<close>

theorem example_dump_reads_back:
  assumes "serde_api se" and "\<forall>v. json_plain JSON_DEPTH v \<longrightarrow> se_read se (pretty v) = Inr v"
    and "example_step ops se pretty (ExDump clk4 clk6 (Inr ()) (Inr ())) p = Inr p'"
    and "state_writable (node_state (sy_dht (ex_search p)))"
  shows "\<exists>bs d4 d6. ex_file p' = Some bs \<and> se_read se bs = Inr (JArr [d4, d6])
    \<and> routing_table_of_json se r4 d4 = Inr (reloaded_table r4 (routing_table_v4 (node_state (sy_dht (ex_search p)))))
    \<and> routing_table_of_json se r6 d6 = Inr (reloaded_table r6 (routing_table_v6 (node_state (sy_dht (ex_search p)))))"
proof -
  let ?s = "node_state (sy_dht (ex_search p))"
  have w: "tree_writable (rt_buckets (routing_table_v4 ?s))" "rt_size (routing_table_v4 ?s) < 2 ^ 64"
    "tree_writable (rt_buckets (routing_table_v6 ?s))" "rt_size (routing_table_v6 ?s) < 2 ^ 64"
    using assms(4) by (simp_all add: state_writable_def)
  have "json_plain 11 (tables_json se clk4 clk6 (routing_table_v4 ?s) (routing_table_v6 ?s))"
    using serde_api.table_plain [OF assms(1) w(1,2), of clk4] serde_api.table_plain [OF assms(1) w(3,4), of clk6]
    by (simp add: tables_json_def)
  then have "json_plain JSON_DEPTH (tables_json se clk4 clk6 (routing_table_v4 ?s) (routing_table_v6 ?s))"
    by (rule json_plain_mono) (simp add: JSON_DEPTH_def)
  with assms(2,3) have "ex_file p' = Some (pretty (tables_json se clk4 clk6 (routing_table_v4 ?s) (routing_table_v6 ?s)))"
    "se_read se (pretty (tables_json se clk4 clk6 (routing_table_v4 ?s) (routing_table_v6 ?s)))
      = Inr (JArr [routing_table_json se clk4 (routing_table_v4 ?s), routing_table_json se clk6 (routing_table_v6 ?s)])"
    by (auto simp: with_routing_tables_def) (simp add: tables_json_def)
  with serde_api.routing_table_round [OF assms(1) w(1,2)] serde_api.routing_table_round [OF assms(1) w(3,4)]
  show ?thesis by blast
qed

theorem example_dump_reads_back_witness:
  "\<exists>p' bs d4 d6. example_step id20_word text_serde (se_write text_serde) (ExDump (\<lambda>_ _ _. 7) (\<lambda>_ _ _. 7) (Inr ()) (Inr ()))
      \<lparr>ex_search = get_peers_start 3 \<lparr>node_state = probe_state, waiting = Map.empty, dropped = {}\<rparr>, ex_log = [], ex_file = None\<rparr> = Inr p'
    \<and> ex_file p' = Some bs \<and> se_read text_serde bs = Inr (JArr [d4, d6])"
proof -
  let ?p = "\<lparr>ex_search = get_peers_start 3 \<lparr>node_state = probe_state, waiting = Map.empty, dropped = {}\<rparr>, ex_log = [], ex_file = None\<rparr>"
  obtain p' where p': "example_step id20_word text_serde (se_write text_serde) (ExDump (\<lambda>_ _ _. 7) (\<lambda>_ _ _. 7) (Inr ()) (Inr ())) ?p
      = Inr p'" by simp
  have "state_writable (node_state (sy_dht (ex_search ?p)))" using probe_writable by (simp add: get_peers_start_def)
  from example_dump_reads_back [OF text_serde.serde_api_axioms _ p' this] text_serde.text_read p' show ?thesis by blast
qed

end
