(* ===== verification/Store_Tests.thy ===== *)
theory Store_Tests
  imports Peer_Props
begin

text \<open>
  The tests of \<^verbatim>\<open>src/peer_store.rs\<close>, as functions of what they read from outside:
  \<open>rnd\<close> and \<open>clk\<close> hold the random bytes and the clock readings of their calls, in the order
  of the calls. A test is true when none of its assertions fails and nothing panics; the
  tests are shown to be true for all random bytes and for clocks that do not run away.
\<close>

section \<open>Helpers of the tests\<close>

definition with_limits :: "'id id20_ops \<Rightarrow> 'id \<Rightarrow> u32 \<Rightarrow> u32 \<Rightarrow> 'id peer_store" where
  "with_limits ops self max_tokens max_peers = \<lparr>ps_self_id = self, max_remembered_tokens = max_tokens,
     max_remembered_peers = max_peers, max_distance = id_new ops (replicate 20 0xff),
     ps_tokens = [], ps_peers = [], peers_len = 0\<rparr>"

definition id_from_byte :: "'id id20_ops \<Rightarrow> u8 \<Rightarrow> 'id" where
  "id_from_byte ops b = id_new ops (b # replicate 19 0)"

definition addr_v4 :: "u16 \<Rightarrow> socket_addr" where
  "addr_v4 port = V4 \<lparr>ip4 = 0x7f000001, port4 = port\<rparr>"

definition addr_v6 :: "u16 \<Rightarrow> socket_addr" where
  "addr_v6 port = V6 \<lparr>ip6 = 1, port6 = port, flowinfo = 0, scope_id = 0\<rparr>"

definition make_announce :: "'id \<Rightarrow> 'id \<Rightarrow> bytes \<Rightarrow> u16 \<Rightarrow> u8 \<Rightarrow> 'id announce_peer" where
  "make_announce node_id hash token port implied = \<lparr>ap_id = node_id, implied_port = implied,
     ap_info_hash = hash, ap_port = port, ap_token = token\<rparr>"

text \<open>Seconds and minutes of \<^verbatim>\<open>TimeDelta\<close>.\<close>

definition seconds :: "int \<Rightarrow> int" where
  "seconds s = s * 1000000000"

definition minutes :: "int \<Rightarrow> int" where
  "minutes m = seconds (60 * m)"

section \<open>Tokens and announcements\<close>

definition test_new_peer_store :: "('id::linorder) id20_ops \<Rightarrow> bool" where
  "test_new_peer_store ops =
    (let i = id_from_byte ops 0x42;
         store = peer_store_new ops i
     in ps_self_id store = i \<and> max_remembered_tokens store = 1000 \<and> max_remembered_peers store = 1000
       \<and> ps_tokens store = [] \<and> ps_peers store = [] \<and> peers_len store = 0)"

definition test_gen_token_and_store_peer ::
    "('id::linorder) id20_ops \<Rightarrow> (nat \<Rightarrow> bytes) \<Rightarrow> (nat \<Rightarrow> datetime) \<Rightarrow> bool" where
  "test_gen_token_and_store_peer ops rnd clk =
    (let self_id = id_from_byte ops 0x00;
         store = with_limits ops self_id 100 100;
         node_id = id_from_byte ops 0x01;
         info_hash = id_from_byte ops 0x02;
         addr = addr_v4 6881;
         (store, token) = gen_token_for (rnd 0) (clk 0) store node_id addr;
         announce = make_announce node_id info_hash token 6882 0;
         (store', stored) = store_peer ops (clk 1) store announce addr;
         peers = get_for_info_hash store' info_hash Want_Both
     in length (ps_tokens store) = 1 \<and> stored \<and> length peers = 1 \<and> addr_port (peers ! 0) = 6882)"

definition test_store_peer_rejects_invalid_token ::
    "('id::linorder) id20_ops \<Rightarrow> (nat \<Rightarrow> bytes) \<Rightarrow> (nat \<Rightarrow> datetime) \<Rightarrow> bool" where
  "test_store_peer_rejects_invalid_token ops rnd clk =
    (let self_id = id_from_byte ops 0x00;
         store = with_limits ops self_id 100 100;
         node_id = id_from_byte ops 0x01;
         info_hash = id_from_byte ops 0x02;
         addr = addr_v4 6881;
         (store, valid_token) = gen_token_for (rnd 0) (clk 0) store node_id addr;
         bad_token = [0xDE, 0xAD, 0xBE, 0xEF];
         announce = make_announce node_id info_hash bad_token 6882 0;
         (store', stored) = store_peer ops (clk 1) store announce addr
     in \<not> stored \<and> get_for_info_hash store' info_hash Want_Both = [])"

definition test_store_peer_rejects_far_info_hash ::
    "('id::linorder) id20_ops \<Rightarrow> (nat \<Rightarrow> bytes) \<Rightarrow> (nat \<Rightarrow> datetime) \<Rightarrow> bool" where
  "test_store_peer_rejects_far_info_hash ops rnd clk =
    (let self_id = id_from_byte ops 0x00;
         store = peer_store_new ops self_id;
         node_id = id_from_byte ops 0x01;
         info_hash = id_from_byte ops 0xFF;
         addr = addr_v4 6881;
         (store, token) = gen_token_for (rnd 0) (clk 0) store node_id addr;
         announce = make_announce node_id info_hash token 6882 0
     in \<not> snd (store_peer ops (clk 1) store announce addr))"

definition test_store_peer_updates_existing ::
    "('id::linorder) id20_ops \<Rightarrow> (nat \<Rightarrow> bytes) \<Rightarrow> (nat \<Rightarrow> datetime) \<Rightarrow> bool" where
  "test_store_peer_updates_existing ops rnd clk =
    (let self_id = id_from_byte ops 0x00;
         store = with_limits ops self_id 100 100;
         node_id = id_from_byte ops 0x01;
         info_hash = id_from_byte ops 0x02;
         addr = addr_v4 6881;
         (store, token) = gen_token_for (rnd 0) (clk 0) store node_id addr;
         announce = make_announce node_id info_hash token 6882 1;
         (store1, stored1) = store_peer ops (clk 1) store announce addr;
         (store2, stored2) = store_peer ops (clk 2) store1 announce addr
     in stored1 \<and> peers_len store1 = 1 \<and> stored2 \<and> peers_len store2 = 1
       \<and> length (get_for_info_hash store2 info_hash Want_Both) = 1)"

text \<open>The loop of the next test: whether every announcement was stored, and the store.\<close>

fun capacity_rounds ::
    "('id::linorder) id20_ops \<Rightarrow> (nat \<Rightarrow> bytes) \<Rightarrow> (nat \<Rightarrow> datetime) \<Rightarrow> 'id \<Rightarrow> nat list \<Rightarrow> 'id peer_store
      \<Rightarrow> 'id peer_store \<times> bool" where
  "capacity_rounds ops rnd clk info_hash [] store = (store, True)"
| "capacity_rounds ops rnd clk info_hash (i # is) store =
    (let node_id = id_from_byte ops (of_nat (i + 10));
         addr = addr_v4 (7000 + of_nat i);
         (store, token) = gen_token_for (rnd i) (clk (2 * i)) store node_id addr;
         announce = make_announce node_id info_hash token (8000 + of_nat i) 0;
         (store, stored) = store_peer ops (clk (2 * i + 1)) store announce addr;
         (store, all_stored) = capacity_rounds ops rnd clk info_hash is store
     in (store, stored \<and> all_stored))"

definition test_store_peer_capacity_limit ::
    "('id::linorder) id20_ops \<Rightarrow> (nat \<Rightarrow> bytes) \<Rightarrow> (nat \<Rightarrow> datetime) \<Rightarrow> bool" where
  "test_store_peer_capacity_limit ops rnd clk =
    (let self_id = id_from_byte ops 0x00;
         store = with_limits ops self_id 1000 3;
         info_hash = id_from_byte ops 0x02;
         (store3, all_stored) = capacity_rounds ops rnd clk info_hash [0..<3] store;
         node_id = id_from_byte ops 0x20;
         addr = addr_v4 9000;
         (store4, token) = gen_token_for (rnd 3) (clk 6) store3 node_id addr;
         announce = make_announce node_id info_hash token 9001 0;
         (store5, stored) = store_peer ops (clk 7) store4 announce addr
     in all_stored \<and> peers_len store3 = 3 \<and> \<not> stored \<and> peers_len store5 = 3)"

definition test_get_for_info_hash ::
    "('id::linorder) id20_ops \<Rightarrow> (nat \<Rightarrow> bytes) \<Rightarrow> (nat \<Rightarrow> datetime) \<Rightarrow> bool" where
  "test_get_for_info_hash ops rnd clk =
    (let self_id = id_from_byte ops 0x00;
         store = with_limits ops self_id 100 100;
         info_hash_a = id_from_byte ops 0x10;
         info_hash_b = id_from_byte ops 0x20;
         node_id = id_from_byte ops 0x01;
         addr = addr_v4 5000;
         (store, token) = gen_token_for (rnd 0) (clk 0) store node_id addr;
         ann = make_announce node_id info_hash_a token 5001 0;
         (store, stored) = store_peer ops (clk 1) store ann addr
     in stored \<and> length (get_for_info_hash store info_hash_a Want_Both) = 1
       \<and> get_for_info_hash store info_hash_b Want_Both = [])"

definition test_get_for_info_hash_want_filter ::
    "('id::linorder) id20_ops \<Rightarrow> (nat \<Rightarrow> bytes) \<Rightarrow> (nat \<Rightarrow> datetime) \<Rightarrow> bool" where
  "test_get_for_info_hash_want_filter ops rnd clk =
    (let self_id = id_from_byte ops 0x00;
         store = with_limits ops self_id 100 100;
         info_hash = id_from_byte ops 0x05;
         node_v4 = id_from_byte ops 0x01;
         a4 = addr_v4 5000;
         (store, token_v4) = gen_token_for (rnd 0) (clk 0) store node_v4 a4;
         ann_v4 = make_announce node_v4 info_hash token_v4 5001 0;
         (store, stored_v4) = store_peer ops (clk 1) store ann_v4 a4;
         node_v6 = id_from_byte ops 0x02;
         a6 = addr_v6 6000;
         (store, token_v6) = gen_token_for (rnd 1) (clk 2) store node_v6 a6;
         ann_v6 = make_announce node_v6 info_hash token_v6 6001 0;
         (store, stored_v6) = store_peer ops (clk 3) store ann_v6 a6;
         v4_peers = get_for_info_hash store info_hash Want_V4;
         v6_peers = get_for_info_hash store info_hash Want_V6
     in stored_v4 \<and> stored_v6 \<and> length (get_for_info_hash store info_hash Want_Both) = 2
       \<and> length v4_peers = 1 \<and> is_ipv4 (v4_peers ! 0) \<and> length v6_peers = 1 \<and> is_ipv6 (v6_peers ! 0))"

definition test_implied_port_uses_sender_addr_port ::
    "('id::linorder) id20_ops \<Rightarrow> (nat \<Rightarrow> bytes) \<Rightarrow> (nat \<Rightarrow> datetime) \<Rightarrow> bool" where
  "test_implied_port_uses_sender_addr_port ops rnd clk =
    (let self_id = id_from_byte ops 0x00;
         store = with_limits ops self_id 100 100;
         node_id = id_from_byte ops 0x01;
         info_hash = id_from_byte ops 0x02;
         addr = addr_v4 9999;
         (store, token) = gen_token_for (rnd 0) (clk 0) store node_id addr;
         announce = make_announce node_id info_hash token 1234 1;
         (store, stored) = store_peer ops (clk 1) store announce addr;
         peers = get_for_info_hash store info_hash Want_Both
     in stored \<and> length peers = 1 \<and> addr_port (peers ! 0) = 9999)"

definition test_token_requires_matching_addr ::
    "('id::linorder) id20_ops \<Rightarrow> (nat \<Rightarrow> bytes) \<Rightarrow> (nat \<Rightarrow> datetime) \<Rightarrow> bool" where
  "test_token_requires_matching_addr ops rnd clk =
    (let self_id = id_from_byte ops 0x00;
         store = with_limits ops self_id 100 100;
         node_id = id_from_byte ops 0x01;
         info_hash = id_from_byte ops 0x02;
         addr_a = addr_v4 6881;
         addr_b = addr_v4 6882;
         (store, token) = gen_token_for (rnd 0) (clk 0) store node_id addr_a;
         announce = make_announce node_id info_hash token 6882 0
     in \<not> snd (store_peer ops (clk 1) store announce addr_b))"

definition test_token_requires_matching_node_id ::
    "('id::linorder) id20_ops \<Rightarrow> (nat \<Rightarrow> bytes) \<Rightarrow> (nat \<Rightarrow> datetime) \<Rightarrow> bool" where
  "test_token_requires_matching_node_id ops rnd clk =
    (let self_id = id_from_byte ops 0x00;
         store = with_limits ops self_id 100 100;
         node_id_a = id_from_byte ops 0x01;
         node_id_b = id_from_byte ops 0x02;
         info_hash = id_from_byte ops 0x03;
         addr = addr_v4 6881;
         (store, token) = gen_token_for (rnd 0) (clk 0) store node_id_a addr;
         announce = make_announce node_id_b info_hash token 6882 0
     in \<not> snd (store_peer ops (clk 1) store announce addr))"

section \<open>Garbage collection\<close>

text \<open>The tests write the maps and the counter of the store directly.\<close>

definition insert_peers :: "'id \<Rightarrow> stored_peer list \<Rightarrow> 'id peer_store \<Rightarrow> 'id peer_store" where
  "insert_peers hash peers store = store\<lparr>ps_peers := AList.update hash peers (ps_peers store)\<rparr>"

definition test_garbage_collect_removes_stale_peers ::
    "('id::linorder) id20_ops \<Rightarrow> (nat \<Rightarrow> datetime) \<Rightarrow> bool" where
  "test_garbage_collect_removes_stale_peers ops clk =
    (let self_id = id_from_byte ops 0x00;
         store = with_limits ops self_id 100 100;
         info_hash = id_from_byte ops 0x05;
         stale_time = clk 0 - minutes 20;
         store = (insert_peers info_hash [\<lparr>sp_addr = addr_v4 5000, sp_time = stale_time\<rparr>] store)\<lparr>peers_len := 1\<rparr>
     in length (get_for_info_hash store info_hash Want_Both) = 1
       \<and> (case garbage_collect_peers (clk 1) store of
            Inl e \<Rightarrow> False
          | Inr store' \<Rightarrow> get_for_info_hash store' info_hash Want_Both = [] \<and> peers_len store' = 0))"

definition test_garbage_collect_removes_stale_tokens ::
    "('id::linorder) id20_ops \<Rightarrow> (nat \<Rightarrow> bytes) \<Rightarrow> (nat \<Rightarrow> datetime) \<Rightarrow> bool" where
  "test_garbage_collect_removes_stale_tokens ops rnd clk =
    (let self_id = id_from_byte ops 0x00;
         store = with_limits ops self_id 100 100;
         store1 = store\<lparr>ps_tokens := ps_tokens store @ [\<lparr>st_token = [1, 2, 3, 4], st_node_id = id_from_byte ops 0x01,
           st_addr = addr_v4 5000, st_time = clk 0 - minutes 15\<rparr>]\<rparr>;
         (store2, token) = gen_token_for (rnd 0) (clk 1) store1 (id_from_byte ops 0x02) (addr_v4 5001)
     in length (ps_tokens store1) = 1 \<and> length (ps_tokens store2) = 2
       \<and> (case garbage_collect_peers (clk 2) store2 of
            Inl e \<Rightarrow> False
          | Inr store' \<Rightarrow> length (ps_tokens store') = 1))"

definition test_garbage_collect_per_hash_cap :: "('id::linorder) id20_ops \<Rightarrow> (nat \<Rightarrow> datetime) \<Rightarrow> bool" where
  "test_garbage_collect_per_hash_cap ops clk =
    (let self_id = id_from_byte ops 0x00;
         store = with_limits ops self_id 1000 10000;
         info_hash = id_from_byte ops 0x05;
         peers = map (\<lambda>i. \<lparr>sp_addr = addr_v4 (5000 + of_nat i), sp_time = clk i - seconds (int i)\<rparr>) [0..<150];
         store = (insert_peers info_hash peers store)\<lparr>peers_len := 150\<rparr>
     in case garbage_collect_peers (clk 150) store of
          Inl e \<Rightarrow> False
        | Inr store' \<Rightarrow> map_option length (map_of (ps_peers store') info_hash) = Some MAX_PEERS_PER_INFO_HASH
            \<and> peers_len store' = of_nat MAX_PEERS_PER_INFO_HASH)"

definition test_garbage_collect_global_cap :: "('id::linorder) id20_ops \<Rightarrow> (nat \<Rightarrow> datetime) \<Rightarrow> bool" where
  "test_garbage_collect_global_cap ops clk =
    (let self_id = id_from_byte ops 0x00;
         store = with_limits ops self_id 1000 5;
         store = fold (\<lambda>i. insert_peers (id_from_byte ops (of_nat i))
           [\<lparr>sp_addr = addr_v4 (5000 + of_nat i), sp_time = clk i - seconds (int i)\<rparr>]) [0..<10] store
     in case garbage_collect_peers (clk 10) (store\<lparr>peers_len := 10\<rparr>) of
          Inl e \<Rightarrow> False
        | Inr store' \<Rightarrow> peers_len store' \<le> 5)"

definition test_garbage_collect_empty_hashes_removed :: "('id::linorder) id20_ops \<Rightarrow> (nat \<Rightarrow> datetime) \<Rightarrow> bool" where
  "test_garbage_collect_empty_hashes_removed ops clk =
    (let self_id = id_from_byte ops 0x00;
         store = with_limits ops self_id 100 100;
         info_hash = id_from_byte ops 0x05;
         store = (insert_peers info_hash [\<lparr>sp_addr = addr_v4 5000, sp_time = clk 0 - minutes 20\<rparr>] store)\<lparr>peers_len := 1\<rparr>
     in map_of (ps_peers store) info_hash \<noteq> None
       \<and> (case garbage_collect_peers (clk 1) store of
            Inl e \<Rightarrow> False
          | Inr store' \<Rightarrow> map_of (ps_peers store') info_hash = None))"

section \<open>The tests pass\<close>

text \<open>The readings of the wall clock during a test lie within five minutes.\<close>

definition readings_close :: "(nat \<Rightarrow> datetime) \<Rightarrow> bool" where
  "readings_close clk \<longleftrightarrow> (\<forall>i \<le> 150. \<forall>j \<le> 150. clk i - clk j < minutes 5)"

lemma readings_closeD: "readings_close clk \<Longrightarrow> i \<le> 150 \<Longrightarrow> j \<le> 150 \<Longrightarrow> clk i - clk j < 300000000000"
  by (simp add: readings_close_def minutes_def seconds_def)

context id20_api
begin

lemma id_from_byte_inject [simp]: "id_from_byte ops a = id_from_byte ops b \<longleftrightarrow> a = b"
proof
  assume "id_from_byte ops a = id_from_byte ops b"
  then have "id_bytes ops (id_from_byte ops a) = id_bytes ops (id_from_byte ops b)" by simp
  then show "a = b" by (simp add: id_from_byte_def bytes_new)
qed simp

lemma within_limits [simp]: "\<not> id_new ops (replicate 20 0xff) < x"
  using block_member [OF root_block, of x] by (simp add: same_prefix_def not_less)

lemma far_hash:
  "id_new ops ([0, 0, 0x0f] @ replicate 17 0xff) < id_distance ops (id_from_byte ops 0xff) (id_from_byte ops 0)"
proof -
  have ff: "(0xff :: u8) = - 1" by simp
  have "id_get_bit ops (id_distance ops (id_from_byte ops 0xff) (id_from_byte ops 0)) 0"
    unfolding ff by (simp add: get_distance) (simp add: get_bit_bytes id_from_byte_def bytes_new)
  moreover have "\<not> id_get_bit ops (id_new ops ([0, 0, 0x0f] @ replicate 17 0xff)) 0"
    by (simp add: get_bit_bytes bytes_new)
  ultimately show ?thesis unfolding less_bits by (intro exI [of _ 0]) (simp add: same_prefix_def)
qed

lemmas announce_defs = Let_def with_limits_def gen_token_for_def store_peer_def token_known_def make_announce_def
  get_for_info_hash_def addr_v4_def addr_v6_def word_le_nat_alt [where 'a = 32]

lemma test_new_peer_store_passes: "test_new_peer_store ops"
  by (simp add: test_new_peer_store_def peer_store_new_def Let_def)

lemma test_store_peer_rejects_invalid_token_passes:
  "rnd 0 \<noteq> [0xDE, 0xAD, 0xBE, 0xEF] \<Longrightarrow> test_store_peer_rejects_invalid_token ops rnd clk"
  by (auto simp: test_store_peer_rejects_invalid_token_def announce_defs)

lemma test_store_peer_rejects_far_info_hash_passes: "test_store_peer_rejects_far_info_hash ops rnd clk"
  using far_hash by (simp add: test_store_peer_rejects_far_info_hash_def announce_defs peer_store_new_def)

lemma test_gen_token_and_store_peer_passes: "test_gen_token_and_store_peer ops rnd clk"
  by (simp add: test_gen_token_and_store_peer_def announce_defs)

lemma test_store_peer_updates_existing_passes: "test_store_peer_updates_existing ops rnd clk"
  by (simp add: test_store_peer_updates_existing_def announce_defs)

lemma test_get_for_info_hash_passes: "test_get_for_info_hash ops rnd clk"
  by (simp add: test_get_for_info_hash_def announce_defs)

lemma test_get_for_info_hash_want_filter_passes: "test_get_for_info_hash_want_filter ops rnd clk"
  by (simp add: test_get_for_info_hash_want_filter_def announce_defs)

lemma test_implied_port_uses_sender_addr_port_passes: "test_implied_port_uses_sender_addr_port ops rnd clk"
  by (simp add: test_implied_port_uses_sender_addr_port_def announce_defs)

lemma test_token_requires_matching_addr_passes: "test_token_requires_matching_addr ops rnd clk"
  by (simp add: test_token_requires_matching_addr_def announce_defs)

lemma test_token_requires_matching_node_id_passes: "test_token_requires_matching_node_id ops rnd clk"
  by (simp add: test_token_requires_matching_node_id_def announce_defs)

lemma test_store_peer_capacity_limit_passes: "test_store_peer_capacity_limit ops rnd clk"
  by (simp add: test_store_peer_capacity_limit_def announce_defs upt_rec)

lemma test_garbage_collect_removes_stale_peers_passes:
  "readings_close clk \<Longrightarrow> test_garbage_collect_removes_stale_peers ops clk"
  using readings_closeD [of clk 0 1]
  by (simp add: test_garbage_collect_removes_stale_peers_def insert_peers_def announce_defs garbage_collect_peers_def
      gc_peers_def minutes_def seconds_def PEER_TTL_def MAX_PEERS_PER_INFO_HASH_def checked_add_def peer_counts_def)

lemma test_garbage_collect_removes_stale_tokens_passes:
  "readings_close clk \<Longrightarrow> test_garbage_collect_removes_stale_tokens ops rnd clk"
  using readings_closeD [of clk 0 2] readings_closeD [of clk 2 1]
  by (simp add: test_garbage_collect_removes_stale_tokens_def announce_defs garbage_collect_peers_def
      minutes_def seconds_def TOKEN_TTL_def peer_counts_def)

lemma test_garbage_collect_empty_hashes_removed_passes:
  "readings_close clk \<Longrightarrow> test_garbage_collect_empty_hashes_removed ops clk"
  using readings_closeD [of clk 0 1]
  by (simp add: test_garbage_collect_empty_hashes_removed_def insert_peers_def announce_defs garbage_collect_peers_def
      gc_peers_def minutes_def seconds_def PEER_TTL_def MAX_PEERS_PER_INFO_HASH_def checked_add_def peer_counts_def)

lemma test_garbage_collect_global_cap_passes: "test_garbage_collect_global_cap ops clk"
proof -
  define store where "store = (fold (\<lambda>i. insert_peers (id_from_byte ops (of_nat i))
    [\<lparr>sp_addr = addr_v4 (5000 + of_nat i), sp_time = clk i - seconds (int i)\<rparr>]) [0..<10]
    (with_limits ops (id_from_byte ops 0) 1000 5))\<lparr>peers_len := 10\<rparr>"
  have peers: "map fst (ps_peers store) = map (\<lambda>i. id_from_byte ops (of_nat i)) [0..<10]"
    "total_peers (ps_peers store) = 10" "max_remembered_peers store = 5"
    by (simp_all add: store_def insert_peers_def with_limits_def upt_rec)
  then have "distinct (map fst (ps_peers store))" by (simp add: upt_rec)
  from gc_ok [OF this, of "clk 10"] peers(2,3) obtain store' where "garbage_collect_peers (clk 10) store = Inr store'"
    "unat (peers_len store') \<le> 5" by (auto split: if_splits)
  then show ?thesis
    unfolding test_garbage_collect_global_cap_def Let_def store_def [symmetric]
    by (simp add: word_le_nat_alt)
qed

lemma test_garbage_collect_per_hash_cap_passes:
  assumes "readings_close clk"
  shows "test_garbage_collect_per_hash_cap ops clk"
proof -
  define peers where "peers = map (\<lambda>i. \<lparr>sp_addr = addr_v4 (5000 + of_nat i), sp_time = clk i - seconds (int i)\<rparr>) [0..<150]"
  have "fresh_peers (clk 150 - PEER_TTL) peers = peers"
    unfolding fresh_peers_def
  proof (rule filter_True, intro ballI)
    fix p assume "p \<in> set peers"
    then obtain i where i: "i < 150" "p = \<lparr>sp_addr = addr_v4 (5000 + of_nat i), sp_time = clk i - seconds (int i)\<rparr>"
      by (auto simp: peers_def)
    from readings_closeD [OF assms, of 150 i] i show "clk 150 - PEER_TTL < sp_time p"
      by (simp add: seconds_def PEER_TTL_def)
  qed
  then have "length (gc_peers (clk 150 - PEER_TTL) peers) = 100" "length peers = 150"
    by (simp_all add: gc_peers_length MAX_PEERS_PER_INFO_HASH_def peers_def)
  then show ?thesis
    unfolding test_garbage_collect_per_hash_cap_def Let_def peers_def [symmetric]
    by (auto simp add: insert_peers_def with_limits_def garbage_collect_peers_def checked_add_def peer_counts_def Let_def
      word_less_nat_alt MAX_PEERS_PER_INFO_HASH_def)
qed

lemmas store_tests_pass = test_new_peer_store_passes test_gen_token_and_store_peer_passes
  test_store_peer_rejects_invalid_token_passes test_store_peer_rejects_far_info_hash_passes
  test_store_peer_updates_existing_passes test_store_peer_capacity_limit_passes test_get_for_info_hash_passes
  test_get_for_info_hash_want_filter_passes test_implied_port_uses_sender_addr_port_passes
  test_token_requires_matching_addr_passes test_token_requires_matching_node_id_passes
  test_garbage_collect_removes_stale_peers_passes test_garbage_collect_removes_stale_tokens_passes
  test_garbage_collect_per_hash_cap_passes test_garbage_collect_global_cap_passes
  test_garbage_collect_empty_hashes_removed_passes

end

text \<open>
  The peer store passes the tests of the repository, whatever the random tokens and the clock
  are, as long as the token is not the one that the second test takes for a wrong one and the readings
  of the clock in a test lie within five minutes.
\<close>

theorem peer_store_tests_pass:
  assumes "id20_api ops" and "readings_close clk" and "rnd 0 \<noteq> [0xDE, 0xAD, 0xBE, 0xEF]"
  shows "test_new_peer_store ops \<and> test_gen_token_and_store_peer ops rnd clk
    \<and> test_store_peer_rejects_invalid_token ops rnd clk \<and> test_store_peer_rejects_far_info_hash ops rnd clk
    \<and> test_store_peer_updates_existing ops rnd clk \<and> test_store_peer_capacity_limit ops rnd clk
    \<and> test_get_for_info_hash ops rnd clk \<and> test_get_for_info_hash_want_filter ops rnd clk
    \<and> test_implied_port_uses_sender_addr_port ops rnd clk \<and> test_token_requires_matching_addr ops rnd clk
    \<and> test_token_requires_matching_node_id ops rnd clk \<and> test_garbage_collect_removes_stale_peers ops clk
    \<and> test_garbage_collect_removes_stale_tokens ops rnd clk \<and> test_garbage_collect_per_hash_cap ops clk
    \<and> test_garbage_collect_global_cap ops clk \<and> test_garbage_collect_empty_hashes_removed ops clk"
  using assms(2,3) by (intro conjI) (simp_all add: id20_api.store_tests_pass [OF assms(1)])

theorem peer_store_tests_pass_witness:
  "test_garbage_collect_per_hash_cap id20_word (\<lambda>i. int i) \<and> test_store_peer_rejects_invalid_token id20_word (\<lambda>i. [1, 2, 3, 4]) (\<lambda>i. int i)"
proof -
  have "readings_close (\<lambda>i. int i)" by (auto simp: readings_close_def minutes_def seconds_def)
  then show ?thesis using peer_store_tests_pass [OF id20_word_api, of "\<lambda>i. int i" "\<lambda>i. [1, 2, 3, 4]"] by simp
qed

end
