(* ===== verification/Item_Tests.thy ===== *)
theory Item_Tests
  imports Item_Store Bep44
begin

text \<open>
  The tests of \<^verbatim>\<open>src/mutable_item_store.rs\<close> and \<^verbatim>\<open>src/bep44_crypto.rs\<close>,
  and those of \<^verbatim>\<open>tests/routing.rs\<close>, as functions of the clock readings of their
  calls and of the libraries of hashes and signatures. A test is true when none of its assertions
  fails.
\<close>

section \<open>The store of items\<close>

definition make_item_with_time :: "i64 \<Rightarrow> instant \<Rightarrow> stored_mutable_item" where
  "make_item_with_time seq time = \<lparr>mi_k = replicate 32 0xAA, mi_sig = replicate 64 0xBB, mi_seq = seq,
     mi_v = ascii ''5:hello'', mi_salt = None, last_updated = time\<rparr>"

definition make_item :: "instant \<Rightarrow> i64 \<Rightarrow> stored_mutable_item" where
  "make_item now seq = make_item_with_time seq now"

definition test_store_and_get :: "'id id20_ops \<Rightarrow> (nat \<Rightarrow> instant) \<Rightarrow> bool" where
  "test_store_and_get ops clk =
    (let store = item_store_new 100;
         target = id_new ops (replicate 20 0x11);
         (store, stored) = item_store store target (make_item (clk 0) 1)
     in stored \<and> (case item_get store target of
          None \<Rightarrow> False
        | Some item \<Rightarrow> mi_seq item = 1 \<and> mi_v item = ascii ''5:hello''))"

definition test_get_nonexistent :: "'id id20_ops \<Rightarrow> bool" where
  "test_get_nonexistent ops =
    (let store = item_store_new 100;
         target = id_new ops (replicate 20 0x11)
     in item_get store target = None)"

definition test_store_higher_seq_overwrites :: "'id id20_ops \<Rightarrow> (nat \<Rightarrow> instant) \<Rightarrow> bool" where
  "test_store_higher_seq_overwrites ops clk =
    (let store = item_store_new 100;
         target = id_new ops (replicate 20 0x11);
         (store, stored1) = item_store store target (make_item (clk 0) 1);
         (store, stored2) = item_store store target (make_item (clk 1) 5)
     in stored1 \<and> stored2 \<and> map_option mi_seq (item_get store target) = Some 5)"

definition test_store_lower_seq_rejected :: "'id id20_ops \<Rightarrow> (nat \<Rightarrow> instant) \<Rightarrow> bool" where
  "test_store_lower_seq_rejected ops clk =
    (let store = item_store_new 100;
         target = id_new ops (replicate 20 0x11);
         (store, stored1) = item_store store target (make_item (clk 0) 5);
         (store, stored2) = item_store store target (make_item (clk 1) 3)
     in stored1 \<and> \<not> stored2 \<and> map_option mi_seq (item_get store target) = Some 5)"

definition test_store_equal_seq_rejected :: "'id id20_ops \<Rightarrow> (nat \<Rightarrow> instant) \<Rightarrow> bool" where
  "test_store_equal_seq_rejected ops clk =
    (let store = item_store_new 100;
         target = id_new ops (replicate 20 0x11);
         (store, stored1) = item_store store target (make_item (clk 0) 5);
         (store, stored2) = item_store store target (make_item (clk 1) 5)
     in stored1 \<and> \<not> stored2 \<and> item_len store = 1)"

definition test_max_capacity_eviction :: "'id id20_ops \<Rightarrow> (nat \<Rightarrow> instant) \<Rightarrow> bool" where
  "test_max_capacity_eviction ops clk =
    (let store = item_store_new 2;
         now = clk 0;
         t1 = id_new ops (replicate 20 0x01);
         t2 = id_new ops (replicate 20 0x02);
         t3 = id_new ops (replicate 20 0x03);
         (store1, stored1) = item_store store t1 (make_item_with_time 1 now);
         (store2, stored2) = item_store store1 t2 (make_item_with_time 1 (now + from_secs 1));
         (store3, stored3) = item_store store2 t3 (make_item_with_time 1 (now + from_secs 2))
     in stored1 \<and> stored2 \<and> item_len store2 = 2 \<and> stored3 \<and> item_len store3 = 2
       \<and> item_get store3 t1 = None \<and> item_get store3 t2 \<noteq> None \<and> item_get store3 t3 \<noteq> None)"

definition test_update_existing_does_not_evict :: "'id id20_ops \<Rightarrow> (nat \<Rightarrow> instant) \<Rightarrow> bool" where
  "test_update_existing_does_not_evict ops clk =
    (let store = item_store_new 2;
         t1 = id_new ops (replicate 20 0x01);
         t2 = id_new ops (replicate 20 0x02);
         (store1, stored1) = item_store store t1 (make_item (clk 0) 1);
         (store2, stored2) = item_store store1 t2 (make_item (clk 1) 1);
         (store3, stored3) = item_store store2 t1 (make_item (clk 2) 2)
     in stored1 \<and> stored2 \<and> item_len store2 = 2 \<and> stored3 \<and> item_len store3 = 2
       \<and> map_option mi_seq (item_get store3 t1) = Some 2 \<and> item_get store3 t2 \<noteq> None)"

definition test_garbage_collect :: "'id id20_ops \<Rightarrow> (nat \<Rightarrow> instant) \<Rightarrow> bool" where
  "test_garbage_collect ops clk =
    (let store = item_store_new 3;
         now = clk 0;
         target = \<lambda>i. id_new ops (replicate 20 (of_nat i));
         store = fold (\<lambda>i s. s\<lparr>mis_items := AList.update (target i)
           (make_item_with_time (int i) (now + from_secs i)) (mis_items s)\<rparr>) [0..<5] store;
         store' = item_garbage_collect store
     in item_len store = 5 \<and> item_len store' = 3
       \<and> item_get store' (target 0) = None \<and> item_get store' (target 1) = None
       \<and> item_get store' (target 2) \<noteq> None \<and> item_get store' (target 3) \<noteq> None
       \<and> item_get store' (target 4) \<noteq> None)"

definition test_len_and_is_empty :: "'id id20_ops \<Rightarrow> (nat \<Rightarrow> instant) \<Rightarrow> bool" where
  "test_len_and_is_empty ops clk =
    (let store = item_store_new 10;
         target = id_new ops (replicate 20 0x11);
         (store', stored) = item_store store target (make_item (clk 0) 1)
     in item_is_empty store \<and> item_len store = 0 \<and> \<not> item_is_empty store' \<and> item_len store' = 1)"

definition test_store_with_salt :: "'id id20_ops \<Rightarrow> (nat \<Rightarrow> instant) \<Rightarrow> bool" where
  "test_store_with_salt ops clk =
    (let store = item_store_new 100;
         target = id_new ops (replicate 20 0x11);
         item = (make_item (clk 0) 1)\<lparr>mi_salt := Some (ascii ''my-salt'')\<rparr>;
         (store, stored) = item_store store target item
     in stored \<and> (case item_get store target of
          None \<Rightarrow> False
        | Some item \<Rightarrow> mi_salt item = Some (ascii ''my-salt'')))"

text \<open>The two tests of \<^verbatim>\<open>tests/routing.rs\<close> of the store.\<close>

definition test_mutable_item_store_put_get :: "'id id20_ops \<Rightarrow> (nat \<Rightarrow> instant) \<Rightarrow> bool" where
  "test_mutable_item_store_put_get ops clk =
    (let store = item_store_new 100;
         target = id_new ops (replicate 20 0xBB);
         item = \<lparr>mi_k = replicate 32 0x11, mi_sig = replicate 64 0x22, mi_seq = 1,
           mi_v = ascii ''stored value'', mi_salt = None, last_updated = clk 0\<rparr>;
         (store, stored) = item_store store target item
     in stored \<and> map_option mi_v (item_get store target) = Some (ascii ''stored value''))"

definition test_mutable_item_store_overwrites_higher_seq :: "'id id20_ops \<Rightarrow> (nat \<Rightarrow> instant) \<Rightarrow> bool" where
  "test_mutable_item_store_overwrites_higher_seq ops clk =
    (let store = item_store_new 100;
         target = id_new ops (replicate 20 0xCC);
         item1 = \<lparr>mi_k = replicate 32 0x11, mi_sig = replicate 64 0x22, mi_seq = 1,
           mi_v = ascii ''v1'', mi_salt = None, last_updated = clk 0\<rparr>;
         (store, _) = item_store store target item1;
         item2 = \<lparr>mi_k = replicate 32 0x11, mi_sig = replicate 64 0x22, mi_seq = 5,
           mi_v = ascii ''v5'', mi_salt = None, last_updated = clk 1\<rparr>;
         (store, _) = item_store store target item2
     in case item_get store target of
          None \<Rightarrow> False
        | Some item \<Rightarrow> mi_seq item = 5 \<and> mi_v item = ascii ''v5'')"

section \<open>Signed data\<close>

definition test_signable_data_no_salt :: bool where
  "test_signable_data_no_salt =
    (let v = ascii ''12:Hello World!''; data = signable_data None 1 v
     in data = ascii ''3:seqi1e1:v12:Hello World!'')"

definition test_signable_data_with_salt :: bool where
  "test_signable_data_with_salt =
    (let v = ascii ''12:Hello World!''; salt = ascii ''foobar''; data = signable_data (Some salt) 4 v
     in data = ascii ''4:salt6:foobar3:seqi4e1:v12:Hello World!'')"

definition test_signable_data_negative_seq :: bool where
  "test_signable_data_negative_seq =
    (let v = ascii ''i42e''; data = signable_data None (- 1) v in data = ascii ''3:seqi-1e1:vi42e'')"

definition test_signable_data_zero_seq :: bool where
  "test_signable_data_zero_seq =
    (let v = ascii ''i0e''; data = signable_data None 0 v in data = ascii ''3:seqi0e1:vi0e'')"

definition test_signable_data_empty_salt :: bool where
  "test_signable_data_empty_salt =
    (let v = ascii ''i1e''; data = signable_data (Some (ascii '''')) 1 v in data = ascii ''4:salt0:3:seqi1e1:vi1e'')"

section \<open>Signatures and targets\<close>

definition test_sign_and_verify_roundtrip :: "ed25519 \<Rightarrow> bool" where
  "test_sign_and_verify_roundtrip ed =
    (let seed = map of_nat [1..<33];
         public_key = public_key_from_seed ed seed;
         v = ascii ''12:Hello World!'';
         seq = 1;
         sig = sign_mutable_item ed seed None seq v
     in verify_mutable_item ed public_key sig None seq v)"

definition test_sign_and_verify_with_salt :: "ed25519 \<Rightarrow> bool" where
  "test_sign_and_verify_with_salt ed =
    (let seed = replicate 32 0xAA;
         public_key = public_key_from_seed ed seed;
         salt = ascii ''test-salt'';
         v = ascii ''5:hello'';
         seq = 42;
         sig = sign_mutable_item ed seed (Some salt) seq v
     in verify_mutable_item ed public_key sig (Some salt) seq v)"

definition test_verify_rejects_wrong_key :: "ed25519 \<Rightarrow> bool" where
  "test_verify_rejects_wrong_key ed =
    (let seed = replicate 32 0x01;
         wrong_key = replicate 32 0x02;
         v = ascii ''i42e'';
         seq = 1;
         sig = sign_mutable_item ed seed None seq v
     in \<not> verify_mutable_item ed wrong_key sig None seq v)"

definition test_verify_rejects_wrong_seq :: "ed25519 \<Rightarrow> bool" where
  "test_verify_rejects_wrong_seq ed =
    (let seed = replicate 32 0x01;
         public_key = public_key_from_seed ed seed;
         v = ascii ''i42e'';
         sig = sign_mutable_item ed seed None 1 v
     in \<not> verify_mutable_item ed public_key sig None 2 v)"

definition test_verify_rejects_wrong_value :: "ed25519 \<Rightarrow> bool" where
  "test_verify_rejects_wrong_value ed =
    (let seed = replicate 32 0x01;
         public_key = public_key_from_seed ed seed;
         sig = sign_mutable_item ed seed None 1 (ascii ''i42e'')
     in \<not> verify_mutable_item ed public_key sig None 1 (ascii ''i99e''))"

definition test_verify_rejects_wrong_salt :: "ed25519 \<Rightarrow> bool" where
  "test_verify_rejects_wrong_salt ed =
    (let seed = replicate 32 0x01;
         public_key = public_key_from_seed ed seed;
         v = ascii ''i42e'';
         sig = sign_mutable_item ed seed (Some (ascii ''salt1'')) 1 v
     in \<not> verify_mutable_item ed public_key sig (Some (ascii ''salt2'')) 1 v)"

text \<open>The hasher that the tests compare with hashes the concatenation of its updates.\<close>

definition test_mutable_item_target_no_salt :: "'id id20_ops \<Rightarrow> (bytes \<Rightarrow> bytes) \<Rightarrow> bool" where
  "test_mutable_item_target_no_salt ops sha1 =
    (let public_key = replicate 32 0xAA;
         target = mutable_item_target ops sha1 public_key None;
         expected = id_new ops (sha1 (concat [public_key]))
     in target = expected)"

definition test_mutable_item_target_with_salt :: "'id id20_ops \<Rightarrow> (bytes \<Rightarrow> bytes) \<Rightarrow> bool" where
  "test_mutable_item_target_with_salt ops sha1 =
    (let public_key = replicate 32 0xBB;
         salt = ascii ''my-salt'';
         target = mutable_item_target ops sha1 public_key (Some salt);
         expected = id_new ops (sha1 (concat [public_key, salt]))
     in target = expected)"

text \<open>The tests of \<^verbatim>\<open>tests/routing.rs\<close> of signatures.\<close>

definition test_sign_and_verify_mutable_item :: "ed25519 \<Rightarrow> bool" where
  "test_sign_and_verify_mutable_item ed =
    (let seed = replicate 32 0x42;
         public_key = public_key_from_seed ed seed;
         value = ascii ''Hello, DHT!'';
         sig = sign_mutable_item ed seed None 1 value
     in verify_mutable_item ed public_key sig None 1 value)"

definition test_verify_rejects_other_key :: "ed25519 \<Rightarrow> bool" where
  "test_verify_rejects_other_key ed =
    (let seed = replicate 32 0x42;
         wrong_key = replicate 32 0xFF;
         value = ascii ''test data'';
         sig = sign_mutable_item ed seed None 1 value
     in \<not> verify_mutable_item ed wrong_key sig None 1 value)"

definition test_verify_rejects_tampered_data :: "ed25519 \<Rightarrow> bool" where
  "test_verify_rejects_tampered_data ed =
    (let seed = replicate 32 0x42;
         public_key = public_key_from_seed ed seed;
         value = ascii ''original data'';
         sig = sign_mutable_item ed seed None 1 value
     in \<not> verify_mutable_item ed public_key sig None 1 (ascii ''tampered data''))"

definition test_sign_with_salt :: "ed25519 \<Rightarrow> bool" where
  "test_sign_with_salt ed =
    (let seed = replicate 32 0x01;
         public_key = public_key_from_seed ed seed;
         value = ascii ''salted value'';
         salt = ascii ''mysalt'';
         sig = sign_mutable_item ed seed (Some salt) 5 value
     in verify_mutable_item ed public_key sig (Some salt) 5 value
       \<and> \<not> verify_mutable_item ed public_key sig (Some (ascii ''wrong'')) 5 value)"

section \<open>The tests pass\<close>

text \<open>
  What the tests expect of Ed25519: a signature is accepted for the key and the data it was made
  for, and, as the scheme promises up to a negligible probability, for no others.
\<close>

definition ideal_signatures :: "ed25519 \<Rightarrow> bool" where
  "ideal_signatures ed \<longleftrightarrow> (\<forall>seed. length seed = 32 \<longrightarrow> length (ed_public ed seed) = 32
     \<and> (\<forall>pk msg msg'. length pk = 32 \<longrightarrow>
          (ed_verify ed pk msg' (ed_sign ed seed msg) \<longleftrightarrow> pk = ed_public ed seed \<and> msg' = msg)))"

lemma length_public:
  "ideal_signatures ed \<Longrightarrow> length seed = 32 \<Longrightarrow> length (public_key_from_seed ed seed) = 32"
  by (simp add: ideal_signatures_def public_key_from_seed_def)

lemma verify_signed:
  assumes "ideal_signatures ed" and "length seed = 32" and "length pk = 32"
  shows "verify_mutable_item ed pk (sign_mutable_item ed seed salt seq v) salt' seq' v'
    \<longleftrightarrow> pk = public_key_from_seed ed seed \<and> salt' = salt \<and> seq' = seq \<and> v' = v"
  using assms by (simp add: ideal_signatures_def verify_mutable_item_def sign_mutable_item_def public_key_from_seed_def
      signable_data_inject)

lemmas signable_tests = test_signable_data_no_salt_def test_signable_data_with_salt_def
  test_signable_data_negative_seq_def test_signable_data_zero_seq_def test_signable_data_empty_salt_def

lemmas accepting_tests = test_sign_and_verify_roundtrip_def test_sign_and_verify_with_salt_def
  test_sign_and_verify_mutable_item_def

lemmas rejecting_tests = test_verify_rejects_wrong_key_def test_verify_rejects_wrong_seq_def
  test_verify_rejects_wrong_value_def test_verify_rejects_wrong_salt_def test_verify_rejects_other_key_def
  test_verify_rejects_tampered_data_def test_sign_with_salt_def

lemma signable_data_tests:
  "test_signable_data_no_salt \<and> test_signable_data_with_salt \<and> test_signable_data_negative_seq
    \<and> test_signable_data_zero_seq \<and> test_signable_data_empty_salt"
  by (simp add: signable_tests signable_data_def ascii_def show_int_def show_nat.simps)

lemma signature_tests:
  assumes "ideal_signatures ed"
  shows "test_sign_and_verify_roundtrip ed \<and> test_sign_and_verify_with_salt ed
    \<and> test_sign_and_verify_mutable_item ed \<and> test_verify_rejects_wrong_seq ed
    \<and> test_verify_rejects_wrong_value ed \<and> test_verify_rejects_wrong_salt ed
    \<and> test_verify_rejects_tampered_data ed \<and> test_sign_with_salt ed"
  by (simp add: accepting_tests rejecting_tests Let_def verify_signed [OF assms] length_public [OF assms])

lemma target_tests: "test_mutable_item_target_no_salt ops sha1 \<and> test_mutable_item_target_with_salt ops sha1"
  by (simp add: test_mutable_item_target_no_salt_def test_mutable_item_target_with_salt_def mutable_item_target_def Let_def)

lemma collect_more:
  "m < length xs \<Longrightarrow> item_garbage_collect \<lparr>mis_items = xs, max_items = m\<rparr>
    = item_garbage_collect (evict_oldest \<lparr>mis_items = xs, max_items = m\<rparr>)"
  by (subst item_garbage_collect.simps) simp

lemma collect_enough:
  "length xs \<le> m \<Longrightarrow> item_garbage_collect \<lparr>mis_items = xs, max_items = m\<rparr> = \<lparr>mis_items = xs, max_items = m\<rparr>"
  by (subst item_garbage_collect.simps) simp

context id20_api
begin

lemma id_of_byte_inject [simp]:
  "id_new ops (replicate 20 a) = id_new ops (replicate 20 b) \<longleftrightarrow> a = b"
proof
  assume "id_new ops (replicate 20 a) = id_new ops (replicate 20 b)"
  then have "id_bytes ops (id_new ops (replicate 20 a)) = id_bytes ops (id_new ops (replicate 20 b))" by simp
  then have "replicate 20 a = replicate 20 b" by (simp only: bytes_new length_replicate)
  then show "a = b" by simp
qed simp

lemmas item_defs = Let_def item_store_new_def item_store_def item_get_def item_len_def item_is_empty_def make_item_def
  make_item_with_time_def

lemma item_store_tests:
  "test_store_and_get ops clk \<and> test_get_nonexistent ops \<and> test_store_higher_seq_overwrites ops clk
    \<and> test_store_lower_seq_rejected ops clk \<and> test_store_equal_seq_rejected ops clk
    \<and> test_len_and_is_empty ops clk \<and> test_store_with_salt ops clk
    \<and> test_mutable_item_store_put_get ops clk \<and> test_mutable_item_store_overwrites_higher_seq ops clk"
  by (simp add: test_store_and_get_def test_get_nonexistent_def test_store_higher_seq_overwrites_def
      test_store_lower_seq_rejected_def test_store_equal_seq_rejected_def test_len_and_is_empty_def
      test_store_with_salt_def test_mutable_item_store_put_get_def
      test_mutable_item_store_overwrites_higher_seq_def item_defs)

lemma eviction_tests:
  "test_max_capacity_eviction ops clk \<and> test_update_existing_does_not_evict ops clk"
  by (simp add: test_max_capacity_eviction_def test_update_existing_does_not_evict_def item_defs evict_oldest_def
      from_secs_def)

lemma collection_test: "test_garbage_collect ops clk"
  by (simp add: test_garbage_collect_def item_defs upt_rec collect_more collect_enough evict_oldest_def from_secs_def)

end

text \<open>
  The item store and the signatures pass the tests of the repository, for every clock and every
  hash function, when signatures are accepted for what they were made for only and the two wrong keys of the tests are not the
  right ones. (That signing and hashing are deterministic is part of the model.)
\<close>

theorem item_tests_pass:
  assumes "id20_api ops" and "ideal_signatures ed"
    and "ed_public ed (replicate 32 0x01) \<noteq> replicate 32 0x02" and "ed_public ed (replicate 32 0x42) \<noteq> replicate 32 0xFF"
  shows "(test_store_and_get ops clk \<and> test_get_nonexistent ops \<and> test_store_higher_seq_overwrites ops clk
      \<and> test_store_lower_seq_rejected ops clk \<and> test_store_equal_seq_rejected ops clk
      \<and> test_len_and_is_empty ops clk \<and> test_store_with_salt ops clk
      \<and> test_mutable_item_store_put_get ops clk \<and> test_mutable_item_store_overwrites_higher_seq ops clk)
    \<and> (test_max_capacity_eviction ops clk \<and> test_update_existing_does_not_evict ops clk) \<and> test_garbage_collect ops clk
    \<and> (test_signable_data_no_salt \<and> test_signable_data_with_salt \<and> test_signable_data_negative_seq
      \<and> test_signable_data_zero_seq \<and> test_signable_data_empty_salt)
    \<and> (test_sign_and_verify_roundtrip ed \<and> test_sign_and_verify_with_salt ed
      \<and> test_sign_and_verify_mutable_item ed \<and> test_verify_rejects_wrong_seq ed
      \<and> test_verify_rejects_wrong_value ed \<and> test_verify_rejects_wrong_salt ed
      \<and> test_verify_rejects_tampered_data ed \<and> test_sign_with_salt ed)
    \<and> test_verify_rejects_wrong_key ed \<and> test_verify_rejects_other_key ed
    \<and> (test_mutable_item_target_no_salt ops sha1 \<and> test_mutable_item_target_with_salt ops sha1)"
proof -
  have "test_verify_rejects_wrong_key ed" "test_verify_rejects_other_key ed"
    using assms(3,4) by (simp_all add: rejecting_tests verify_signed [OF assms(2)] public_key_from_seed_def eq_commute)
  then show ?thesis using signature_tests [OF assms(2)] signable_data_tests target_tests [of ops sha1] id20_api.item_store_tests [OF assms(1), of clk]
      id20_api.eviction_tests [OF assms(1), of clk] id20_api.collection_test [OF assms(1), of clk]
    by simp
qed

theorem item_tests_pass_witness:
  "test_garbage_collect id20_word (\<lambda>k. k) \<and> test_verify_rejects_wrong_key toy_ed25519"
proof -
  have "ideal_signatures toy_ed25519" by (auto simp: ideal_signatures_def toy_ed25519_def)
  then show ?thesis
    using item_tests_pass [OF id20_word_api, of toy_ed25519 "\<lambda>k. k" "\<lambda>x. x"] by (simp add: toy_ed25519_def)
qed

end
