(* ===== verification/Routing_Tests.thy ===== *)
theory Routing_Tests
  imports Routing_Props Persistence_Props
begin

text \<open>
  The tests of \<^verbatim>\<open>src/routing_table.rs\<close>, as functions of what they read from outside:
  random bytes and readings of the monotonic clock. A test is true when none of its assertions fails and
  nothing panics. The tests over random tables are shown for all random bytes and all clocks.
\<close>

section \<open>Splits and random identifiers\<close>

definition test_split_root :: "('id::linorder) id20_ops \<Rightarrow> bool" where
  "test_split_root ops =
    (let s = id_new ops (replicate 20 0);
         e = id_new ops (replicate 20 0xff)
     in compute_split_start_end ops s e 160 = Inr
       ((s, id_new ops (0x7f # replicate 19 0xff)), (id_new ops (0x80 # replicate 19 0), e)))"

definition test_second_split :: "('id::linorder) id20_ops \<Rightarrow> bool" where
  "test_second_split ops =
    (let s = id_new ops (0x80 # replicate 19 0);
         e = id_new ops (replicate 20 0xff)
     in compute_split_start_end ops s e 159 = Inr
       ((s, id_new ops (0xbf # replicate 19 0xff)), (id_new ops (0xc0 # replicate 19 0), e)))"

text \<open>\<^verbatim>\<open>compute_split_start_end_3\<close>, whose body is that of the test before it.\<close>

definition test_split_3 :: "('id::linorder) id20_ops \<Rightarrow> bool" where
  "test_split_3 ops =
    (let s = id_new ops (0x80 # replicate 19 0);
         e = id_new ops (replicate 20 0xff)
     in compute_split_start_end ops s e 159 = Inr
       ((s, id_new ops (0xbf # replicate 19 0xff)), (id_new ops (0xc0 # replicate 19 0), e)))"

definition test_generate_random_id :: "('id::linorder) id20_ops \<Rightarrow> (nat \<Rightarrow> bytes) \<Rightarrow> bool" where
  "test_generate_random_id ops rnd =
    (let s = id_new ops (0x30 # replicate 19 0);
         e = id_new ops (0x3f # replicate 19 0xff)
     in \<forall>k<100. case generate_random_id ops (rnd k) s 156 of
          Inl err \<Rightarrow> False
        | Inr i \<Rightarrow> s \<le> i \<and> i \<le> e)"

section \<open>Random tables\<close>

text \<open>
  What a run of a test over a random table reads: the bytes of the identifiers and of the
  addresses, the clock when a table is made, when a node is added and when a bucket is made.
\<close>

record table_env =
  te_ids :: "nat \<Rightarrow> bytes"
  te_addrs :: "nat \<Rightarrow> bytes"
  te_new :: instant
  te_now :: "nat \<Rightarrow> instant"
  te_clk :: "nat \<Rightarrow> nat \<Rightarrow> instant"

definition random_id_20 :: "'id id20_ops \<Rightarrow> bytes \<Rightarrow> 'id" where
  "random_id_20 ops rnd = id_new ops rnd"

definition generate_socket_addr :: "bytes \<Rightarrow> socket_addr" where
  "generate_socket_addr rnd = V4 \<lparr>
     ip4 = push_bit 24 (ucast (rnd ! 0)) OR push_bit 16 (ucast (rnd ! 1)) OR push_bit 8 (ucast (rnd ! 2)) OR ucast (rnd ! 3),
     port4 = push_bit 8 (ucast (rnd ! 4)) + ucast (rnd ! 5)\<rparr>"

text \<open>A loop of \<^verbatim>\<open>add_node\<close> calls whose results are not looked at.\<close>

fun add_nodes ::
    "('id::linorder) id20_ops \<Rightarrow> (nat \<Rightarrow> nat \<Rightarrow> instant) \<Rightarrow> (nat \<Rightarrow> instant) \<Rightarrow> nat \<Rightarrow> ('id \<times> socket_addr) list
      \<Rightarrow> 'id routing_table \<Rightarrow> abort + 'id routing_table" where
  "add_nodes ops clk now k [] rt = Inr rt"
| "add_nodes ops clk now k ((i, addr) # nodes) rt =
     and_then (rt_add_node ops (clk k) (now k) rt i addr) (\<lambda>(rt', result).
       add_nodes ops clk now (Suc k) nodes rt')"

definition generate_table :: "('id::linorder) id20_ops \<Rightarrow> table_env \<Rightarrow> nat option \<Rightarrow> abort + 'id routing_table" where
  "generate_table ops te len =
    (let my_id = random_id_20 ops (te_ids te 0);
         rtable = routing_table_new ops my_id None (te_new te)
     in add_nodes ops (te_clk te) (te_now te) 0
          (map (\<lambda>k. (random_id_20 ops (te_ids te (Suc k)), generate_socket_addr (te_addrs te k)))
            [0..<case len of Some n \<Rightarrow> n | None \<Rightarrow> 16536]) rtable)"

definition test_iter_is_ordered :: "('id::linorder) id20_ops \<Rightarrow> table_env \<Rightarrow> bool" where
  "test_iter_is_ordered ops te = (case generate_table ops te None of
     Inl err \<Rightarrow> False
   | Inr table \<Rightarrow> (case bucket_iter (rt_buckets table) of
       Some (previous # rest) \<Rightarrow>
         (\<forall>k < length rest. node_id (rest ! k) > node_id ((previous # rest) ! k))
     | _ \<Rightarrow> False))"

definition test_sorted_by_distance_from :: "('id::linorder) id20_ops \<Rightarrow> bytes \<Rightarrow> instant \<Rightarrow> table_env \<Rightarrow> bool" where
  "test_sorted_by_distance_from ops rnd now te =
    (let i = random_id_20 ops rnd
     in case generate_table ops te None of
          Inl err \<Rightarrow> False
        | Inr rtable \<Rightarrow> map_option length (sorted_by_distance_from ops rtable i now) = Some (rt_size rtable))"

definition test_serialize_deserialize ::
    "('id::linorder) id20_ops \<Rightarrow> 'id serde \<Rightarrow> (nat \<Rightarrow> nat \<Rightarrow> nat \<Rightarrow> instant) \<Rightarrow> (nat \<Rightarrow> instant) \<Rightarrow> table_env \<Rightarrow> bool" where
  "test_serialize_deserialize ops se wclk rclk te = (case generate_table ops te (Some 1000) of
     Inl err \<Rightarrow> False
   | Inr table \<Rightarrow> (let v = se_write se (routing_table_json se wclk table)
       in case and_then (se_read se v) (routing_table_of_json se rclk) of
            Inl err \<Rightarrow> False
          | Inr (table' :: 'id routing_table) \<Rightarrow> True))"

definition test_serialization_roundtrip ::
    "('id::linorder) id20_ops \<Rightarrow> 'id serde \<Rightarrow> (nat \<Rightarrow> nat \<Rightarrow> nat \<Rightarrow> instant) \<Rightarrow> (nat \<Rightarrow> instant) \<Rightarrow> table_env \<Rightarrow> bool" where
  "test_serialization_roundtrip ops se wclk rclk te = (case generate_table ops te (Some 100) of
     Inl err \<Rightarrow> False
   | Inr table \<Rightarrow>
      (let original_size = rt_len table;
           serialized = se_write se (routing_table_json se wclk table)
       in case and_then (se_read se serialized) (routing_table_of_json se rclk) of
            Inl err \<Rightarrow> False
          | Inr deserialized \<Rightarrow> rt_id deserialized = rt_id table
              \<and> map_option length (rt_iter deserialized) = Some original_size))"

text \<open>The identifier begins with the index in big-endian order; the address has it too.\<close>

definition test_max_size_limit :: "('id::linorder) id20_ops \<Rightarrow> table_env \<Rightarrow> bool" where
  "test_max_size_limit ops te =
    (let my_id = id_new ops (replicate 20 0);
         max_nodes = 16;
         rt = routing_table_new ops my_id (Some max_nodes) (te_new te);
         node = \<lambda>i. (id_new ops ([of_nat (i div 2 ^ 24), of_nat (i div 2 ^ 16), of_nat (i div 2 ^ 8), of_nat i]
             @ replicate 16 0),
           V4 \<lparr>ip4 = push_bit 24 10 OR push_bit 8 (of_nat (i div 256 mod 256)) OR of_nat (i mod 256),
             port4 = of_nat (i mod 65535) + 1\<rparr>)
     in case add_nodes ops (te_clk te) (te_now te) 0 (map node [0..<1000]) rt of
          Inl err \<Rightarrow> False
        | Inr rt \<Rightarrow> rt_len rt \<le> max_nodes)"

section \<open>Tables of chosen nodes\<close>

text \<open>The address \<open>10.0.0.k\<close> with port 6881.\<close>

definition addr_10 :: "nat \<Rightarrow> socket_addr" where
  "addr_10 k = V4 \<lparr>ip4 = 0x0a000000 + of_nat k, port4 = 6881\<rparr>"

text \<open>A loop of \<^verbatim>\<open>add_node\<close> calls with their results.\<close>

fun add_nodes_results ::
    "('id::linorder) id20_ops \<Rightarrow> table_env \<Rightarrow> nat \<Rightarrow> ('id \<times> socket_addr) list \<Rightarrow> 'id routing_table
      \<Rightarrow> abort + 'id routing_table \<times> 'id insert_result list" where
  "add_nodes_results ops te k [] rt = Inr (rt, [])"
| "add_nodes_results ops te k ((i, addr) # nodes) rt =
     and_then (rt_add_node ops (te_clk te k) (te_now te k) rt i addr) (\<lambda>(rt1, result).
     and_then (add_nodes_results ops te (Suc k) nodes rt1) (\<lambda>(rt2, results). Inr (rt2, result # results)))"

text \<open>What \<^verbatim>\<open>get_mut\<close> without a refresh gives to read.\<close>

definition bucket_get :: "('id::linorder) bucket_tree \<Rightarrow> 'id \<Rightarrow> abort + 'id routing_table_node option" where
  "bucket_get t i = and_then (get_leaf t i) (\<lambda>idx. case node_data (tree_data t ! idx) of
     Leaf leaf \<Rightarrow> Inr (find (\<lambda>n. node_id n = i) (bucket_nodes leaf))
   | LeftRight _ _ \<Rightarrow> Inl ReachedUnreachable)"

definition test_add_node_to_routing_table :: "('id::linorder) id20_ops \<Rightarrow> table_env \<Rightarrow> bool" where
  "test_add_node_to_routing_table ops te =
    (let my_id = id_new ops (replicate 20 0);
         rt = routing_table_new ops my_id None (te_new te);
         other_id = id_new ops (replicate 19 0 @ [1])
     in rt_len rt = 0
       \<and> (case rt_add_node ops (te_clk te 0) (te_now te 0) rt other_id (addr_10 1) of
            Inl err \<Rightarrow> False
          | Inr (rt, result) \<Rightarrow> result = Added \<and> rt_len rt = 1))"

definition test_add_duplicate_node :: "('id::linorder) id20_ops \<Rightarrow> table_env \<Rightarrow> bool" where
  "test_add_duplicate_node ops te =
    (let my_id = id_new ops (replicate 20 0);
         rt = routing_table_new ops my_id None (te_new te);
         other_id = id_new ops (replicate 19 0 @ [1])
     in case and_then (rt_add_node ops (te_clk te 0) (te_now te 0) rt other_id (addr_10 1)) (\<lambda>(rt, result).
            rt_add_node ops (te_clk te 1) (te_now te 1) rt other_id (addr_10 1)) of
          Inl err \<Rightarrow> False
        | Inr (rt, result) \<Rightarrow> result = WasExisting \<and> rt_len rt = 1)"

definition test_respects_bucket_size :: "('id::linorder) id20_ops \<Rightarrow> table_env \<Rightarrow> bool" where
  "test_respects_bucket_size ops te =
    (let my_id = id_new ops (replicate 20 0xff);
         rt = routing_table_new ops my_id None (te_new te);
         node = \<lambda>i. (id_new ops (replicate 19 0 @ [of_nat i]), addr_10 i)
     in case add_nodes_results ops te 0 (map (\<lambda>i. node (i + 1)) [0..<8]) rt of
          Inl err \<Rightarrow> False
        | Inr (rt8, results) \<Rightarrow> (\<forall>result \<in> set results. result = Added) \<and> rt_len rt8 = 8
            \<and> (case rt_add_node ops (te_clk te 8) (te_now te 8) rt8 (fst (node 9)) (snd (node 9)) of
                 Inl err \<Rightarrow> False
               | Inr (rt9, result) \<Rightarrow> result = Ignored \<and> rt_len rt9 = 8))"

definition test_routing_table_splitting :: "('id::linorder) id20_ops \<Rightarrow> table_env \<Rightarrow> bool" where
  "test_routing_table_splitting ops te =
    (let my_id = id_new ops (replicate 20 0);
         rt = routing_table_new ops my_id None (te_new te);
         node = \<lambda>i. (id_new ops (of_nat (i * 16) # replicate 19 0), addr_10 i)
     in case add_nodes ops (te_clk te) (te_now te) 0 (map node [1..<10]) rt of
          Inl err \<Rightarrow> False
        | Inr rt \<Rightarrow> rt_len rt \<ge> 9)"

definition test_no_split_when_full_and_far :: "('id::linorder) id20_ops \<Rightarrow> table_env \<Rightarrow> bool" where
  "test_no_split_when_full_and_far ops te =
    (let my_id = id_new ops (0xff # replicate 19 0);
         rt = routing_table_new ops my_id None (te_new te);
         node = \<lambda>i. (id_new ops (replicate 19 0 @ [of_nat i]), addr_10 i)
     in case add_nodes ops (te_clk te) (te_now te) 0 (map node [1..<9]) rt of
          Inl err \<Rightarrow> False
        | Inr rt8 \<Rightarrow> rt_len rt8 = 8
            \<and> (case rt_add_node ops (te_clk te 8) (te_now te 8) rt8 (fst (node 9)) (snd (node 9)) of
                 Inl err \<Rightarrow> False
               | Inr (rt9, result) \<Rightarrow> result = Ignored))"

definition test_closest_nodes :: "('id::linorder) id20_ops \<Rightarrow> instant \<Rightarrow> table_env \<Rightarrow> bool" where
  "test_closest_nodes ops now te =
    (let my_id = id_new ops (replicate 20 0);
         rt = routing_table_new ops my_id None (te_new te);
         ids = map (\<lambda>i. id_new ops (of_nat i # replicate 19 0)) [1..<6]
     in case add_nodes ops (te_clk te) (te_now te) 0 (map (\<lambda>i. (ids ! i, addr_10 (i + 1))) [0..<5]) rt of
          Inl err \<Rightarrow> False
        | Inr rt \<Rightarrow>
           (let target = id_new ops (0x02 # replicate 19 0)
            in case sorted_by_distance_from ops rt target now of
                 None \<Rightarrow> False
               | Some sorted_nodes \<Rightarrow> length sorted_nodes = 5 \<and> node_id (sorted_nodes ! 0) = ids ! 1))"

text \<open>
  In the tests of the marks, \<open>now\<close> is the reading before the marks and \<open>later\<close>
  the one at the last assertion.
\<close>

definition test_mark_node_responded :: "('id::linorder) id20_ops \<Rightarrow> table_env \<Rightarrow> instant \<Rightarrow> instant \<Rightarrow> bool" where
  "test_mark_node_responded ops te now later =
    (let my_id = id_new ops (replicate 20 0);
         rt = routing_table_new ops my_id None (te_new te);
         i = id_new ops (replicate 19 0 @ [1])
     in case and_then (rt_add_node ops (te_clk te 0) (te_now te 0) rt i (addr_10 1)) (\<lambda>(rt, result).
          and_then (bucket_get (rt_buckets rt) i) (\<lambda>before.
          and_then (rt_mark_outgoing_request rt i now) (\<lambda>(rt, _).
          and_then (rt_mark_response rt i now) (\<lambda>(rt, _).
          and_then (bucket_get (rt_buckets rt) i) (\<lambda>after. Inr (before, after)))))) of
          Inr (Some before, Some after) \<Rightarrow> status before now = Unknown \<and> status after later = Good
        | _ \<Rightarrow> False)"

definition test_mark_node_errored :: "('id::linorder) id20_ops \<Rightarrow> table_env \<Rightarrow> instant \<Rightarrow> instant \<Rightarrow> bool" where
  "test_mark_node_errored ops te now later =
    (let my_id = id_new ops (replicate 20 0);
         rt = routing_table_new ops my_id None (te_new te);
         i = id_new ops (replicate 19 0 @ [1])
     in case and_then (rt_add_node ops (te_clk te 0) (te_now te 0) rt i (addr_10 1)) (\<lambda>(rt, result).
          and_then (rt_mark_outgoing_request rt i now) (\<lambda>(rt, _).
          and_then (rt_mark_error rt i) (\<lambda>(rt, _).
          and_then (rt_mark_error rt i) (\<lambda>(rt, _). bucket_get (rt_buckets rt) i)))) of
          Inr (Some r) \<Rightarrow> status r later = Bad
        | _ \<Rightarrow> False)"

definition test_mark_error_on_unknown_node :: "('id::linorder) id20_ops \<Rightarrow> table_env \<Rightarrow> instant \<Rightarrow> instant \<Rightarrow> bool" where
  "test_mark_error_on_unknown_node ops te now later =
    (let my_id = id_new ops (replicate 20 0);
         rt = routing_table_new ops my_id None (te_new te);
         nonexistent = id_new ops (replicate 20 0xaa)
     in case and_then (rt_mark_error rt nonexistent) (\<lambda>(rt, found1).
          and_then (rt_mark_response rt nonexistent now) (\<lambda>(rt, found2).
          and_then (rt_mark_outgoing_request rt nonexistent later) (\<lambda>(rt, found3). Inr (found1, found2, found3)))) of
          Inl err \<Rightarrow> False
        | Inr (found1, found2, found3) \<Rightarrow> \<not> found1 \<and> \<not> found2 \<and> \<not> found3)"

definition test_replace_bad_node :: "('id::linorder) id20_ops \<Rightarrow> table_env \<Rightarrow> instant \<Rightarrow> instant \<Rightarrow> bool" where
  "test_replace_bad_node ops te now later =
    (let my_id = id_new ops (replicate 20 0xff);
         rt = routing_table_new ops my_id None (te_new te);
         node = \<lambda>i. (id_new ops (replicate 19 0 @ [of_nat i]), addr_10 i);
         bad_id = fst (node 1)
     in case add_nodes ops (te_clk te) (te_now te) 0 (map node [1..<9]) rt of
          Inl err \<Rightarrow> False
        | Inr rt8 \<Rightarrow> rt_len rt8 = 8
            \<and> (case and_then (rt_mark_outgoing_request rt8 bad_id now) (\<lambda>(rt, _).
                 and_then (rt_mark_error rt bad_id) (\<lambda>(rt, _).
                 and_then (rt_mark_error rt bad_id) (\<lambda>(rt, _).
                 and_then (bucket_get (rt_buckets rt) bad_id) (\<lambda>bad.
                 and_then (rt_add_node ops (te_clk te 8) (te_now te 8) rt (fst (node 9)) (snd (node 9))) (\<lambda>(rt, result).
                 Inr (bad, result)))))) of
                 Inr (Some bad, ReplacedBad old) \<Rightarrow> status bad later = Bad
               | _ \<Rightarrow> False))"

section \<open>Tables of nodes that were never marked\<close>

text \<open>All entries are fresh, so none is bad, and the counter of the table is exact.\<close>

definition fresh_table :: "('id::linorder) id20_ops \<Rightarrow> nat option \<Rightarrow> 'id \<Rightarrow> 'id routing_table \<Rightarrow> bool" where
  "fresh_table ops m i rt \<longleftrightarrow> rt_reach ops i m rt \<and> rt_size rt = length (rt_nodes rt)
     \<and> (\<forall>n \<in> set (rt_nodes rt). n = fresh_node (node_id n) (node_addr n) \<and> is_ipv4 (node_addr n))"

lemma fresh_not_bad: "\<not> is_bad now (fresh_node i addr)"
  by (simp add: is_bad_def status_Bad_iff fresh_node_def)

section \<open>The vector behind a table\<close>

lemma link_in_shape:
  "represents ds k \<Longrightarrow> i \<in> set (indexes k) \<Longrightarrow> node_data (ds ! i) = LeftRight l r \<Longrightarrow> l < length ds \<and> r < length ds"
proof (induction k)
  case (SNode j a b)
  then show ?case
    using represents_bound [of ds a "root_of a"] represents_bound [of ds b "root_of b"] by auto
qed simp

lemma shape_indexes:
  assumes "represents ds k" and "distinct (indexes k)" and "length (indexes k) = length ds"
  shows "set (indexes k) = {..<length ds}"
proof (rule card_subset_eq)
  show "set (indexes k) \<subseteq> {..<length ds}" using represents_bound [OF assms(1)] by auto
  show "card (set (indexes k)) = card {..<length ds}" using assms(2,3) by (simp add: distinct_card)
qed simp

context id20_api
begin

lemma table_data:
  assumes "rt_inv ops rt" and "n \<in> set (tree_data (rt_buckets rt))"
  shows "set (leaf_nodes n) \<subseteq> set (rt_nodes rt)"
    and "node_data n = LeftRight l r \<Longrightarrow> l \<le> 320 \<and> r \<le> 320"
proof -
  let ?t = "rt_buckets rt"
  have inv: "tree_inv ops (rt_id rt) ?t" using assms(1) by (simp add: rt_inv_def)
  obtain k where k: "shape_inv ops (rt_id rt) (tree_data ?t) k" "bucket_iter ?t = Some (shape_nodes (tree_data ?t) k)"
    using tree_inv_iter [OF inv] by blast
  from k(1) have rep: "represents (tree_data ?t) k" and all: "set (indexes k) = {..<length (tree_data ?t)}"
    using shape_indexes [of "tree_data ?t" k] by (simp_all add: shape_inv_def)
  have nodes: "rt_nodes rt = shape_nodes (tree_data ?t) k" using k(2) by (simp add: rt_nodes_def rt_iter_def)
  obtain i where i: "i < length (tree_data ?t)" "n = tree_data ?t ! i" using assms(2) by (auto simp: in_set_conv_nth)
  with all have mem: "i \<in> set (indexes k)" by simp
  show "set (leaf_nodes n) \<subseteq> set (rt_nodes rt)"
    using leaf_in_shape [OF rep mem] i(2) by (cases "node_data n") (auto simp: nodes shape_nodes_def leaf_nodes_def)
  show "l \<le> 320 \<and> r \<le> 320" if "node_data n = LeftRight l r"
    using link_in_shape [OF rep mem, of l r] tree_inv_bound [OF inv] that i(2) by simp
qed

lemma table_writable:
  assumes "rt_inv ops rt" and "max_size (rt_buckets rt) < 2 ^ 64"
    and "\<forall>n \<in> set (rt_nodes rt). no_flowinfo (node_addr n) \<and> errors_in_a_row n < 2 ^ 64"
  shows "tree_writable (rt_buckets rt)"
proof -
  have "data_writable (node_data n)" if n: "n \<in> set (tree_data (rt_buckets rt))" for n
  proof (cases "node_data n")
    case (Leaf b)
    with table_data(1) [OF assms(1) n] assms(3) show ?thesis by (auto simp: leaf_nodes_def)
  next
    case (LeftRight l r)
    with table_data(2) [OF assms(1) n LeftRight] show ?thesis by simp
  qed
  moreover have "tree_size (rt_buckets rt) < 2 ^ 64"
    using rt_inv_iter(3,5) [OF assms(1)] assms(2) by simp
  ultimately show ?thesis using assms(2) by (simp add: tree_writable_def)
qed

section \<open>Additions to fresh tables\<close>

lemma fresh_table_add:
  assumes "fresh_table ops m i rt" and "is_ipv4 addr"
  shows "\<exists>rt' r. rt_add_node ops clk now rt x addr = Inr (rt', r) \<and> fresh_table ops m i rt'
    \<and> length (rt_nodes rt) \<le> length (rt_nodes rt')
    \<and> (rt_nodes rt = [] \<and> m \<noteq> Some 0 \<longrightarrow> rt_nodes rt' \<noteq> [])"
proof -
  have reach: "rt_reach ops i m rt" using assms(1) by (simp add: fresh_table_def)
  then have inv: "rt_inv ops rt" "max_size (rt_buckets rt) = (case m of Some m \<Rightarrow> m | None \<Rightarrow> DEFAULT_MAX_SIZE)"
    using rt_reach_inv [OF id20_api_axioms] by blast+
  from rt_inv_add [OF inv(1), of clk now x addr] obtain rt' r where
    add: "rt_add_node ops clk now rt x addr = Inr (rt', r)" and inv': "rt_inv ops rt'"
    and eff: "insert_effect now x addr (mset (rt_nodes rt)) r (mset (rt_nodes rt'))"
    and ign: "r = Ignored \<longrightarrow> length (rt_nodes rt) = max_size (rt_buckets rt)
        \<or> (\<exists>n \<in> set (tree_data (rt_buckets rt')). bucket_closed now n (rt_id rt) x)"
    and size: "rt_size rt' = rt_size rt + (case r of Added \<Rightarrow> 1 | ReplacedBad _ \<Rightarrow> 1 | _ \<Rightarrow> 0)"
    by (elim exE conjE) (rule that)
  have reach': "rt_reach ops i m rt'" by (rule rt_reach.Add [OF reach add])
  have no_bad: "r \<noteq> ReplacedBad old" for old
  proof
    assume "r = ReplacedBad old"
    with eff have "old \<in> set (rt_nodes rt)" "is_bad now old" by simp_all
    then show False using assms(1) fresh_not_bad [of now "node_id old" "node_addr old"] by (auto simp: fresh_table_def)
  qed
  have len: "length (rt_nodes rt') = length (rt_nodes rt) + (if r = Added then 1 else 0)"
    by (rule insert_effect_size [OF eff])
  have sub: "set (rt_nodes rt') \<subseteq> insert (fresh_node x addr) (set (rt_nodes rt))"
    using eff no_bad by (cases r) (auto dest: arg_cong [of _ _ set_mset])
  have exact: "rt_size rt' = length (rt_nodes rt')"
    using size len no_bad assms(1) by (cases r) (auto simp: fresh_table_def)
  have "fresh_table ops m i rt'"
    using assms sub exact reach' by (auto simp: fresh_table_def)
  moreover have "rt_nodes rt' \<noteq> []" if empty: "rt_nodes rt = []" "m \<noteq> Some 0"
  proof
    assume e: "rt_nodes rt' = []"
    with len have "r \<noteq> Added" by auto
    moreover have "r \<noteq> WasExisting" using eff empty(1) by auto
    ultimately have "r = Ignored" using no_bad by (cases r) auto
    moreover have "max_size (rt_buckets rt) \<noteq> 0" using inv(2) empty(2) by (auto simp: DEFAULT_MAX_SIZE_def split: option.splits)
    ultimately obtain n where "n \<in> set (tree_data (rt_buckets rt'))" "length (leaf_nodes n) = 8"
      using ign empty(1) by (auto simp: bucket_closed_def)
    with table_data(1) [OF inv' this(1)] e show False by auto
  qed
  ultimately show ?thesis using add len by (intro exI [of _ rt'] exI [of _ r]) simp
qed

lemma fresh_table_adds:
  "fresh_table ops m i rt \<Longrightarrow> \<forall>(x, addr) \<in> set nodes. is_ipv4 addr \<Longrightarrow>
    \<exists>rt'. add_nodes ops clk now k nodes rt = Inr rt' \<and> fresh_table ops m i rt'
      \<and> length (rt_nodes rt) \<le> length (rt_nodes rt') \<and> (nodes \<noteq> [] \<and> m \<noteq> Some 0 \<longrightarrow> rt_nodes rt' \<noteq> [])"
proof (induction nodes arbitrary: rt k)
  case (Cons e nodes)
  obtain x addr where e: "e = (x, addr)" by (cases e)
  with Cons.prems have "is_ipv4 addr" by simp
  from fresh_table_add [OF Cons.prems(1) this, of "clk k" "now k" x] obtain rt1 r where
    rt1: "rt_add_node ops (clk k) (now k) rt x addr = Inr (rt1, r)" "fresh_table ops m i rt1"
    "length (rt_nodes rt) \<le> length (rt_nodes rt1)" "rt_nodes rt = [] \<and> m \<noteq> Some 0 \<longrightarrow> rt_nodes rt1 \<noteq> []" by blast
  from Cons.IH [OF rt1(2), of "Suc k"] Cons.prems(2) obtain rt' where
    "add_nodes ops clk now (Suc k) nodes rt1 = Inr rt'" "fresh_table ops m i rt'"
    "length (rt_nodes rt1) \<le> length (rt_nodes rt')" by auto
  with rt1 show ?case by (auto simp: e)
qed simp

lemma fresh_table_new: "fresh_table ops m i (routing_table_new ops i m now)"
  using rt_inv_new [of i m now] rt_reach.New [of ops i m now] by (simp add: fresh_table_def routing_table_new_def)

lemma generated_table:
  "\<exists>table. generate_table ops te len = Inr table \<and> fresh_table ops None (random_id_20 ops (te_ids te 0)) table
    \<and> (len = None \<longrightarrow> rt_nodes table \<noteq> [])"
proof -
  let ?i = "random_id_20 ops (te_ids te 0)"
  let ?nodes = "map (\<lambda>k. (random_id_20 ops (te_ids te (Suc k)), generate_socket_addr (te_addrs te k)))
    [0..<case len of Some n \<Rightarrow> n | None \<Rightarrow> 16536]"
  have "\<forall>(x, addr) \<in> set ?nodes. is_ipv4 addr" by (auto simp: generate_socket_addr_def)
  from fresh_table_adds [OF fresh_table_new this] obtain table where
    "add_nodes ops (te_clk te) (te_now te) 0 ?nodes (routing_table_new ops ?i None (te_new te)) = Inr table"
    "fresh_table ops None ?i table" "?nodes \<noteq> [] \<longrightarrow> rt_nodes table \<noteq> []" by blast
  then show ?thesis unfolding generate_table_def Let_def by auto
qed

lemma fresh_table_inv:
  assumes "fresh_table ops m i rt"
  shows "rt_inv ops rt" and "rt_id rt = i" and "max_size (rt_buckets rt) = (case m of Some c \<Rightarrow> c | None \<Rightarrow> DEFAULT_MAX_SIZE)"
  using assms rt_reach_inv [OF id20_api_axioms, of i m rt] by (auto simp: fresh_table_def)

lemma fresh_table_size: "fresh_table ops m i rt \<Longrightarrow> rt_size rt = length (rt_nodes rt)"
  unfolding fresh_table_def by blast

section \<open>The tests over random tables pass\<close>

lemma test_iter_is_ordered_passes: "test_iter_is_ordered ops te"
proof -
  obtain table where t: "generate_table ops te None = Inr table"
    "fresh_table ops None (random_id_20 ops (te_ids te 0)) table" "rt_nodes table \<noteq> []"
    using generated_table [of te None] by blast
  note it = rt_inv_iter [OF fresh_table_inv(1) [OF t(2)]]
  obtain previous rest where nodes: "rt_nodes table = previous # rest" using t(3) by (cases "rt_nodes table") auto
  have "node_id ((previous # rest) ! k) < node_id ((previous # rest) ! Suc k)" if "k < length rest" for k
  proof -
    have "map node_id (previous # rest) ! k < map node_id (previous # rest) ! Suc k"
      using it(2) that unfolding nodes by (intro sorted_wrt_nth_less [of "(<)"]) simp_all
    then show ?thesis
      using that nth_map [of k "previous # rest" node_id] nth_map [of "Suc k" "previous # rest" node_id] by simp
  qed
  then show ?thesis using t(1) it(1) nodes by (simp add: test_iter_is_ordered_def rt_iter_def)
qed

lemma test_sorted_by_distance_from_passes: "test_sorted_by_distance_from ops rnd now te"
proof -
  obtain table where t: "generate_table ops te None = Inr table"
    "fresh_table ops None (random_id_20 ops (te_ids te 0)) table"
    using generated_table [of te None] by blast
  obtain ys where "sorted_by_distance_from ops table (random_id_20 ops rnd) now = Some ys" "mset ys = mset (rt_nodes table)"
    using sorted_nodes [OF fresh_table_inv(1) [OF t(2)]] by blast
  with t(1) fresh_table_size [OF t(2)] mset_eq_length [OF this(2)] show ?thesis
    by (simp add: test_sorted_by_distance_from_def)
qed

lemma reread_table:
  assumes "fresh_table ops None i table" and "serde_api se"
  shows "\<exists>table'. and_then (se_read se (se_write se (routing_table_json se wclk table))) (routing_table_of_json se rclk) = Inr table'
    \<and> rt_id table' = i \<and> rt_iter table' = Some (rt_nodes table)"
proof -
  note inv = fresh_table_inv [OF assms(1)]
  have fresh: "n = fresh_node (node_id n) (node_addr n)" "is_ipv4 (node_addr n)" if "n \<in> set (rt_nodes table)" for n
    using assms(1) that by (auto simp: fresh_table_def)
  have cap: "max_size (rt_buckets table) = 512" using inv(3) by (simp add: DEFAULT_MAX_SIZE_def)
  have "no_flowinfo (node_addr n) \<and> errors_in_a_row n < 2 ^ 64" if "n \<in> set (rt_nodes table)" for n
  proof -
    have "errors_in_a_row (fresh_node (node_id n) (node_addr n)) = 0" by (simp add: fresh_node_def)
    with fresh(1) [OF that] have "errors_in_a_row n = 0" by simp
    with fresh(2) [OF that] show ?thesis by (cases "node_addr n") simp_all
  qed
  then have w: "tree_writable (rt_buckets table)" using table_writable [OF inv(1)] cap by simp
  have size: "rt_size table < 2 ^ 64"
    using rt_inv_iter(5) [OF inv(1)] cap fresh_table_size [OF assms(1)] by simp
  have "json_plain JSON_DEPTH (routing_table_json se wclk table)"
    using serde_api.table_plain [OF assms(2) w size, of wclk] by (rule json_plain_mono) (simp add: JSON_DEPTH_def)
  then have "se_read se (se_write se (routing_table_json se wclk table)) = Inr (routing_table_json se wclk table)"
    by (rule serde_api.text_read [OF assms(2)])
  moreover have "map forget_marks (rt_nodes table) = rt_nodes table"
    using fresh(1) by (intro map_idI) (simp add: forget_marks_def)
  ultimately show ?thesis
    using serde_api.routing_table_round [OF assms(2) w size, of rclk wclk] rt_inv_reloaded [OF inv(1), of rclk] inv(2)
      rt_inv_iter(1) [OF rt_inv_reloaded(1) [OF inv(1), of rclk]]
    by (simp add: reloaded_table_def)
qed

lemma serialization_tests:
  assumes "serde_api se"
  shows "test_serialize_deserialize ops se wclk rclk te" and "test_serialization_roundtrip ops se wclk rclk te"
proof -
  obtain table where "generate_table ops te (Some 1000) = Inr table"
    "fresh_table ops None (random_id_20 ops (te_ids te 0)) table" using generated_table by blast
  with reread_table [OF this(2) assms, of wclk rclk] show "test_serialize_deserialize ops se wclk rclk te"
    by (auto simp: test_serialize_deserialize_def Let_def)
  obtain table where t: "generate_table ops te (Some 100) = Inr table"
    "fresh_table ops None (random_id_20 ops (te_ids te 0)) table" using generated_table by blast
  with reread_table [OF t(2) assms, of wclk rclk] show "test_serialization_roundtrip ops se wclk rclk te"
    using fresh_table_inv(2) [OF t(2)] fresh_table_size [OF t(2)]
    by (auto simp: test_serialization_roundtrip_def Let_def rt_len_def)
qed

lemma test_max_size_limit_passes: "test_max_size_limit ops te"
proof -
  let ?node = "\<lambda>i. (id_new ops ([of_nat (i div 2 ^ 24), of_nat (i div 2 ^ 16), of_nat (i div 2 ^ 8), of_nat i] @ replicate 16 0),
    V4 \<lparr>ip4 = push_bit 24 10 OR push_bit 8 (of_nat (i div 256 mod 256)) OR of_nat (i mod 256),
      port4 = of_nat (i mod 65535) + 1\<rparr>)"
  have "\<forall>(x, addr) \<in> set (map ?node [0..<1000]). is_ipv4 addr" by auto
  from fresh_table_adds [OF fresh_table_new [of "Some 16" "id_new ops (replicate 20 0)" "te_new te"] this,
      of "te_clk te" "te_now te" 0]
  obtain table where t: "add_nodes ops (te_clk te) (te_now te) 0 (map ?node [0..<1000])
      (routing_table_new ops (id_new ops (replicate 20 0)) (Some 16) (te_new te)) = Inr table"
    "fresh_table ops (Some 16) (id_new ops (replicate 20 0)) table" by blast
  from rt_inv_iter(5) [OF fresh_table_inv(1) [OF t(2)]] fresh_table_inv(3) [OF t(2)] fresh_table_size [OF t(2)]
  have "rt_len table \<le> 16" by (simp add: rt_len_def)
  with t(1) show ?thesis unfolding test_max_size_limit_def Let_def by simp
qed

lemma get_bit_byte:
  "i < 160 \<Longrightarrow> id_get_bit ops (id_new ops (b # replicate 19 c)) i = (if i < 8 then bit b (7 - i) else bit c (7 - i mod 8))"
  by (auto simp: get_bit_bytes bytes_new nth_Cons less_mult_imp_div_less split: nat.splits)

lemma test_generate_random_id_passes: "test_generate_random_id ops rnd"
proof -
  let ?p = "\<lparr>bits = 156, start = id_new ops (0x30 # replicate 19 0), end_inclusive = id_new ops (0x3f # replicate 19 0xff),
    node_data = LeftRight 0 0\<rparr> :: 'id bucket_tree_node"
  have "\<not> bit (0x30 :: u8) (7 - j) \<and> bit (0x3f :: u8) (7 - j)" if "4 \<le> j" "j < 8" for j
  proof -
    from that have "j = 4 \<or> j = 5 \<or> j = 6 \<or> j = 7" by linarith
    then show ?thesis by (elim disjE) (simp_all add: bit_numeral_rec)
  qed
  moreover have "bit (0x30 :: u8) (7 - j) = bit (0x3f :: u8) (7 - j)" if "j < 4" for j
  proof -
    from that have "j = 0 \<or> j = 1 \<or> j = 2 \<or> j = 3" by linarith
    then show ?thesis by (elim disjE) (simp_all add: bit_numeral_rec)
  qed
  moreover have "bit (0xff :: u8) (7 - j mod 8)" for j
  proof -
    have "(0xff :: u8) = - 1" by simp
    then show ?thesis unfolding \<open>(0xff :: u8) = - 1\<close> by simp
  qed
  ultimately have "node_block ops ?p"
    by (simp add: node_block_def id_block_def same_prefix_def prefix_len_def get_bit_byte)
  then have "\<exists>x. generate_random_id ops (rnd k) (start ?p) (bits ?p) = Inr x \<and> covers ?p x" for k by (rule random_in_block)
  then show ?thesis unfolding test_generate_random_id_def Let_def
    by (auto simp: covers_def split: sum.splits) (metis Inr_inject Inl_Inr_False)+
qed

section \<open>The tests of splits pass\<close>

lemma twenty: "replicate 20 x = x # replicate 19 x"
  by (simp add: numeral_eq_Suc)

lemma set_bit_byte:
  assumes "i < 8" and "\<And>j. j < 8 \<Longrightarrow> bit b' (7 - j) = (if j = i then v else bit b (7 - j))"
  shows "id_set_bit ops (id_new ops (b # replicate 19 c)) i v = id_new ops (b' # replicate 19 c)"
  using assms by (intro bit_ext) (simp add: same_prefix_def get_set_bit get_bit_byte)

lemma byte_cases: "(j :: nat) < 8 \<Longrightarrow> j = 0 \<or> j = 1 \<or> j = 2 \<or> j = 3 \<or> j = 4 \<or> j = 5 \<or> j = 6 \<or> j = 7"
  by linarith

lemma split_of_block:
  assumes "node_block ops \<lparr>bits = b, start = s, end_inclusive = e, node_data = LeftRight 0 0\<rparr>" and "2 \<le> unat b"
  shows "compute_split_start_end ops s e b
    = Inr ((s, id_set_bit ops e (160 - unat b) False), (id_set_bit ops s (160 - unat b) True, e))"
  using split_children(1) [OF assms(1)] assms(2) by (simp add: prefix_len_def)

lemma test_split_root_passes: "test_split_root ops"
proof -
  have ff: "(0xff :: u8) = - 1" by simp
  have "node_block ops \<lparr>bits = 160, start = id_new ops (replicate 20 0), end_inclusive = id_new ops (replicate 20 0xff),
      node_data = LeftRight 0 0\<rparr>"
    using root_block by (simp add: node_block_def prefix_len_def)
  from split_of_block [OF this] have "compute_split_start_end ops (id_new ops (replicate 20 0)) (id_new ops (replicate 20 0xff)) 160
    = Inr ((id_new ops (replicate 20 0), id_set_bit ops (id_new ops (replicate 20 0xff)) 0 False),
        (id_set_bit ops (id_new ops (replicate 20 0)) 0 True, id_new ops (replicate 20 0xff)))" by simp
  moreover have "id_set_bit ops (id_new ops (replicate 20 0)) 0 True = id_new ops (0x80 # replicate 19 0)"
    unfolding twenty by (rule set_bit_byte) (auto dest!: byte_cases simp: bit_numeral_rec)
  moreover have "id_set_bit ops (id_new ops (replicate 20 0xff)) 0 False = id_new ops (0x7f # replicate 19 0xff)"
    unfolding twenty by (rule set_bit_byte) (auto dest!: byte_cases simp: bit_numeral_rec)
  ultimately show ?thesis by (simp add: test_split_root_def)
qed

lemma test_second_split_passes: "test_second_split ops"
proof -
  have "bit (0xff :: u8) (7 - j mod 8)" for j
  proof -
    have "(0xff :: u8) = - 1" by simp
    then show ?thesis unfolding \<open>(0xff :: u8) = - 1\<close> by simp
  qed
  moreover have "bit (0x80 :: u8) (7 - j) \<longleftrightarrow> j = 0" "bit (0xff :: u8) (7 - j)" if "j < 8" for j
    using that by (auto dest!: byte_cases simp: bit_numeral_rec)
  ultimately have "node_block ops \<lparr>bits = 159, start = id_new ops (0x80 # replicate 19 0),
      end_inclusive = id_new ops (0xff # replicate 19 0xff), node_data = LeftRight 0 0\<rparr>"
    by (simp add: node_block_def id_block_def same_prefix_def prefix_len_def get_bit_byte)
  from split_of_block [OF this] have "compute_split_start_end ops (id_new ops (0x80 # replicate 19 0))
      (id_new ops (0xff # replicate 19 0xff)) 159
    = Inr ((id_new ops (0x80 # replicate 19 0), id_set_bit ops (id_new ops (0xff # replicate 19 0xff)) 1 False),
        (id_set_bit ops (id_new ops (0x80 # replicate 19 0)) 1 True, id_new ops (0xff # replicate 19 0xff)))" by simp
  moreover have "id_set_bit ops (id_new ops (0x80 # replicate 19 0)) 1 True = id_new ops (0xc0 # replicate 19 0)"
    by (rule set_bit_byte) (auto dest!: byte_cases simp: bit_numeral_rec)
  moreover have "id_set_bit ops (id_new ops (0xff # replicate 19 0xff)) 1 False = id_new ops (0xbf # replicate 19 0xff)"
    by (rule set_bit_byte) (auto dest!: byte_cases simp: bit_numeral_rec)
  ultimately show ?thesis by (simp add: test_second_split_def twenty)
qed

lemma test_split_3_passes: "test_split_3 ops"
  using test_second_split_passes by (simp add: test_split_3_def test_second_split_def)

lemmas random_table_tests_pass = test_split_root_passes test_second_split_passes test_split_3_passes
  test_generate_random_id_passes test_iter_is_ordered_passes test_sorted_by_distance_from_passes test_max_size_limit_passes

end

section \<open>The tests over chosen nodes pass\<close>

lemma word_first_byte: "word_of_bytes (b # replicate 19 0) = push_bit 152 (ucast b)"
proof (rule bit_word_eqI)
  fix n assume "n < LENGTH(160)"
  then have n: "n < 160" by simp
  show "bit (word_of_bytes (b # replicate 19 0)) n = bit (push_bit 152 (ucast b) :: 160 word) n"
  proof (cases "152 \<le> n")
    case True
    with n have "n div 8 = 19" "n mod 8 = n - 152" "n - 152 < 8" by presburger+
    with True n show ?thesis by (simp add: bit_word_of_bytes bit_push_bit_iff bit_ucast_iff)
  next
    case False
    with n have "19 - n div 8 = Suc (18 - n div 8)" "18 - n div 8 < 19" by presburger+
    with False n show ?thesis by (simp add: bit_word_of_bytes bit_push_bit_iff)
  qed
qed

lemma word_last_byte: "word_of_bytes (replicate 19 0 @ [b]) = ucast b"
proof (rule bit_word_eqI)
  fix n assume "n < LENGTH(160)"
  then have n: "n < 160" by simp
  show "bit (word_of_bytes (replicate 19 0 @ [b])) n = bit (ucast b :: 160 word) n"
  proof (cases "n < 8")
    case True
    then show ?thesis by (simp add: bit_word_of_bytes bit_ucast_iff nth_append)
  next
    case False
    with n have "19 - n div 8 < 19" by presburger
    with False n show ?thesis
      using bit_imp_le_length [of b n] by (auto simp add: bit_word_of_bytes bit_ucast_iff nth_append)
  qed
qed

lemmas word_ids = word_first_byte word_last_byte rt_eval DEFAULT_MAX_SIZE_def rt_len_def

lemma test_add_node_to_routing_table_passes: "test_add_node_to_routing_table id20_word te"
  by (simp add: test_add_node_to_routing_table_def word_ids)

lemma test_add_duplicate_node_passes: "test_add_duplicate_node id20_word te"
  by (simp add: test_add_duplicate_node_def word_ids)

lemma test_mark_error_on_unknown_node_passes: "test_mark_error_on_unknown_node id20_word te now later"
  by (simp add: test_mark_error_on_unknown_node_def word_ids)

lemma minus_half: "(- 730750818665451459101842416358141509827966271489 :: 160 word) = 730750818665451459101842416358141509827966271487"
  by code_simp

lemma word_root_split:
  "compute_split_start_end id20_word 0 (- 1) 160
    = Inr ((0, 730750818665451459101842416358141509827966271487), (730750818665451459101842416358141509827966271488, - 1))"
  by (simp add: compute_split_start_end_def checked_sub_def minus_half)

lemma half_less: "(730750818665451459101842416358141509827966271487 :: 160 word) < - 1"
  by code_simp

lemmas split_eval = word_ids upt_rec fresh_not_bad split_leaf_def word_root_split half_less checked_sub_def
lemmas mark_eval = word_ids bucket_get_def fresh_node_def mark_outgoing_request_def

lemma test_mark_node_errored_passes: "test_mark_node_errored id20_word te now later"
  by (simp add: test_mark_node_errored_def mark_eval status_Bad_iff mark_error_def)

lemma test_mark_node_responded_passes:
  "now \<le> later \<Longrightarrow> later - now < INACTIVITY_TIMEOUT \<Longrightarrow> test_mark_node_responded id20_word te now later"
  by (simp add: test_mark_node_responded_def mark_eval status_Good_iff mark_response_def recent_def status_def stale_def)

lemma test_respects_bucket_size_passes: "test_respects_bucket_size id20_word te"
  by (simp add: test_respects_bucket_size_def split_eval)

lemma test_routing_table_splitting_passes: "test_routing_table_splitting id20_word te"
  by (simp add: test_routing_table_splitting_def split_eval)

lemma test_no_split_when_full_and_far_passes: "test_no_split_when_full_and_far id20_word te"
  by (simp add: test_no_split_when_full_and_far_def split_eval)

lemma fresh_unknown: "status (fresh_node i addr) now = Unknown"
  by (simp add: status_def fresh_node_def stale_def)

lemma errors_make_bad:
  "status (mark_error (mark_error (mark_outgoing_request (fresh_node i addr) now))) later = Bad"
  "is_bad later (mark_error (mark_error (mark_outgoing_request (fresh_node i addr) now)))"
  by (simp_all add: is_bad_def status_Bad_iff fresh_node_def mark_error_def mark_outgoing_request_def)

lemma test_closest_nodes_passes: "test_closest_nodes id20_word now te"
  by (simp add: test_closest_nodes_def split_eval sorted_by_distance_from_def rt_iter_def bucket_iter_def
    iter_leaves_def iter_collect_leaf iter_collect_Nil fresh_unknown leaf_item_def)

lemma test_replace_bad_node_passes: "test_replace_bad_node id20_word te now later"
  by (simp add: test_replace_bad_node_def split_eval bucket_get_def errors_make_bad)

lemmas chosen_table_tests_pass = test_add_node_to_routing_table_passes test_add_duplicate_node_passes
  test_respects_bucket_size_passes test_routing_table_splitting_passes test_no_split_when_full_and_far_passes
  test_closest_nodes_passes test_mark_node_errored_passes test_mark_error_on_unknown_node_passes
  test_replace_bad_node_passes test_mark_node_responded_passes

section \<open>All tests of the routing table\<close>

text \<open>
  The routing table passes the tests of the repository: those over generated tables for all
  random bytes, all clocks and every implementation of identifiers and of the text of a dump; those over
  chosen nodes for 160-bit identifiers, the test of a good node when its last reading of the clock comes
  within the inactivity timeout.
\<close>

theorem table_tests_pass:
  assumes "id20_api ops" and "serde_api se" and "now \<le> later" and "later - now < INACTIVITY_TIMEOUT"
  shows "test_split_root ops \<and> test_second_split ops \<and> test_split_3 ops \<and> test_generate_random_id ops rnd
    \<and> test_iter_is_ordered ops te \<and> test_sorted_by_distance_from ops target now te
    \<and> test_serialize_deserialize ops se wclk rclk te \<and> test_serialization_roundtrip ops se wclk rclk te
    \<and> test_max_size_limit ops te
    \<and> test_add_node_to_routing_table id20_word te \<and> test_add_duplicate_node id20_word te
    \<and> test_respects_bucket_size id20_word te \<and> test_routing_table_splitting id20_word te
    \<and> test_no_split_when_full_and_far id20_word te \<and> test_closest_nodes id20_word now te
    \<and> test_mark_node_responded id20_word te now later \<and> test_mark_node_errored id20_word te now later
    \<and> test_mark_error_on_unknown_node id20_word te now later \<and> test_replace_bad_node id20_word te now later"
  using id20_api.random_table_tests_pass [OF assms(1)] id20_api.serialization_tests [OF assms(1,2)]
  by (simp add: chosen_table_tests_pass assms(3,4))

theorem table_tests_pass_witness:
  "test_max_size_limit id20_word (\<lparr>te_ids = \<lambda>k. replicate 20 (of_nat k), te_addrs = \<lambda>k. replicate 6 (of_nat k),
      te_new = 0, te_now = \<lambda>k. k, te_clk = \<lambda>k j. k\<rparr>)"
  using table_tests_pass [OF id20_word_api text_serde.serde_api_axioms, of 3 3] by (simp add: INACTIVITY_TIMEOUT_def from_secs_def)

end
