(* ===== verification/Wire_Tests.thy ===== *)
theory Wire_Tests
  imports Wire_Props
begin

text \<open>
  The tests of \<^verbatim>\<open>src/bprotocol.rs\<close>, as functions of the libraries that the wire format takes as
  parameters. A test is true when none of its assertions fails and no \<^verbatim>\<open>unwrap\<close> panics. Tests that
  serialize first pass with any lossless libraries; tests that start from bytes are about the bencoding
  of BEP 3.
\<close>

section \<open>Serialized requests are read back\<close>

definition test_serialize_find_node_request :: "'id id20_ops \<Rightarrow> 'id wire \<Rightarrow> bool" where
  "test_serialize_find_node_request ops w =
    (let i = id_new ops (replicate 20 0xAA);
         target = id_new ops (replicate 20 0xBB);
         buf = serialize_message w (ascii ''tx'') None None
           (MK_FindNodeRequest \<lparr>fn_id = i, fn_target = target, fn_want = None\<rparr>)
     in case deserialize_message w buf of
          Inl err \<Rightarrow> False
        | Inr msg \<Rightarrow> (case msg_kind msg of
              MK_FindNodeRequest req \<Rightarrow> fn_id req = i \<and> fn_target req = target \<and> fn_want req = None
            | _ \<Rightarrow> False) \<and> transaction_id msg = ascii ''tx'')"

definition test_serialize_get_peers_request :: "'id id20_ops \<Rightarrow> 'id wire \<Rightarrow> bool" where
  "test_serialize_get_peers_request ops w =
    (let i = id_new ops (replicate 20 0x11);
         info_hash = id_new ops (replicate 20 0x22);
         buf = serialize_message w (ascii ''ab'') None None
           (MK_GetPeersRequest \<lparr>gp_id = i, gp_info_hash = info_hash, gp_want = Some Want_V4\<rparr>)
     in case deserialize_message w buf of
          Inl err \<Rightarrow> False
        | Inr msg \<Rightarrow> (case msg_kind msg of
              MK_GetPeersRequest req \<Rightarrow> gp_id req = i \<and> gp_info_hash req = info_hash \<and> gp_want req = Some Want_V4
            | _ \<Rightarrow> False))"

definition test_serialize_announce_peer_request :: "'id id20_ops \<Rightarrow> 'id wire \<Rightarrow> bool" where
  "test_serialize_announce_peer_request ops w =
    (let i = id_new ops (ascii ''abcdefghij0123456789'');
         info_hash = id_new ops (ascii ''mnopqrstuvwxyz123456'');
         buf = serialize_message w (ascii ''xy'') None None
           (MK_AnnouncePeer \<lparr>ap_id = i, implied_port = 1, ap_info_hash = info_hash, ap_port = 6881,
             ap_token = ascii ''tok1''\<rparr>)
     in case deserialize_message w buf of
          Inl err \<Rightarrow> False
        | Inr msg \<Rightarrow> (case msg_kind msg of
              MK_AnnouncePeer ann \<Rightarrow> ap_id ann = i \<and> ap_info_hash ann = info_hash \<and> implied_port ann = 1
                \<and> ap_port ann = 6881 \<and> ap_token ann = ascii ''tok1''
            | _ \<Rightarrow> False))"

definition test_deserialize_error_response :: "'id wire \<Rightarrow> bool" where
  "test_deserialize_error_response w =
    (let buf = serialize_message w (ascii ''er'') None None
           (MK_Error \<lparr>code = 202, description = ascii ''Server Error''\<rparr>)
     in case deserialize_message w buf of
          Inl err \<Rightarrow> False
        | Inr msg \<Rightarrow> (case msg_kind msg of
              MK_Error e \<Rightarrow> code e = 202 \<and> description e = ascii ''Server Error''
            | _ \<Rightarrow> False))"

definition test_serialize_ping_request :: "'id id20_ops \<Rightarrow> 'id wire \<Rightarrow> bool" where
  "test_serialize_ping_request ops w =
    (let i = id_new ops (replicate 20 0x55);
         buf = serialize_message w (ascii ''pi'') None None (MK_PingRequest \<lparr>ping_id = i\<rparr>)
     in case deserialize_message w buf of
          Inl err \<Rightarrow> False
        | Inr msg \<Rightarrow> (case msg_kind msg of
              MK_PingRequest req \<Rightarrow> ping_id req = i
            | _ \<Rightarrow> False))"

definition test_message_with_version_field :: "'id id20_ops \<Rightarrow> 'id wire \<Rightarrow> bool" where
  "test_message_with_version_field ops w =
    (let i = id_new ops (replicate 20 0x77);
         buf = serialize_message w (ascii ''v1'') (Some (ascii ''rq01'')) None (MK_PingRequest \<lparr>ping_id = i\<rparr>)
     in case deserialize_message w buf of
          Inl err \<Rightarrow> False
        | Inr msg \<Rightarrow> version msg = Some (ascii ''rq01''))"

definition test_error_description_various_codes :: "'id wire \<Rightarrow> bool" where
  "test_error_description_various_codes w \<longleftrightarrow>
    (\<forall>(c, desc) \<in> set [(201, ''Generic Error''), (202, ''Server Error''), (203, ''Protocol Error''), (204, ''Method Unknown'')].
      let buf = serialize_message w (ascii ''ee'') None None (MK_Error \<lparr>code = c, description = ascii desc\<rparr>)
      in case deserialize_message w buf of
           Inl err \<Rightarrow> False
         | Inr msg \<Rightarrow> (case msg_kind msg of
               MK_Error e \<Rightarrow> code e = c \<and> description e = ascii desc
             | _ \<Rightarrow> False))"

section \<open>Messages are serialized the same again\<close>

text \<open>Serialize, deserialize, look at the kind, serialize again and compare.\<close>

definition reserialized :: "'id wire \<Rightarrow> bytes \<Rightarrow> 'id message_kind \<Rightarrow> ('id message_kind \<Rightarrow> bool) \<Rightarrow> bool" where
  "reserialized w tid kind expected =
    (let buf = serialize_message w tid None None kind
     in case deserialize_message w buf of
          Inl err \<Rightarrow> False
        | Inr msg \<Rightarrow> expected (msg_kind msg)
            \<and> serialize_message w (transaction_id msg) (version msg) (msg_ip msg) (msg_kind msg) = buf)"

definition serialize_then_deserialize_then_serialize_error :: "'id wire \<Rightarrow> bool" where
  "serialize_then_deserialize_then_serialize_error w =
    (let buf = serialize_message w (ascii ''123'') None None
           (MK_Error \<lparr>code = 201, description = ascii ''Some error''\<rparr>)
     in case deserialize_message w buf of
          Inl err \<Rightarrow> False
        | Inr msg \<Rightarrow> serialize_message w (transaction_id msg) None None (msg_kind msg) = buf)"

definition announce_reserialized :: "'id wire \<Rightarrow> 'id \<Rightarrow> 'id \<Rightarrow> bool" where
  "announce_reserialized w i target = reserialized w (ascii ''a1'') (MK_AnnouncePeer \<lparr>ap_id = i, implied_port = 0,
     ap_info_hash = target, ap_port = 8080, ap_token = ascii ''mytoken''\<rparr>)
     (\<lambda>k. case k of MK_AnnouncePeer _ \<Rightarrow> True | _ \<Rightarrow> False)"

definition test_roundtrip_all_message_types :: "'id id20_ops \<Rightarrow> 'id wire \<Rightarrow> bool" where
  "test_roundtrip_all_message_types ops w =
    (let i = id_new ops (replicate 20 0x33);
         target = id_new ops (replicate 20 0x44)
     in reserialized w (ascii ''p1'') (MK_PingRequest \<lparr>ping_id = i\<rparr>)
          (\<lambda>k. case k of MK_PingRequest _ \<Rightarrow> True | _ \<Rightarrow> False)
      \<and> reserialized w (ascii ''f1'') (MK_FindNodeRequest \<lparr>fn_id = i, fn_target = target, fn_want = Some Want_Both\<rparr>)
          (\<lambda>k. case k of MK_FindNodeRequest _ \<Rightarrow> True | _ \<Rightarrow> False)
      \<and> reserialized w (ascii ''g1'') (MK_GetPeersRequest \<lparr>gp_id = i, gp_info_hash = target, gp_want = Some Want_V6\<rparr>)
          (\<lambda>k. case k of MK_GetPeersRequest _ \<Rightarrow> True | _ \<Rightarrow> False)
      \<and> reserialized w (ascii ''e1'') (MK_Error \<lparr>code = 201, description = ascii ''A Generic Error Occurred''\<rparr>)
          (\<lambda>k. case k of MK_Error _ \<Rightarrow> True | _ \<Rightarrow> False)
      \<and> reserialized w (ascii ''r1'') (MK_Response ((default_response ops)\<lparr>resp_id := i\<rparr>))
          (\<lambda>k. case k of MK_Response _ \<Rightarrow> True | _ \<Rightarrow> False)
      \<and> announce_reserialized w i target)"

section \<open>BEP 44 messages\<close>

definition test_serialize_bep44_get_request :: "'id id20_ops \<Rightarrow> 'id wire \<Rightarrow> bool" where
  "test_serialize_bep44_get_request ops w =
    (let i = id_new ops (replicate 20 0x11);
         target = id_new ops (replicate 20 0x22);
         buf = serialize_message w (ascii ''g4'') None None
           (MK_Bep44GetRequest \<lparr>bg_id = i, bg_target = target, bg_seq = None\<rparr>)
     in case deserialize_message w buf of
          Inl err \<Rightarrow> False
        | Inr msg \<Rightarrow> (case msg_kind msg of
              MK_Bep44GetRequest req \<Rightarrow> bg_id req = i \<and> bg_target req = target \<and> bg_seq req = None
            | _ \<Rightarrow> False))"

definition test_serialize_bep44_get_request_with_seq :: "'id id20_ops \<Rightarrow> 'id wire \<Rightarrow> bool" where
  "test_serialize_bep44_get_request_with_seq ops w =
    (let i = id_new ops (replicate 20 0x11);
         target = id_new ops (replicate 20 0x22);
         buf = serialize_message w (ascii ''g5'') None None
           (MK_Bep44GetRequest \<lparr>bg_id = i, bg_target = target, bg_seq = Some 42\<rparr>)
     in case deserialize_message w buf of
          Inl err \<Rightarrow> False
        | Inr msg \<Rightarrow> (case msg_kind msg of
              MK_Bep44GetRequest req \<Rightarrow> bg_id req = i \<and> bg_target req = target \<and> bg_seq req = Some 42
            | _ \<Rightarrow> False))"

definition test_serialize_bep44_put_request :: "'id id20_ops \<Rightarrow> 'id wire \<Rightarrow> bool" where
  "test_serialize_bep44_put_request ops w =
    (let i = id_new ops (replicate 20 0x33);
         buf = serialize_message w (ascii ''p4'') None None
           (MK_Bep44PutRequest \<lparr>bp_id = i, bp_token = ascii ''tok123'', bp_k = replicate 32 0xAA,
             bp_sig = replicate 64 0xBB, bp_seq = 7, bp_v = ascii ''5:hello'', bp_salt = None, bp_cas = None\<rparr>)
     in case deserialize_message w buf of
          Inl err \<Rightarrow> False
        | Inr msg \<Rightarrow> (case msg_kind msg of
              MK_Bep44PutRequest req \<Rightarrow> bp_id req = i \<and> bp_token req = ascii ''tok123'' \<and> length (bp_k req) = 32
                \<and> length (bp_sig req) = 64 \<and> bp_seq req = 7 \<and> bp_v req = ascii ''5:hello''
                \<and> bp_salt req = None \<and> bp_cas req = None
            | _ \<Rightarrow> False))"

definition test_serialize_bep44_put_request_with_salt_and_cas :: "'id id20_ops \<Rightarrow> 'id wire \<Rightarrow> bool" where
  "test_serialize_bep44_put_request_with_salt_and_cas ops w =
    (let i = id_new ops (replicate 20 0x44);
         buf = serialize_message w (ascii ''p5'') None None
           (MK_Bep44PutRequest \<lparr>bp_id = i, bp_token = ascii ''token'', bp_k = replicate 32 0xCC,
             bp_sig = replicate 64 0xDD, bp_seq = 10, bp_v = ascii ''i42e'', bp_salt = Some (ascii ''my-salt''),
             bp_cas = Some 9\<rparr>)
     in case deserialize_message w buf of
          Inl err \<Rightarrow> False
        | Inr msg \<Rightarrow> (case msg_kind msg of
              MK_Bep44PutRequest req \<Rightarrow> bp_id req = i \<and> bp_seq req = 10 \<and> bp_salt req = Some (ascii ''my-salt'')
                \<and> bp_cas req = Some 9
            | _ \<Rightarrow> False))"

definition test_bep44_get_roundtrip :: "'id id20_ops \<Rightarrow> 'id wire \<Rightarrow> bool" where
  "test_bep44_get_roundtrip ops w =
    (let i = id_new ops (replicate 20 0x55);
         target = id_new ops (replicate 20 0x66)
     in reserialized w (ascii ''rt'') (MK_Bep44GetRequest \<lparr>bg_id = i, bg_target = target, bg_seq = Some 100\<rparr>) (\<lambda>_. True))"

definition test_bep44_put_roundtrip :: "'id id20_ops \<Rightarrow> 'id wire \<Rightarrow> bool" where
  "test_bep44_put_roundtrip ops w =
    (let i = id_new ops (replicate 20 0x77)
     in reserialized w (ascii ''rp'') (MK_Bep44PutRequest \<lparr>bp_id = i, bp_token = ascii ''write-token'',
          bp_k = replicate 32 0xEE, bp_sig = replicate 64 0xFF, bp_seq = 99, bp_v = ascii ''12:Hello World!'',
          bp_salt = Some (ascii ''salty''), bp_cas = Some 98\<rparr>) (\<lambda>_. True))"

definition test_response_with_bep44_fields :: "'id id20_ops \<Rightarrow> 'id wire \<Rightarrow> bool" where
  "test_response_with_bep44_fields ops w =
    (let i = id_new ops (replicate 20 0x88);
         buf = serialize_message w (ascii ''br'') None None
           (MK_Response ((default_response ops)\<lparr>resp_id := i, resp_token := Some (ascii ''tok''),
             resp_v := Some (ascii ''5:hello''), resp_k := Some (replicate 32 0xAA),
             resp_sig := Some (replicate 64 0xBB), resp_seq := Some 42\<rparr>))
     in case deserialize_message w buf of
          Inl err \<Rightarrow> False
        | Inr msg \<Rightarrow> (case msg_kind msg of
              MK_Response resp \<Rightarrow> resp_id resp = i \<and> resp_v resp = Some (ascii ''5:hello'')
                \<and> map_option length (resp_k resp) = Some 32 \<and> map_option length (resp_sig resp) = Some 64
                \<and> resp_seq resp = Some 42
            | _ \<Rightarrow> False))"

section \<open>Messages that are written out\<close>

definition test_deserialize_malformed_message :: "'id wire \<Rightarrow> bool" where
  "test_deserialize_malformed_message w \<longleftrightarrow>
     (\<forall>text \<in> {''not valid bencode'', ''d1:yi1ee'', ''''}. \<exists>err. deserialize_message w (ascii text) = Inl err)"

definition test_deserialize_unsupported_method :: "'id wire \<Rightarrow> bool" where
  "test_deserialize_unsupported_method w \<longleftrightarrow> (\<exists>err. deserialize_message w
     (ascii ''d1:ad2:id20:aaaaaaaaaaaaaaaaaaaae1:q7:unknown1:t2:xx1:y1:qe'') = Inl err)"

definition test_announce :: "'id wire \<Rightarrow> bool" where
  "test_announce w =
    (let ann = ascii (''d1:ad2:id20:abcdefghij012345678912:implied_porti1e9:info_hash20:mnopqrstuvwxyz123456''
           @ ''4:porti6881e5:token8:aoeusnthe1:q13:announce_peer1:t2:aa1:y1:qe'')
     in case deserialize_message w ann of
          Inl err \<Rightarrow> False
        | Inr msg \<Rightarrow> (case msg_kind msg of MK_AnnouncePeer _ \<Rightarrow> True | _ \<Rightarrow> False)
            \<and> serialize_message w (transaction_id msg) (version msg) (msg_ip msg) (msg_kind msg) = ann)"

definition serde_want_deserialize :: "'id wire \<Rightarrow> bool" where
  "serde_want_deserialize w =
    (let from_bytes = \<lambda>text. Option.bind (w_bdecode w (ascii text)) want_of
     in from_bytes ''l2:n4e'' = Some Want_V4 \<and> from_bytes ''l2:n6e'' = Some Want_V6
      \<and> from_bytes ''l2:n42:n6e'' = Some Want_Both \<and> from_bytes ''l2:aa2:bbe'' = Some Want_None)"

definition serde_want_serialize :: "'id wire \<Rightarrow> bool" where
  "serde_want_serialize w \<longleftrightarrow> w_bencode w (want_value Want_V6) = ascii ''l2:n6e''
     \<and> w_bencode w (want_value Want_V4) = ascii ''l2:n4e''
     \<and> w_bencode w (want_value Want_Both) = ascii ''l2:n42:n6e''
     \<and> w_bencode w (want_value Want_None) = ascii ''le''"

section \<open>The tests pass\<close>

lemmas serializing_tests = test_serialize_find_node_request_def test_serialize_get_peers_request_def
  test_serialize_announce_peer_request_def test_deserialize_error_response_def test_serialize_ping_request_def
  test_message_with_version_field_def test_error_description_various_codes_def reserialized_def announce_reserialized_def
  serialize_then_deserialize_then_serialize_error_def test_roundtrip_all_message_types_def
  test_serialize_bep44_get_request_def test_serialize_bep44_get_request_with_seq_def
  test_serialize_bep44_put_request_def test_serialize_bep44_put_request_with_salt_and_cas_def
  test_bep44_get_roundtrip_def test_bep44_put_roundtrip_def test_response_with_bep44_fields_def

lemma reads_back:
  "wire_ok w \<Longrightarrow> kind_ok kind \<Longrightarrow> deserialize_message w (serialize_message w tid ver None kind)
    = Inr \<lparr>msg_kind = kind, transaction_id = tid, version = ver, msg_ip = None\<rparr>"
  by (rule message_reads_back) simp_all

lemma serializing_tests_pass:
  assumes "wire_ok w"
  shows "test_serialize_find_node_request ops w \<and> test_serialize_get_peers_request ops w
    \<and> test_serialize_announce_peer_request ops w \<and> test_deserialize_error_response w
    \<and> test_serialize_ping_request ops w \<and> test_message_with_version_field ops w
    \<and> test_error_description_various_codes w \<and> serialize_then_deserialize_then_serialize_error w
    \<and> test_roundtrip_all_message_types ops w \<and> test_serialize_bep44_get_request ops w
    \<and> test_serialize_bep44_get_request_with_seq ops w \<and> test_serialize_bep44_put_request ops w
    \<and> test_serialize_bep44_put_request_with_salt_and_cas ops w \<and> test_bep44_get_roundtrip ops w
    \<and> test_bep44_put_roundtrip ops w \<and> test_response_with_bep44_fields ops w"
  by (simp add: serializing_tests Let_def reads_back [OF assms] fits_i64_def default_response_def)

lemma compact_bencode [simp]: "w_bencode compact_wire = benc" "w_bdecode compact_wire = bdecode"
  by (simp_all add: compact_wire_def)

lemmas parse_eval = ascii_def bdecode_def read_bytes_def read_nat_def raw_message_of_def required_def optional_def
  get_field_def message_type_of_def ignored_any_def

lemma want_tests: "serde_want_serialize compact_wire \<and> serde_want_deserialize compact_wire"
  by (simp add: serde_want_serialize_def serde_want_deserialize_def parse_eval show_nat.simps want_of_def)

lemma refusing_tests: "test_deserialize_malformed_message compact_wire \<and> test_deserialize_unsupported_method compact_wire"
  by (simp add: test_deserialize_malformed_message_def test_deserialize_unsupported_method_def deserialize_message_def parse_eval)

lemma announce_test: "test_announce compact_wire"
proof -
  let ?ann = "MK_AnnouncePeer \<lparr>ap_id = id_new id20_word (ascii ''abcdefghij0123456789''), implied_port = 1,
    ap_info_hash = id_new id20_word (ascii ''mnopqrstuvwxyz123456''), ap_port = 6881, ap_token = ascii ''aoeusnth''\<rparr>"
  have ids: "w_id compact_wire (word_of_bytes (ascii t)) = ascii t" if "length t = 20" for t
    using that bytes_of_word_of_bytes [of "ascii t"] by (simp add: compact_wire_def ascii_def)
  have "serialize_message compact_wire (ascii ''aa'') None None ?ann
    = ascii (''d1:ad2:id20:abcdefghij012345678912:implied_porti1e9:info_hash20:mnopqrstuvwxyz123456''
        @ ''4:porti6881e5:token8:aoeusnthe1:q13:announce_peer1:t2:aa1:y1:qe'')"
    by (simp add: serialize_message_def request_value_def raw_message_value_def struct_value_def struct_fields_def
      announce_value_def id_value_def ids word_value_def) (simp add: ascii_def show_nat.simps show_int_def)
  with reads_back [OF compact_wire_ok, of ?ann "ascii ''aa''" None] show ?thesis
    unfolding test_announce_def Let_def by simp
qed

end
