(* ===== verification/Captured_Packets.thy ===== *)
theory Captured_Packets
  imports Wire_Tests
begin

text \<open>
  The packets in \<^verbatim>\<open>resources/test_requests\<close>, which were captured from other nodes, and the tests of
  \<^verbatim>\<open>src/bprotocol.rs\<close> that read them: each is deserialized and serialized to the same bytes.
\<close>

section \<open>The packets\<close>

definition FIND_NODE_REQUEST :: bytes where
  "FIND_NODE_REQUEST = ascii ''d1:ad2:id20:''
   @ [189, 123, 71, 124, 251, 205, 16, 243, 11, 112, 93, 162, 2, 1, 231, 16, 29, 141, 241, 85]
   @ ascii ''6:target20:''
   @ [189, 123, 71, 124, 251, 205, 16, 243, 11, 112, 93, 162, 2, 1, 231, 16, 29, 141, 241, 85]
   @ ascii ''e1:q9:find_node1:t2:''
   @ [0, 5]
   @ ascii ''1:y1:qe''"

definition GET_PEERS_REQUEST_0 :: bytes where
  "GET_PEERS_REQUEST_0 = ascii ''d1:ad2:id20:''
   @ [189, 123, 71, 124, 251, 205, 16, 243, 11, 112, 93, 162, 2, 1, 231, 16, 29, 141, 241, 85]
   @ ascii ''9:info_hash20:''
   @ [202, 181, 7, 73, 77, 2, 235, 177, 23, 139, 56, 242, 233, 215, 190, 41, 156, 134, 184, 98]
   @ ascii ''e1:q9:get_peers1:t2:''
   @ [0, 6]
   @ ascii ''1:y1:qe''"

definition GET_PEERS_REQUEST_1 :: bytes where
  "GET_PEERS_REQUEST_1 = ascii ''d1:ad2:id20:''
   @ [189, 123, 71, 124, 251, 205, 16, 243, 11, 112, 93, 162, 2, 1, 231, 16, 29, 141, 241, 85]
   @ ascii ''9:info_hash20:''
   @ [202, 181, 7, 73, 77, 2, 235, 177, 23, 139, 56, 242, 233, 215, 190, 41, 156, 134, 184, 98]
   @ ascii ''e1:q9:get_peers1:t2:''
   @ [0, 7]
   @ ascii ''1:y1:qe''"

definition FIND_NODE_RESPONSE_1 :: bytes where
  "FIND_NODE_RESPONSE_1 = ascii ''d1:rd2:id20:''
   @ [60, 0, 114, 115, 72, 179, 184, 237, 112, 186, 161, 225, 65, 27, 56, 105, 216, 72, 19, 33]
   @ ascii ''5:nodes208:''
   @ concat [
     [103, 163, 18, 222, 251, 125, 66, 144, 134, 191, 220, 213, 162, 9, 104, 78, 225, 63, 89, 97, 92, 190, 54, 11, 200, 213],
     [103, 163, 18, 222, 251, 125, 66, 144, 134, 191, 220, 213, 162, 9, 104, 78, 225, 63, 89, 97, 92, 190, 54, 11, 200, 213],
     [103, 163, 18, 222, 251, 125, 66, 144, 134, 191, 220, 213, 162, 9, 104, 78, 225, 63, 89, 97, 92, 190, 54, 11, 200, 213],
     [103, 163, 18, 222, 251, 125, 66, 144, 134, 191, 220, 213, 162, 9, 104, 78, 225, 63, 89, 97, 92, 190, 54, 11, 200, 213],
     [103, 163, 18, 222, 251, 125, 66, 144, 134, 191, 220, 213, 162, 9, 104, 78, 225, 63, 89, 97, 92, 190, 54, 11, 200, 213],
     [103, 163, 18, 222, 251, 125, 66, 144, 134, 191, 220, 213, 162, 9, 104, 78, 225, 63, 89, 97, 92, 190, 54, 11, 200, 213],
     [103, 163, 18, 222, 251, 125, 66, 144, 134, 191, 220, 213, 162, 9, 104, 78, 225, 63, 89, 97, 92, 190, 54, 11, 200, 213],
     [103, 163, 18, 222, 251, 125, 66, 144, 134, 191, 220, 213, 162, 9, 104, 78, 225, 63, 89, 97, 92, 190, 54, 11, 200, 213]]
   @ ascii ''e1:t2:''
   @ [0, 5]
   @ ascii ''1:v4:''
   @ [74, 66, 0, 0]
   @ ascii ''1:y1:re''"

definition FIND_NODE_RESPONSE_2 :: bytes where
  "FIND_NODE_RESPONSE_2 = ascii ''d2:ip6:''
   @ [8, 26, 180, 64, 233, 53]
   @ ascii ''1:rd2:id20:''
   @ [50, 245, 78, 105, 115, 81, 255, 74, 236, 41, 205, 186, 171, 242, 251, 227, 70, 124, 194, 103]
   @ ascii ''5:nodes416:''
   @ concat [
     [84, 19, 63, 127, 109, 119, 86, 127, 242, 16, 254, 136, 212, 152, 57, 16, 125, 26, 149, 89, 86, 170, 166, 37, 233, 238],
     [67, 142, 74, 10, 246, 179, 36, 217, 103, 40, 134, 5, 44, 133, 107, 38, 178, 88, 53, 166, 137, 175, 187, 223, 84, 54],
     [182, 67, 235, 32, 96, 94, 29, 24, 248, 72, 179, 44, 210, 117, 161, 23, 175, 181, 45, 58, 71, 77, 24, 84, 26, 225],
     [141, 210, 13, 63, 189, 147, 105, 131, 175, 78, 168, 113, 53, 215, 133, 208, 102, 29, 226, 244, 196, 191, 121, 37, 197, 146],
     [105, 16, 92, 5, 202, 166, 134, 88, 133, 28, 1, 141, 136, 144, 247, 54, 4, 227, 52, 175, 223, 184, 229, 86, 253, 124],
     [168, 243, 224, 33, 27, 210, 175, 145, 196, 175, 78, 238, 105, 65, 90, 39, 60, 11, 209, 194, 176, 46, 139, 155, 168, 39],
     [19, 155, 108, 110, 188, 109, 203, 110, 229, 58, 172, 60, 81, 71, 83, 10, 67, 46, 27, 98, 201, 17, 110, 19, 22, 233],
     [54, 77, 127, 210, 241, 15, 36, 153, 244, 126, 134, 45, 132, 121, 55, 227, 154, 81, 174, 215, 75, 182, 232, 241, 196, 145],
     [213, 32, 134, 143, 24, 147, 170, 160, 7, 209, 175, 25, 181, 50, 143, 27, 72, 64, 117, 158, 87, 67, 170, 89, 166, 191],
     [9, 12, 118, 184, 70, 20, 92, 104, 149, 48, 59, 122, 73, 190, 56, 127, 214, 9, 169, 33, 46, 182, 84, 27, 26, 225],
     [253, 45, 220, 247, 118, 180, 104, 141, 211, 89, 200, 21, 113, 32, 128, 154, 200, 182, 101, 30, 94, 110, 141, 88, 180, 168],
     [15, 161, 36, 225, 244, 237, 83, 109, 97, 228, 238, 37, 213, 167, 2, 252, 138, 183, 12, 223, 69, 133, 39, 8, 201, 153],
     [33, 92, 196, 6, 196, 202, 168, 98, 188, 208, 166, 184, 142, 88, 18, 141, 43, 40, 10, 199, 70, 49, 179, 89, 26, 225],
     [250, 68, 132, 165, 86, 12, 49, 222, 79, 192, 70, 185, 123, 76, 106, 195, 29, 195, 36, 171, 46, 242, 9, 82, 4, 155],
     [252, 236, 219, 200, 207, 121, 228, 207, 211, 120, 168, 151, 121, 198, 5, 85, 155, 121, 184, 174, 37, 186, 50, 98, 73, 229],
     [98, 159, 123, 156, 192, 173, 51, 20, 56, 50, 225, 188, 166, 61, 166, 60, 219, 138, 148, 1, 23, 240, 173, 194, 196, 25]]
   @ ascii ''e1:t2:''
   @ [0, 2]
   @ ascii ''1:y1:re''"

definition FIND_NODE_RESPONSE_3 :: bytes where
  "FIND_NODE_RESPONSE_3 = ascii ''d2:ip6:''
   @ [8, 26, 180, 64, 233, 53]
   @ ascii ''1:rd2:id20:''
   @ [50, 245, 78, 105, 115, 81, 255, 74, 236, 41, 205, 186, 171, 242, 251, 227, 70, 124, 194, 103]
   @ ascii ''5:nodes416:''
   @ concat [
     [38, 212, 48, 42, 50, 174, 207, 40, 243, 254, 233, 246, 202, 248, 134, 125, 118, 46, 40, 185, 99, 181, 165, 49, 196, 145],
     [115, 115, 179, 63, 180, 60, 157, 124, 13, 61, 175, 69, 238, 34, 171, 148, 125, 69, 17, 192, 84, 54, 77, 74, 144, 68],
     [100, 135, 143, 196, 163, 30, 136, 180, 29, 126, 169, 83, 247, 220, 145, 216, 1, 125, 175, 238, 93, 15, 138, 77, 47, 161],
     [159, 211, 236, 28, 55, 198, 128, 124, 173, 10, 86, 1, 105, 137, 9, 231, 164, 135, 83, 47, 185, 64, 137, 40, 175, 170],
     [124, 165, 227, 118, 190, 232, 124, 76, 170, 250, 136, 242, 249, 169, 204, 46, 217, 146, 205, 72, 190, 104, 119, 27, 72, 187],
     [110, 252, 34, 85, 97, 192, 13, 195, 244, 13, 4, 171, 8, 217, 60, 33, 161, 184, 144, 151, 189, 6, 250, 77, 29, 18],
     [45, 111, 29, 134, 224, 65, 165, 82, 90, 105, 178, 109, 38, 93, 3, 156, 213, 44, 139, 235, 201, 35, 191, 27, 195, 233],
     [247, 28, 126, 208, 94, 52, 157, 84, 70, 92, 202, 34, 35, 49, 71, 242, 29, 76, 28, 197, 49, 228, 97, 37, 66, 73],
     [234, 101, 57, 9, 171, 227, 103, 188, 37, 239, 171, 112, 187, 226, 140, 211, 140, 186, 252, 46, 109, 177, 29, 245, 214, 107],
     [194, 11, 200, 164, 201, 73, 13, 132, 191, 41, 240, 156, 235, 68, 194, 48, 221, 44, 237, 139, 92, 236, 71, 199, 26, 225],
     [255, 102, 233, 237, 35, 14, 22, 88, 115, 176, 190, 243, 33, 99, 173, 82, 198, 110, 220, 226, 138, 124, 156, 138, 232, 100],
     [122, 242, 123, 161, 234, 199, 55, 55, 172, 22, 126, 33, 237, 145, 22, 177, 239, 129, 4, 167, 194, 143, 137, 96, 107, 230],
     [243, 109, 117, 132, 183, 145, 18, 135, 147, 232, 248, 160, 230, 180, 136, 151, 166, 70, 53, 50, 84, 126, 64, 14, 243, 167],
     [6, 114, 55, 212, 215, 123, 244, 15, 28, 9, 119, 62, 168, 93, 210, 105, 173, 243, 94, 238, 188, 168, 155, 105, 147, 205],
     [177, 22, 192, 81, 42, 188, 44, 188, 116, 151, 61, 94, 95, 9, 148, 13, 11, 189, 244, 224, 71, 206, 21, 16, 26, 225],
     [61, 121, 75, 18, 48, 24, 132, 4, 169, 253, 42, 90, 16, 204, 239, 176, 98, 32, 87, 188, 109, 126, 234, 229, 251, 133]]
   @ ascii ''e1:t2:''
   @ [0, 3]
   @ ascii ''1:y1:re''"

section \<open>The tests\<close>

definition debug_bencode :: "'id wire \<Rightarrow> bytes \<Rightarrow> bool" where
  "debug_bencode w data \<longleftrightarrow> w_bdecode w data \<noteq> None"

definition test_deserialize_then_serialize :: "'id wire \<Rightarrow> bytes \<Rightarrow> bool" where
  "test_deserialize_then_serialize w data \<longleftrightarrow> w_bdecode w data \<noteq> None
     \<and> (case deserialize_message w data of
          Inl err \<Rightarrow> False
        | Inr msg \<Rightarrow> serialize_message w (transaction_id msg) (version msg) (msg_ip msg) (msg_kind msg) = data)"

definition test_captured_packets :: "'id wire \<Rightarrow> bool" where
  "test_captured_packets w \<longleftrightarrow> test_deserialize_then_serialize w FIND_NODE_REQUEST
     \<and> test_deserialize_then_serialize w GET_PEERS_REQUEST_0
     \<and> test_deserialize_then_serialize w FIND_NODE_RESPONSE_1
     \<and> test_deserialize_then_serialize w FIND_NODE_RESPONSE_2
     \<and> test_deserialize_then_serialize w FIND_NODE_RESPONSE_3
     \<and> test_deserialize_then_serialize w GET_PEERS_REQUEST_1"

definition deserialize_bencode_packets_captured_from_wireshark :: "'id wire \<Rightarrow> bool" where
  "deserialize_bencode_packets_captured_from_wireshark w \<longleftrightarrow> debug_bencode w FIND_NODE_REQUEST
     \<and> debug_bencode w GET_PEERS_REQUEST_0 \<and> debug_bencode w FIND_NODE_RESPONSE_1
     \<and> debug_bencode w FIND_NODE_RESPONSE_2 \<and> debug_bencode w FIND_NODE_RESPONSE_3
     \<and> debug_bencode w GET_PEERS_REQUEST_1"

section \<open>Packets are what their messages are serialized to\<close>

lemma no_high_bit: "\<not> bit (b :: u8) (n + 8)" "\<not> bit b (n + 16)" "\<not> bit b (n + 24)"
  by (auto dest: bit_imp_le_length)

lemma octets4: "be_bytes 4 (be_word [a, b, c, d] :: u32) = [a, b, c, d]"
  by (simp add: be_bytes_def be_word_def upt_rec)
    (auto intro!: bit_word_eqI simp: bit_simps no_high_bit add.commute [of 8] add.commute [of 16] add.commute [of 24])

lemma octets2: "be_bytes 2 (be_word [a, b] :: u16) = [a, b]"
  by (simp add: be_bytes_def be_word_def upt_rec)
    (auto intro!: bit_word_eqI simp: bit_simps no_high_bit add.commute [of 8])

lemma compact_address: "addr_as_slice compact_v4 (addr_from_slice_unchecked_len compact_v4 [a, b, c, d, e, f]) = [a, b, c, d, e, f]"
  by (simp add: compact_v4_def octets4 octets2)

lemma compact_address_bytes:
  assumes "length xs = 6"
  shows "addr_as_slice compact_v4 (addr_from_slice_unchecked_len compact_v4 xs) = xs"
proof -
  from assms obtain a b c d e f where "xs = [a, b, c, d, e, f]"
    by (auto simp: numeral_eq_Suc length_Suc_conv)
  then show ?thesis by (simp only: compact_address)
qed

lemma compact_node_bytes:
  assumes "length bs = 26"
  shows "node_as_slice id20_word compact_v4 (node_from_slice_unchecked_len id20_word compact_v4 bs) = bs"
proof -
  have "addr_as_slice compact_v4 (addr_from_slice_unchecked_len compact_v4 (drop 20 bs)) = drop 20 bs"
    using assms by (intro compact_address_bytes) simp
  moreover have "id_bytes id20_word (id_new id20_word (take 20 bs)) = take 20 bs"
    using assms by (intro w20.bytes_new) simp
  ultimately show ?thesis by (simp add: node_as_slice_def node_from_slice_unchecked_len_def del: id20_word_simps)
qed

lemma compact_list_bytes:
  "\<forall>c \<in> set cs. length c = 26 \<Longrightarrow>
    w_nodes4 compact_wire (map (node_from_slice_unchecked_len id20_word compact_v4) cs) = concat cs"
  by (induction cs) (simp_all add: compact_wire_def compact_node_bytes)

lemma compact_id_bytes: "length bs = 20 \<Longrightarrow> w_id compact_wire (word_of_bytes bs) = bs"
  by (simp add: compact_wire_def bytes_of_word_of_bytes)

lemma deserialized_is_bencoding: "deserialize_message w bs = Inr msg \<Longrightarrow> w_bdecode w bs \<noteq> None"
  by (rule notI) (simp add: deserialize_message_def)

lemma packet_test:
  assumes "serialize_message compact_wire tid ver ip kind = data" and "kind_ok kind" and "\<And>a. ip = Some a \<Longrightarrow> plain a"
  shows "test_deserialize_then_serialize compact_wire data"
  using message_reads_back [OF compact_wire_ok assms(2), of ip tid ver] assms
  by (auto simp: test_deserialize_then_serialize_def dest: deserialized_is_bencoding)

lemmas packet_defs = serialize_message_def request_value_def raw_message_value_def struct_value_def struct_fields_def
  find_node_value_def get_peers_value_def response_value_def default_response_def id_value_def addr_value_def

lemma find_node_packet:
  assumes "length i = 20" and "length t = 20" and "length tid = 2"
  shows "serialize_message compact_wire tid None None (MK_FindNodeRequest \<lparr>fn_id = word_of_bytes i, fn_target = word_of_bytes t, fn_want = None\<rparr>)
    = ascii ''d1:ad2:id20:'' @ i @ ascii ''6:target20:'' @ t @ ascii ''e1:q9:find_node1:t2:'' @ tid @ ascii ''1:y1:qe''"
  using assms by (simp add: packet_defs compact_id_bytes) (simp add: ascii_def show_nat.simps)

lemma get_peers_packet:
  assumes "length i = 20" and "length h = 20" and "length tid = 2"
  shows "serialize_message compact_wire tid None None (MK_GetPeersRequest \<lparr>gp_id = word_of_bytes i, gp_info_hash = word_of_bytes h, gp_want = None\<rparr>)
    = ascii ''d1:ad2:id20:'' @ i @ ascii ''9:info_hash20:'' @ h @ ascii ''e1:q9:get_peers1:t2:'' @ tid @ ascii ''1:y1:qe''"
  using assms by (simp add: packet_defs compact_id_bytes) (simp add: ascii_def show_nat.simps)

lemma response_packet:
  assumes "length i = 20" and "\<forall>c \<in> set cs. length c = 26" and "length tid = 2" and "show_nat (length (concat cs)) = n"
  shows "serialize_message compact_wire tid ver ip (MK_Response ((default_response id20_word)\<lparr>resp_id := word_of_bytes i,
      resp_nodes := Some (map (node_from_slice_unchecked_len id20_word compact_v4) cs)\<rparr>))
    = ascii ''d'' @ (case ip of Some a \<Rightarrow> ascii ''2:ip'' @ benc (addr_value compact_wire a) | None \<Rightarrow> [])
      @ ascii ''1:rd2:id20:'' @ i @ ascii ''5:nodes'' @ n @ ascii '':'' @ concat cs @ ascii ''e1:t2:'' @ tid
      @ (case ver of Some v \<Rightarrow> ascii ''1:v'' @ benc (BBytes v) | None \<Rightarrow> []) @ ascii ''1:y1:re''"
  using assms(1,3) unfolding assms(4) [symmetric]
  by (cases ip; cases ver) (simp_all add: packet_defs compact_id_bytes compact_list_bytes [OF assms(2)],
    simp_all add: ascii_def show_nat.simps [of 1] show_nat.simps [of 2] show_nat.simps [of "Suc 0"] show_nat.simps [of 20] show_nat.simps [of "Suc (Suc 0)"]
      show_nat.simps [of "Suc (Suc (Suc (Suc (Suc 0))))"])


section \<open>The captured packets\<close>

lemma find_node_request_captured: "test_deserialize_then_serialize compact_wire FIND_NODE_REQUEST"
  unfolding FIND_NODE_REQUEST_def
  by (rule packet_test [OF find_node_packet]) simp_all

lemma get_peers_requests_captured:
  "test_deserialize_then_serialize compact_wire GET_PEERS_REQUEST_0"
  "test_deserialize_then_serialize compact_wire GET_PEERS_REQUEST_1"
  unfolding GET_PEERS_REQUEST_0_def GET_PEERS_REQUEST_1_def
  by (rule packet_test [OF get_peers_packet]; simp)+

text \<open>
  A response with compact nodes is deserialized and serialized to the same bytes, whether it has a
  version and no address of the asking node (the first captured response) or the other way round.
\<close>

lemma response_ok: "kind_ok (MK_Response ((default_response id20_word)\<lparr>resp_id := i, resp_nodes := n\<rparr>))"
  by (simp add: default_response_def fits_i64_def)

lemma concat_length: "\<forall>c \<in> set cs. length c = n \<Longrightarrow> length (concat cs) = n * length cs"
  by (induction cs) simp_all

lemma response_with_version:
  assumes "length i = 20" and "\<forall>c \<in> set cs. length c = 26" and "length cs = 8" and "length tid = 2" and "length v = 4"
  shows "test_deserialize_then_serialize compact_wire (ascii ''d1:rd2:id20:'' @ i @ ascii ''5:nodes208:'' @ concat cs
      @ ascii ''e1:t2:'' @ tid @ ascii ''1:v4:'' @ v @ ascii ''1:y1:re'')"
proof -
  have n: "show_nat (length (concat cs)) = ascii ''208''"
    using assms(3) concat_length [OF assms(2)] by (simp add: ascii_def show_nat.simps)
  show ?thesis
    by (rule packet_test [OF _ response_ok, of tid "Some v" None],
        subst response_packet [OF assms(1,2,4) n, of "Some v" None])
      (simp_all add: assms(5) ascii_def show_nat.simps)
qed

lemma response_with_ip:
  assumes "length i = 20" and "\<forall>c \<in> set cs. length c = 26" and "length cs = 16" and "length tid = 2" and "length ip = 6"
  shows "test_deserialize_then_serialize compact_wire (ascii ''d2:ip6:'' @ ip @ ascii ''1:rd2:id20:'' @ i
      @ ascii ''5:nodes416:'' @ concat cs @ ascii ''e1:t2:'' @ tid @ ascii ''1:y1:re'')"
proof -
  let ?a = "V4 (addr_from_slice_unchecked_len compact_v4 ip)"
  have n: "show_nat (length (concat cs)) = ascii ''416''"
    using assms(3) concat_length [OF assms(2)] by (simp add: ascii_def show_nat.simps)
  have a: "addr_value compact_wire ?a = BBytes ip"
    by (simp add: addr_value_def compact_wire_def compact_address_bytes [OF assms(5)])
  show ?thesis
    by (rule packet_test [OF _ response_ok, of tid None "Some ?a"],
        subst response_packet [OF assms(1,2,4) n, of None "Some ?a"])
      (simp_all add: a assms(5) plain_def ascii_def show_nat.simps)
qed

lemma captured_packets_pass: "test_captured_packets compact_wire"
proof -
  have "test_deserialize_then_serialize compact_wire FIND_NODE_RESPONSE_1"
    unfolding FIND_NODE_RESPONSE_1_def by (rule response_with_version) simp_all
  moreover have "test_deserialize_then_serialize compact_wire FIND_NODE_RESPONSE_2"
    unfolding FIND_NODE_RESPONSE_2_def by (rule response_with_ip) simp_all
  moreover have "test_deserialize_then_serialize compact_wire FIND_NODE_RESPONSE_3"
    unfolding FIND_NODE_RESPONSE_3_def by (rule response_with_ip) simp_all
  ultimately show ?thesis
    unfolding test_captured_packets_def
    using find_node_request_captured get_peers_requests_captured by blast
qed

lemma captured_packets_are_bencoded: "deserialize_bencode_packets_captured_from_wireshark compact_wire"
  using captured_packets_pass
  by (simp add: test_captured_packets_def deserialize_bencode_packets_captured_from_wireshark_def
    test_deserialize_then_serialize_def debug_bencode_def)

text \<open>
  With any lossless libraries the messages of the repository's tests survive serialization and
  deserialization, in content, method name and error; and with the bencoding and the compact formats of
  BEP 3 and BEP 5 every packet that was captured from another node is serialized to the same bytes after
  it was deserialized, the literal announcement is the one expected, and malformed messages and unknown
  methods are refused.
\<close>

theorem message_tests_pass:
  assumes "wire_ok w"
  shows "(test_serialize_find_node_request ops w \<and> test_serialize_get_peers_request ops w
      \<and> test_serialize_announce_peer_request ops w \<and> test_deserialize_error_response w
      \<and> test_serialize_ping_request ops w \<and> test_message_with_version_field ops w
      \<and> test_error_description_various_codes w \<and> serialize_then_deserialize_then_serialize_error w
      \<and> test_roundtrip_all_message_types ops w \<and> test_serialize_bep44_get_request ops w
      \<and> test_serialize_bep44_get_request_with_seq ops w \<and> test_serialize_bep44_put_request ops w
      \<and> test_serialize_bep44_put_request_with_salt_and_cas ops w \<and> test_bep44_get_roundtrip ops w
      \<and> test_bep44_put_roundtrip ops w \<and> test_response_with_bep44_fields ops w)
    \<and> test_captured_packets compact_wire \<and> deserialize_bencode_packets_captured_from_wireshark compact_wire
    \<and> test_announce compact_wire
    \<and> (serde_want_serialize compact_wire \<and> serde_want_deserialize compact_wire)
    \<and> (test_deserialize_malformed_message compact_wire \<and> test_deserialize_unsupported_method compact_wire)"
  by (intro conjI [OF serializing_tests_pass [OF assms, of ops]] conjI [OF captured_packets_pass]
    conjI [OF captured_packets_are_bencoded] conjI [OF announce_test] conjI [OF want_tests] refusing_tests)

theorem message_tests_pass_witness:
  "test_roundtrip_all_message_types id20_word compact_wire \<and> test_captured_packets compact_wire"
  using message_tests_pass [OF compact_wire_ok, of id20_word] by blast

end
