(* ===== verification/Spec2Isabelle.thy ===== *)
theory Spec2Isabelle
  imports Prelude Id20 Id20_Word Routing_Node Bucket_Tree Bucket_Shape Bucket_Insert Routing_Table Routing_Props
    Messages Bounded_Store Peer_Store Peer_GC Peer_Props Item_Store Bep44 Dht_State Dht_System Dht_Props
    Recursive_Request Recursive_Props Lookup Wire Bencode Wire_Props Worker Worker_Props
    Dump Dump_Props Persistence Persistence_Props Get_Peers Get_Peers_Props Typed_Messages
    Network Network_Props Worker_Loops Worker_Loops_Props Item_Races Request_Threads
    Dht_Api Example_Program
    Store_Tests Item_Tests Routing_Tests Wire_Tests Captured_Packets
begin

text \<open>
  \<^bold>\<open>A verification of librtbit-dht\<close>, a node of the BitTorrent mainline DHT (BEP 5) with
  parts of BEP 44, written in Rust. This theory imports all others; each opens with a text of its own.

  \<^bold>\<open>The program.\<close> A node keeps two routing tables, one per address family
  (\<^verbatim>\<open>src/routing_table.rs\<close>), a store of the peers that announced themselves
  (\<^verbatim>\<open>src/peer_store.rs\<close>) and the requests it has in flight
  (\<^verbatim>\<open>DhtState\<close> in \<^verbatim>\<open>src/dht.rs\<close>). A worker serializes the queued messages to a
  socket, parses what arrives (\<^verbatim>\<open>src/bprotocol.rs\<close>) and gives it to
  \<^verbatim>\<open>on_received_message\<close>, which answers queries and hands responses to the request they belong
  to. Recursive lookups (\<^verbatim>\<open>RecursiveRequest\<close>) ask ever nearer nodes; the pinger and the bucket
  refresher keep the tables fresh. A store of BEP 44 items (\<^verbatim>\<open>src/mutable_item_store.rs\<close>) and the
  data they are signed over (\<^verbatim>\<open>src/bep44_crypto.rs\<close>) stand beside it.

  \<^bold>\<open>Theories.\<close>
  \<^item> \<open>Prelude\<close>: integers at their width, time, addresses, the constants of
    \<^verbatim>\<open>src/lib.rs\<close>, and the type \<open>abort\<close> of the ways a Rust program stops or never
    returns (index out of bounds, overflow, failed debug assertion, reached unreachable code, divergence).
  \<^item> \<open>Id20\<close>, \<open>Id20_Word\<close>: the identifiers of another crate as a record of operations with the
    locale \<open>id20_api\<close> of their laws, and its instance on 160-bit words.
  \<^item> \<open>Routing_Node\<close>, \<open>Bucket_Tree\<close>, \<open>Routing_Table\<close>: \<^verbatim>\<open>src/routing_table.rs\<close>. The entry of a
    node and its status; the vector of tree nodes with its iterator, \<^verbatim>\<open>get_leaf\<close> and
    \<^verbatim>\<open>insert_into_leaf\<close>; the table. \<open>Bucket_Shape\<close> and \<open>Bucket_Insert\<close> hold the invariant of the
    vector (it represents a tree whose leaves partition the identifiers) and the effect of an insertion;
    \<open>Routing_Props\<close> the properties of all reachable tables.
  \<^item> \<open>Messages\<close>, \<open>Wire\<close>: \<^verbatim>\<open>src/bprotocol.rs\<close>. The message types, then the hand-written and
    derived conversions to bencode values, \<^verbatim>\<open>serialize_message\<close> and the two passes of
    \<^verbatim>\<open>deserialize_message\<close>. \<open>Bencode\<close> is an instance of the bencode library for concrete
    evaluations; \<open>Wire_Props\<close> holds the round trips.
  \<^item> \<open>Bounded_Store\<close>, \<open>Peer_Store\<close>, \<open>Peer_GC\<close>, \<open>Peer_Props\<close>: \<^verbatim>\<open>src/peer_store.rs\<close> with
    its garbage collection. \<open>Item_Store\<close>: \<^verbatim>\<open>src/mutable_item_store.rs\<close>, and
    \<open>Item_Races\<close>: its calls by several threads, step by step. \<open>Bep44\<close>:
    \<^verbatim>\<open>src/bep44_crypto.rs\<close>.
  \<^item> \<open>Dht_State\<close>, \<open>Dht_System\<close>, \<open>Dht_Props\<close>: \<^verbatim>\<open>DhtState\<close> and
    \<^verbatim>\<open>src/error.rs\<close>: creation of requests, the start and end of their wait, the message handler;
    then the node as a system of events in any order with its invariant. \<open>Request_Threads\<close>: the
    starts of requests by several threads, step by step.
  \<^item> \<open>Recursive_Request\<close>, \<open>Recursive_Props\<close>, \<open>Lookup\<close>: the decision whom to ask, the parts of
    \<^verbatim>\<open>request_one\<close>, the two kinds of callbacks, and the loop of
    \<^verbatim>\<open>find_node_for_routing_table\<close> as a step relation.
  \<^item> \<open>Worker\<close>, \<open>Worker_Props\<close>: \<^verbatim>\<open>DhtWorker\<close> and \<^verbatim>\<open>DhtConfig\<close>: pinger, refresher,
    bootstrap, framer, the end of the worker, the defaults. \<open>Typed_Messages\<close>: the types that the events
    of a node keep, of its tables, stores and queued messages. \<open>Worker_Loops\<close>,
    \<open>Worker_Loops_Props\<close>: each poll of the worker's tasks (\<^verbatim>\<open>DhtWorker::start\<close>, and the loops of
    \<^verbatim>\<open>pinger\<close>, \<^verbatim>\<open>bucket_refresher\<close> and \<^verbatim>\<open>framer\<close>) as an event, with the queues between them.
  \<^item> \<open>Network\<close>, \<open>Network_Props\<close>: several nodes and strangers that exchange datagrams over a network
    that loses, repeats and reorders them.
  \<^item> \<open>Get_Peers\<close>, \<open>Get_Peers_Props\<close>: \<^verbatim>\<open>RequestPeersStream\<close> and
    \<^verbatim>\<open>request_peers_forever\<close>: two tasks, their loopers and requests, composed with the node.
    \<open>Dht_Api\<close>: the other calls of a user, the rate limiter, and the life of a search.
    \<open>Example_Program\<close>: \<^verbatim>\<open>src/examples/dht.rs\<close>.
  \<^item> \<open>Dump\<close>, \<open>Dump_Props\<close>: the serde implementations of the tables and of the peer store, and
    \<^verbatim>\<open>src/utils.rs\<close>, as functions to and from JSON values. \<open>Persistence\<close>,
    \<open>Persistence_Props\<close>: \<^verbatim>\<open>src/persistence.rs\<close>: the dump, the node created from it, the loop.
  \<^item> \<open>Store_Tests\<close>, \<open>Item_Tests\<close>, \<open>Routing_Tests\<close>, \<open>Wire_Tests\<close>, \<open>Captured_Packets\<close>: the tests of
    the repository as functions of what they read (clocks, random bytes, the libraries), and that the model
    passes them: they tie the definitions to what the authors observed of the code.

  \<^bold>\<open>Correspondence.\<close> Definitions have the names of the code where they can; fields and functions
  whose names are taken have a prefix (\<open>rt_\<close>, \<open>ps_\<close>, \<open>mu_\<close>, \<open>resp_\<close>). A method that changes its object
  returns the new object. A function that can panic returns \<open>abort + _\<close>; an error that the code
  returns is a value of \<open>dht_error + _\<close>. What the code reads from outside (clocks, random bytes, what a socket
  returned) is an argument. A \<^verbatim>\<open>DashMap\<close> is an association list, whose order is the order of iteration.
  A oneshot channel is a number, a queue is the list of what was sent. Every critical section is one
  event; a request is two, its start and the end of its wait, with any events in between, or its future is
  dropped while it waits (by a dropped stream, or when the worker's \<^verbatim>\<open>select!\<close> returns), which is an event
  that changes nothing and after which nobody ends this wait. The messages and the
  tables are only changed by the worker's one task and under a lock; the store of items is open to threads,
  so there each call of the map is a step. The start of a request is one event in \<open>Dht_System\<close> and three
  steps in \<open>Request_Threads\<close>. The writer of the framer takes a message and learns later what became of it, two
  events in \<open>Worker_Loops\<close>; \<open>Network\<close> takes them together, and an error that comes later is there an event
  of the node. Integers that may wrap or overflow have their width; the counters \<open>rt_size\<close> and
  \<open>errors_in_a_row\<close>, and lengths, are natural numbers where the code has \<^verbatim>\<open>usize\<close>: they start at
  zero and grow by one in a step, so the two differ only after \<open>2^64\<close> steps, or in a table read from a dump
  that was given a size near that bound.

  \<^bold>\<open>Interfaces.\<close> \<open>id20_api\<close> (identifiers; interpreted on words), \<open>node_map\<close> (a table of nodes as a
  map with marks; the routing table is one), \<open>bounded_store\<close> (a store that stays within a bound under any
  operations; peers and items), \<open>recursion_callbacks\<close> (the trait of the callbacks; both implementations),
  \<open>fixed_codec\<close> (compact encodings; nodes of both families) and \<open>serde_api\<close> (the text of a dump is read
  back; an instance over a small text format).

  \<^bold>\<open>What is shown.\<close> The routing table keeps its invariant and its operations do what they
  say (C4 to C6). The stores keep their bounds and contracts (C10, C11, C26, C32, C34, C35); what several
  threads can and cannot do to the store of items (C21, C39). A node never panics, leaks no request,
  answers each query once and gives each answer to its request (C1, C3, C12, C24, C25, C33), also when threads
  interleave the steps of their requests (C22, C23); an announced peer
  is found (C7); what it queues is typed (C28). Its worker survives every interleaving of its tasks, handles
  messages in order, and can end every ping (C16 to C18); one failed receive ends it (C19). Messages survive the
  wire (C8, C36), so a query crosses it and its answer returns (C2), and in a network with strangers what
  nodes know has a source (C13 to C15). Lookups end (C9) and keep their bounds (C29), the stream of peers yields
  what was answered to its own requests and no more (C30, C31). A dump restores the node (C27). C14, C15, C19,
  C20 and C37 to C40 record behaviour that the authors may not have meant, C20 and C37 that of a dump that is
  cut short and of the table of IPv6 nodes at a restart. Theorems without a number are of lesser weight: the
  pinger and the refresher (\<open>Worker_Props\<close>), starting without a dump (\<open>Persistence_Props\<close>), that the step models
  of a store and of a request do without interference what the atomic operations do (\<open>Item_Races\<close>,
  \<open>Request_Threads\<close>), the rate limiter (\<open>Dht_Api\<close>), the example program, the tests, and further defects.

  \<^bold>\<open>Bounds and fuel.\<close> \<open>get_leaf_loop\<close> has one round more than the vector has nodes: a longer
  run repeats an index and never ends, and reachable tables never get there (C6). The iterator is a partial function
  whose \<open>None\<close> is divergence, excluded by C4. \<open>insert_into_leaf\<close> ends because each split takes one
  bit. The parser of \<open>Bencode\<close> has fuel of the length of its input. Identifiers of transactions
  wrap around at 16 bits, hence the bound in C1 and C22. The depth of a dump is below the limit of its reader
  (\<open>JSON_DEPTH\<close>), which is why a dump is always read back.

  \<^bold>\<open>Not modelled.\<close> Sockets, timers, name lookup, the limiter's own crate, the scheduler, the
  cancellation token (a worker that is dropped is an event of the node), logging and \<^verbatim>\<open>Debug\<close>, the
  conversions to owned buffers, and two tests of \<^verbatim>\<open>src/bep44_crypto.rs\<close> that a function gives the same
  result twice. SHA-1, Ed25519, bencode, JSON text and the compact formats are parameters with their documented
  behaviour as hypotheses.

  \<^bold>\<open>Plan.\<close> Next: the lookups of the refresher inside the worker; and what a network of nodes
  without strangers reaches from a given table.
\<close>

end
